(* ===== verification/Prelude.thy ===== *)
theory Prelude
  imports Main "HOL-Library.Word" "HOL-Library.Char_ord"
begin

unbundle bit_operations_syntax

text \<open>
  Shared vocabulary of the development: the machine types of the wasm32 target, the
  result type of code that may abort, the two collections of rewrite rules the
  component proofs use (\<open>res_simps\<close> for the error monad, \<open>nat_word\<close> for reading word
  operations as natural numbers), and generic lemmas on lists, bytes and shifts.
\<close>

section \<open>Machine types\<close>

text \<open>
  The contracts run on wasm32: \<open>size_t\<close>, \<open>uintptr_t\<close> and pointers are 32 bits wide,
  \<open>uint8_t\<close> and \<open>char\<close> are one byte. Words wrap around as the hardware does.
\<close>

type_synonym byte = "8 word"
type_synonym u32 = "32 word"
type_synonym u64 = "64 word"

section \<open>Results of code that may abort\<close>

text \<open>
  A failed assertion calls an imported host function that ends the execution of the
  contract; nothing after it runs. The model returns the reason as the left value of a
  sum. \<open>UB\<close> marks the points where the C++ standard gives the source no meaning
  (a shift by the width of the type or more, a read outside of an array): no theorem may
  rely on what happens after them.
\<close>

datatype err =
    Abort string            \<comment> \<open>\<open>ftl_assert(false, msg)\<close>\<close>
  | AbortMsg string nat     \<comment> \<open>\<open>ftl_assert_message(false, msg, n)\<close>\<close>
  | AbortCode u64           \<comment> \<open>\<open>ftl_assert_code(false, code)\<close>\<close>
  | Exited u32              \<comment> \<open>\<open>ftl_exit(code)\<close>: ends the execution without a failure\<close>
  | UB string               \<comment> \<open>undefined behaviour reached by the source\<close>

type_synonym 'a res = "err + 'a"

definition rbind :: "'a res \<Rightarrow> ('a \<Rightarrow> 'b res) \<Rightarrow> 'b res" where
  "rbind r f = (case r of Inl e \<Rightarrow> Inl e | Inr x \<Rightarrow> f x)"

named_theorems res_simps \<open>rewrite rules of the error monad\<close>
named_theorems nat_word \<open>word operations read as natural numbers\<close>

lemma rbind_Inl [simp, res_simps]: "rbind (Inl e) f = Inl e"
  by (simp add: rbind_def)

lemma rbind_Inr [simp, res_simps]: "rbind (Inr x) f = f x"
  by (simp add: rbind_def)

lemma rbind_Inr_right [simp, res_simps]: "rbind r Inr = r"
  by (cases r) simp_all

lemma rbind_assoc [res_simps]: "rbind (rbind r f) g = rbind r (\<lambda>x. rbind (f x) g)"
  by (cases r) simp_all

lemma rbind_eq_Inr: "rbind r f = Inr y \<longleftrightarrow> (\<exists>x. r = Inr x \<and> f x = Inr y)"
  by (cases r) simp_all

lemma rbind_eq_Inl: "rbind r f = Inl e \<longleftrightarrow> r = Inl e \<or> (\<exists>x. r = Inr x \<and> f x = Inl e)"
  by (cases r) simp_all

lemma rbind_cong [fundef_cong]:
  "r = r' \<Longrightarrow> (\<And>x. r' = Inr x \<Longrightarrow> f x = g x) \<Longrightarrow> rbind r f = rbind r' g"
  by (cases r') simp_all

section \<open>Lists\<close>

text \<open>Cutting a suffix of elements off, as the trailing dots of a name are cut off.\<close>

definition drop_trailing :: "('a \<Rightarrow> bool) \<Rightarrow> 'a list \<Rightarrow> 'a list" where
  "drop_trailing p xs = rev (dropWhile p (rev xs))"

lemma drop_trailing_Nil [simp]: "drop_trailing p [] = []"
  by (simp add: drop_trailing_def)

lemma drop_trailing_snoc [simp]:
  "drop_trailing p (xs @ [x]) = (if p x then drop_trailing p xs else xs @ [x])"
  by (simp add: drop_trailing_def)

lemma drop_trailing_Cons:
  "drop_trailing p (x # xs) =
     (if (\<forall>y \<in> set xs. p y) then (if p x then [] else [x]) else x # drop_trailing p xs)"
  by (auto simp: drop_trailing_def dropWhile_append)

lemma drop_trailing_all [simp]: "\<forall>x \<in> set xs. p x \<Longrightarrow> drop_trailing p xs = []"
  by (simp add: drop_trailing_def)

lemma drop_trailing_replicate [simp]:
  "p x \<Longrightarrow> drop_trailing p (xs @ replicate n x) = drop_trailing p xs"
  by (induction n) (simp_all add: replicate_append_same [symmetric] flip: append_assoc)

lemma drop_trailing_id: "xs = [] \<or> \<not> p (last xs) \<Longrightarrow> drop_trailing p xs = xs"
  by (cases xs rule: rev_cases) auto

lemma drop_trailing_eq_self: "drop_trailing p xs = xs \<longleftrightarrow> xs = [] \<or> \<not> p (last xs)"
proof (cases xs rule: rev_cases)
  case (snoc ys y)
  have "length (drop_trailing p ys) \<le> length ys"
    by (simp add: drop_trailing_def length_dropWhile_le [of p "rev ys", simplified])
  then have "drop_trailing p ys \<noteq> ys @ [y]" by (metis length_append_singleton not_less_eq_eq order_refl)
  with snoc show ?thesis by auto
qed simp

lemma drop_trailing_split: "\<exists>ys. xs = drop_trailing p xs @ ys \<and> (\<forall>y \<in> set ys. p y)"
proof -
  have "xs = rev (dropWhile p (rev xs)) @ rev (takeWhile p (rev xs))"
    by (metis rev_append rev_rev_ident takeWhile_dropWhile_id)
  moreover have "\<forall>y \<in> set (rev (takeWhile p (rev xs))). p y" by (auto dest: set_takeWhileD)
  ultimately show ?thesis unfolding drop_trailing_def by blast
qed

lemma drop_trailing_pad:
  "xs = drop_trailing (\<lambda>x. x = z) xs @ replicate (length xs - length (drop_trailing (\<lambda>x. x = z) xs)) z"
proof -
  obtain ys where ys: "xs = drop_trailing (\<lambda>x. x = z) xs @ ys" "\<forall>y \<in> set ys. y = z"
    using drop_trailing_split [of xs "\<lambda>x. x = z"] by blast
  have "length ys = length xs - length (drop_trailing (\<lambda>x. x = z) xs)"
    using arg_cong [OF ys(1), of length] by simp
  then show ?thesis using ys by (metis replicate_eqI)
qed

lemma last_drop_trailing: "drop_trailing p xs \<noteq> [] \<Longrightarrow> \<not> p (last (drop_trailing p xs))"
  by (induction xs rule: rev_induct) (auto split: if_splits)

lemma map_drop_trailing:
  "(\<And>x. x \<in> set xs \<Longrightarrow> q (f x) = p x) \<Longrightarrow> map f (drop_trailing p xs) = drop_trailing q (map f xs)"
  by (induction xs rule: rev_induct) auto

lemma list_all2_right: "list_all2 P xs ys \<Longrightarrow> y \<in> set ys \<Longrightarrow> \<exists>x \<in> set xs. P x y"
  by (induction rule: list_all2_induct) auto

section \<open>Words read as natural numbers\<close>

lemma or_shifted_nat:
  fixes a b :: nat
  assumes "b < 2 ^ k"
  shows "(a * 2 ^ k) OR b = a * 2 ^ k + b"
proof -
  have "(a * 2 ^ k) AND b = 0"
  proof (rule bit_eqI)
    fix n
    have "bit b n \<Longrightarrow> n < k"
      using assms by (metis bit_take_bit_iff take_bit_nat_eq_self)
    then show "bit (a * 2 ^ k AND b) n = bit (0::nat) n"
      by (auto simp: bit_simps simp flip: push_bit_eq_mult)
  qed
  then show ?thesis
    by (simp add: disjunctive_add_eq_or)
qed

lemma or_shifted_nat': "b < 2 ^ k \<Longrightarrow> 2 ^ k dvd a \<Longrightarrow> (a::nat) OR b = a + b"
  by (metis dvd_div_mult_self or_shifted_nat)

lemma or_less_exp: "a < 2 ^ k \<Longrightarrow> b < 2 ^ k \<Longrightarrow> (a :: nat) OR b < 2 ^ k"
  by (metis take_bit_nat_eq_self take_bit_nat_less_exp take_bit_or)

lemma unat_push_bit [nat_word]:
  "unat (push_bit n (w :: 'a::len word)) = (unat w * 2 ^ n) mod 2 ^ LENGTH('a)"
  by (subst unsigned_push_bit_eq) (simp only: take_bit_eq_mod push_bit_eq_mult)

lemma unat_drop_bit [nat_word]: "unat (drop_bit n (w :: 'a::len word)) = unat w div 2 ^ n"
  by (subst unat_drop_bit_eq) (simp only: drop_bit_eq_div)

lemma unat_or [nat_word]: "unat (v OR w :: 'a::len word) = unat v OR unat w"
  by (simp add: unsigned_or_eq)

lemma unat_and_low [nat_word]: "unat (w AND mask n :: 'a::len word) = unat w mod 2 ^ n"
  by (simp add: unsigned_and_eq flip: take_bit_eq_mask take_bit_eq_mod)
    (simp add: unsigned_take_bit_eq flip: take_bit_eq_mod)

lemma unat_ucast_mod [nat_word]:
  "unat (ucast (w :: 'a::len word) :: 'b::len word) = unat w mod 2 ^ LENGTH('b)"
  by (simp add: unsigned_ucast_eq take_bit_eq_mod)

lemma unat_of_nat_mod [nat_word]: "unat (of_nat n :: 'a::len word) = n mod 2 ^ LENGTH('a)"
  by (simp add: unat_of_nat)

lemma unat_ucast_up [nat_word]:
  "LENGTH('a) \<le> LENGTH('b) \<Longrightarrow> unat (ucast (w :: 'a::len word) :: 'b::len word) = unat w"
proof -
  assume "LENGTH('a) \<le> LENGTH('b)"
  then have "(2::nat) ^ LENGTH('a) \<le> 2 ^ LENGTH('b)" by (rule power_increasing) simp
  with unsigned_less [of w, where 'a = nat] have "unat w < 2 ^ LENGTH('b)" by (rule less_le_trans)
  then show ?thesis by (simp add: unat_ucast_mod)
qed

lemma bit_top_u32: "bit (x :: u32) 31 \<longleftrightarrow> 2 ^ 31 \<le> unat x"
proof -
  have "bit x 31 = bit (unat x) 31" by (simp add: bit_unsigned_iff)
  moreover have "bit (unat x) 31 \<longleftrightarrow> odd (unat x div 2 ^ 31)" by (rule bit_iff_odd)
  moreover have "odd (unat x div 2 ^ 31) \<longleftrightarrow> 2 ^ 31 \<le> unat x"
  proof (cases "2 ^ 31 \<le> unat x")
    case True
    moreover have "unat x < 2 ^ 32" using unsigned_less [of x, where 'a = nat] by simp
    ultimately have "unat x div 2 ^ 31 = 1" by (intro div_nat_eqI) simp_all
    with True show ?thesis by simp
  qed simp
  ultimately show ?thesis by simp
qed

lemma sint_u32: "sint (x :: u32) = int (unat x) - (if 2 ^ 31 \<le> unat x then 2 ^ 32 else 0)"
proof -
  have "sint x = take_bit 32 (uint x) - 2 ^ 32 * of_bool (bit (uint x) 31)"
    using signed_take_bit_eq_take_bit_minus [of 31 "uint x"] by (simp add: sint_uint)
  moreover have "take_bit 32 (uint x) = uint x"
    using unsigned_less [of x, where 'a = int] by (simp add: take_bit_int_eq_self)
  moreover have "bit (uint x) 31 = bit x 31" by (simp add: bit_uint_iff)
  ultimately show ?thesis by (simp add: bit_top_u32)
qed

lemma ucast_down_up [simp]: "(ucast (ucast (x :: u32) :: u64) :: u32) = x"
  using unsigned_less [of x, where 'a = nat]
  by (simp add: word_unat_eq_iff unat_ucast_mod unat_ucast_up)

text \<open>A byte given by its value; unlike \<open>of_nat\<close> it is not rewritten inside.\<close>

definition byte_of :: "nat \<Rightarrow> byte" where
  "byte_of n = of_nat n"

lemma unat_byte_of [simp, nat_word]: "unat (byte_of n) = n mod 256"
  by (simp add: byte_of_def unat_of_nat_mod)

lemma byte_of_unat [simp]: "byte_of (unat b) = b"
  by (simp add: byte_of_def)

lemma unat_byte_less [simp]: "unat (b :: byte) < 256"
  using unsigned_less [of b, where 'a = nat] by simp

lemma byte_eqI: "unat (a :: byte) = unat b \<Longrightarrow> a = b"
  by (simp add: word_unat_eq_iff)

lemma unat_NOT [nat_word]: "unat (NOT w :: 'a::len word) = 2 ^ LENGTH('a) - 1 - unat w"
proof -
  have "w \<le> - 1" by (rule word_n1_ge)
  then have "unat (- 1 - w) = unat (- 1 :: 'a word) - unat w" by (simp add: unat_sub)
  moreover have "NOT w = - 1 - w" by (simp add: not_eq_complement)
  moreover have "unat (- 1 :: 'a word) = 2 ^ LENGTH('a) - 1" 
    by (simp add: unsigned_minus_1_eq_mask mask_eq_exp_minus_1)
  ultimately show ?thesis by simp
qed

lemma unat_add_small:
  "unat (v :: 'a::len word) + unat w < 2 ^ LENGTH('a) \<Longrightarrow> unat (v + w) = unat v + unat w"
  by (simp add: unat_word_ariths)

section \<open>Object representation\<close>

text \<open>wasm is little-endian: the bytes of an integer object, least significant first.\<close>

primrec le_bytes :: "nat \<Rightarrow> 'a::len word \<Rightarrow> byte list" where
  "le_bytes 0 v = []"
| "le_bytes (Suc n) v = ucast v # le_bytes n (drop_bit 8 v)"

primrec le_word :: "byte list \<Rightarrow> 'a::len word" where
  "le_word [] = 0"
| "le_word (b # bs) = ucast b OR push_bit 8 (le_word bs)"

lemma length_le_bytes [simp]: "length (le_bytes n v) = n"
  by (induction n arbitrary: v) simp_all

lemma le_word_bytes_take: "le_word (le_bytes n v) = take_bit (8 * n) v"
proof (induction n arbitrary: v)
  case (Suc n)
  show ?case
    by (rule bit_word_eqI) (auto simp: Suc bit_simps dest: bit_imp_le_length)
qed simp

lemma le_word_bytes: "LENGTH('a) \<le> 8 * n \<Longrightarrow> le_word (le_bytes n v) = (v :: 'a::len word)"
  by (simp add: le_word_bytes_take take_bit_word_eq_self)

section \<open>Numbers in messages\<close>

text \<open>A number in decimal, as \<open>std::to_string\<close> and \<open>printf\<close> write it.\<close>

fun decimal :: "nat \<Rightarrow> string" where
  "decimal n = (if n < 10 then [] else decimal (n div 10)) @ [char_of (48 + n mod 10)]"

declare decimal.simps [simp del]

end
