(* ===== verification/Check.thy ===== *)
theory Check
  imports Prelude
begin

text \<open>
  The assertion helpers of \<open>libraries/ftllib/include/ftllib/check.hpp\<close> and the exit and
  block queries of \<open>system.hpp\<close>. Every overload of \<open>check\<close> calls an imported host function
  when its predicate is false; the host ends the execution of the contract, so the model
  returns the arguments of that call as the error value. When the predicate is true nothing
  is called.
\<close>

section \<open>The overloads of \<open>check\<close>\<close>

text \<open>\<open>std::string::c_str\<close> handed to a host function that reads up to the first NUL.\<close>

definition c_str :: "string \<Rightarrow> string" where
  "c_str s = takeWhile (\<lambda>c. c \<noteq> CHR 0x00) s"

definition check :: "bool \<Rightarrow> string \<Rightarrow> unit res" where
  "check pred msg = (if \<not> pred then Inl (Abort msg) else Inr ())"

definition check_string :: "bool \<Rightarrow> string \<Rightarrow> unit res" where
  "check_string pred msg = (if \<not> pred then Inl (Abort (c_str msg)) else Inr ())"

definition check_string_move :: "bool \<Rightarrow> string \<Rightarrow> unit res" where
  "check_string_move pred msg = (if \<not> pred then Inl (Abort (c_str msg)) else Inr ())"

definition check_n :: "bool \<Rightarrow> string \<Rightarrow> nat \<Rightarrow> unit res" where
  "check_n pred msg n = (if \<not> pred then Inl (AbortMsg msg n) else Inr ())"

definition check_string_n :: "bool \<Rightarrow> string \<Rightarrow> nat \<Rightarrow> unit res" where
  "check_string_n pred msg n = (if \<not> pred then Inl (AbortMsg msg n) else Inr ())"

definition check_code :: "bool \<Rightarrow> u64 \<Rightarrow> unit res" where
  "check_code pred code = (if \<not> pred then Inl (AbortCode code) else Inr ())"

lemma check_True [simp, res_simps]: "check True msg = Inr ()"
  by (simp add: check_def)

lemma check_False [simp, res_simps]: "check False msg = Inl (Abort msg)"
  by (simp add: check_def)

lemma rbind_check [res_simps]:
  "rbind (check p msg) f = (if p then f () else Inl (Abort msg))"
  by (simp add: check_def)

lemmas check_defs =
  check_def check_string_def check_string_move_def check_n_def check_string_n_def check_code_def

lemma check_pass: "check p msg = Inr () \<longleftrightarrow> p"
  by (simp add: check_def)

end
