(* ===== verification/Stream.thy ===== *)
theory Stream
  imports Check
begin

text \<open>
  The serialisation operators of \<open>datastream.hpp\<close> and \<open>varint.hpp\<close> are templates over the
  stream class: an output stream offers \<open>write\<close>, an input stream \<open>read\<close> and \<open>get\<close>. This
  theory names these interfaces. \<open>out_stream\<close>, \<open>bounded_out_stream\<close> and \<open>in_stream\<close> state
  what the operators rely on; the classes of \<open>datastream.hpp\<close> are shown to provide it in
  \<open>Datastream\<close>. Plain byte lists are the reference streams: \<open>lget\<close> and \<open>lread\<close> take bytes
  from the front of a list.
\<close>

section \<open>Stream operations as parameters\<close>

type_synonym 's writer = "byte list \<Rightarrow> 's \<Rightarrow> 's res"
  \<comment> \<open>\<open>ds.write(ptr, n)\<close>: the \<open>n\<close> bytes at \<open>ptr\<close> as a list\<close>
type_synonym ('a, 's) parser = "'s \<Rightarrow> ('a \<times> 's) res"

record 's istream =
  rd :: "nat \<Rightarrow> (byte list, 's) parser"   \<comment> \<open>\<open>ds.read(ptr, n)\<close>: the \<open>n\<close> bytes copied to \<open>ptr\<close>\<close>
  gt :: "(byte, 's) parser"                \<comment> \<open>\<open>ds.get(c)\<close>: the byte stored in \<open>c\<close>\<close>

text \<open>Several writes in a row, stopping at the first that aborts.\<close>

fun write_all :: "'s writer \<Rightarrow> byte list list \<Rightarrow> 's \<Rightarrow> 's res" where
  "write_all wr [] s = Inr s"
| "write_all wr (c # cs) s = rbind (wr c s) (write_all wr cs)"

lemma write_all_Nil_fun [simp]: "write_all wr [] = Inr"
  by (rule ext) simp

lemma write_all_append [res_simps]:
  "write_all wr (cs @ ds) s = rbind (write_all wr cs s) (write_all wr ds)"
proof (induction cs arbitrary: s)
  case (Cons c cs)
  then have "write_all wr (cs @ ds) = (\<lambda>s. rbind (write_all wr cs s) (write_all wr ds))" by blast
  then show ?case by (simp add: rbind_assoc)
qed simp

lemma write_all_append_fun:
  "write_all wr (cs @ ds) = (\<lambda>s. rbind (write_all wr cs s) (write_all wr ds))"
  by (rule ext) (rule write_all_append)

lemma write_all_single [res_simps]: "write_all wr [c] s = wr c s"
  by (cases "wr c s") simp_all

lemma write_all_single_fun [simp]: "write_all wr [c] = wr c"
  by (rule ext) (rule write_all_single)

text \<open>The reference output stream: a list of bytes that grows at its end.\<close>

definition list_writer :: "byte list writer" where
  "list_writer bs s = Inr (s @ bs)"

lemma write_all_list: "write_all list_writer cs s = Inr (s @ concat cs)"
  by (induction cs arbitrary: s) (simp_all add: list_writer_def)

section \<open>Output streams\<close>

locale out_stream =
  fixes wr :: "'s writer"
    and inv :: "'s \<Rightarrow> bool"
    and room :: "'s \<Rightarrow> nat"
    and adv :: "byte list \<Rightarrow> 's \<Rightarrow> 's"
  assumes write_ok: "inv s \<Longrightarrow> length bs \<le> room s \<Longrightarrow> wr bs s = Inr (adv bs s)"
    and inv_adv: "inv s \<Longrightarrow> length bs \<le> room s \<Longrightarrow> inv (adv bs s)"
    and room_adv: "inv s \<Longrightarrow> length bs \<le> room s \<Longrightarrow> room (adv bs s) = room s - length bs"
    and adv_nil: "inv s \<Longrightarrow> adv [] s = s"
    and adv_append:
      "inv s \<Longrightarrow> length as + length bs \<le> room s \<Longrightarrow> adv bs (adv as s) = adv (as @ bs) s"
begin

lemma write_all_ok:
  "inv s \<Longrightarrow> length (concat cs) \<le> room s \<Longrightarrow> write_all wr cs s = Inr (adv (concat cs) s)"
  by (induction cs arbitrary: s) (auto simp: write_ok inv_adv room_adv adv_nil adv_append)

end

text \<open>A stream over a buffer also refuses what does not fit, and then nothing is returned.\<close>

locale bounded_out_stream = out_stream +
  assumes write_full:
    "inv s \<Longrightarrow> room s < length bs \<Longrightarrow> length bs < 2 ^ 31 \<Longrightarrow> wr bs s = Inl (Abort ''write'')"
begin

lemma write_all_full:
  "inv s \<Longrightarrow> room s < length (concat cs) \<Longrightarrow> \<forall>c \<in> set cs. length c < 2 ^ 31 \<Longrightarrow>
     write_all wr cs s = Inl (Abort ''write'')"
proof (induction cs arbitrary: s)
  case (Cons c cs)
  show ?case
  proof (cases "length c \<le> room s")
    case True
    with Cons show ?thesis by (auto simp: write_ok inv_adv room_adv)
  next
    case False
    with Cons.prems show ?thesis by (simp add: write_full)
  qed
qed simp

end

section \<open>Input streams\<close>

locale in_stream =
  fixes st :: "'s istream"
    and inv :: "'s \<Rightarrow> bool"
    and rest :: "'s \<Rightarrow> byte list"
    and adv :: "nat \<Rightarrow> 's \<Rightarrow> 's"
  assumes read_ok: "inv s \<Longrightarrow> n \<le> length (rest s) \<Longrightarrow> rd st n s = Inr (take n (rest s), adv n s)"
    and read_short:
      "inv s \<Longrightarrow> length (rest s) < n \<Longrightarrow> n < 2 ^ 32 \<Longrightarrow> rd st n s = Inl (Abort ''read'')"
    and get_ok: "inv s \<Longrightarrow> rest s = b # bs \<Longrightarrow> gt st s = Inr (b, adv 1 s)"
    and get_short: "inv s \<Longrightarrow> rest s = [] \<Longrightarrow> gt st s = Inl (Abort ''get'')"
    and inv_adv: "inv s \<Longrightarrow> n \<le> length (rest s) \<Longrightarrow> inv (adv n s)"
    and rest_adv: "inv s \<Longrightarrow> n \<le> length (rest s) \<Longrightarrow> rest (adv n s) = drop n (rest s)"
    and adv_0: "inv s \<Longrightarrow> adv 0 s = s"
    and adv_adv: "inv s \<Longrightarrow> m + n \<le> length (rest s) \<Longrightarrow> adv n (adv m s) = adv (m + n) s"

text \<open>The reference input stream: a list of the bytes still to be read.\<close>

definition lread :: "nat \<Rightarrow> (byte list, byte list) parser" where
  "lread n bs = (if n \<le> length bs then Inr (take n bs, drop n bs) else Inl (Abort ''read''))"

definition lget :: "(byte, byte list) parser" where
  "lget bs = (case bs of [] \<Rightarrow> Inl (Abort ''get'') | b # bs' \<Rightarrow> Inr (b, bs'))"

definition list_stream :: "byte list istream" where
  "list_stream = \<lparr>rd = lread, gt = lget\<rparr>"

lemma list_stream_simps [simp]: "rd list_stream = lread" "gt list_stream = lget"
  by (simp_all add: list_stream_def)

lemma lget_Cons [simp]: "lget (b # bs) = Inr (b, bs)"
  and lget_Nil [simp]: "lget [] = Inl (Abort ''get'')"
  by (simp_all add: lget_def)

lemma lread_append [simp]: "lread (length bs) (bs @ r) = Inr (bs, r)"
  by (simp add: lread_def)

interpretation ls: in_stream list_stream "\<lambda>_. True" "\<lambda>bs. bs" drop
  by unfold_locales (auto simp: lread_def lget_def ac_simps)

text \<open>
  \<open>simulates p q\<close>: the parser \<open>p\<close> over a stream behaves as the parser \<open>q\<close> over the list of
  the bytes the stream still holds: same aborts, same result, and it stops at the same byte.
\<close>

context in_stream
begin

definition simulates :: "('a, 's) parser \<Rightarrow> ('a, byte list) parser \<Rightarrow> bool" where
  "simulates p q \<longleftrightarrow> (\<forall>s. inv s \<longrightarrow>
     (case q (rest s) of
        Inl e \<Rightarrow> p s = Inl e
      | Inr (x, bs) \<Rightarrow> \<exists>n \<le> length (rest s). bs = drop n (rest s) \<and> p s = Inr (x, adv n s)))"

lemma simulatesI:
  assumes "\<And>s e. inv s \<Longrightarrow> q (rest s) = Inl e \<Longrightarrow> p s = Inl e"
    and "\<And>s x bs. inv s \<Longrightarrow> q (rest s) = Inr (x, bs) \<Longrightarrow>
           \<exists>n \<le> length (rest s). bs = drop n (rest s) \<and> p s = Inr (x, adv n s)"
  shows "simulates p q"
  using assms by (auto simp: simulates_def split: sum.split prod.split)

lemma simulates_Inl: "simulates p q \<Longrightarrow> inv s \<Longrightarrow> q (rest s) = Inl e \<Longrightarrow> p s = Inl e"
  by (force simp: simulates_def)

lemma simulates_Inr:
  assumes "simulates p q" "inv s" "q (rest s) = Inr (x, bs)"
  obtains n where "n \<le> length (rest s)" "bs = drop n (rest s)" "p s = Inr (x, adv n s)"
  using assms by (force simp: simulates_def)

lemma sim_return: "simulates (\<lambda>s. Inr (x, s)) (\<lambda>bs. Inr (x, bs))"
  by (rule simulatesI) (auto simp: adv_0 intro!: exI [of _ 0])

lemma sim_fail: "simulates (\<lambda>s. Inl e) (\<lambda>bs. Inl e)"
  by (rule simulatesI) auto

lemma sim_read: "n < 2 ^ 32 \<Longrightarrow> simulates (rd st n) (lread n)"
  by (rule simulatesI) (auto simp: lread_def read_ok read_short split: if_splits)

lemma sim_get: "simulates (gt st) lget"
proof (rule simulatesI)
  fix s x bs assume "inv s" "lget (rest s) = Inr (x, bs)"
  then have "rest s = x # bs" by (auto simp: lget_def split: list.splits)
  with \<open>inv s\<close> show "\<exists>n\<le>length (rest s). bs = drop n (rest s) \<and> gt st s = Inr (x, adv n s)"
    by (intro exI [of _ 1]) (simp add: get_ok)
qed (auto simp: lget_def get_short split: list.splits)

lemma sim_bind:
  assumes p: "simulates p q" and f: "\<And>x. simulates (f x) (g x)"
  shows "simulates (\<lambda>s. rbind (p s) (\<lambda>(x, s'). f x s')) (\<lambda>bs. rbind (q bs) (\<lambda>(x, bs'). g x bs'))"
proof (rule simulatesI)
  fix s e assume s: "inv s" and e: "rbind (q (rest s)) (\<lambda>(x, bs'). g x bs') = Inl e"
  show "rbind (p s) (\<lambda>(x, s'). f x s') = Inl e"
  proof (cases "q (rest s)")
    case (Inl e')
    with s e p show ?thesis by (simp add: simulates_Inl)
  next
    case (Inr r)
    obtain x bs where r: "r = (x, bs)" by (cases r)
    from simulates_Inr [OF p s] Inr r obtain n where n: "n \<le> length (rest s)" "bs = drop n (rest s)"
      and ps: "p s = Inr (x, adv n s)" by metis
    have "inv (adv n s)" "rest (adv n s) = bs" using s n by (simp_all add: inv_adv rest_adv)
    with e Inr r have "f x (adv n s) = Inl e" by (simp add: simulates_Inl [OF f])
    with ps show ?thesis by simp
  qed
next
  fix s y cs assume s: "inv s" and e: "rbind (q (rest s)) (\<lambda>(x, bs'). g x bs') = Inr (y, cs)"
  then obtain x bs where q: "q (rest s) = Inr (x, bs)" and g: "g x bs = Inr (y, cs)"
    by (auto simp: rbind_eq_Inr)
  from simulates_Inr [OF p s q] obtain n where n: "n \<le> length (rest s)" "bs = drop n (rest s)"
    and ps: "p s = Inr (x, adv n s)" by metis
  have i: "inv (adv n s)" and r: "rest (adv n s) = bs" using s n by (simp_all add: inv_adv rest_adv)
  from simulates_Inr [OF f i] g r obtain m where m: "m \<le> length bs" "cs = drop m bs"
    and fs: "f x (adv n s) = Inr (y, adv m (adv n s))" by metis
  have "cs = drop (n + m) (rest s)" using m n by (simp add: add.commute)
  moreover have "adv m (adv n s) = adv (n + m) s" using s n m by (simp add: adv_adv)
  ultimately show "\<exists>k\<le>length (rest s). cs = drop k (rest s) \<and>
      rbind (p s) (\<lambda>(x, s'). f x s') = Inr (y, adv k s)"
    using ps fs n m by (intro exI [of _ "n + m"]) auto
qed

lemma sim_if: "simulates p q \<Longrightarrow> simulates p' q' \<Longrightarrow>
    simulates (if b then p else p') (if b then q else q')"
  by simp

lemma sim_cong: "simulates p q \<Longrightarrow> p = p' \<Longrightarrow> q = q' \<Longrightarrow> simulates p' q'"
  by simp

end

end
