(* ===== verification/Varint.thy ===== *)
theory Varint
  imports Stream
begin

text \<open>
  \<open>libraries/ftllib/include/ftllib/varint.hpp\<close>: the classes \<open>unsigned_int\<close> and
  \<open>signed_int\<close>, their conversions and comparisons, and their variable-length encodings.
  The two loops are \<open>put_varint_loop\<close> and \<open>get_varint_loop\<close>; \<open>vbytes\<close> is the abstract
  encoding they implement: base 128, least significant group first.
\<close>

section \<open>\<open>unsigned_int\<close>\<close>

record unsigned_int =
  ui_value :: u32

definition unsigned_int :: "u32 \<Rightarrow> unsigned_int" where
  "unsigned_int v = \<lparr>ui_value = v\<rparr>"

definition unsigned_int_from :: "'a::len word \<Rightarrow> unsigned_int" where
  "unsigned_int_from v = \<lparr>ui_value = ucast v\<rparr>"

definition ui_as :: "unsigned_int \<Rightarrow> 'a::len word" where
  "ui_as i = ucast (ui_value i)"

definition ui_assign :: "unsigned_int \<Rightarrow> u32 \<Rightarrow> unsigned_int" where
  "ui_assign i v = i\<lparr>ui_value := v\<rparr>"

definition ui_eq_u32 :: "unsigned_int \<Rightarrow> u32 \<Rightarrow> bool" where
  "ui_eq_u32 i v \<longleftrightarrow> ui_value i = v"

definition u32_eq_ui :: "u32 \<Rightarrow> unsigned_int \<Rightarrow> bool" where
  "u32_eq_ui i v \<longleftrightarrow> i = ui_value v"

definition ui_eq :: "unsigned_int \<Rightarrow> unsigned_int \<Rightarrow> bool" where
  "ui_eq i v \<longleftrightarrow> ui_value i = ui_value v"

definition ui_ne_u32 :: "unsigned_int \<Rightarrow> u32 \<Rightarrow> bool" where
  "ui_ne_u32 i v \<longleftrightarrow> ui_value i \<noteq> v"

definition u32_ne_ui :: "u32 \<Rightarrow> unsigned_int \<Rightarrow> bool" where
  "u32_ne_ui i v \<longleftrightarrow> i \<noteq> ui_value v"

definition ui_ne :: "unsigned_int \<Rightarrow> unsigned_int \<Rightarrow> bool" where
  "ui_ne i v \<longleftrightarrow> ui_value i \<noteq> ui_value v"

definition ui_lt_u32 :: "unsigned_int \<Rightarrow> u32 \<Rightarrow> bool" where
  "ui_lt_u32 i v \<longleftrightarrow> ui_value i < v"

definition u32_lt_ui :: "u32 \<Rightarrow> unsigned_int \<Rightarrow> bool" where
  "u32_lt_ui i v \<longleftrightarrow> i < ui_value v"

definition ui_lt :: "unsigned_int \<Rightarrow> unsigned_int \<Rightarrow> bool" where
  "ui_lt i v \<longleftrightarrow> ui_value i < ui_value v"

definition ui_ge_u32 :: "unsigned_int \<Rightarrow> u32 \<Rightarrow> bool" where
  "ui_ge_u32 i v \<longleftrightarrow> ui_value i \<ge> v"

definition u32_ge_ui :: "u32 \<Rightarrow> unsigned_int \<Rightarrow> bool" where
  "u32_ge_ui i v \<longleftrightarrow> i \<ge> ui_value v"

definition ui_ge :: "unsigned_int \<Rightarrow> unsigned_int \<Rightarrow> bool" where
  "ui_ge i v \<longleftrightarrow> ui_value i \<ge> ui_value v"

lemmas ui_defs =
  unsigned_int_def unsigned_int_from_def ui_as_def ui_assign_def
  ui_eq_u32_def u32_eq_ui_def ui_eq_def ui_ne_u32_def u32_ne_ui_def ui_ne_def
  ui_lt_u32_def u32_lt_ui_def ui_lt_def ui_ge_u32_def u32_ge_ui_def ui_ge_def

section \<open>\<open>signed_int\<close>\<close>

text \<open>The \<open>int32_t\<close> member is its bit pattern; \<open>sint\<close> reads it.\<close>

record signed_int =
  si_value :: u32

definition signed_int :: "u32 \<Rightarrow> signed_int" where
  "signed_int v = \<lparr>si_value = v\<rparr>"

definition si_as :: "signed_int \<Rightarrow> u32" where
  "si_as i = si_value i"

definition si_assign :: "signed_int \<Rightarrow> 'a::len word \<Rightarrow> signed_int" where
  "si_assign i v = i\<lparr>si_value := ucast v\<rparr>"

text \<open>Signed overflow of the increments is undefined.\<close>

definition si_postinc :: "signed_int \<Rightarrow> (signed_int \<times> signed_int) res" where
  "si_postinc i =
     (if sint (si_value i) = 2 ^ 31 - 1 then Inl (UB ''signed overflow'')
      else Inr (signed_int (si_value i), i\<lparr>si_value := si_value i + 1\<rparr>))"

definition si_preinc :: "signed_int \<Rightarrow> signed_int res" where
  "si_preinc i =
     (if sint (si_value i) = 2 ^ 31 - 1 then Inl (UB ''signed overflow'')
      else Inr (i\<lparr>si_value := si_value i + 1\<rparr>))"

definition si_eq_i32 :: "signed_int \<Rightarrow> u32 \<Rightarrow> bool" where
  "si_eq_i32 i v \<longleftrightarrow> sint (si_value i) = sint v"

definition i32_eq_si :: "u32 \<Rightarrow> signed_int \<Rightarrow> bool" where
  "i32_eq_si i v \<longleftrightarrow> sint i = sint (si_value v)"

definition si_eq :: "signed_int \<Rightarrow> signed_int \<Rightarrow> bool" where
  "si_eq i v \<longleftrightarrow> sint (si_value i) = sint (si_value v)"

definition si_ne_i32 :: "signed_int \<Rightarrow> u32 \<Rightarrow> bool" where
  "si_ne_i32 i v \<longleftrightarrow> sint (si_value i) \<noteq> sint v"

definition i32_ne_si :: "u32 \<Rightarrow> signed_int \<Rightarrow> bool" where
  "i32_ne_si i v \<longleftrightarrow> sint i \<noteq> sint (si_value v)"

definition si_ne :: "signed_int \<Rightarrow> signed_int \<Rightarrow> bool" where
  "si_ne i v \<longleftrightarrow> sint (si_value i) \<noteq> sint (si_value v)"

definition si_lt_i32 :: "signed_int \<Rightarrow> u32 \<Rightarrow> bool" where
  "si_lt_i32 i v \<longleftrightarrow> sint (si_value i) < sint v"

definition i32_lt_si :: "u32 \<Rightarrow> signed_int \<Rightarrow> bool" where
  "i32_lt_si i v \<longleftrightarrow> sint i < sint (si_value v)"

definition si_lt :: "signed_int \<Rightarrow> signed_int \<Rightarrow> bool" where
  "si_lt i v \<longleftrightarrow> sint (si_value i) < sint (si_value v)"

definition si_ge_i32 :: "signed_int \<Rightarrow> u32 \<Rightarrow> bool" where
  "si_ge_i32 i v \<longleftrightarrow> sint (si_value i) \<ge> sint v"

definition i32_ge_si :: "u32 \<Rightarrow> signed_int \<Rightarrow> bool" where
  "i32_ge_si i v \<longleftrightarrow> sint i \<ge> sint (si_value v)"

definition si_ge :: "signed_int \<Rightarrow> signed_int \<Rightarrow> bool" where
  "si_ge i v \<longleftrightarrow> sint (si_value i) \<ge> sint (si_value v)"

lemmas si_defs =
  signed_int_def si_as_def si_assign_def si_eq_i32_def i32_eq_si_def si_eq_def si_ne_i32_def
  i32_ne_si_def si_ne_def si_lt_i32_def i32_lt_si_def si_lt_def si_ge_i32_def i32_ge_si_def
  si_ge_def

section \<open>Encoding\<close>

lemma drop_bit_7_less: "drop_bit 7 (v :: 'a::len word) \<noteq> 0 \<Longrightarrow> unat (drop_bit 7 v) < unat v"
proof -
  assume "drop_bit 7 v \<noteq> 0"
  then have "unat (drop_bit 7 v) \<noteq> 0" by (simp add: unat_eq_0)
  then have "unat v div 128 \<noteq> 0" by (simp add: unat_drop_bit)
  then show ?thesis by (simp add: unat_drop_bit)
qed

text \<open>
  The do-while loop of both \<open>operator<<\<close>: seven bits per byte, the top bit set while more
  follow, one \<open>ds.write\<close> per byte. \<open>unsigned_int\<close> runs it on a \<open>uint64_t\<close>, \<open>signed_int\<close> on a
  \<open>uint32_t\<close>.
\<close>

function put_varint_loop :: "'s writer \<Rightarrow> 'a::len word \<Rightarrow> 's \<Rightarrow> 's res" where
  "put_varint_loop wr val s =
     (let b = (ucast val :: byte) AND 0x7f;
          val' = drop_bit 7 val;
          b' = b OR push_bit 7 (if val' > 0 then 1 else 0)
      in rbind (wr [b'] s) (\<lambda>s'. if val' \<noteq> 0 then put_varint_loop wr val' s' else Inr s'))"
  by pat_completeness auto

termination
  by (relation "measure (\<lambda>(wr, val, s). unat val)") (auto simp: drop_bit_7_less)

declare put_varint_loop.simps [simp del]

definition put_unsigned_int :: "'s writer \<Rightarrow> unsigned_int \<Rightarrow> 's \<Rightarrow> 's res" where
  "put_unsigned_int wr v s = put_varint_loop wr (ucast (ui_value v) :: u64) s"

text \<open>Zig-zag: small absolute values get small codes, negative ones the odd codes. The shift
  \<open>v.value << 1\<close> of a negative value is undefined before C++20; here it has the value that C++20
  gives it and that the compiler of the contracts computes, the shift of the bits.\<close>

definition zigzag :: "u32 \<Rightarrow> u32" where
  "zigzag x = push_bit 1 x XOR signed_drop_bit 31 x"

definition put_signed_int :: "'s writer \<Rightarrow> signed_int \<Rightarrow> 's \<Rightarrow> 's res" where
  "put_signed_int wr v s = put_varint_loop wr (zigzag (si_value v)) s"

section \<open>Decoding\<close>

text \<open>
  The do-while loop of both \<open>operator>>\<close>. The operand of the shift is a \<open>uint32_t\<close> in both
  classes, so a shift by \<open>by \<ge> 32\<close> is undefined; the loop has no other bound on the number of
  bytes. \<open>by\<close> is a \<open>uint8_t\<close> or an \<open>int\<close>; it is at most 35 when the loop stops here, so its
  type never matters.
\<close>

function get_varint_loop :: "'s istream \<Rightarrow> 'a::len word \<Rightarrow> nat \<Rightarrow> ('a word, 's) parser" where
  "get_varint_loop st v by s =
     rbind (gt st s) (\<lambda>(b, s').
       if by \<ge> 32 then Inl (UB ''shift'')
       else
         let v' = v OR ucast (push_bit by (ucast (b AND 0x7f) :: u32)); by' = by + 7
         in if b AND 0x80 \<noteq> 0 then get_varint_loop st v' by' s' else Inr (v', s'))"
  by pat_completeness auto

termination
  by (relation "measure (\<lambda>(st, v, by, s). 40 - by)") auto

declare get_varint_loop.simps [simp del]

definition get_unsigned_int :: "'s istream \<Rightarrow> (unsigned_int, 's) parser" where
  "get_unsigned_int st s =
     rbind (get_varint_loop st (0 :: u64) 0 s) (\<lambda>(v, s'). Inr (unsigned_int (ucast v), s'))"

definition unzigzag :: "u32 \<Rightarrow> u32" where
  "unzigzag v =
     ucast ((ucast (drop_bit 1 v) :: u64) XOR ((ucast (NOT (v AND 1)) :: u64) + 1))"

definition get_signed_int :: "'s istream \<Rightarrow> (signed_int, 's) parser" where
  "get_signed_int st s =
     rbind (get_varint_loop st (0 :: u32) 0 s) (\<lambda>(v, s'). Inr (signed_int (unzigzag v), s'))"

section \<open>The abstract encoding\<close>

fun vbytes :: "nat \<Rightarrow> byte list" where
  "vbytes n = (if n < 128 then [byte_of n] else byte_of (128 + n mod 128) # vbytes (n div 128))"

declare vbytes.simps [simp del]

lemma vbytes_small [simp]: "n < 128 \<Longrightarrow> vbytes n = [byte_of n]"
  by (simp add: vbytes.simps)

lemma vbytes_big: "128 \<le> n \<Longrightarrow> vbytes n = byte_of (128 + n mod 128) # vbytes (n div 128)"
  by (simp add: vbytes.simps [of n])

lemma vbytes_not_Nil [simp]: "vbytes n \<noteq> []"
  by (simp add: vbytes.simps [of n])

lemma byte_cont_bit: "(b :: byte) AND 0x80 = 0 \<longleftrightarrow> unat b < 128"
proof -
  have "b AND 2 ^ 7 = 0 \<longleftrightarrow> \<not> bit b 7" by (rule and_exp_eq_0_iff_not_bit)
  moreover have "bit b 7 = bit (unat b) 7" by (simp add: bit_unsigned_iff)
  moreover have "bit (unat b) 7 \<longleftrightarrow> odd (unat b div 2 ^ 7)" by (rule bit_iff_odd)
  moreover have "odd (unat b div 2 ^ 7) \<longleftrightarrow> \<not> unat b < 128"
  proof (cases "unat b < 128")
    case False
    then have "unat b div 128 = 1" using unat_byte_less [of b] by (simp add: div_nat_eqI)
    with False show ?thesis by simp
  qed simp
  ultimately show ?thesis by simp
qed

lemma unat_low7 [nat_word]: "unat ((b :: byte) AND 0x7f) = unat b mod 128"
  using unat_and_low [of b 7] by (simp add: mask_eq_exp_minus_1)

text \<open>The loop writes the abstract encoding, one byte per write.\<close>

lemma put_varint_byte:
  fixes val :: "'a::len word"
  assumes "8 \<le> LENGTH('a)"
  shows "(ucast val :: byte) AND 0x7f OR push_bit 7 (if drop_bit 7 val > 0 then 1 else 0)
       = (if unat val < 128 then byte_of (unat val) else byte_of (128 + unat val mod 128))"
proof (rule word_unat_eq_iff [THEN iffD2])
  have small: "unat ((ucast val :: byte) AND 0x7f) = unat val mod 128"
    by (simp add: unat_low7 unat_ucast_mod mod_mod_cancel)
  have pos: "drop_bit 7 val > 0 \<longleftrightarrow> 128 \<le> unat val"
    by (simp add: word_less_nat_alt unat_drop_bit) (simp add: div_greater_zero_iff)
  have top: "unat (push_bit 7 (1 :: byte)) = 128" by simp
  have "(unat val mod 128) OR 128 = 128 + unat val mod 128"
    using or_shifted_nat [of "unat val mod 128" 7 1] by (simp add: or.commute)
  then show "unat ((ucast val :: byte) AND 0x7f OR push_bit 7 (if drop_bit 7 val > 0 then 1 else 0))
     = unat (if unat val < 128 then byte_of (unat val) else byte_of (128 + unat val mod 128))"
    using small pos top by (auto simp: unat_or)
qed

lemma put_varint_loop_vbytes:
  fixes val :: "'a::len word"
  assumes "8 \<le> LENGTH('a)"
  shows "put_varint_loop wr val s = write_all wr (map (\<lambda>b. [b]) (vbytes (unat val))) s"
proof (induction "unat val" arbitrary: val s rule: less_induct)
  case less
  have nz: "drop_bit 7 val = 0 \<longleftrightarrow> unat val < 128"
    by (simp add: word_unat_eq_iff unat_drop_bit div_eq_0_iff)
  show ?case
  proof (cases "unat val < 128")
    case True
    with nz put_varint_byte [OF assms, of val] show ?thesis
      by (subst put_varint_loop.simps) (simp add: Let_def)
  next
    case False
    with nz have "unat (drop_bit 7 val) < unat val" by (simp add: drop_bit_7_less)
    from less [OF this] have IH: "put_varint_loop wr (drop_bit 7 val) =
        write_all wr (map (\<lambda>b. [b]) (vbytes (unat val div 128)))"
      by (auto simp: unat_drop_bit)
    from False nz put_varint_byte [OF assms, of val] show ?thesis
      by (subst put_varint_loop.simps) (simp add: Let_def IH vbytes_big)
  qed
qed

lemma put_unsigned_int_chunks [res_simps]:
  "put_unsigned_int wr v s = write_all wr (map (\<lambda>b. [b]) (vbytes (unat (ui_value v)))) s"
  by (simp add: put_unsigned_int_def put_varint_loop_vbytes unat_ucast_up)

lemma put_signed_int_chunks [res_simps]:
  "put_signed_int wr v s = write_all wr (map (\<lambda>b. [b]) (vbytes (unat (zigzag (si_value v))))) s"
  by (simp add: put_signed_int_def put_varint_loop_vbytes)

section \<open>Decoding inverts encoding\<close>

lemma get_varint_step:
  fixes v :: "'a::len word" and b :: byte
  assumes "by < 32" "32 \<le> LENGTH('a)" "unat v < 2 ^ by" "unat b mod 128 < 2 ^ (32 - by)"
  shows "v OR ucast (push_bit by (ucast (b AND 0x7f) :: u32)) = of_nat (unat v + unat b mod 128 * 2 ^ by)"
proof (rule word_unat_eq_iff [THEN iffD2])
  let ?m = "unat b mod 128"
  have big: "(2::nat) ^ 32 \<le> 2 ^ LENGTH('a)" using assms(2) by (rule power_increasing) simp
  have "(?m + 1) * 2 ^ by \<le> 2 ^ (32 - by) * 2 ^ by"
    using assms(4) by (intro mult_right_mono) auto
  also have "\<dots> = (2::nat) ^ 32" using assms by (simp flip: power_add)
  finally have le: "unat v + ?m * 2 ^ by < 2 ^ 32" using assms(3) by (simp add: algebra_simps)
  then have m: "?m * 2 ^ by < 2 ^ 32" by simp
  have up: "unat (ucast x :: u32) = unat (x :: byte)" for x by (rule unat_ucast_up) simp
  have "unat (ucast (b AND 0x7f) :: u32) = ?m" by (simp only: up unat_low7)
  then have "unat (ucast (push_bit by (ucast (b AND 0x7f) :: u32)) :: 'a word) = ?m * 2 ^ by"
    using m big by (simp add: unat_ucast_mod unat_push_bit)
  moreover have "unat v OR ?m * 2 ^ by = unat v + ?m * 2 ^ by"
    using or_shifted_nat [OF assms(3), of ?m] by (simp add: or.commute)
  moreover have "unat (of_nat (unat v + ?m * 2 ^ by) :: 'a word) = unat v + ?m * 2 ^ by"
    using less_le_trans [OF le big] by (simp only: unat_of_nat_mod mod_less)
  ultimately show "unat (v OR ucast (push_bit by (ucast (b AND 0x7f) :: u32)))
      = unat (of_nat (unat v + ?m * 2 ^ by) :: 'a word)"
    by (simp only: unat_or)
qed

lemma get_varint_loop_vbytes:
  fixes v :: "'a::len word"
  assumes "32 \<le> LENGTH('a)"
  shows "by < 32 \<Longrightarrow> unat v < 2 ^ by \<Longrightarrow> n < 2 ^ (32 - by) \<Longrightarrow>
    get_varint_loop list_stream v by (vbytes n @ r) = Inr (of_nat (unat v + n * 2 ^ by), r)"
proof (induction n arbitrary: v "by" rule: vbytes.induct)
  case (1 n)
  have big: "(2::nat) ^ 32 \<le> 2 ^ LENGTH('a)" using assms by (rule power_increasing) simp
  show ?case
  proof (cases "n < 128")
    case True
    have "byte_of n AND 0x80 = 0" using True by (simp add: byte_cont_bit)
    moreover have "v OR ucast (push_bit by (ucast (byte_of n AND 0x7f) :: u32)) = of_nat (unat v + n * 2 ^ by)"
      using get_varint_step [of "by" v "byte_of n"] 1 True assms by simp
    ultimately show ?thesis
      using True 1 by (subst get_varint_loop.simps) (simp add: Let_def)
  next
    case False
    let ?b = "byte_of (128 + n mod 128)"
    have b: "unat ?b mod 128 = n mod 128" "?b AND 0x80 \<noteq> 0"
      by (simp_all add: byte_cont_bit)
    have pw: "(2::nat) ^ (32 - by) = 128 * 2 ^ (32 - (by + 7))" and by7: "by + 7 < 32"
    proof -
      show "by + 7 < 32"
      proof (rule ccontr)
        assume "\<not> by + 7 < 32"
        then have "(2::nat) ^ (32 - by) \<le> 2 ^ 7" by (intro power_increasing) auto
        with 1 False show False by simp
      qed
      then have "32 - by = 7 + (32 - (by + 7))" by simp
      then show "(2::nat) ^ (32 - by) = 128 * 2 ^ (32 - (by + 7))"
        by (simp only: power_add) simp
    qed
    have n: "n div 128 < 2 ^ (32 - (by + 7))" "n mod 128 < 2 ^ (32 - by)"
      using 1 pw by (auto simp: less_mult_imp_div_less mult.commute intro: le_less_trans [OF mod_less_eq_dividend])
    let ?w = "unat v + n mod 128 * 2 ^ by"
    have "?w < (n mod 128 + 1) * 2 ^ by" using 1(3) by simp
    also have "\<dots> \<le> 128 * 2 ^ by" by (intro mult_right_mono) (auto simp: Suc_leI)
    also have "\<dots> = 2 ^ (by + 7)" by (simp add: power_add)
    finally have w: "?w < 2 ^ (by + 7)" .
    also have "\<dots> \<le> (2::nat) ^ 32" using by7 by (intro power_increasing) auto
    finally have "?w < 2 ^ LENGTH('a)" using big by (rule less_le_trans)
    then have u: "unat (of_nat ?w :: 'a word) = ?w" by (simp only: unat_of_nat_mod mod_less)
    have "get_varint_loop list_stream v by (vbytes n @ r)
        = get_varint_loop list_stream (of_nat ?w :: 'a word) (by + 7) (vbytes (n div 128) @ r)"
      using get_varint_step [of "by" v ?b] 1(2,3) False b n assms
      by (subst get_varint_loop.simps) (simp add: Let_def vbytes_big)
    also have "\<dots> = Inr (of_nat (?w + n div 128 * 2 ^ (by + 7)), r)"
      using 1(1) [of "by + 7" "of_nat ?w"] False u w by7 n by simp
    also have "?w + n div 128 * 2 ^ (by + 7) = unat v + (n div 128 * 128 + n mod 128) * 2 ^ by"
      by (simp only: add_mult_distrib power_add) simp
    also have "n div 128 * 128 + n mod 128 = n" by (rule div_mult_mod_eq)
    finally show ?thesis .
  qed
qed


section \<open>Zig-zag\<close>

lemma signed_drop_bit_31: "signed_drop_bit 31 (x :: u32) = (if bit x 31 then - 1 else 0)"
proof (rule bit_word_eqI)
  fix n assume "n < LENGTH(32)"
  then show "bit (signed_drop_bit 31 x) n = bit (if bit x 31 then - 1 else 0 :: u32) n"
    by (cases "n = 0") (simp_all add: bit_signed_drop_bit_iff)
qed

lemma zigzag_cases: "zigzag x = (if bit x 31 then NOT (push_bit 1 x) else push_bit 1 x)"
  by (simp add: zigzag_def signed_drop_bit_31)

lemma unzigzag_cases: "unzigzag v = (if bit v 0 then NOT (drop_bit 1 v) else drop_bit 1 v)"
proof (cases "bit v 0")
  case True
  then have "v AND 1 = 1" by (simp add: and_one_eq mod_2_eq_odd bit_0)
  then have "unzigzag v = ucast ((ucast (drop_bit 1 v) :: u64) XOR 0xFFFFFFFF)"
    by (simp add: unzigzag_def)
  also have "\<dots> = NOT (drop_bit 1 v)"
  proof -
    have m: "(0xFFFFFFFF :: u64) = mask 32" by (simp add: mask_eq_exp_minus_1)
    show ?thesis unfolding m
      by (rule bit_word_eqI) (auto simp: bit_ucast_iff bit_xor_iff bit_mask_iff bit_not_iff)
  qed
  finally show ?thesis using True by simp
next
  case False
  then have "v AND 1 = 0" by (simp add: and_one_eq mod_2_eq_odd bit_0)
  moreover have "(ucast (NOT 0 :: u32) :: u64) + 1 = 2 ^ 32" by code_simp
  ultimately have "unzigzag v = ucast ((ucast (drop_bit 1 v) :: u64) XOR 2 ^ 32)"
    by (simp only: unzigzag_def)
  also have "\<dots> = drop_bit 1 v"
  proof (rule bit_word_eqI)
    fix n assume n: "n < LENGTH(32)"
    have "\<not> bit (2 ^ 32 :: u64) n" using n by (simp only: bit_exp_iff) simp
    with n show "bit (ucast ((ucast (drop_bit 1 v) :: u64) XOR 2 ^ 32) :: u32) n = bit (drop_bit 1 v) n"
      by (auto simp: bit_ucast_iff bit_xor_iff)
  qed
  finally show ?thesis using False by simp
qed

lemma unzigzag_zigzag [simp]: "unzigzag (zigzag x) = x"
proof (rule bit_word_eqI)
  fix n assume n: "n < LENGTH(32)"
  have shift: "bit (push_bit 1 x) (Suc n) \<longleftrightarrow> n < 31 \<and> bit x n"
    using n by (simp only: bit_push_bit_iff possible_bit_word) auto
  have zero: "\<not> bit (push_bit 1 x) 0"
    by (simp only: bit_push_bit_iff) simp
  show "bit (unzigzag (zigzag x)) n = bit x n"
    using n shift zero
    by (cases "n = 31")
      (auto simp: unzigzag_cases zigzag_cases bit_drop_bit_eq bit_not_iff)
qed

lemma zigzag_value:
  "int (unat (zigzag x)) = (if 0 \<le> sint x then 2 * sint x else - 2 * sint x - 1)"
proof (cases "2 ^ 31 \<le> unat x")
  case True
  have x: "unat x < 2 ^ 32" using unsigned_less [of x, where 'a = nat] by simp
  with True have "unat x * 2 mod 2 ^ 32 = unat x * 2 - 2 ^ 32" by (simp add: mod_if)
  then have "unat (push_bit 1 x) = unat x * 2 - 2 ^ 32"
    using unat_push_bit [of 1 x] by simp
  moreover have "unat (NOT w) = 2 ^ 32 - 1 - unat w" for w :: u32
    using unat_NOT [of w] by simp
  ultimately have "unat (zigzag x) = 2 ^ 32 - 1 - (unat x * 2 - 2 ^ 32)"
    using True by (simp only: zigzag_cases bit_top_u32) simp
  then show ?thesis using True x by (simp add: sint_u32 del: of_nat_unat)
next
  case False
  then have "unat (push_bit 1 x) = unat x * 2" using unat_push_bit [of 1 x] by simp
  moreover have "zigzag x = push_bit 1 x" using False by (simp only: zigzag_cases bit_top_u32 if_False)
  ultimately have "unat (zigzag x) = unat x * 2" by simp
  then show ?thesis using False by (simp add: sint_u32 del: of_nat_unat)
qed

section \<open>Round trips and size\<close>

lemma get_put_unsigned_int [simp]:
  "get_unsigned_int list_stream (vbytes (unat (ui_value v)) @ r) = Inr (v, r)"
proof -
  have "unat (ui_value v) < 2 ^ 32" using unsigned_less [of "ui_value v", where 'a = nat] by simp
  then show ?thesis
    by (simp add: get_unsigned_int_def get_varint_loop_vbytes unsigned_int_def)
qed

lemma get_put_signed_int [simp]:
  "get_signed_int list_stream (vbytes (unat (zigzag (si_value v))) @ r) = Inr (v, r)"
proof -
  have "unat (zigzag (si_value v)) < 2 ^ 32"
    using unsigned_less [of "zigzag (si_value v)", where 'a = nat] by simp
  then show ?thesis
    by (simp add: get_signed_int_def get_varint_loop_vbytes signed_int_def)
qed

lemma length_vbytes_le: "n < 128 ^ Suc k \<Longrightarrow> length (vbytes n) \<le> Suc k"
proof (induction k arbitrary: n)
  case (Suc k)
  show ?case
  proof (cases "n < 128")
    case False
    have "n div 128 < 128 ^ Suc k" using Suc.prems by (simp add: less_mult_imp_div_less)
    with Suc.IH False show ?thesis by (simp add: vbytes_big)
  qed simp
qed simp

lemma length_vbytes_u32: "length (vbytes (unat (v :: u32))) \<le> 5"
  using length_vbytes_le [of "unat v" 4] unsigned_less [of v, where 'a = nat] by simp

text \<open>What \<open>k\<close> bytes can say: the decoded value is below \<open>2 ^ (7 k)\<close>.\<close>

lemma get_varint_loop_bound:
  fixes v :: "'a::len word"
  shows "get_varint_loop list_stream v by bs = Inr (w, r) \<Longrightarrow> unat v < 2 ^ by \<Longrightarrow>
    length r < length bs \<and> unat w < 2 ^ (by + 7 * (length bs - length r))"
proof (induction bs arbitrary: v "by")
  case Nil
  then show ?case by (subst (asm) get_varint_loop.simps) simp
next
  case (Cons b bs)
  define v' where "v' = v OR ucast (push_bit by (ucast (b AND 0x7f) :: u32))"
  have "unat (ucast (push_bit by (ucast (b AND 0x7f) :: u32)) :: 'a word) < 2 ^ (by + 7)"
  proof -
    have up: "unat (ucast x :: u32) = unat (x :: byte)" for x by (rule unat_ucast_up) simp
    have "unat b mod 128 * 2 ^ by < 128 * 2 ^ by" by simp
    also have "\<dots> = 2 ^ (by + 7)" by (simp add: power_add)
    finally have "unat b mod 128 * 2 ^ by < 2 ^ (by + 7)" .
    moreover have "unat (push_bit by (ucast (b AND 0x7f) :: u32)) \<le> unat b mod 128 * 2 ^ by"
      by (simp only: unat_push_bit up unat_low7 mod_less_eq_dividend)
    moreover have "unat (ucast y :: 'a word) \<le> unat (y :: u32)" for y
      by (simp only: unat_ucast_mod mod_less_eq_dividend)
    ultimately show ?thesis by (meson le_less_trans)
  qed
  moreover have "unat v < 2 ^ (by + 7)"
    by (rule less_le_trans [OF Cons.prems(2)]) (rule power_increasing; simp)
  ultimately have v': "unat v' < 2 ^ (by + 7)"
    unfolding v'_def unat_or by (intro or_less_exp)
  from Cons.prems(1) have "\<not> 32 \<le> by"
    and e: "(if b AND 0x80 \<noteq> 0 then get_varint_loop list_stream v' (by + 7) bs else Inr (v', bs)) = Inr (w, r)"
    by (subst (asm) get_varint_loop.simps, simp add: v'_def Let_def split: if_splits)+
  show ?case
  proof (cases "b AND 0x80 = 0")
    case True
    with e v' show ?thesis by simp
  next
    case False
    with e Cons.IH v' have "length r < length bs" "unat w < 2 ^ (by + 7 + 7 * (length bs - length r))" by auto
    then show ?thesis by (simp add: Suc_diff_le algebra_simps)
  qed
qed

section \<open>The loop over any input stream\<close>

context in_stream
begin

lemma sim_get_varint_loop:
  "simulates (get_varint_loop st v by) (get_varint_loop list_stream v by)"
proof (induction "40 - by" arbitrary: v "by" rule: less_induct)
  case less
  define f where "f b = (\<lambda>s'. if by \<ge> 32 then Inl (UB ''shift'')
       else let v' = v OR ucast (push_bit by (ucast (b AND 0x7f) :: u32)); by' = by + 7
         in if b AND 0x80 \<noteq> 0 then get_varint_loop st v' by' s' else Inr (v', s'))" for b :: byte
  define g where "g b = (\<lambda>s'. if by \<ge> 32 then Inl (UB ''shift'')
       else let v' = v OR ucast (push_bit by (ucast (b AND 0x7f) :: u32)); by' = by + 7
         in if b AND 0x80 \<noteq> 0 then get_varint_loop list_stream v' by' s' else Inr (v', s'))" for b :: byte
  have "simulates (f b) (g b)" for b
  proof (cases "by \<ge> 32")
    case True
    then show ?thesis by (simp add: f_def g_def sim_fail)
  next
    case False
    with less show ?thesis
      by (cases "b AND 0x80 = 0") (simp_all add: f_def g_def Let_def sim_return)
  qed
  from sim_bind [of "gt st" lget f g, OF sim_get this] show ?case
    by (rule sim_cong) (auto simp: fun_eq_iff f_def g_def get_varint_loop.simps [of st] get_varint_loop.simps [of list_stream])
qed

lemma sim_get_unsigned_int: "simulates (get_unsigned_int st) (get_unsigned_int list_stream)"
proof -
  have "simulates (\<lambda>s. rbind (get_varint_loop st (0::u64) 0 s) (\<lambda>(v, s'). Inr (unsigned_int (ucast v), s')))
    (\<lambda>s. rbind (get_varint_loop list_stream (0::u64) 0 s) (\<lambda>(v, s'). Inr (unsigned_int (ucast v), s')))"
    by (rule sim_bind [OF sim_get_varint_loop sim_return])
  then show ?thesis by (rule sim_cong) (simp_all add: fun_eq_iff get_unsigned_int_def)
qed

lemma sim_get_signed_int: "simulates (get_signed_int st) (get_signed_int list_stream)"
proof -
  have "simulates (\<lambda>s. rbind (get_varint_loop st (0::u32) 0 s) (\<lambda>(v, s'). Inr (signed_int (unzigzag v), s')))
    (\<lambda>s. rbind (get_varint_loop list_stream (0::u32) 0 s) (\<lambda>(v, s'). Inr (signed_int (unzigzag v), s')))"
    by (rule sim_bind [OF sim_get_varint_loop sim_return])
  then show ?thesis by (rule sim_cong) (simp_all add: fun_eq_iff get_signed_int_def)
qed

end

end
