(* ===== verification/Memory.thy ===== *)
theory Memory
  imports Check
begin

text \<open>
  Linear memory and the byte routines of \<open>libraries/ftllib/src/memory.cpp\<close>. A memory maps
  every 32-bit address to a byte; pointer arithmetic wraps at the end of the address space.
  The loops read and write the same memory, so overlapping regions behave as in the code.
  \<open>load_bytes\<close> and \<open>store_bytes\<close> are the abstract block operations the routines are
  compared with.
\<close>

type_synonym mem = "u32 \<Rightarrow> byte"

section \<open>Blocks of memory\<close>

fun load_bytes :: "mem \<Rightarrow> u32 \<Rightarrow> nat \<Rightarrow> byte list" where
  "load_bytes m p 0 = []"
| "load_bytes m p (Suc n) = m p # load_bytes m (p + 1) n"

fun store_bytes :: "mem \<Rightarrow> u32 \<Rightarrow> byte list \<Rightarrow> mem" where
  "store_bytes m p [] = m"
| "store_bytes m p (b # bs) = store_bytes (m(p := b)) (p + 1) bs"

text \<open>Address \<open>a\<close> is one of the \<open>n\<close> addresses from \<open>p\<close> on.\<close>

definition in_block :: "u32 \<Rightarrow> u32 \<Rightarrow> nat \<Rightarrow> bool" where
  "in_block a p n \<longleftrightarrow> unat (a - p) < n"

definition disjoint_blocks :: "u32 \<Rightarrow> nat \<Rightarrow> u32 \<Rightarrow> nat \<Rightarrow> bool" where
  "disjoint_blocks p n q k \<longleftrightarrow> (\<forall>a. \<not> (in_block a p n \<and> in_block a q k))"

lemma length_load_bytes [simp]: "length (load_bytes m p n) = n"
  by (induction n arbitrary: p) auto

lemma load_bytes_numeral:
  "load_bytes m p (numeral k) = m p # load_bytes m (p + 1) (pred_numeral k)"
  by (simp add: numeral_eq_Suc)

lemma nth_load_bytes: "i < n \<Longrightarrow> load_bytes m p n ! i = m (p + of_nat i)"
proof (induction n arbitrary: p i)
  case (Suc n)
  then show ?case by (cases i) (auto simp: ac_simps)
qed simp

lemma load_bytes_eqI:
  "(\<And>i. i < n \<Longrightarrow> m (p + of_nat i) = bs ! i) \<Longrightarrow> length bs = n \<Longrightarrow> load_bytes m p n = bs"
  by (rule nth_equalityI) (simp_all add: nth_load_bytes)

lemma load_bytes_append:
  "load_bytes m p (n + k) = load_bytes m p n @ load_bytes m (p + of_nat n) k"
  by (induction n arbitrary: p) (auto simp: ac_simps)

lemma take_load_bytes: "k \<le> n \<Longrightarrow> take k (load_bytes m p n) = load_bytes m p k"
  by (rule nth_equalityI) (simp_all add: nth_load_bytes)

lemma drop_load_bytes: "k \<le> n \<Longrightarrow> drop k (load_bytes m p n) = load_bytes m (p + of_nat k) (n - k)"
  by (rule nth_equalityI) (simp_all add: nth_load_bytes ac_simps)

lemma in_block_offset: "i < n \<Longrightarrow> n \<le> 2 ^ 32 \<Longrightarrow> in_block (p + of_nat i) p n"
  by (simp add: in_block_def unat_of_nat_mod)

lemma in_block_nth: "in_block a p n \<Longrightarrow> \<exists>i < n. a = p + of_nat i"
  by (rule exI [of _ "unat (a - p)"]) (simp add: in_block_def)

lemma in_block_Suc: "n < 2 ^ 32 \<Longrightarrow> in_block a p (Suc n) \<longleftrightarrow> a = p \<or> in_block a (p + 1) n \<and> a \<noteq> p"
proof (cases "a = p")
  case False
  assume n: "n < 2 ^ 32"
  have "a - (p + 1) = (a - p) - 1" by simp
  moreover have "a - p \<noteq> 0" using False by simp
  ultimately have "unat (a - (p + 1)) = unat (a - p) - 1" by (metis unat_minus_one)
  moreover have "0 < unat (a - p)" using \<open>a - p \<noteq> 0\<close> by (simp add: unat_gt_0)
  ultimately show ?thesis using False by (auto simp: in_block_def)
qed (simp add: in_block_def)

lemma store_bytes_other: "\<not> in_block a p (length bs) \<Longrightarrow> length bs \<le> 2 ^ 32 \<Longrightarrow> store_bytes m p bs a = m a"
proof (induction bs arbitrary: m p)
  case (Cons b bs)
  then show ?case by (auto simp: in_block_Suc)
qed simp

lemma store_bytes_nth:
  "i < length bs \<Longrightarrow> length bs \<le> 2 ^ 32 \<Longrightarrow> store_bytes m p bs (p + of_nat i) = bs ! i"
proof (induction bs arbitrary: m p i)
  case (Cons b bs)
  show ?case
  proof (cases i)
    case 0
    have "\<not> in_block p (p + 1) (length bs)"
      using Cons.prems by (simp add: in_block_def unsigned_minus_1_eq_mask mask_eq_exp_minus_1)
    with 0 Cons.prems show ?thesis by (simp add: store_bytes_other)
  next
    case (Suc j)
    have eq: "p + of_nat (Suc j) = p + 1 + of_nat j" by (simp add: ac_simps)
    show ?thesis
      unfolding Suc store_bytes.simps nth_Cons_Suc eq
      by (rule Cons.IH) (use Suc Cons.prems in auto)
  qed
qed simp

lemma load_store_bytes [simp]: "length bs \<le> 2 ^ 32 \<Longrightarrow> load_bytes (store_bytes m p bs) p (length bs) = bs"
  by (rule load_bytes_eqI) (simp_all add: store_bytes_nth)

lemma load_store_disjoint:
  "disjoint_blocks p n q (length bs) \<Longrightarrow> length bs \<le> 2 ^ 32 \<Longrightarrow> n \<le> 2 ^ 32 \<Longrightarrow>
     load_bytes (store_bytes m q bs) p n = load_bytes m p n"
  by (rule load_bytes_eqI)
    (auto simp: nth_load_bytes disjoint_blocks_def intro!: store_bytes_other dest: in_block_offset)

lemma store_bytes_append:
  "store_bytes m p (as @ bs) = store_bytes (store_bytes m p as) (p + of_nat (length as)) bs"
  by (induction as arbitrary: m p) (auto simp: ac_simps)

text \<open>Blocks given by bounds that do not wrap.\<close>

lemma unat_add_of_nat: "unat (p :: u32) + i < 2 ^ 32 \<Longrightarrow> unat (p + of_nat i) = unat p + i"
  by (simp add: unat_word_ariths unat_of_nat_mod mod_add_right_eq)

lemma in_block_bounds:
  "in_block a p n \<Longrightarrow> unat p + n \<le> 2 ^ 32 \<Longrightarrow> unat p \<le> unat a \<and> unat a < unat p + n"
  by (drule in_block_nth) (auto simp: unat_add_of_nat)

lemma disjoint_blocksI:
  assumes "unat p + n \<le> unat q \<or> unat q + k \<le> unat p"
    and "unat p + n \<le> 2 ^ 32" "unat q + k \<le> 2 ^ 32"
  shows "disjoint_blocks p n q k"
  unfolding disjoint_blocks_def
proof (intro allI notI)
  fix a assume "in_block a p n \<and> in_block a q k"
  with assms show False using in_block_bounds [of a p n] in_block_bounds [of a q k] by linarith
qed

section \<open>\<open>memset\<close>, \<open>memcpy\<close>, \<open>memcmp\<close>\<close>

function memset_loop :: "mem \<Rightarrow> u32 \<Rightarrow> u32 \<Rightarrow> nat \<Rightarrow> nat \<Rightarrow> mem" where
  "memset_loop m p c i n =
     (if i < n then memset_loop (m(p + of_nat i := ucast c)) p c (Suc i) n else m)"
  by pat_completeness auto

termination
  by (relation "measure (\<lambda>(m, p, c, i, n). n - i)") auto

definition memset :: "mem \<Rightarrow> u32 \<Rightarrow> u32 \<Rightarrow> u32 \<Rightarrow> mem \<times> u32" where
  "memset m ptr c n = (memset_loop m ptr c 0 (unat n), ptr)"

function memcpy_loop :: "mem \<Rightarrow> u32 \<Rightarrow> u32 \<Rightarrow> nat \<Rightarrow> nat \<Rightarrow> mem" where
  "memcpy_loop m p1 p2 i n =
     (if i < n then memcpy_loop (m(p1 + of_nat i := m (p2 + of_nat i))) p1 p2 (Suc i) n else m)"
  by pat_completeness auto

termination
  by (relation "measure (\<lambda>(m, p1, p2, i, n). n - i)") auto

definition memcpy :: "mem \<Rightarrow> u32 \<Rightarrow> u32 \<Rightarrow> u32 \<Rightarrow> mem \<times> u32" where
  "memcpy m ptr1 ptr2 n = (memcpy_loop m ptr1 ptr2 0 (unat n), ptr1)"

function memcmp_loop :: "mem \<Rightarrow> u32 \<Rightarrow> u32 \<Rightarrow> nat \<Rightarrow> nat \<Rightarrow> int" where
  "memcmp_loop m p1 p2 i n =
     (if i < n then
        if m (p1 + of_nat i) < m (p2 + of_nat i) then - 1
        else if m (p1 + of_nat i) > m (p2 + of_nat i) then 1
        else memcmp_loop m p1 p2 (Suc i) n
      else 0)"
  by pat_completeness auto

termination
  by (relation "measure (\<lambda>(m, p1, p2, i, n). n - i)") auto

definition memcmp :: "mem \<Rightarrow> u32 \<Rightarrow> u32 \<Rightarrow> u32 \<Rightarrow> int" where
  "memcmp m ptr1 ptr2 n = memcmp_loop m ptr1 ptr2 0 (unat n)"

declare memset_loop.simps [simp del] memcpy_loop.simps [simp del] memcmp_loop.simps [simp del]


text \<open>What the loops leave behind.\<close>

lemma memset_loop_outside:
  "\<not> in_block a p n \<Longrightarrow> n \<le> 2 ^ 32 \<Longrightarrow> memset_loop m p c i n a = m a"
  by (induction m p c i n rule: memset_loop.induct)
    (subst memset_loop.simps, auto dest: in_block_offset)

lemma memset_loop_nth:
  "j < n \<Longrightarrow> n \<le> 2 ^ 32 \<Longrightarrow> (j < i \<Longrightarrow> m (p + of_nat j) = ucast c) \<Longrightarrow>
     memset_loop m p c i n (p + of_nat j) = ucast c"
proof (induction m p c i n rule: memset_loop.induct)
  case (1 m p c i n)
  show ?case
  proof (cases "i < n")
    case True
    have "(m(p + of_nat i := ucast c)) (p + of_nat j) = ucast c" if "j < Suc i"
      using that 1(4) by (cases "j = i") auto
    note IH = 1(1) [OF True 1(2,3) this]
    show ?thesis by (subst memset_loop.simps) (simp add: True IH del: fun_upd_apply)
  next
    case False
    with 1 show ?thesis by (subst memset_loop.simps) simp
  qed
qed

lemma load_memset_loop: "n \<le> 2 ^ 32 \<Longrightarrow> load_bytes (memset_loop m p c 0 n) p n = replicate n (ucast c)"
  by (rule load_bytes_eqI) (auto simp: memset_loop_nth)

lemma memcpy_loop_outside:
  "\<not> in_block a p1 n \<Longrightarrow> n \<le> 2 ^ 32 \<Longrightarrow> memcpy_loop m p1 p2 i n a = m a"
  by (induction m p1 p2 i n rule: memcpy_loop.induct)
    (subst memcpy_loop.simps, auto dest: in_block_offset)

text \<open>Blocks that do not overlap: the loop copies the source block.\<close>

lemma memcpy_loop_disjoint:
  assumes "disjoint_blocks p1 n p2 n" "n \<le> 2 ^ 32"
  shows "j < n \<Longrightarrow> (j < i \<Longrightarrow> m (p1 + of_nat j) = m (p2 + of_nat j)) \<Longrightarrow>
     memcpy_loop m p1 p2 i n (p1 + of_nat j) = m (p2 + of_nat j)"
  using assms
proof (induction m p1 p2 i n rule: memcpy_loop.induct)
  case (1 m p1 p2 i n)
  show ?case
  proof (cases "i < n")
    case True
    let ?m = "m(p1 + of_nat i := m (p2 + of_nat i))"
    have ne: "p2 + of_nat k \<noteq> p1 + of_nat i" if "k < n" for k
      using 1(4,5) True that in_block_offset [of k n p2] in_block_offset [of i n p1]
      by (auto simp: disjoint_blocks_def)
    have "?m (p1 + of_nat j) = ?m (p2 + of_nat j)" if "j < Suc i"
      using that 1(2,3) ne [of j] ne [of i] True by (cases "j = i") auto
    note IH = 1(1) [OF True 1(2) this 1(4,5)]
    have "?m (p2 + of_nat j) = m (p2 + of_nat j)" using ne [of j] 1(2) by simp
    with IH have "memcpy_loop ?m p1 p2 (Suc i) n (p1 + of_nat j) = m (p2 + of_nat j)" by (simp only:)
    then show ?thesis by (subst memcpy_loop.simps) (simp add: True del: fun_upd_apply)
  next
    case False
    with 1 show ?thesis by (subst memcpy_loop.simps) simp
  qed
qed

lemma load_memcpy_loop:
  "disjoint_blocks p1 n p2 n \<Longrightarrow> n \<le> 2 ^ 32 \<Longrightarrow>
     load_bytes (memcpy_loop m p1 p2 0 n) p1 n = load_bytes m p2 n"
  by (rule load_bytes_eqI) (auto simp: memcpy_loop_disjoint nth_load_bytes)

lemma memcpy_loop_store:
  assumes "disjoint_blocks p1 n p2 n" "n \<le> 2 ^ 32"
  shows "memcpy_loop m p1 p2 0 n = store_bytes m p1 (load_bytes m p2 n)"
proof
  fix a
  show "memcpy_loop m p1 p2 0 n a = store_bytes m p1 (load_bytes m p2 n) a"
  proof (cases "in_block a p1 n")
    case True
    then obtain i where i: "i < n" "a = p1 + of_nat i" using in_block_nth by blast
    with assms store_bytes_nth [of i "load_bytes m p2 n" m p1] show ?thesis
      by (simp add: memcpy_loop_disjoint nth_load_bytes)
  next
    case False
    with assms show ?thesis by (simp add: memcpy_loop_outside store_bytes_other)
  qed
qed

text \<open>\<open>memcmp\<close> is the three-way comparison of the two blocks in dictionary order.\<close>

fun compare_bytes :: "byte list \<Rightarrow> byte list \<Rightarrow> int" where
  "compare_bytes (a # as) (b # bs) =
     (if a < b then - 1 else if b < a then 1 else compare_bytes as bs)"
| "compare_bytes _ _ = 0"

lemma memcmp_loop_compare:
  "i \<le> n \<Longrightarrow> memcmp_loop m p1 p2 i n =
     compare_bytes (load_bytes m (p1 + of_nat i) (n - i)) (load_bytes m (p2 + of_nat i) (n - i))"
proof (induction m p1 p2 i n rule: memcmp_loop.induct)
  case (1 m p1 p2 i n)
  show ?case
  proof (cases "i < n")
    case True
    then have "n - i = Suc (n - Suc i)" by simp
    with 1 True show ?thesis by (subst memcmp_loop.simps) (simp add: ac_simps)
  next
    case False
    with 1 show ?thesis by (subst memcmp_loop.simps) simp
  qed
qed

end
