(* ===== verification/Datastream.thy ===== *)
theory Datastream
  imports Varint Memory
begin

text \<open>
  The two stream classes of \<open>libraries/ftllib/include/ftllib/datastream.hpp\<close>:
  \<open>datastream<T>\<close> for a pointer type \<open>T\<close>, three addresses into linear memory, and its
  specialisation \<open>datastream<size_t>\<close>, a byte counter. The interpretations at the end show
  that they provide the stream interfaces of \<open>Stream\<close>.
\<close>

section \<open>\<open>datastream<T>\<close>\<close>

record datastream =
  ds_start :: u32
  ds_pos :: u32
  ds_end :: u32

definition mk_datastream :: "u32 \<Rightarrow> u32 \<Rightarrow> datastream" where
  "mk_datastream start s = \<lparr>ds_start = start, ds_pos = start, ds_end = start + s\<rparr>"

definition ds_skip :: "u32 \<Rightarrow> datastream \<Rightarrow> datastream" where
  "ds_skip s ds = ds\<lparr>ds_pos := ds_pos ds + s\<rparr>"

text \<open>
  \<open>read\<close> compares as \<open>size_t\<close>, \<open>write\<close> as \<open>ptrdiff_t\<close> with \<open>s\<close> cast to \<open>int32_t\<close>. The copy
  of \<open>read\<close> goes to a variable of the caller, given here as the bytes it receives; the copy
  of \<open>write\<close> takes the bytes of a variable of the caller.
\<close>

definition ds_read :: "mem \<Rightarrow> u32 \<Rightarrow> (byte list, datastream) parser" where
  "ds_read m s ds =
     rbind (check (ds_end ds - ds_pos ds \<ge> s) ''read'') (\<lambda>_.
       Inr (load_bytes m (ds_pos ds) (unat s), ds\<lparr>ds_pos := ds_pos ds + s\<rparr>))"

definition ds_write :: "byte list \<Rightarrow> mem \<times> datastream \<Rightarrow> (mem \<times> datastream) res" where
  "ds_write d mds =
     (let (m, ds) = mds; s = (of_nat (length d) :: u32) in
      rbind (check (sint (ds_end ds - ds_pos ds) \<ge> sint s) ''write'') (\<lambda>_.
        Inr (store_bytes m (ds_pos ds) d, ds\<lparr>ds_pos := ds_pos ds + s\<rparr>)))"

definition ds_put :: "byte \<Rightarrow> mem \<times> datastream \<Rightarrow> (mem \<times> datastream) res" where
  "ds_put c mds =
     (let (m, ds) = mds in
      rbind (check (ds_pos ds < ds_end ds) ''put'') (\<lambda>_.
        Inr (m(ds_pos ds := c), ds\<lparr>ds_pos := ds_pos ds + 1\<rparr>)))"

definition ds_get :: "mem \<Rightarrow> (byte, datastream) parser" where
  "ds_get m ds =
     rbind (check (ds_pos ds < ds_end ds) ''get'') (\<lambda>_.
       Inr (m (ds_pos ds), ds\<lparr>ds_pos := ds_pos ds + 1\<rparr>))"

definition ds_get_uchar :: "mem \<Rightarrow> (byte, datastream) parser" where
  "ds_get_uchar m ds = ds_get m ds"

definition ds_valid :: "datastream \<Rightarrow> bool" where
  "ds_valid ds \<longleftrightarrow> ds_pos ds \<le> ds_end ds \<and> ds_pos ds \<ge> ds_start ds"

definition ds_seekp :: "u32 \<Rightarrow> datastream \<Rightarrow> bool \<times> datastream" where
  "ds_seekp p ds =
     (let ds' = ds\<lparr>ds_pos := ds_start ds + p\<rparr> in (ds_pos ds' \<le> ds_end ds', ds'))"

definition ds_tellp :: "datastream \<Rightarrow> u32" where
  "ds_tellp ds = ds_pos ds - ds_start ds"

definition ds_remaining :: "datastream \<Rightarrow> u32" where
  "ds_remaining ds = ds_end ds - ds_pos ds"

section \<open>\<open>datastream<size_t>\<close>\<close>

definition mk_size_stream :: "u32 \<Rightarrow> u32" where
  "mk_size_stream init_size = init_size"

definition sz_skip :: "u32 \<Rightarrow> u32 \<Rightarrow> bool \<times> u32" where
  "sz_skip s sz = (True, sz + s)"

definition sz_write :: "byte list \<Rightarrow> u32 \<Rightarrow> u32 res" where
  "sz_write d sz = Inr (sz + of_nat (length d))"

definition sz_put :: "byte \<Rightarrow> u32 \<Rightarrow> u32 res" where
  "sz_put c sz = Inr (sz + 1)"

definition sz_valid :: "u32 \<Rightarrow> bool" where
  "sz_valid sz \<longleftrightarrow> True"

definition sz_seekp :: "u32 \<Rightarrow> u32 \<Rightarrow> bool \<times> u32" where
  "sz_seekp p sz = (True, p)"

definition sz_tellp :: "u32 \<Rightarrow> u32" where
  "sz_tellp sz = sz"

definition sz_remaining :: "u32 \<Rightarrow> u32" where
  "sz_remaining sz = 0"

section \<open>Well-formed streams\<close>

text \<open>The buffer does not wrap around the address space and the position lies inside it.\<close>

definition ds_ok :: "datastream \<Rightarrow> bool" where
  "ds_ok ds \<longleftrightarrow> ds_start ds \<le> ds_pos ds \<and> ds_pos ds \<le> ds_end ds"

text \<open>Output buffers are smaller than half the address space, as \<open>write\<close> needs.\<close>

definition ds_out_ok :: "datastream \<Rightarrow> bool" where
  "ds_out_ok ds \<longleftrightarrow> ds_ok ds \<and> unat (ds_end ds) - unat (ds_start ds) < 2 ^ 31"

definition ds_room :: "datastream \<Rightarrow> nat" where
  "ds_room ds = unat (ds_end ds) - unat (ds_pos ds)"

definition ds_adv :: "nat \<Rightarrow> datastream \<Rightarrow> datastream" where
  "ds_adv n ds = ds\<lparr>ds_pos := ds_pos ds + of_nat n\<rparr>"

definition mem_stream :: "mem \<Rightarrow> datastream istream" where
  "mem_stream m = \<lparr>rd = (\<lambda>n. ds_read m (of_nat n)), gt = ds_get m\<rparr>"

definition ds_left :: "mem \<Rightarrow> datastream \<Rightarrow> byte list" where
  "ds_left m ds = load_bytes m (ds_pos ds) (ds_room ds)"

lemma mem_stream_simps [simp]:
  "rd (mem_stream m) n = ds_read m (of_nat n)" "gt (mem_stream m) = ds_get m"
  by (simp_all add: mem_stream_def)

lemma ds_room_bound: "ds_room ds < 2 ^ 32"
  using unsigned_less [of "ds_end ds", where 'a = nat] by (simp add: ds_room_def)

lemma unat_ds_remaining: "ds_ok ds \<Longrightarrow> unat (ds_end ds - ds_pos ds) = ds_room ds"
  by (simp add: ds_ok_def ds_room_def unat_sub)

lemma ds_adv_pos: "ds_ok ds \<Longrightarrow> n \<le> ds_room ds \<Longrightarrow> unat (ds_pos ds + of_nat n) = unat (ds_pos ds) + n"
  using unsigned_less [of "ds_end ds", where 'a = nat]
  by (intro unat_add_of_nat) (auto simp: ds_ok_def ds_room_def word_le_nat_alt)

lemma ds_adv_ok: "ds_ok ds \<Longrightarrow> n \<le> ds_room ds \<Longrightarrow> ds_ok (ds_adv n ds)"
  using ds_adv_pos [of ds n] by (auto simp: ds_ok_def ds_room_def ds_adv_def word_le_nat_alt)

lemma ds_adv_room: "ds_ok ds \<Longrightarrow> n \<le> ds_room ds \<Longrightarrow> ds_room (ds_adv n ds) = ds_room ds - n"
  using ds_adv_pos [of ds n] by (simp add: ds_room_def ds_adv_def)

lemma ds_adv_adv: "ds_adv n (ds_adv m ds) = ds_adv (m + n) ds"
  by (simp add: ds_adv_def ac_simps)

lemma ds_adv_0 [simp]: "ds_adv 0 ds = ds"
  by (simp add: ds_adv_def)

lemma ds_adv_simps [simp]:
  "ds_start (ds_adv n ds) = ds_start ds" "ds_end (ds_adv n ds) = ds_end ds"
  "ds_pos (ds_adv n ds) = ds_pos ds + of_nat n"
  by (simp_all add: ds_adv_def)

section \<open>The classes provide the stream interfaces\<close>

lemma ds_read_ok:
  assumes "ds_ok ds" "n \<le> ds_room ds"
  shows "ds_read m (of_nat n) ds = Inr (load_bytes m (ds_pos ds) n, ds_adv n ds)"
proof -
  have n: "unat (of_nat n :: u32) = n"
    using assms ds_room_bound [of ds] by (simp add: unat_of_nat_mod)
  then have "of_nat n \<le> ds_end ds - ds_pos ds"
    using assms by (simp add: word_le_nat_alt unat_ds_remaining)
  with n show ?thesis by (simp add: ds_read_def ds_adv_def)
qed

lemma ds_read_short:
  assumes "ds_ok ds" "ds_room ds < n" "n < 2 ^ 32"
  shows "ds_read m (of_nat n) ds = Inl (Abort ''read'')"
proof -
  have "\<not> of_nat n \<le> ds_end ds - ds_pos ds"
    using assms by (simp add: word_le_nat_alt unat_ds_remaining unat_of_nat_mod)
  then show ?thesis by (simp add: ds_read_def)
qed

lemma ds_left_nonempty: "ds_ok ds \<Longrightarrow> ds_pos ds < ds_end ds \<longleftrightarrow> ds_room ds \<noteq> 0"
  by (auto simp: ds_ok_def ds_room_def word_less_nat_alt)

interpretation rs: in_stream "mem_stream m" ds_ok "ds_left m" ds_adv for m
proof unfold_locales
  fix s :: datastream and b bs assume s: "ds_ok s" and "ds_left m s = b # bs"
  then obtain k where "ds_room s = Suc k" "b = m (ds_pos s)"
    by (cases "ds_room s") (auto simp: ds_left_def)
  with s show "gt (mem_stream m) s = Inr (b, ds_adv 1 s)"
    using ds_left_nonempty [OF s] by (simp add: ds_get_def ds_adv_def)
next
  fix s assume s: "ds_ok s" and "ds_left m s = []"
  then have "ds_room s = 0" by (cases "ds_room s") (auto simp: ds_left_def)
  then show "gt (mem_stream m) s = Inl (Abort ''get'')"
    using ds_left_nonempty [OF s] by (simp add: ds_get_def)
qed (auto simp: ds_left_def ds_read_ok ds_read_short ds_adv_ok ds_adv_room ds_adv_adv
       take_load_bytes drop_load_bytes)

lemma sint_small: "unat (w :: u32) < 2 ^ 31 \<Longrightarrow> sint w = int (unat w)"
  by (simp add: sint_u32)

lemma ds_write_ok:
  assumes "ds_out_ok ds" "length d \<le> ds_room ds"
  shows "ds_write d (m, ds) = Inr (store_bytes m (ds_pos ds) d, ds_adv (length d) ds)"
proof -
  have r: "ds_room ds < 2 ^ 31" using assms by (auto simp: ds_out_ok_def ds_ok_def ds_room_def word_le_nat_alt)
  then have "unat (of_nat (length d) :: u32) = length d" using assms by (simp add: unat_of_nat_mod)
  moreover have "unat (ds_end ds - ds_pos ds) = ds_room ds"
    using assms by (simp add: unat_ds_remaining ds_out_ok_def)
  ultimately have "sint (of_nat (length d) :: u32) \<le> sint (ds_end ds - ds_pos ds)"
    using assms r by (simp add: sint_small del: of_nat_unat)
  then show ?thesis by (simp add: ds_write_def ds_adv_def)
qed

lemma ds_write_full:
  assumes "ds_out_ok ds" "ds_room ds < length d" "length d < 2 ^ 31"
  shows "ds_write d (m, ds) = Inl (Abort ''write'')"
proof -
  have "unat (of_nat (length d) :: u32) = length d" using assms by (simp add: unat_of_nat_mod)
  moreover have "unat (ds_end ds - ds_pos ds) = ds_room ds"
    using assms by (simp add: unat_ds_remaining ds_out_ok_def)
  ultimately have "\<not> sint (of_nat (length d) :: u32) \<le> sint (ds_end ds - ds_pos ds)"
    using assms by (simp add: sint_small del: of_nat_unat)
  then show ?thesis by (simp add: ds_write_def)
qed

text \<open>Writing to memory: the bytes go to the addresses from the position on.\<close>

definition buf_adv :: "byte list \<Rightarrow> mem \<times> datastream \<Rightarrow> mem \<times> datastream" where
  "buf_adv bs mds = (store_bytes (fst mds) (ds_pos (snd mds)) bs, ds_adv (length bs) (snd mds))"

interpretation ws: bounded_out_stream ds_write "\<lambda>mds. ds_out_ok (snd mds)"
  "\<lambda>mds. ds_room (snd mds)" buf_adv
  by unfold_locales
    (auto simp: buf_adv_def ds_write_ok ds_write_full ds_out_ok_def ds_adv_ok ds_adv_room
       ds_adv_adv store_bytes_append)

interpretation ss: out_stream sz_write "\<lambda>_. True" "\<lambda>n. 2 ^ 32 - 1 - unat n"
  "\<lambda>bs n. n + of_nat (length bs)"
proof unfold_locales
  fix s :: u32 and bs :: "byte list" assume "length bs \<le> 2 ^ 32 - 1 - unat s"
  then have "unat s + length bs < 2 ^ 32" using unsigned_less [of s, where 'a = nat] by simp
  then show "2 ^ 32 - 1 - unat (s + of_nat (length bs)) = 2 ^ 32 - 1 - unat s - length bs"
    by (simp add: unat_add_of_nat)
qed (simp_all add: sz_write_def ac_simps)

lemma mk_datastream_ok:
  "unat start + unat s < 2 ^ 32 \<Longrightarrow> ds_ok (mk_datastream start s)"
  by (simp add: ds_ok_def mk_datastream_def word_le_nat_alt unat_add_small)

lemma mk_datastream_room:
  "unat start + unat s < 2 ^ 32 \<Longrightarrow> ds_room (mk_datastream start s) = unat s"
  by (simp add: ds_room_def mk_datastream_def unat_add_small)

lemma mk_datastream_out_ok:
  "unat start + unat s < 2 ^ 32 \<Longrightarrow> unat s < 2 ^ 31 \<Longrightarrow> ds_out_ok (mk_datastream start s)"
  using mk_datastream_ok [of start s]
  by (simp add: ds_out_ok_def) (simp add: mk_datastream_def unat_add_small)

lemma mk_datastream_simps [simp]:
  "ds_pos (mk_datastream start s) = start" "ds_start (mk_datastream start s) = start"
  "ds_end (mk_datastream start s) = start + s"
  by (simp_all add: mk_datastream_def)

end
