(* ===== verification/Serialize.thy ===== *)
theory Serialize
  imports Datastream
begin

text \<open>
  The serialisation operators of \<open>datastream.hpp\<close>, one definition per overload, over any
  stream class. The C++ type of a serialised object is a value of \<open>ty\<close>, the object a value
  of \<open>val\<close>; \<open>ser\<close> and \<open>deser\<close> choose the overload as overload resolution does. An operator
  for a container is given the insertions (extractions) of its elements.
\<close>

section \<open>Types and objects\<close>

text \<open>
  Objects of arithmetic and enumeration types are their object representation, so
  \<open>TPrim n\<close> stands for all of them with \<open>sizeof(T) = n\<close>. \<open>TClass\<close> is a user-defined
  aggregate, taken apart field by field.
\<close>

datatype ty =
    TPrim nat | TBool | TUnsignedInt | TSignedInt | TString | TVectorChar
  | TList ty | TDeque ty | TVector ty | TSet ty | TMap ty ty
  | TOptional ty | TVariant "ty list" | TPair ty ty | TTuple "ty list" | TClass "ty list"
  | TArray nat ty | TCArray nat ty | TCArrayPrim nat nat

datatype val =
    VPrim "byte list" | VBool bool | VUnsignedInt unsigned_int | VSignedInt signed_int
  | VString "byte list" | VVectorChar "byte list"
  | VList "val list" | VDeque "val list" | VVector "val list"
  | VSet "val list" | VMap "(val \<times> val) list"
  | VOptional "val option" | VVariant nat val | VPair val val | VTuple "val list"
  | VClass "val list" | VArray "val list" | VCArray "val list" | VCArrayPrim nat "byte list"

section \<open>Insertion\<close>

type_synonym 's action = "'s \<Rightarrow> 's res"

text \<open>\<open>for (const auto &elem : c) ds << elem\<close>\<close>

fun each :: "'s action list \<Rightarrow> 's action" where
  "each [] s = Inr s"
| "each (a # as) s = rbind (a s) (each as)"

definition put_size :: "'s writer \<Rightarrow> nat \<Rightarrow> 's action" where
  "put_size wr n s = put_unsigned_int wr (unsigned_int (of_nat n)) s"

definition out_primitive :: "'s writer \<Rightarrow> byte list \<Rightarrow> 's action" where
  "out_primitive wr v s = wr v s"

definition out_list :: "'s writer \<Rightarrow> 's action list \<Rightarrow> 's action" where
  "out_list wr l s = rbind (put_size wr (length l) s) (each l)"

definition out_deque :: "'s writer \<Rightarrow> 's action list \<Rightarrow> 's action" where
  "out_deque wr d s = rbind (put_size wr (length d) s) (each d)"

definition out_variant :: "'s writer \<Rightarrow> nat \<Rightarrow> 's action \<Rightarrow> 's action" where
  "out_variant wr index val s = rbind (put_size wr index s) val"

definition out_pair :: "'s action \<Rightarrow> 's action \<Rightarrow> 's action" where
  "out_pair t0 t1 s = rbind (t0 s) t1"

definition out_optional :: "'s writer \<Rightarrow> 's action option \<Rightarrow> 's action" where
  "out_optional wr opt s =
     (let valid = (if opt \<noteq> None then 1 else 0 :: byte)
      in rbind (out_primitive wr [valid] s)
           (\<lambda>s. if valid \<noteq> 0 then (case opt of Some v \<Rightarrow> v s | None \<Rightarrow> Inr s) else Inr s))"

definition out_bool :: "'s writer \<Rightarrow> bool \<Rightarrow> 's action" where
  "out_bool wr d s = out_primitive wr [if d then 1 else 0] s"

definition out_string :: "'s writer \<Rightarrow> byte list \<Rightarrow> 's action" where
  "out_string wr v s =
     rbind (put_size wr (length v) s) (\<lambda>s. if length v \<noteq> 0 then wr v s else Inr s)"

definition out_array :: "'s action list \<Rightarrow> 's action" where
  "out_array v s = each v s"

definition out_c_array :: "'s writer \<Rightarrow> 's action list \<Rightarrow> 's action" where
  "out_c_array wr v s = rbind (put_size wr (length v) s) (each v)"

definition out_c_array_primitive :: "'s writer \<Rightarrow> nat \<Rightarrow> byte list \<Rightarrow> 's action" where
  "out_c_array_primitive wr n v s = rbind (put_size wr n s) (wr v)"

definition out_vector_char :: "'s writer \<Rightarrow> byte list \<Rightarrow> 's action" where
  "out_vector_char wr v s = rbind (put_size wr (length v) s) (wr v)"

definition out_vector :: "'s writer \<Rightarrow> 's action list \<Rightarrow> 's action" where
  "out_vector wr v s = rbind (put_size wr (length v) s) (each v)"

definition out_set :: "'s writer \<Rightarrow> 's action list \<Rightarrow> 's action" where
  "out_set wr v s = rbind (put_size wr (length v) s) (each v)"

definition out_map :: "'s writer \<Rightarrow> ('s action \<times> 's action) list \<Rightarrow> 's action" where
  "out_map wr m s =
     rbind (put_size wr (length m) s) (each (map (\<lambda>(k, v) s. rbind (k s) v) m))"

definition out_tuple :: "'s action list \<Rightarrow> 's action" where
  "out_tuple t s = each t s"

definition out_class :: "'s action list \<Rightarrow> 's action" where
  "out_class v s = each v s"

text \<open>\<open>ds << v\<close>: the overload chosen for the type of \<open>v\<close>.\<close>

primrec ser :: "'s writer \<Rightarrow> val \<Rightarrow> 's action" where
  "ser wr (VPrim v) = out_primitive wr v"
| "ser wr (VBool b) = out_bool wr b"
| "ser wr (VUnsignedInt v) = put_unsigned_int wr v"
| "ser wr (VSignedInt v) = put_signed_int wr v"
| "ser wr (VString v) = out_string wr v"
| "ser wr (VVectorChar v) = out_vector_char wr v"
| "ser wr (VList l) = out_list wr (map (ser wr) l)"
| "ser wr (VDeque d) = out_deque wr (map (ser wr) d)"
| "ser wr (VVector v) = out_vector wr (map (ser wr) v)"
| "ser wr (VSet v) = out_set wr (map (ser wr) v)"
| "ser wr (VMap m) = out_map wr (map (map_prod (ser wr) (ser wr)) m)"
| "ser wr (VOptional opt) = out_optional wr (map_option (ser wr) opt)"
| "ser wr (VVariant index val) = out_variant wr index (ser wr val)"
| "ser wr (VPair t0 t1) = out_pair (ser wr t0) (ser wr t1)"
| "ser wr (VTuple t) = out_tuple (map (ser wr) t)"
| "ser wr (VClass v) = out_class (map (ser wr) v)"
| "ser wr (VArray v) = out_array (map (ser wr) v)"
| "ser wr (VCArray v) = out_c_array wr (map (ser wr) v)"
| "ser wr (VCArrayPrim n v) = out_c_array_primitive wr n v"

section \<open>Extraction\<close>

text \<open>
  \<open>ds >> v\<close> overwrites the object \<open>v\<close>, whose old value the operators for containers and
  for \<open>std::optional\<close> keep in part, so an extraction takes the old value of its destination.
\<close>

type_synonym 's extraction = "val \<Rightarrow> (val, 's) parser"

definition resize :: "nat \<Rightarrow> 'a \<Rightarrow> 'a list \<Rightarrow> 'a list" where
  "resize n dflt l = take n l @ replicate (n - length l) dflt"

text \<open>\<open>for (auto &i : l) ds >> i\<close>\<close>

fun in_each :: "'s extraction \<Rightarrow> val list \<Rightarrow> (val list, 's) parser" where
  "in_each f [] s = Inr ([], s)"
| "in_each f (d # ds) s =
     rbind (f d s) (\<lambda>(x, s). rbind (in_each f ds s) (\<lambda>(xs, s). Inr (x # xs, s)))"

text \<open>The fields of a tuple or of a class, each with its own extraction.\<close>

fun in_fields :: "('s extraction \<times> val) list \<Rightarrow> (val list, 's) parser" where
  "in_fields [] s = Inr ([], s)"
| "in_fields ((f, d) # ds) s =
     rbind (f d s) (\<lambda>(x, s). rbind (in_fields ds s) (\<lambda>(xs, s). Inr (x # xs, s)))"

definition in_primitive :: "'s istream \<Rightarrow> nat \<Rightarrow> (byte list, 's) parser" where
  "in_primitive st n s = rd st n s"

definition in_list :: "'s istream \<Rightarrow> 's extraction \<Rightarrow> val \<Rightarrow> val list \<Rightarrow> (val list, 's) parser" where
  "in_list st f dflt l s =
     rbind (get_unsigned_int st s) (\<lambda>(n, s). in_each f (resize (unat (ui_value n)) dflt l) s)"

definition in_deque :: "'s istream \<Rightarrow> 's extraction \<Rightarrow> val \<Rightarrow> val list \<Rightarrow> (val list, 's) parser" where
  "in_deque st f dflt d s =
     rbind (get_unsigned_int st s) (\<lambda>(n, s). in_each f (resize (unat (ui_value n)) dflt d) s)"

definition in_vector :: "'s istream \<Rightarrow> 's extraction \<Rightarrow> val \<Rightarrow> val list \<Rightarrow> (val list, 's) parser" where
  "in_vector st f dflt v s =
     rbind (get_unsigned_int st s) (\<lambda>(n, s). in_each f (resize (unat (ui_value n)) dflt v) s)"

text \<open>
  \<open>deserialize<I>\<close> walks over the alternatives; the parser at position \<open>I\<close> extracts into a
  fresh object of the alternative's type. \<open>index\<close> arrives as an \<open>int\<close>.
\<close>

function deserialize :: "nat \<Rightarrow> (val, 's) parser list \<Rightarrow> int \<Rightarrow> (nat \<times> val, 's) parser" where
  "deserialize I alts i s =
     (if I < length alts then
        if i = int I then rbind ((alts ! I) s) (\<lambda>(tmp, s). Inr ((I, tmp), s))
        else deserialize (I + 1) alts i s
      else rbind (check False ''invalid variant index'') (\<lambda>_. Inl (UB ''unreachable'')))"
  by pat_completeness auto

termination
  by (relation "measure (\<lambda>(I, alts, i, s). length alts - I)") auto

declare deserialize.simps [simp del]

definition in_variant :: "'s istream \<Rightarrow> (val, 's) parser list \<Rightarrow> (nat \<times> val, 's) parser" where
  "in_variant st alts s =
     rbind (get_unsigned_int st s) (\<lambda>(index, s). deserialize 0 alts (sint (ui_as index :: u32)) s)"

definition in_pair :: "(val, 's) parser \<Rightarrow> (val, 's) parser \<Rightarrow> (val \<times> val, 's) parser" where
  "in_pair t1 t2 s = rbind (t1 s) (\<lambda>(a, s). rbind (t2 s) (\<lambda>(b, s). Inr ((a, b), s)))"

definition in_optional :: "'s istream \<Rightarrow> (val, 's) parser \<Rightarrow> val option \<Rightarrow> (val option, 's) parser" where
  "in_optional st f opt s =
     rbind (in_primitive st 1 s) (\<lambda>(valid, s).
       if hd valid \<noteq> 0 then rbind (f s) (\<lambda>(x, s). Inr (Some x, s)) else Inr (opt, s))"

definition in_bool :: "'s istream \<Rightarrow> (bool, 's) parser" where
  "in_bool st s = rbind (in_primitive st 1 s) (\<lambda>(t, s). Inr (hd t \<noteq> 0, s))"

definition in_vector_char :: "'s istream \<Rightarrow> (byte list, 's) parser" where
  "in_vector_char st s = rbind (get_unsigned_int st s) (\<lambda>(n, s). rd st (unat (ui_value n)) s)"

definition in_string :: "'s istream \<Rightarrow> (byte list, 's) parser" where
  "in_string st s =
     rbind (in_vector_char st s) (\<lambda>(tmp, s). Inr (if length tmp \<noteq> 0 then tmp else [], s))"

definition in_array :: "'s extraction \<Rightarrow> val list \<Rightarrow> (val list, 's) parser" where
  "in_array f v s = in_each f v s"

definition in_c_array :: "'s istream \<Rightarrow> nat \<Rightarrow> 's extraction \<Rightarrow> val list \<Rightarrow> (val list, 's) parser" where
  "in_c_array st n f v s =
     rbind (get_unsigned_int st s) (\<lambda>(k, s).
       rbind (check (of_nat n = ui_value k) ''T[] size and unpacked size don't match'')
         (\<lambda>_. in_each f v s))"

definition in_c_array_primitive :: "'s istream \<Rightarrow> nat \<Rightarrow> nat \<Rightarrow> (byte list, 's) parser" where
  "in_c_array_primitive st n size_of s =
     rbind (get_unsigned_int st s) (\<lambda>(k, s).
       rbind (check (of_nat n = ui_value k) ''T[] size and unpacked size don't match'')
         (\<lambda>_. rd st (n * size_of) s))"

text \<open>
  \<open>emplace\<close> of an ordered container: the position is found with the comparison \<open>lt\<close>, and an
  element that compares neither smaller nor greater than an old one is not inserted.
\<close>

fun emplace :: "('k \<Rightarrow> 'k \<Rightarrow> bool) \<Rightarrow> ('a \<Rightarrow> 'k) \<Rightarrow> 'a \<Rightarrow> 'a list \<Rightarrow> 'a list" where
  "emplace lt key x [] = [x]"
| "emplace lt key x (y # ys) =
     (if lt (key x) (key y) then x # y # ys
      else if lt (key y) (key x) then y # emplace lt key x ys
      else y # ys)"

fun in_set_loop ::
    "nat \<Rightarrow> (val \<Rightarrow> val \<Rightarrow> bool) \<Rightarrow> (val, 's) parser \<Rightarrow> val list \<Rightarrow> (val list, 's) parser" where
  "in_set_loop 0 lt f acc s = Inr (acc, s)"
| "in_set_loop (Suc n) lt f acc s =
     rbind (f s) (\<lambda>(v, s). in_set_loop n lt f (emplace lt (\<lambda>x. x) v acc) s)"

definition in_set ::
    "'s istream \<Rightarrow> (val \<Rightarrow> val \<Rightarrow> bool) \<Rightarrow> (val, 's) parser \<Rightarrow> (val list, 's) parser" where
  "in_set st lt f s =
     rbind (get_unsigned_int st s) (\<lambda>(sz, s). in_set_loop (unat (ui_value sz)) lt f [] s)"

fun in_map_loop ::
    "nat \<Rightarrow> (val \<Rightarrow> val \<Rightarrow> bool) \<Rightarrow> (val, 's) parser \<Rightarrow> (val, 's) parser \<Rightarrow>
     (val \<times> val) list \<Rightarrow> ((val \<times> val) list, 's) parser" where
  "in_map_loop 0 lt fk fv acc s = Inr (acc, s)"
| "in_map_loop (Suc n) lt fk fv acc s =
     rbind (fk s) (\<lambda>(k, s). rbind (fv s) (\<lambda>(v, s).
       in_map_loop n lt fk fv (emplace lt fst (k, v) acc) s))"

definition in_map ::
    "'s istream \<Rightarrow> (val \<Rightarrow> val \<Rightarrow> bool) \<Rightarrow> (val, 's) parser \<Rightarrow> (val, 's) parser \<Rightarrow>
     ((val \<times> val) list, 's) parser" where
  "in_map st lt fk fv s =
     rbind (get_unsigned_int st s) (\<lambda>(sz, s). in_map_loop (unat (ui_value sz)) lt fk fv [] s)"

definition in_tuple :: "('s extraction \<times> val) list \<Rightarrow> (val list, 's) parser" where
  "in_tuple t s = in_fields t s"

definition in_class :: "('s extraction \<times> val) list \<Rightarrow> (val list, 's) parser" where
  "in_class v s = in_fields v s"

text \<open>
  A fresh object of a type, as \<open>T v;\<close> makes it. Members of arithmetic type start
  indeterminate; no extraction reads them before it has overwritten them, and the model
  starts them at zero.
\<close>

primrec default_val :: "ty \<Rightarrow> val" where
  "default_val (TPrim n) = VPrim (replicate n 0)"
| "default_val TBool = VBool False"
| "default_val TUnsignedInt = VUnsignedInt (unsigned_int 0)"
| "default_val TSignedInt = VSignedInt (signed_int 0)"
| "default_val TString = VString []"
| "default_val TVectorChar = VVectorChar []"
| "default_val (TList t) = VList []"
| "default_val (TDeque t) = VDeque []"
| "default_val (TVector t) = VVector []"
| "default_val (TSet t) = VSet []"
| "default_val (TMap k v) = VMap []"
| "default_val (TOptional t) = VOptional None"
| "default_val (TVariant ts) = VVariant 0 (case map default_val ts of [] \<Rightarrow> VBool False | d # _ \<Rightarrow> d)"
| "default_val (TPair a b) = VPair (default_val a) (default_val b)"
| "default_val (TTuple ts) = VTuple (map default_val ts)"
| "default_val (TClass ts) = VClass (map default_val ts)"
| "default_val (TArray n t) = VArray (replicate n (default_val t))"
| "default_val (TCArray n t) = VCArray (replicate n (default_val t))"
| "default_val (TCArrayPrim n size_of) = VCArrayPrim n (replicate (n * size_of) 0)"

text \<open>The elements of a destination that is a sequence.\<close>

fun elems :: "val \<Rightarrow> val list" where
  "elems (VList l) = l"
| "elems (VDeque l) = l"
| "elems (VVector l) = l"
| "elems (VTuple l) = l"
| "elems (VClass l) = l"
| "elems (VArray l) = l"
| "elems (VCArray l) = l"
| "elems (VPair a b) = [a, b]"
| "elems (VOptional (Some x)) = [x]"
| "elems _ = []"

definition map_res :: "('a \<Rightarrow> 'b) \<Rightarrow> ('a \<times> 's) res \<Rightarrow> ('b \<times> 's) res" where
  "map_res f r = rbind r (\<lambda>(x, s). Inr (f x, s))"

text \<open>
  \<open>ds >> d\<close> for a destination \<open>d\<close> of type \<open>t\<close>; \<open>lt t\<close> is \<open>std::less\<close> on the objects of type
  \<open>t\<close>.
\<close>

primrec deser :: "(ty \<Rightarrow> val \<Rightarrow> val \<Rightarrow> bool) \<Rightarrow> 's istream \<Rightarrow> ty \<Rightarrow> 's extraction" where
  "deser lt st (TPrim n) = (\<lambda>d s. map_res VPrim (in_primitive st n s))"
| "deser lt st TBool = (\<lambda>d s. map_res VBool (in_bool st s))"
| "deser lt st TUnsignedInt = (\<lambda>d s. map_res VUnsignedInt (get_unsigned_int st s))"
| "deser lt st TSignedInt = (\<lambda>d s. map_res VSignedInt (get_signed_int st s))"
| "deser lt st TString = (\<lambda>d s. map_res VString (in_string st s))"
| "deser lt st TVectorChar = (\<lambda>d s. map_res VVectorChar (in_vector_char st s))"
| "deser lt st (TList t) =
     (\<lambda>d s. map_res VList (in_list st (deser lt st t) (default_val t) (elems d) s))"
| "deser lt st (TDeque t) =
     (\<lambda>d s. map_res VDeque (in_deque st (deser lt st t) (default_val t) (elems d) s))"
| "deser lt st (TVector t) =
     (\<lambda>d s. map_res VVector (in_vector st (deser lt st t) (default_val t) (elems d) s))"
| "deser lt st (TSet t) =
     (\<lambda>d s. map_res VSet (in_set st (lt t) (deser lt st t (default_val t)) s))"
| "deser lt st (TMap k v) =
     (\<lambda>d s. map_res VMap (in_map st (lt k) (deser lt st k (default_val k))
                                          (deser lt st v (default_val v)) s))"
| "deser lt st (TOptional t) =
     (\<lambda>d s. map_res VOptional (in_optional st (deser lt st t (default_val t))
                                  (case elems d of [] \<Rightarrow> None | x # _ \<Rightarrow> Some x) s))"
| "deser lt st (TVariant ts) =
     (\<lambda>d s. map_res (\<lambda>(i, x). VVariant i x)
              (in_variant st (map (\<lambda>t. deser lt st t (default_val t)) ts) s))"
| "deser lt st (TPair a b) =
     (\<lambda>d s. map_res (\<lambda>(x, y). VPair x y)
              (in_pair (deser lt st a (default_val a)) (deser lt st b (default_val b)) s))"
| "deser lt st (TTuple ts) =
     (\<lambda>d s. map_res VTuple (in_tuple (zip (map (deser lt st) ts) (elems d)) s))"
| "deser lt st (TClass ts) =
     (\<lambda>d s. map_res VClass (in_class (zip (map (deser lt st) ts) (elems d)) s))"
| "deser lt st (TArray n t) = (\<lambda>d s. map_res VArray (in_array (deser lt st t) (elems d) s))"
| "deser lt st (TCArray n t) =
     (\<lambda>d s. map_res VCArray (in_c_array st n (deser lt st t) (elems d) s))"
| "deser lt st (TCArrayPrim n size_of) =
     (\<lambda>d s. map_res (VCArrayPrim n) (in_c_array_primitive st n size_of s))"

end
