(* ===== verification/Codec.thy ===== *)
theory Codec
  imports Serialize
begin

text \<open>
  What the operators of \<open>Serialize\<close> promise. \<open>chunks v\<close> lists the blocks an insertion writes
  and \<open>enc v\<close> their concatenation, the wire format; every insertion into any stream is
  \<open>write_all\<close> of the chunks. Extraction inverts it on well-typed objects (\<open>has_type\<close>) when
  the destination is \<open>fresh\<close>. \<open>pack_size\<close>, \<open>pack\<close> and \<open>unpack\<close> close \<open>datastream.hpp\<close>.
\<close>

section \<open>The wire format\<close>

definition size_bytes :: "nat \<Rightarrow> byte list" where
  "size_bytes n = vbytes (n mod 2 ^ 32)"

abbreviation singles :: "byte list \<Rightarrow> byte list list" where
  "singles \<equiv> map (\<lambda>b. [b])"

primrec chunks :: "val \<Rightarrow> byte list list" where
  "chunks (VPrim v) = [v]"
| "chunks (VBool b) = [[if b then 1 else 0]]"
| "chunks (VUnsignedInt v) = singles (vbytes (unat (ui_value v)))"
| "chunks (VSignedInt v) = singles (vbytes (unat (zigzag (si_value v))))"
| "chunks (VString v) = singles (size_bytes (length v)) @ (if v = [] then [] else [v])"
| "chunks (VVectorChar v) = singles (size_bytes (length v)) @ [v]"
| "chunks (VList l) = singles (size_bytes (length l)) @ concat (map chunks l)"
| "chunks (VDeque l) = singles (size_bytes (length l)) @ concat (map chunks l)"
| "chunks (VVector l) = singles (size_bytes (length l)) @ concat (map chunks l)"
| "chunks (VSet l) = singles (size_bytes (length l)) @ concat (map chunks l)"
| "chunks (VMap m) = singles (size_bytes (length m)) @
     concat (map (\<lambda>(k, v). k @ v) (map (map_prod chunks chunks) m))"
| "chunks (VOptional opt) = (case map_option chunks opt of None \<Rightarrow> [[0]] | Some c \<Rightarrow> [1] # c)"
| "chunks (VVariant i v) = singles (size_bytes i) @ chunks v"
| "chunks (VPair a b) = chunks a @ chunks b"
| "chunks (VTuple l) = concat (map chunks l)"
| "chunks (VClass l) = concat (map chunks l)"
| "chunks (VArray l) = concat (map chunks l)"
| "chunks (VCArray l) = singles (size_bytes (length l)) @ concat (map chunks l)"
| "chunks (VCArrayPrim n v) = singles (size_bytes n) @ [v]"

definition enc :: "val \<Rightarrow> byte list" where
  "enc v = concat (chunks v)"

lemma concat_singles [simp]: "concat (singles bs) = bs"
  by (induction bs) auto

lemma put_size_chunks: "put_size wr n = write_all wr (singles (size_bytes n))"
  by (rule ext) (simp add: put_size_def put_unsigned_int_chunks unsigned_int_def size_bytes_def unat_of_nat_mod)

lemma each_write_all: "each (map (write_all wr) cs) = write_all wr (concat cs)"
proof (induction cs)
  case (Cons c cs)
  show ?case by (rule ext) (simp add: Cons.IH write_all_append)
qed (simp add: fun_eq_iff)

lemma each_ser:
  "(\<And>v. v \<in> set vs \<Longrightarrow> ser wr v = write_all wr (chunks v)) \<Longrightarrow>
     each (map (ser wr) vs) = write_all wr (concat (map chunks vs))"
  using each_write_all [of wr "map chunks vs"] by (simp cong: map_cong)

lemma each_ser_map:
  assumes "\<And>k v. (k, v) \<in> set m \<Longrightarrow> ser wr k = write_all wr (chunks k) \<and> ser wr v = write_all wr (chunks v)"
  shows "each (map (\<lambda>(k, v) s. rbind (k s) v) (map (map_prod (ser wr) (ser wr)) m))
       = write_all wr (concat (map (\<lambda>(k, v). k @ v) (map (map_prod chunks chunks) m)))"
  using assms
proof (induction m)
  case (Cons p m)
  obtain k v where p: "p = (k, v)" by (cases p)
  have IH: "each (map (\<lambda>(k, v) s. rbind (k s) v) (map (map_prod (ser wr) (ser wr)) m))
       = write_all wr (concat (map (\<lambda>(k, v). k @ v) (map (map_prod chunks chunks) m)))"
    by (rule Cons.IH) (use Cons.prems in auto)
  have kv: "ser wr k = write_all wr (chunks k)" "ser wr v = write_all wr (chunks v)"
    using Cons.prems p by auto
  show ?case
    by (rule ext) (simp add: p kv IH write_all_append_fun rbind_assoc del: map_map)
qed (simp add: fun_eq_iff)

lemma rbind_write_all:
  "rbind (write_all wr cs s) (write_all wr ds) = write_all wr (cs @ ds) s"
  by (simp add: write_all_append)

lemmas out_defs =
  out_primitive_def out_bool_def out_string_def out_vector_char_def out_list_def out_deque_def
  out_vector_def out_set_def out_map_def out_optional_def out_variant_def out_pair_def
  out_tuple_def out_class_def out_array_def out_c_array_def out_c_array_primitive_def

text \<open>Every overload of \<open>operator<<\<close> writes the chunks of its object and nothing else.\<close>

lemma ser_chunks: "ser wr v = write_all wr (chunks v)"
proof (induction v)
  case (VMap m)
  then have "\<And>k v. (k, v) \<in> set m \<Longrightarrow> ser wr k = write_all wr (chunks k) \<and> ser wr v = write_all wr (chunks v)"
    by fastforce
  then have each: "each (map (\<lambda>(k, v) s. rbind (k s) v) (map (map_prod (ser wr) (ser wr)) m))
       = write_all wr (concat (map (\<lambda>(k, v). k @ v) (map (map_prod chunks chunks) m)))"
    by (rule each_ser_map)
  show ?case
    by (rule ext) (simp add: out_map_def put_size_chunks each write_all_append_fun del: map_map)
next
  case (VOptional opt)
  then show ?case
    by (cases opt) (simp_all add: fun_eq_iff out_defs)
qed ((rule ext, simp add: out_defs put_size_chunks each_ser put_unsigned_int_chunks
       put_signed_int_chunks write_all_append_fun write_all_single)+)

text \<open>The wire format by cases, as bytes.\<close>

lemma enc_simps [simp]:
  "enc (VPrim b) = b"
  "enc (VBool c) = [if c then 1 else 0]"
  "enc (VUnsignedInt u) = vbytes (unat (ui_value u))"
  "enc (VSignedInt i) = vbytes (unat (zigzag (si_value i)))"
  "enc (VString b) = size_bytes (length b) @ b"
  "enc (VVectorChar b) = size_bytes (length b) @ b"
  "enc (VList l) = size_bytes (length l) @ concat (map enc l)"
  "enc (VDeque l) = size_bytes (length l) @ concat (map enc l)"
  "enc (VVector l) = size_bytes (length l) @ concat (map enc l)"
  "enc (VSet l) = size_bytes (length l) @ concat (map enc l)"
  "enc (VMap m) = size_bytes (length m) @ concat (map (\<lambda>(k, v). enc k @ enc v) m)"
  "enc (VOptional None) = [0]"
  "enc (VOptional (Some v)) = 1 # enc v"
  "enc (VVariant n v) = size_bytes n @ enc v"
  "enc (VPair v w) = enc v @ enc w"
  "enc (VTuple l) = concat (map enc l)"
  "enc (VClass l) = concat (map enc l)"
  "enc (VArray l) = concat (map enc l)"
  "enc (VCArray l) = size_bytes (length l) @ concat (map enc l)"
  "enc (VCArrayPrim n b) = size_bytes n @ b"
proof -
  have c: "concat (concat (map chunks l)) = concat (map enc l)" for l
    by (induction l) (auto simp: enc_def)
  then show
    "enc (VList l) = size_bytes (length l) @ concat (map enc l)"
    "enc (VDeque l) = size_bytes (length l) @ concat (map enc l)"
    "enc (VVector l) = size_bytes (length l) @ concat (map enc l)"
    "enc (VSet l) = size_bytes (length l) @ concat (map enc l)"
    "enc (VTuple l) = concat (map enc l)"
    "enc (VClass l) = concat (map enc l)"
    "enc (VArray l) = concat (map enc l)"
    "enc (VCArray l) = size_bytes (length l) @ concat (map enc l)"
    by (simp_all add: enc_def)
  have "concat (concat (map (\<lambda>(k, v). k @ v) (map (map_prod chunks chunks) m)))
      = concat (map (\<lambda>(k, v). enc k @ enc v) m)"
    by (induction m) (auto simp: enc_def)
  then show "enc (VMap m) = size_bytes (length m) @ concat (map (\<lambda>(k, v). enc k @ enc v) m)"
    by (simp add: enc_def)
qed (simp_all add: enc_def)

section \<open>\<open>pack_size\<close>, \<open>pack\<close>, \<open>unpack\<close>\<close>

definition pack_size :: "val \<Rightarrow> u32 res" where
  "pack_size value = rbind (ser sz_write value (mk_size_stream 0)) (\<lambda>ps. Inr (sz_tellp ps))"

text \<open>\<open>p\<close> is the address of the storage of the result vector, which \<open>resize\<close> zeroes.\<close>

definition pack :: "mem \<Rightarrow> u32 \<Rightarrow> val \<Rightarrow> byte list res" where
  "pack m p value =
     rbind (pack_size value) (\<lambda>n.
       let m = store_bytes m p (replicate (unat n) 0) in
       rbind (ser ds_write value (m, mk_datastream p n)) (\<lambda>(m, ds).
         Inr (load_bytes m p (unat n))))"

definition unpack :: "(ty \<Rightarrow> val \<Rightarrow> val \<Rightarrow> bool) \<Rightarrow> ty \<Rightarrow> mem \<Rightarrow> u32 \<Rightarrow> u32 \<Rightarrow> val res" where
  "unpack lt t m buffer len =
     rbind (deser lt (mem_stream m) t (default_val t) (mk_datastream buffer len))
       (\<lambda>(result, ds). Inr result)"

text \<open>\<open>unpack(const std::vector<char> &bytes)\<close>: the vector's storage is at \<open>p\<close>.\<close>

definition unpack_vector ::
    "(ty \<Rightarrow> val \<Rightarrow> val \<Rightarrow> bool) \<Rightarrow> ty \<Rightarrow> mem \<Rightarrow> u32 \<Rightarrow> byte list \<Rightarrow> val res" where
  "unpack_vector lt t m p bytes = unpack lt t (store_bytes m p bytes) p (of_nat (length bytes))"

lemma pack_size_enc:
  "length (enc v) < 2 ^ 32 \<Longrightarrow> pack_size v = Inr (of_nat (length (enc v)))"
  by (simp add: pack_size_def ser_chunks mk_size_stream_def sz_tellp_def ss.write_all_ok enc_def)

text \<open>Insertion into a buffer: the bytes of the wire format from the position on, or an abort.\<close>

lemma ser_buffer_ok:
  "ds_out_ok ds \<Longrightarrow> length (enc v) \<le> ds_room ds \<Longrightarrow>
     ser ds_write v (m, ds) = Inr (store_bytes m (ds_pos ds) (enc v), ds_adv (length (enc v)) ds)"
  using ws.write_all_ok [of "(m, ds)" "chunks v"] by (simp add: ser_chunks enc_def buf_adv_def)

section \<open>Well-typed objects\<close>

text \<open>
  Objects a contract can hold: blocks of characters are shorter than \<open>2 ^ 31\<close>, the
  largest size \<open>std::vector<char>\<close> and \<open>std::string\<close> have on a 32-bit target, other
  containers have fewer than \<open>2 ^ 32\<close> elements, and ordered containers list their elements in
  strictly ascending order.
\<close>

definition ascending :: "('a \<Rightarrow> 'a \<Rightarrow> bool) \<Rightarrow> 'a list \<Rightarrow> bool" where
  "ascending lt xs \<longleftrightarrow> sorted_wrt (\<lambda>x y. lt x y \<and> \<not> lt y x) xs"

primrec has_type :: "(ty \<Rightarrow> val \<Rightarrow> val \<Rightarrow> bool) \<Rightarrow> ty \<Rightarrow> val \<Rightarrow> bool" where
  "has_type lt (TPrim n) = (\<lambda>v. case v of VPrim b \<Rightarrow> length b = n \<and> n < 2 ^ 31 | _ \<Rightarrow> False)"
| "has_type lt TBool = (\<lambda>v. case v of VBool b \<Rightarrow> True | _ \<Rightarrow> False)"
| "has_type lt TUnsignedInt = (\<lambda>v. case v of VUnsignedInt b \<Rightarrow> True | _ \<Rightarrow> False)"
| "has_type lt TSignedInt = (\<lambda>v. case v of VSignedInt b \<Rightarrow> True | _ \<Rightarrow> False)"
| "has_type lt TString = (\<lambda>v. case v of VString b \<Rightarrow> length b < 2 ^ 31 | _ \<Rightarrow> False)"
| "has_type lt TVectorChar = (\<lambda>v. case v of VVectorChar b \<Rightarrow> length b < 2 ^ 31 | _ \<Rightarrow> False)"
| "has_type lt (TList t) = (\<lambda>v. case v of VList l \<Rightarrow>
     length l < 2 ^ 32 \<and> list_all (has_type lt t) l | _ \<Rightarrow> False)"
| "has_type lt (TDeque t) = (\<lambda>v. case v of VDeque l \<Rightarrow>
     length l < 2 ^ 32 \<and> list_all (has_type lt t) l | _ \<Rightarrow> False)"
| "has_type lt (TVector t) = (\<lambda>v. case v of VVector l \<Rightarrow>
     length l < 2 ^ 32 \<and> list_all (has_type lt t) l | _ \<Rightarrow> False)"
| "has_type lt (TSet t) = (\<lambda>v. case v of VSet l \<Rightarrow>
     length l < 2 ^ 32 \<and> list_all (has_type lt t) l \<and> ascending (lt t) l | _ \<Rightarrow> False)"
| "has_type lt (TMap a b) = (\<lambda>v. case v of VMap m \<Rightarrow>
     length m < 2 ^ 32 \<and> list_all (has_type lt a) (map fst m) \<and> list_all (has_type lt b) (map snd m)
       \<and> ascending (lt a) (map fst m) | _ \<Rightarrow> False)"
| "has_type lt (TOptional t) = (\<lambda>v. case v of VOptional opt \<Rightarrow>
     (case opt of None \<Rightarrow> True | Some x \<Rightarrow> has_type lt t x) | _ \<Rightarrow> False)"
| "has_type lt (TVariant ts) = (\<lambda>v. case v of VVariant i x \<Rightarrow>
     i < length ts \<and> length ts < 2 ^ 31 \<and> (map (has_type lt) ts ! i) x | _ \<Rightarrow> False)"
| "has_type lt (TPair a b) = (\<lambda>v. case v of VPair x y \<Rightarrow> has_type lt a x \<and> has_type lt b y | _ \<Rightarrow> False)"
| "has_type lt (TTuple ts) = (\<lambda>v. case v of VTuple l \<Rightarrow>
     list_all2 (\<lambda>p x. p x) (map (has_type lt) ts) l | _ \<Rightarrow> False)"
| "has_type lt (TClass ts) = (\<lambda>v. case v of VClass l \<Rightarrow>
     list_all2 (\<lambda>p x. p x) (map (has_type lt) ts) l | _ \<Rightarrow> False)"
| "has_type lt (TArray n t) = (\<lambda>v. case v of VArray l \<Rightarrow>
     length l = n \<and> list_all (has_type lt t) l | _ \<Rightarrow> False)"
| "has_type lt (TCArray n t) = (\<lambda>v. case v of VCArray l \<Rightarrow>
     length l = n \<and> n < 2 ^ 32 \<and> list_all (has_type lt t) l | _ \<Rightarrow> False)"
| "has_type lt (TCArrayPrim n size_of) = (\<lambda>v. case v of VCArrayPrim k b \<Rightarrow>
     k = n \<and> n < 2 ^ 32 \<and> length b = n * size_of \<and> n * size_of < 2 ^ 31 | _ \<Rightarrow> False)"

text \<open>Destinations in which no \<open>std::optional\<close> is engaged.\<close>

primrec fresh :: "ty \<Rightarrow> val \<Rightarrow> bool" where
  "fresh (TPrim n) = (\<lambda>v. True)"
| "fresh TBool = (\<lambda>v. True)"
| "fresh TUnsignedInt = (\<lambda>v. True)"
| "fresh TSignedInt = (\<lambda>v. True)"
| "fresh TString = (\<lambda>v. True)"
| "fresh TVectorChar = (\<lambda>v. True)"
| "fresh (TList t) = (\<lambda>v. list_all (fresh t) (elems v))"
| "fresh (TDeque t) = (\<lambda>v. list_all (fresh t) (elems v))"
| "fresh (TVector t) = (\<lambda>v. list_all (fresh t) (elems v))"
| "fresh (TSet t) = (\<lambda>v. True)"
| "fresh (TMap a b) = (\<lambda>v. True)"
| "fresh (TOptional t) = (\<lambda>v. v = VOptional None)"
| "fresh (TVariant ts) = (\<lambda>v. True)"
| "fresh (TPair a b) = (\<lambda>v. True)"
| "fresh (TTuple ts) = (\<lambda>v. list_all2 (\<lambda>p x. p x) (map fresh ts) (elems v))"
| "fresh (TClass ts) = (\<lambda>v. list_all2 (\<lambda>p x. p x) (map fresh ts) (elems v))"
| "fresh (TArray n t) = (\<lambda>v. length (elems v) = n \<and> list_all (fresh t) (elems v))"
| "fresh (TCArray n t) = (\<lambda>v. length (elems v) = n \<and> list_all (fresh t) (elems v))"
| "fresh (TCArrayPrim n size_of) = (\<lambda>v. True)"

text \<open>The bytes that the insertion of an \<open>unsigned_int\<close> writes.\<close>

lemma unsigned_int_written: "put_unsigned_int list_writer v s = Inr (s @ enc (VUnsignedInt v))"
  by (simp add: put_unsigned_int_chunks write_all_list enc_def)

lemma fresh_default: "fresh t (default_val t)"
  by (induction t) (auto simp: list_all_length list_all2_conv_all_nth)

end
