(* ===== verification/Roundtrip.thy ===== *)
theory Roundtrip
  imports Codec
begin

text \<open>
  Extraction inverts insertion. First over byte lists, by induction on the type: what
  \<open>ser\<close> wrote, \<open>deser\<close> reads back and stops right behind it. Then every extraction over a
  stream of \<open>datastream.hpp\<close> simulates the extraction over the list of the bytes left in it,
  which carries the result to memory, \<open>pack\<close> and \<open>unpack\<close>.
\<close>

section \<open>Over byte lists\<close>

lemma get_size [simp]:
  "n < 2 ^ 32 \<Longrightarrow>
     get_unsigned_int list_stream (size_bytes n @ r) = Inr (unsigned_int (of_nat n), r)"
  using get_put_unsigned_int [of "unsigned_int (of_nat n)" r]
  by (simp add: size_bytes_def unat_of_nat_mod unsigned_int_def)

lemma lread_exact: "n = length bs \<Longrightarrow> lread n (bs @ r) = Inr (bs, r)"
  by (simp add: lread_def)

lemma lread_Suc_0 [simp]: "lread (Suc 0) (b # r) = Inr ([b], r)"
  by (simp add: lread_def)

lemma ui_value_unsigned_int [simp]: "ui_value (unsigned_int n) = n"
  by (simp add: unsigned_int_def)

lemma unat_of_nat_u32 [simp]: "n < 2 ^ 32 \<Longrightarrow> unat (of_nat n :: u32) = n"
  by (simp add: unat_of_nat_mod)

text \<open>\<open>reads f d x\<close>: the extraction \<open>f\<close> into \<open>d\<close> gives back \<open>x\<close> from its wire format.\<close>

definition reads :: "byte list extraction \<Rightarrow> val \<Rightarrow> val \<Rightarrow> bool" where
  "reads f d x \<longleftrightarrow> (\<forall>r. f d (enc x @ r) = Inr (x, r))"

lemma readsD [simp]: "reads f d x \<Longrightarrow> f d (enc x @ r) = Inr (x, r)"
  by (simp add: reads_def)

lemma in_each_enc:
  "list_all2 (reads f) ds xs \<Longrightarrow> in_each f ds (concat (map enc xs) @ r) = Inr (xs, r)"
  by (induction rule: list_all2_induct) auto

lemma in_fields_enc:
  "list_all2 (\<lambda>(f, d) x. reads f d x) fds xs \<Longrightarrow>
     in_fields fds (concat (map enc xs) @ r) = Inr (xs, r)"
  by (induction rule: list_all2_induct) auto

lemma length_resize [simp]: "length (resize n d l) = n"
  by (simp add: resize_def)

lemma list_all_resize: "list_all p l \<Longrightarrow> p d \<Longrightarrow> list_all p (resize n d l)"
  by (auto simp: resize_def list_all_iff dest: in_set_takeD)

lemma reads_all:
  "length ds = length xs \<Longrightarrow> list_all p ds \<Longrightarrow> list_all q xs \<Longrightarrow>
     (\<And>d x. p d \<Longrightarrow> q x \<Longrightarrow> reads f d x) \<Longrightarrow> list_all2 (reads f) ds xs"
  by (simp add: list_all2_conv_all_nth list_all_length)

lemma deserialize_at:
  "n < length alts \<Longrightarrow> I \<le> n \<Longrightarrow>
     deserialize I alts (int n) s = rbind ((alts ! n) s) (\<lambda>(tmp, s). Inr ((n, tmp), s))"
proof (induction "n - I" arbitrary: I)
  case 0
  then show ?case by (subst deserialize.simps) simp
next
  case (Suc k)
  then have "deserialize (I + 1) alts (int n) s = rbind ((alts ! n) s) (\<lambda>(tmp, s). Inr ((n, tmp), s))"
    by simp
  with Suc.hyps(2) Suc.prems show ?case by (subst deserialize.simps) auto
qed

lemma emplace_last:
  "ascending lt (map key ys @ [key x]) \<Longrightarrow> emplace lt key x ys = ys @ [x]"
  by (induction ys) (auto simp: ascending_def)

lemma in_set_loop_enc:
  "ascending lt (acc @ xs) \<Longrightarrow> list_all (\<lambda>x. \<forall>r. f (enc x @ r) = Inr (x, r)) xs \<Longrightarrow>
     in_set_loop (length xs) lt f acc (concat (map enc xs) @ r) = Inr (acc @ xs, r)"
proof (induction xs arbitrary: acc)
  case (Cons x xs)
  have "ascending lt (map (\<lambda>x. x) acc @ [x])"
    using Cons.prems(1) by (simp add: ascending_def sorted_wrt_append)
  then have e: "emplace lt (\<lambda>x. x) x acc = acc @ [x]" by (rule emplace_last)
  show ?case using Cons.prems Cons.IH [of "acc @ [x]"] by (simp add: e)
qed simp

lemma in_map_loop_enc:
  "ascending lt (map fst (acc @ m)) \<Longrightarrow>
   list_all (\<lambda>(k, v). \<forall>r. fk (enc k @ r) = Inr (k, r) \<and> fv (enc v @ r) = Inr (v, r)) m \<Longrightarrow>
     in_map_loop (length m) lt fk fv acc (concat (map (\<lambda>(k, v). enc k @ enc v) m) @ r) =
       Inr (acc @ m, r)"
proof (induction m arbitrary: acc)
  case (Cons p m)
  obtain k v where p: "p = (k, v)" by (cases p)
  have "ascending lt (map fst acc @ [fst (k, v)])"
    using Cons.prems(1) p by (simp add: ascending_def sorted_wrt_append)
  then have e: "emplace lt fst (k, v) acc = acc @ [(k, v)]" by (rule emplace_last)
  show ?case using Cons.prems Cons.IH [of "acc @ [(k, v)]"] by (simp add: e p)
qed simp

lemmas in_defs =
  in_primitive_def in_bool_def in_string_def in_vector_char_def in_list_def in_deque_def
  in_vector_def in_set_def in_map_def in_optional_def in_variant_def in_pair_def
  in_tuple_def in_class_def in_array_def in_c_array_def in_c_array_primitive_def map_res_def

lemma fields_read:
  assumes "list_all2 (\<lambda>p x. p x) (map (has_type lt) ts) l" "list_all2 (\<lambda>p x. p x) (map fresh ts) ds"
    and "\<And>t d x. t \<in> set ts \<Longrightarrow> has_type lt t x \<Longrightarrow> fresh t d \<Longrightarrow> reads (f t) d x"
  shows "list_all2 (\<lambda>(f, d) x. reads f d x) (zip (map f ts) ds) l"
  using assms by (auto simp: list_all2_conv_all_nth)

lemma deser_reads: "has_type lt t v \<Longrightarrow> fresh t d \<Longrightarrow> reads (deser lt list_stream t) d v"
proof (induction t arbitrary: v d)
  case (TVariant ts)
  then obtain i x where v: "v = VVariant i x" and i: "i < length ts" "length ts < 2 ^ 31"
    and x: "has_type lt (ts ! i) x"
    by (auto split: val.splits)
  have "reads (deser lt list_stream (ts ! i)) (default_val (ts ! i)) x"
    by (rule TVariant.IH) (use i x in \<open>auto simp: fresh_default\<close>)
  moreover have "sint (ui_as (unsigned_int (of_nat i)) :: u32) = int i"
    using i by (simp add: ui_as_def sint_u32 unat_of_nat_mod)
  ultimately show ?case using i by (simp add: v reads_def in_defs deserialize_at)
next
  case (TTuple ts)
  then obtain l where v: "v = VTuple l" and l: "list_all2 (\<lambda>p x. p x) (map (has_type lt) ts) l"
    by (auto split: val.splits)
  then have "list_all2 (\<lambda>(f, d) x. reads f d x) (zip (map (deser lt list_stream) ts) (elems d)) l"
    using TTuple by (intro fields_read) auto
  then show ?case by (simp add: v reads_def in_defs in_fields_enc)
next
  case (TClass ts)
  then obtain l where v: "v = VClass l" and l: "list_all2 (\<lambda>p x. p x) (map (has_type lt) ts) l"
    by (auto split: val.splits)
  then have "list_all2 (\<lambda>(f, d) x. reads f d x) (zip (map (deser lt list_stream) ts) (elems d)) l"
    using TClass by (intro fields_read) auto
  then show ?case by (simp add: v reads_def in_defs in_fields_enc)
next
  case (TMap a b)
  then obtain m where v: "v = VMap m" and m: "length m < 2 ^ 32" "ascending (lt a) (map fst m)"
    "list_all (has_type lt a) (map fst m)" "list_all (has_type lt b) (map snd m)"
    by (auto split: val.splits)
  then have "list_all (\<lambda>(k, v). \<forall>r. deser lt list_stream a (default_val a) (enc k @ r) = Inr (k, r)
      \<and> deser lt list_stream b (default_val b) (enc v @ r) = Inr (v, r)) m"
    by (auto simp: list_all_iff fresh_default TMap.IH)
  with m show ?case by (simp add: v reads_def in_defs in_map_loop_enc)
next
  case (TOptional t)
  then show ?case by (auto simp: reads_def in_defs fresh_default split: val.splits option.splits)
next
  case (TSet t)
  then obtain l where v: "v = VSet l" and l: "length l < 2 ^ 32" "ascending (lt t) l"
    "list_all (has_type lt t) l"
    by (auto split: val.splits)
  then have "list_all (\<lambda>x. \<forall>r. deser lt list_stream t (default_val t) (enc x @ r) = Inr (x, r)) l"
    by (auto simp: list_all_iff fresh_default TSet.IH)
  with l show ?case by (simp add: v reads_def in_defs in_set_loop_enc)
next
  case (TArray n t)
  then obtain l where v: "v = VArray l" and l: "length l = n" "list_all (has_type lt t) l"
    by (auto split: val.splits)
  then have "list_all2 (reads (deser lt list_stream t)) (elems d) l"
    using TArray by (intro reads_all [where p = "fresh t" and q = "has_type lt t"]) auto
  then show ?case by (simp add: v reads_def in_defs in_each_enc)
next
  case (TCArray n t)
  then obtain l where v: "v = VCArray l" and l: "length l = n" "n < 2 ^ 32" "list_all (has_type lt t) l"
    by (auto split: val.splits)
  then have "list_all2 (reads (deser lt list_stream t)) (elems d) l"
    using TCArray by (intro reads_all [where p = "fresh t" and q = "has_type lt t"]) auto
  with l show ?case by (simp add: v reads_def in_defs in_each_enc check_def)
next
  case (TList t)
  then obtain l where v: "v = VList l" and l: "length l < 2 ^ 32" "list_all (has_type lt t) l"
    by (auto split: val.splits)
  then have "list_all2 (reads (deser lt list_stream t)) (resize (length l) (default_val t) (elems d)) l"
    using TList by (intro reads_all [where p = "fresh t" and q = "has_type lt t"]) (auto simp: fresh_default list_all_resize)
  with l show ?case by (simp add: v reads_def in_defs in_each_enc)
next
  case (TDeque t)
  then obtain l where v: "v = VDeque l" and l: "length l < 2 ^ 32" "list_all (has_type lt t) l"
    by (auto split: val.splits)
  then have "list_all2 (reads (deser lt list_stream t)) (resize (length l) (default_val t) (elems d)) l"
    using TDeque by (intro reads_all [where p = "fresh t" and q = "has_type lt t"]) (auto simp: fresh_default list_all_resize)
  with l show ?case by (simp add: v reads_def in_defs in_each_enc)
next
  case (TVector t)
  then obtain l where v: "v = VVector l" and l: "length l < 2 ^ 32" "list_all (has_type lt t) l"
    by (auto split: val.splits)
  then have "list_all2 (reads (deser lt list_stream t)) (resize (length l) (default_val t) (elems d)) l"
    using TVector by (intro reads_all [where p = "fresh t" and q = "has_type lt t"]) (auto simp: fresh_default list_all_resize)
  with l show ?case by (simp add: v reads_def in_defs in_each_enc)
qed (auto simp: reads_def in_defs lread_exact fresh_default check_def split: val.splits)

theorem deser_enc:
  "has_type lt t v \<Longrightarrow> fresh t d \<Longrightarrow> deser lt list_stream t d (enc v @ r) = Inr (v, r)"
  using deser_reads by (simp add: reads_def)

section \<open>Over any input stream\<close>

text \<open>Types whose blocks of characters fit the 32-bit sizes passed to \<open>read\<close>.\<close>

primrec small :: "ty \<Rightarrow> bool" where
  "small (TPrim n) = (n < 2 ^ 32)"
| "small TBool = True"
| "small TUnsignedInt = True"
| "small TSignedInt = True"
| "small TString = True"
| "small TVectorChar = True"
| "small (TList t) = small t"
| "small (TDeque t) = small t"
| "small (TVector t) = small t"
| "small (TSet t) = small t"
| "small (TMap a b) = (small a \<and> small b)"
| "small (TOptional t) = small t"
| "small (TVariant ts) = list_all small ts"
| "small (TPair a b) = (small a \<and> small b)"
| "small (TTuple ts) = list_all small ts"
| "small (TClass ts) = list_all small ts"
| "small (TArray n t) = small t"
| "small (TCArray n t) = small t"
| "small (TCArrayPrim n size_of) = (n * size_of < 2 ^ 32)"

context in_stream
begin

lemma sim_map_res: "simulates p q \<Longrightarrow> simulates (\<lambda>s. map_res f (p s)) (\<lambda>s. map_res f (q s))"
  unfolding map_res_def by (rule sim_bind [OF _ sim_return])

lemma sim_in_each:
  "(\<And>d. simulates (f d) (g d)) \<Longrightarrow> simulates (in_each f ds) (in_each g ds)"
proof (induction ds)
  case (Cons d ds)
  show ?case
    by (rule sim_cong [OF sim_bind [OF Cons.prems sim_bind [OF Cons.IH [OF Cons.prems] sim_return]]])
      (auto simp: fun_eq_iff)
qed (rule sim_cong [OF sim_return], auto)

lemma sim_in_fields:
  "list_all2 (\<lambda>(f, d) (g, d'). d = d' \<and> simulates (f d) (g d)) fs gs \<Longrightarrow>
     simulates (in_fields fs) (in_fields gs)"
proof (induction rule: list_all2_induct)
  case (Cons p ps q qs)
  obtain f d where p: "p = (f, d)" by (cases p)
  obtain g where q: "q = (g, d)" and fg: "simulates (f d) (g d)" using Cons(1) p by (cases q) auto
  show ?case
    by (rule sim_cong [OF sim_bind [OF fg sim_bind [OF Cons(3) sim_return]]])
      (auto simp: fun_eq_iff p q)
qed (rule sim_cong [OF sim_return], auto)

lemma sim_fields:
  "(\<And>t d. t \<in> set ts \<Longrightarrow> simulates (f t d) (g t d)) \<Longrightarrow>
     simulates (in_fields (zip (map f ts) ds)) (in_fields (zip (map g ts) ds))"
  by (rule sim_in_fields) (auto simp: list_all2_conv_all_nth)

lemma sim_deserialize:
  assumes "list_all2 simulates alts alts'"
  shows "simulates (deserialize I alts i) (deserialize I alts' i)"
proof (induction "length alts - I" arbitrary: I)
  case 0
  have "length alts' = length alts" using assms by (simp add: list_all2_lengthD)
  with 0 show ?case
    by (intro sim_cong [OF sim_fail]) (auto simp: fun_eq_iff deserialize.simps [of I])
next
  case (Suc n)
  then have I: "I < length alts" "I < length alts'" using list_all2_lengthD [OF assms] by auto
  from Suc have IH: "simulates (deserialize (I + 1) alts i) (deserialize (I + 1) alts' i)" by simp
  have "simulates (alts ! I) (alts' ! I)" using assms I by (simp add: list_all2_nthD)
  then have "simulates (if i = int I then (\<lambda>s. rbind ((alts ! I) s) (\<lambda>(tmp, s). Inr ((I, tmp), s)))
      else deserialize (I + 1) alts i)
     (if i = int I then (\<lambda>s. rbind ((alts' ! I) s) (\<lambda>(tmp, s). Inr ((I, tmp), s)))
      else deserialize (I + 1) alts' i)"
    by (intro sim_if sim_bind sim_return IH)
  then show ?case using I
    by (elim sim_cong) (auto simp: fun_eq_iff deserialize.simps [of I])
qed

lemma sim_in_set_loop:
  "simulates f g \<Longrightarrow> simulates (in_set_loop n lt f acc) (in_set_loop n lt g acc)"
proof (induction n arbitrary: acc)
  case (Suc n)
  show ?case
    by (rule sim_cong [OF sim_bind [OF Suc.prems Suc.IH [OF Suc.prems]]]) (auto simp: fun_eq_iff)
qed (rule sim_cong [OF sim_return], auto)

lemma sim_in_map_loop:
  "simulates fk gk \<Longrightarrow> simulates fv gv \<Longrightarrow>
     simulates (in_map_loop n lt fk fv acc) (in_map_loop n lt gk gv acc)"
proof (induction n arbitrary: acc)
  case (Suc n)
  show ?case
    by (rule sim_cong [OF sim_bind [OF Suc.prems(1) sim_bind [OF Suc.prems(2) Suc.IH [OF Suc.prems]]]])
      (auto simp: fun_eq_iff)
qed (rule sim_cong [OF sim_return], auto)

lemma sim_sized:
  "(\<And>n. simulates (f n) (g n)) \<Longrightarrow>
     simulates (\<lambda>s. rbind (get_unsigned_int st s) (\<lambda>(n, s). f (unat (ui_value n)) s))
               (\<lambda>s. rbind (get_unsigned_int list_stream s) (\<lambda>(n, s). g (unat (ui_value n)) s))"
  by (rule sim_bind [OF sim_get_unsigned_int]) simp

lemma sim_check:
  "simulates p q \<Longrightarrow>
     simulates (\<lambda>s. rbind (check c m) (\<lambda>_. p s)) (\<lambda>s. rbind (check c m) (\<lambda>_. q s))"
  by (cases c) (simp_all add: sim_fail)

lemma sim_read_u32: "simulates (rd st (unat (w :: u32))) (lread (unat w))"
  using sim_read [of "unat w"] unsigned_less [of w, where 'a = nat] by simp

lemma sim_vector_char: "simulates (in_vector_char st) (in_vector_char list_stream)"
  by (rule sim_cong [OF sim_bind [OF sim_get_unsigned_int sim_read_u32]])
    (auto simp: fun_eq_iff in_vector_char_def)

lemma sim_byte: "simulates (in_primitive st 1) (in_primitive list_stream 1)"
  by (rule sim_cong [OF sim_read [of 1]]) (auto simp: fun_eq_iff in_primitive_def)

lemma sim_deser: "small t \<Longrightarrow> simulates (deser lt st t d) (deser lt list_stream t d)"
proof (induction t arbitrary: d)
  case (TPrim n)
  then show ?case by (simp add: in_primitive_def sim_map_res sim_read)
next
  case TBool
  have "simulates (in_bool st) (in_bool list_stream)"
    by (rule sim_cong [OF sim_bind [OF sim_byte sim_return]]) (auto simp: fun_eq_iff in_bool_def)
  then show ?case by (simp add: sim_map_res)
next
  case TUnsignedInt
  show ?case by (simp add: sim_map_res sim_get_unsigned_int)
next
  case TSignedInt
  show ?case by (simp add: sim_map_res sim_get_signed_int)
next
  case TString
  have "simulates (in_string st) (in_string list_stream)"
    by (rule sim_cong [OF sim_bind [OF sim_vector_char sim_return]]) (auto simp: fun_eq_iff in_string_def)
  then show ?case by (simp add: sim_map_res)
next
  case TVectorChar
  show ?case by (simp add: sim_map_res sim_vector_char)
next
  case (TList t)
  then show ?case by (auto simp: in_list_def intro!: sim_map_res sim_sized sim_in_each)
next
  case (TDeque t)
  then show ?case by (auto simp: in_deque_def intro!: sim_map_res sim_sized sim_in_each)
next
  case (TVector t)
  then show ?case by (auto simp: in_vector_def intro!: sim_map_res sim_sized sim_in_each)
next
  case (TSet t)
  then show ?case by (auto simp: in_set_def intro!: sim_map_res sim_sized sim_in_set_loop)
next
  case (TMap a b)
  then show ?case by (auto simp: in_map_def intro!: sim_map_res sim_sized sim_in_map_loop)
next
  case (TOptional t)
  have "simulates (in_optional st (deser lt st t e) opt)
          (in_optional list_stream (deser lt list_stream t e) opt)" for e opt
  proof -
    have "simulates (\<lambda>s. if hd valid \<noteq> 0 then rbind (deser lt st t e s) (\<lambda>(x, s). Inr (Some x, s)) else Inr (opt, s))
      (\<lambda>s. if hd valid \<noteq> 0 then rbind (deser lt list_stream t e s) (\<lambda>(x, s). Inr (Some x, s)) else Inr (opt, s))"
      for valid :: "byte list"
      using sim_bind [OF TOptional.IH sim_return, of e Some] TOptional.prems
      by (cases "hd valid \<noteq> 0") (simp_all add: sim_return)
    then show ?thesis
      by (rule sim_cong [OF sim_bind [OF sim_byte]]) (auto simp: fun_eq_iff in_optional_def)
  qed
  then show ?case by (simp add: sim_map_res)
next
  case (TVariant ts)
  then have "list_all2 simulates (map (\<lambda>t. deser lt st t (default_val t)) ts)
      (map (\<lambda>t. deser lt list_stream t (default_val t)) ts)"
    by (auto simp: list_all2_conv_all_nth list_all_length)
  then have "simulates (in_variant st (map (\<lambda>t. deser lt st t (default_val t)) ts))
      (in_variant list_stream (map (\<lambda>t. deser lt list_stream t (default_val t)) ts))"
    by (intro sim_cong [OF sim_bind [OF sim_get_unsigned_int sim_deserialize]])
      (auto simp: fun_eq_iff in_variant_def)
  then show ?case by (simp add: sim_map_res)
next
  case (TPair a b)
  have "simulates (in_pair p p') (in_pair q q')" if "simulates p q" "simulates p' q'" for p p' q q'
    by (rule sim_cong [OF sim_bind [OF that(1) sim_bind [OF that(2) sim_return]]])
      (auto simp: fun_eq_iff in_pair_def)
  with TPair show ?case by (simp add: sim_map_res)
next
  case (TTuple ts)
  then show ?case by (auto simp: in_tuple_def list_all_iff intro!: sim_map_res sim_fields)
next
  case (TClass ts)
  then show ?case by (auto simp: in_class_def list_all_iff intro!: sim_map_res sim_fields)
next
  case (TArray n t)
  then show ?case by (auto simp: in_array_def intro!: sim_map_res sim_in_each)
next
  case (TCArray n t)
  then have "simulates (in_c_array st n (deser lt st t) l) (in_c_array list_stream n (deser lt list_stream t) l)" for l
    by (intro sim_cong [OF sim_bind [OF sim_get_unsigned_int sim_check [OF sim_in_each]]])
      (auto simp: fun_eq_iff in_c_array_def)
  then show ?case by (simp add: sim_map_res)
next
  case (TCArrayPrim n size_of)
  then have "simulates (in_c_array_primitive st n size_of) (in_c_array_primitive list_stream n size_of)"
    by (intro sim_cong [OF sim_bind [OF sim_get_unsigned_int sim_check [OF sim_read]]])
      (auto simp: fun_eq_iff in_c_array_primitive_def)
  then show ?case by (simp add: sim_map_res)
qed

end

section \<open>From and to memory\<close>

lemma ds_left_prefix:
  "unat p + n < 2 ^ 32 \<Longrightarrow> ds_left m (mk_datastream p (of_nat n)) = load_bytes m p n"
  by (simp add: ds_left_def mk_datastream_room)

text \<open>Extraction from a buffer that holds the wire format, with whatever behind it.\<close>

lemma deser_buffer:
  assumes "has_type lt t v" "small t" "fresh t d" "ds_ok ds" "ds_left m ds = enc v @ r"
  shows "deser lt (mem_stream m) t d ds = Inr (v, ds_adv (length (enc v)) ds)"
proof -
  have "deser lt list_stream t d (ds_left m ds) = Inr (v, r)"
    using assms by (simp add: deser_enc)
  from rs.simulates_Inr [OF rs.sim_deser [OF assms(2)] assms(4) this]
  obtain n where n: "n \<le> length (ds_left m ds)" "r = drop n (ds_left m ds)"
    and d: "deser lt (mem_stream m) t d ds = Inr (v, ds_adv n ds)" .
  have "length r = length (ds_left m ds) - n" using n(2) by (metis length_drop)
  moreover have "length (ds_left m ds) = length (enc v) + length r"
    by (simp only: assms(5) length_append)
  ultimately have "n = length (enc v)" using n(1) by linarith
  with d show ?thesis by simp
qed

lemma unpack_enc:
  assumes "has_type lt t v" "small t" "unat p + n < 2 ^ 32" "load_bytes m p n = enc v @ r"
  shows "unpack lt t m p (of_nat n) = Inr v"
proof -
  have "ds_ok (mk_datastream p (of_nat n))" using assms(3) by (simp add: mk_datastream_ok)
  then have "deser lt (mem_stream m) t (default_val t) (mk_datastream p (of_nat n)) =
      Inr (v, ds_adv (length (enc v)) (mk_datastream p (of_nat n)))"
    by (rule deser_buffer [OF assms(1,2) fresh_default]) (simp only: ds_left_prefix [OF assms(3)] assms(4))
  then show ?thesis by (simp only: unpack_def rbind_Inr prod.case)
qed

lemma pack_enc:
  assumes "unat p + length (enc v) < 2 ^ 32" "length (enc v) < 2 ^ 31"
  shows "pack m p v = Inr (enc v)"
proof -
  have "ds_out_ok (mk_datastream p (of_nat (length (enc v))))"
    using assms by (intro mk_datastream_out_ok) auto
  then show ?thesis
    using assms by (simp add: pack_def pack_size_enc Let_def ser_buffer_ok mk_datastream_room del: of_nat_unat)
qed

end
