(* ===== verification/Prefix.thy ===== *)
theory Prefix
  imports Roundtrip
begin

text \<open>
  Extraction never looks behind what it consumes: a parser that succeeds on some bytes
  succeeds with the same object when more bytes follow. So no proper prefix of the wire
  format of an object is accepted. Ordered containers come out in ascending order whatever
  bytes arrive.
\<close>

section \<open>More bytes do not change a result\<close>

definition extends :: "('a, byte list) parser \<Rightarrow> bool" where
  "extends p \<longleftrightarrow> (\<forall>bs x rest r. p bs = Inr (x, rest) \<longrightarrow> p (bs @ r) = Inr (x, rest @ r))"

lemma extendsD: "extends p \<Longrightarrow> p bs = Inr (x, rest) \<Longrightarrow> p (bs @ r) = Inr (x, rest @ r)"
  by (simp add: extends_def)

lemma ext_cong: "extends p \<Longrightarrow> p = q \<Longrightarrow> extends q"
  by simp

lemma ext_return: "extends (\<lambda>bs. Inr (x, bs))"
  by (simp add: extends_def)

lemma ext_fail: "extends (\<lambda>bs. Inl e)"
  by (simp add: extends_def)

lemma ext_read: "extends (lread n)"
  by (auto simp: extends_def lread_def split: if_splits)

lemma ext_get: "extends lget"
  by (auto simp: extends_def lget_def split: list.splits)

lemma ext_bind:
  "extends p \<Longrightarrow> (\<And>x. extends (f x)) \<Longrightarrow> extends (\<lambda>bs. rbind (p bs) (\<lambda>(x, bs'). f x bs'))"
  unfolding extends_def by (fastforce simp: rbind_eq_Inr)

lemma ext_if: "extends p \<Longrightarrow> extends q \<Longrightarrow> extends (if b then p else q)"
  by simp

lemma ext_check: "extends p \<Longrightarrow> extends (\<lambda>bs. rbind (check c m) (\<lambda>_. p bs))"
  by (cases c) (simp_all add: ext_fail)

lemma ext_map_res: "extends p \<Longrightarrow> extends (\<lambda>s. map_res f (p s))"
  unfolding map_res_def by (rule ext_bind [OF _ ext_return])

lemma ext_get_varint_loop: "extends (get_varint_loop list_stream v by)"
proof (induction "40 - by" arbitrary: v "by" rule: less_induct)
  case less
  define f where "f b = (\<lambda>s'. if by \<ge> 32 then Inl (UB ''shift'')
       else let v' = v OR ucast (push_bit by (ucast (b AND 0x7f) :: u32)); by' = by + 7
         in if b AND 0x80 \<noteq> 0 then get_varint_loop list_stream v' by' s' else Inr (v', s'))" for b :: byte
  have "extends (f b)" for b
  proof (cases "by \<ge> 32")
    case True
    then show ?thesis by (simp add: f_def ext_fail)
  next
    case False
    with less show ?thesis by (cases "b AND 0x80 = 0") (simp_all add: f_def Let_def ext_return)
  qed
  from ext_bind [of lget f, OF ext_get this] show ?case
    by (rule ext_cong) (auto simp: fun_eq_iff f_def get_varint_loop.simps [of list_stream])
qed

lemma ext_unsigned_int: "extends (get_unsigned_int list_stream)"
  by (rule ext_cong [OF ext_bind [OF ext_get_varint_loop ext_return]])
    (auto simp: fun_eq_iff get_unsigned_int_def)

lemma ext_signed_int: "extends (get_signed_int list_stream)"
  by (rule ext_cong [OF ext_bind [OF ext_get_varint_loop ext_return]])
    (auto simp: fun_eq_iff get_signed_int_def)

lemma ext_in_each: "(\<And>d. extends (f d)) \<Longrightarrow> extends (in_each f ds)"
proof (induction ds)
  case (Cons d ds)
  show ?case
    by (rule ext_cong [OF ext_bind [OF Cons.prems ext_bind [OF Cons.IH [OF Cons.prems] ext_return]]])
      (auto simp: fun_eq_iff)
qed (rule ext_cong [OF ext_return], auto)

lemma ext_in_fields: "list_all (\<lambda>(f, d). extends (f d)) fs \<Longrightarrow> extends (in_fields fs)"
proof (induction fs)
  case (Cons p ps)
  obtain f d where p: "p = (f, d)" by (cases p)
  have f: "extends (f d)" and ps: "extends (in_fields ps)" using Cons p by auto
  show ?case
    by (rule ext_cong [OF ext_bind [OF f ext_bind [OF ps ext_return]]]) (auto simp: fun_eq_iff p)
qed (rule ext_cong [OF ext_return], auto)

lemma ext_fields:
  "(\<And>t d. t \<in> set ts \<Longrightarrow> extends (f t d)) \<Longrightarrow> extends (in_fields (zip (map f ts) ds))"
  by (rule ext_in_fields) (auto simp: list_all_length)

lemma ext_deserialize: "list_all extends alts \<Longrightarrow> extends (deserialize I alts i)"
proof (induction "length alts - I" arbitrary: I)
  case 0
  then show ?case
    by (intro ext_cong [OF ext_fail]) (auto simp: fun_eq_iff deserialize.simps [of I])
next
  case (Suc n)
  then have I: "I < length alts" and IH: "extends (deserialize (I + 1) alts i)"
    and e: "extends (alts ! I)"
    by (auto simp: list_all_length)
  have "extends (if i = int I then (\<lambda>s. rbind ((alts ! I) s) (\<lambda>(tmp, s). Inr ((I, tmp), s)))
      else deserialize (I + 1) alts i)"
    by (intro ext_if ext_bind ext_return IH e)
  then show ?case using I by (elim ext_cong) (auto simp: fun_eq_iff deserialize.simps [of I])
qed

lemma ext_in_set_loop: "extends f \<Longrightarrow> extends (in_set_loop n lt f acc)"
proof (induction n arbitrary: acc)
  case (Suc n)
  show ?case
    by (rule ext_cong [OF ext_bind [OF Suc.prems Suc.IH [OF Suc.prems]]]) (auto simp: fun_eq_iff)
qed (rule ext_cong [OF ext_return], auto)

lemma ext_in_map_loop: "extends fk \<Longrightarrow> extends fv \<Longrightarrow> extends (in_map_loop n lt fk fv acc)"
proof (induction n arbitrary: acc)
  case (Suc n)
  show ?case
    by (rule ext_cong [OF ext_bind [OF Suc.prems(1) ext_bind [OF Suc.prems(2) Suc.IH [OF Suc.prems]]]])
      (auto simp: fun_eq_iff)
qed (rule ext_cong [OF ext_return], auto)

lemma ext_sized:
  "(\<And>n. extends (f n)) \<Longrightarrow>
     extends (\<lambda>s. rbind (get_unsigned_int list_stream s) (\<lambda>(n, s). f (unat (ui_value n)) s))"
  by (rule ext_bind [OF ext_unsigned_int]) simp

lemma ext_vector_char: "extends (in_vector_char list_stream)"
  by (rule ext_cong [OF ext_bind [OF ext_unsigned_int ext_read]])
    (auto simp: fun_eq_iff in_vector_char_def)

lemma ext_byte: "extends (in_primitive list_stream 1)"
  by (rule ext_cong [OF ext_read [of 1]]) (auto simp: fun_eq_iff in_primitive_def)

lemma ext_pair:
  assumes "extends p" "extends p'" shows "extends (in_pair p p')"
  by (rule ext_cong [OF ext_bind [OF assms(1) ext_bind [OF assms(2) ext_return]]])
    (auto simp: fun_eq_iff in_pair_def)

lemma ext_optional:
  assumes "extends p" shows "extends (in_optional list_stream p opt)"
proof -
  have "extends (\<lambda>s. if hd valid \<noteq> 0 then rbind (p s) (\<lambda>(x, s). Inr (Some x, s)) else Inr (opt, s))"
    for valid :: "byte list"
    using ext_bind [OF assms ext_return, of Some] by (cases "hd valid \<noteq> 0") (simp_all add: ext_return)
  then show ?thesis
    by (rule ext_cong [OF ext_bind [OF ext_byte]]) (auto simp: fun_eq_iff in_optional_def)
qed

lemma ext_deser: "extends (deser lt list_stream t d)"
proof (induction t arbitrary: d)
  case TBool
  have "extends (in_bool list_stream)"
    by (rule ext_cong [OF ext_bind [OF ext_byte ext_return]]) (auto simp: fun_eq_iff in_bool_def)
  then show ?case by (simp add: ext_map_res)
next
  case TString
  have "extends (in_string list_stream)"
    by (rule ext_cong [OF ext_bind [OF ext_vector_char ext_return]]) (auto simp: fun_eq_iff in_string_def)
  then show ?case by (simp add: ext_map_res)
next
  case (TVariant ts)
  then have "list_all extends (map (\<lambda>t. deser lt list_stream t (default_val t)) ts)"
    by (auto simp: list_all_iff)
  then have "extends (in_variant list_stream (map (\<lambda>t. deser lt list_stream t (default_val t)) ts))"
    by (intro ext_cong [OF ext_bind [OF ext_unsigned_int ext_deserialize]])
      (auto simp: fun_eq_iff in_variant_def)
  then show ?case by (simp add: ext_map_res)
next
  case (TCArray n t)
  then have "extends (in_c_array list_stream n (deser lt list_stream t) l)" for l
    by (intro ext_cong [OF ext_bind [OF ext_unsigned_int ext_check [OF ext_in_each]]])
      (auto simp: fun_eq_iff in_c_array_def)
  then show ?case by (simp add: ext_map_res)
next
  case (TCArrayPrim n size_of)
  then have "extends (in_c_array_primitive list_stream n size_of)"
    by (intro ext_cong [OF ext_bind [OF ext_unsigned_int ext_check [OF ext_read]]])
      (auto simp: fun_eq_iff in_c_array_primitive_def)
  then show ?case by (simp add: ext_map_res)
qed (auto simp: in_primitive_def in_list_def in_deque_def in_vector_def in_set_def in_map_def
       in_tuple_def in_class_def in_array_def ext_vector_char ext_unsigned_int ext_signed_int
     intro!: ext_map_res ext_sized ext_in_each ext_fields ext_in_set_loop ext_in_map_loop
       ext_pair ext_optional ext_read)

section \<open>Proper prefixes are refused\<close>

lemma deser_prefix:
  assumes "has_type lt t v" "fresh t d" "enc v = bs @ r" "r \<noteq> []"
  obtains e where "deser lt list_stream t d bs = Inl e"
proof (cases "deser lt list_stream t d bs")
  case (Inr y)
  obtain x rest where "y = (x, rest)" by (cases y)
  with extendsD [OF ext_deser] Inr have "deser lt list_stream t d (enc v) = Inr (x, rest @ r)"
    by (metis assms(3))
  moreover have "deser lt list_stream t d (enc v) = Inr (v, [])"
    using deser_enc [OF assms(1,2), of "[]"] by simp
  ultimately show ?thesis using assms(4) by simp
qed (rule that)

lemma unpack_prefix:
  assumes "has_type lt t v" "small t" "unat p + n < 2 ^ 32"
    and "n < length (enc v)" "load_bytes m p n = take n (enc v)"
  shows "\<exists>e. unpack lt t m p (of_nat n) = Inl e"
proof -
  have "enc v = load_bytes m p n @ drop n (enc v)" "drop n (enc v) \<noteq> []" using assms by simp_all
  then obtain e where "deser lt list_stream t (default_val t) (load_bytes m p n) = Inl e"
    using deser_prefix [OF assms(1) fresh_default] by metis
  moreover have "ds_ok (mk_datastream p (of_nat n))" using assms by (simp add: mk_datastream_ok)
  ultimately have "deser lt (mem_stream m) t (default_val t) (mk_datastream p (of_nat n)) = Inl e"
    by (metis rs.simulates_Inl rs.sim_deser [OF assms(2)] ds_left_prefix [OF assms(3)])
  then show ?thesis by (simp add: unpack_def)
qed

section \<open>Ordered containers\<close>

lemma set_emplace: "set (emplace lt key x ys) \<subseteq> insert x (set ys)"
  by (induction ys) auto

lemma emplace_ascending:
  assumes "transp lt" "asymp lt"
  shows "ascending lt (map key ys) \<Longrightarrow> ascending lt (map key (emplace lt key x ys))"
proof (induction ys)
  case (Cons y ys)
  have "lt (key y) (key z)" if "lt (key y) (key x)" "z \<in> set (emplace lt key x ys)" for z
    using that Cons.prems set_emplace [of lt key x ys] by (auto simp: ascending_def)
  with Cons assms show ?case
    by (auto simp: ascending_def dest: asympD transpD)
qed (simp add: ascending_def)

lemma in_set_loop_ascending:
  assumes "transp lt" "asymp lt"
  shows "ascending lt acc \<Longrightarrow> in_set_loop n lt f acc s = Inr (l, s') \<Longrightarrow> ascending lt l"
proof (induction n arbitrary: acc s)
  case (Suc n)
  then show ?case
    using emplace_ascending [OF assms, of "\<lambda>x. x"] by (auto simp: rbind_eq_Inr)
qed simp

lemma in_map_loop_ascending:
  assumes "transp lt" "asymp lt"
  shows "ascending lt (map fst acc) \<Longrightarrow> in_map_loop n lt fk fv acc s = Inr (l, s') \<Longrightarrow>
    ascending lt (map fst l)"
proof (induction n arbitrary: acc s)
  case (Suc n)
  then obtain k v s'' where "in_map_loop n lt fk fv (emplace lt fst (k, v) acc) s'' = Inr (l, s')"
    by (auto simp: rbind_eq_Inr)
  then show ?case by (rule Suc.IH [OF emplace_ascending [OF assms Suc.prems(1)]])
qed simp

end
