(* ===== verification/Typed.thy ===== *)
theory Typed
  imports Prefix
begin

text \<open>
  Type soundness of extraction: whatever bytes arrive, an object that is extracted into a fresh
  destination is a value of its type. So a handler of a contract never sees an object that the
  contract could not have built itself, and ordered containers are ordered.
\<close>

section \<open>Parsers that yield values of a kind\<close>

text \<open>The input is shorter than \<open>2 ^ 31\<close>, the largest size of a \<open>std::vector<char>\<close>; what is left of it
  is not longer.\<close>

definition yields :: "('a \<Rightarrow> bool) \<Rightarrow> ('a, byte list) parser \<Rightarrow> bool" where
  "yields P p \<longleftrightarrow> (\<forall>bs x r. length bs < 2 ^ 31 \<longrightarrow> p bs = Inr (x, r) \<longrightarrow> P x \<and> length r \<le> length bs)"

lemma yieldsD: "yields P p \<Longrightarrow> length bs < 2 ^ 31 \<Longrightarrow> p bs = Inr (x, r) \<Longrightarrow> P x"
  by (simp add: yields_def)

lemma yields_cong: "yields P p \<Longrightarrow> p = q \<Longrightarrow> yields P q"
  by simp

lemma yields_mono: "yields P p \<Longrightarrow> (\<And>x. P x \<Longrightarrow> Q x) \<Longrightarrow> yields Q p"
  by (auto simp: yields_def)

lemma yields_return: "P x \<Longrightarrow> yields P (\<lambda>s. Inr (x, s))"
  by (simp add: yields_def)

lemma yields_fail: "yields P (\<lambda>s. Inl e)"
  by (simp add: yields_def)

lemma yields_bind:
  assumes "yields P p" "\<And>x. P x \<Longrightarrow> yields Q (f x)"
  shows "yields Q (\<lambda>s. rbind (p s) (\<lambda>(x, s). f x s))"
  unfolding yields_def
proof (intro allI impI)
  fix bs y r
  assume bs: "length bs < 2 ^ 31" and "rbind (p bs) (\<lambda>(x, s). f x s) = Inr (y, r)"
  then obtain x s where x: "p bs = Inr (x, s)" "f x s = Inr (y, r)" by (auto simp: rbind_eq_Inr)
  then have "P x" "length s \<le> length bs" using assms(1) bs by (auto simp: yields_def)
  then show "Q y \<and> length r \<le> length bs"
    using assms(2) [of x] x(2) bs unfolding yields_def by (meson order.strict_trans1 order_trans)
qed

lemma yields_check: "(c \<Longrightarrow> yields P p) \<Longrightarrow> yields P (\<lambda>s. rbind (check c m) (\<lambda>_. p s))"
  by (cases c) (simp_all add: yields_fail)

lemma yields_map_res: "yields P p \<Longrightarrow> (\<And>x. P x \<Longrightarrow> Q (f x)) \<Longrightarrow> yields Q (\<lambda>s. map_res f (p s))"
  unfolding map_res_def by (rule yields_bind [OF _ yields_return])

lemma yields_read: "yields (\<lambda>x. length x = n \<and> n < 2 ^ 31) (lread n)"
  by (auto simp: yields_def lread_def split: if_splits)

lemma yields_primitive: "yields (\<lambda>x. length x = n \<and> n < 2 ^ 31) (in_primitive list_stream n)"
  by (rule yields_cong [OF yields_read]) (auto simp: fun_eq_iff in_primitive_def)

lemma yields_get: "yields (\<lambda>x. True) lget"
  by (auto simp: yields_def lget_def split: list.splits)

text \<open>What the parsers of the development consume is a suffix; integers are of any value.\<close>

lemma yields_get_varint_loop: "yields (\<lambda>x. True) (get_varint_loop list_stream v by)"
proof (induction "40 - by" arbitrary: v "by" rule: less_induct)
  case less
  define f where "f b = (\<lambda>s'. if by \<ge> 32 then Inl (UB ''shift'')
       else let v' = v OR ucast (push_bit by (ucast (b AND 0x7f) :: u32)); by' = by + 7
         in if b AND 0x80 \<noteq> 0 then get_varint_loop list_stream v' by' s' else Inr (v', s'))" for b :: byte
  have "yields (\<lambda>x. True) (f b)" for b
  proof (cases "by \<ge> 32")
    case True
    then show ?thesis by (simp add: f_def yields_fail)
  next
    case False
    with less show ?thesis by (cases "b AND 0x80 = 0") (simp_all add: f_def Let_def yields_return)
  qed
  from yields_bind [of _ lget _ f, OF yields_get this] show ?case
    by (rule yields_cong) (auto simp: fun_eq_iff f_def get_varint_loop.simps [of list_stream])
qed

lemma yields_unsigned_int: "yields (\<lambda>x. True) (get_unsigned_int list_stream)"
  by (rule yields_cong [OF yields_bind [OF yields_get_varint_loop yields_return]])
    (auto simp: fun_eq_iff get_unsigned_int_def)

lemma yields_signed_int: "yields (\<lambda>x. True) (get_signed_int list_stream)"
  by (rule yields_cong [OF yields_bind [OF yields_get_varint_loop yields_return]])
    (auto simp: fun_eq_iff get_signed_int_def)

lemma yields_sized:
  "(\<And>n. n < 2 ^ 32 \<Longrightarrow> yields P (f n)) \<Longrightarrow>
     yields P (\<lambda>s. rbind (get_unsigned_int list_stream s) (\<lambda>(n, s). f (unat (ui_value n)) s))"
proof (rule yields_bind [OF yields_unsigned_int])
  fix n :: unsigned_int
  assume f: "\<And>n. n < 2 ^ 32 \<Longrightarrow> yields P (f n)"
  have "unat (ui_value n) < 2 ^ 32" using unsigned_less [of "ui_value n"] by simp
  then show "yields P (f (unat (ui_value n)))" by (rule f)
qed

section \<open>The operators\<close>

lemma yields_in_each:
  assumes "\<And>d. d \<in> set ds \<Longrightarrow> yields P (f d)"
  shows "yields (\<lambda>xs. length xs = length ds \<and> list_all P xs) (in_each f ds)"
  using assms
proof (induction ds)
  case (Cons d ds)
  have "yields (\<lambda>xs. length xs = length (d # ds) \<and> list_all P xs)
      (\<lambda>s. rbind (f d s) (\<lambda>(x, s). rbind (in_each f ds s) (\<lambda>(xs, s). Inr (x # xs, s))))"
    by (rule yields_bind [of P], use Cons.prems in simp, rule yields_bind [OF Cons.IH])
      (use Cons.prems in \<open>auto intro: yields_return\<close>)
  then show ?case by (rule yields_cong) (auto simp: fun_eq_iff)
qed (rule yields_cong [OF yields_return [of _ "[]"]], auto)

lemma yields_in_fields:
  assumes "list_all2 (\<lambda>P (f, d). yields P (f d)) Ps fs"
  shows "yields (\<lambda>xs. list_all2 (\<lambda>p x. p x) Ps xs) (in_fields fs)"
  using assms
proof (induction rule: list_all2_induct)
  case (Cons P Ps g fs)
  obtain f d where g: "g = (f, d)" by (cases g)
  have "yields (\<lambda>xs. list_all2 (\<lambda>p x. p x) (P # Ps) xs)
      (\<lambda>s. rbind (f d s) (\<lambda>(x, s). rbind (in_fields fs s) (\<lambda>(xs, s). Inr (x # xs, s))))"
    by (rule yields_bind [of P], use Cons g in simp, rule yields_bind [OF Cons.IH])
      (auto intro: yields_return)
  then show ?case by (rule yields_cong) (auto simp: fun_eq_iff g)
qed (rule yields_cong [OF yields_return [of _ "[]"]], auto)

lemma yields_deserialize:
  "list_all2 yields Ps alts \<Longrightarrow>
     yields (\<lambda>(k, x). k < length alts \<and> (Ps ! k) x) (deserialize I alts i)"
proof (induction "length alts - I" arbitrary: I)
  case 0
  then show ?case
    by (intro yields_cong [OF yields_fail]) (auto simp: fun_eq_iff deserialize.simps [of I])
next
  case (Suc n)
  show ?case
  proof (cases "i = int I")
    case True
    have "yields (Ps ! I) (alts ! I)" using Suc.prems Suc.hyps(2) by (simp add: list_all2_conv_all_nth)
    then have "yields (\<lambda>(k, x). k < length alts \<and> (Ps ! k) x)
        (\<lambda>s. rbind ((alts ! I) s) (\<lambda>(tmp, s). Inr ((I, tmp), s)))"
      by (rule yields_bind) (use Suc.hyps(2) in \<open>auto intro!: yields_return\<close>)
    then show ?thesis using Suc.hyps(2) True
      by (rule_tac yields_cong) (auto simp: fun_eq_iff deserialize.simps [of I])
  next
    case False
    have "yields (\<lambda>(k, x). k < length alts \<and> (Ps ! k) x) (deserialize (I + 1) alts i)"
      using Suc by (intro Suc.hyps) auto
    then show ?thesis using Suc.hyps(2) False
      by (rule_tac yields_cong) (auto simp: fun_eq_iff deserialize.simps [of I])
  qed
qed

lemma emplace_kept: "list_all P ys \<Longrightarrow> P x \<Longrightarrow> list_all P (emplace lt key x ys)"
  using set_emplace [of lt key x ys] by (auto simp: list_all_iff)

lemma emplace_length: "length (emplace lt key x ys) \<le> Suc (length ys)"
  by (induction ys) auto

definition set_so_far :: "(val \<Rightarrow> val \<Rightarrow> bool) \<Rightarrow> (val \<Rightarrow> bool) \<Rightarrow> nat \<Rightarrow> val list \<Rightarrow> bool" where
  "set_so_far lt P n l \<longleftrightarrow> length l \<le> n \<and> list_all P l \<and> ascending lt l"

definition map_so_far ::
    "(val \<Rightarrow> val \<Rightarrow> bool) \<Rightarrow> (val \<Rightarrow> bool) \<Rightarrow> (val \<Rightarrow> bool) \<Rightarrow> nat \<Rightarrow> (val \<times> val) list \<Rightarrow> bool" where
  "map_so_far lt P Q n m \<longleftrightarrow>
     length m \<le> n \<and> list_all (\<lambda>(k, v). P k \<and> Q v) m \<and> ascending lt (map fst m)"

lemma set_so_far_emplace:
  assumes "transp lt" "asymp lt" "set_so_far lt P n l" "P x"
  shows "set_so_far lt P (Suc n) (emplace lt (\<lambda>x. x) x l)"
  using assms emplace_length [of lt "\<lambda>x. x" x l] emplace_ascending [OF assms(1,2), of "\<lambda>x. x" l x]
  by (auto simp: set_so_far_def emplace_kept)

lemma map_so_far_emplace:
  assumes "transp lt" "asymp lt" "map_so_far lt P Q n m" "P k" "Q v"
  shows "map_so_far lt P Q (Suc n) (emplace lt fst (k, v) m)"
  using assms emplace_length [of lt fst "(k, v)" m] emplace_ascending [OF assms(1,2), of fst m "(k, v)"]
  by (auto simp: map_so_far_def emplace_kept)

lemma yields_in_set_loop:
  assumes "transp lt" "asymp lt" "yields P f"
  shows "set_so_far lt P m acc \<Longrightarrow> yields (set_so_far lt P (m + n)) (in_set_loop n lt f acc)"
proof (induction n arbitrary: m acc)
  case (Suc n)
  have "yields (set_so_far lt P (m + Suc n))
      (\<lambda>s. rbind (f s) (\<lambda>(v, s). in_set_loop n lt f (emplace lt (\<lambda>x. x) v acc) s))"
    using Suc.IH [OF set_so_far_emplace [OF assms(1,2) Suc.prems]] by (intro yields_bind [OF assms(3)]) simp
  then show ?case by (rule yields_cong) (auto simp: fun_eq_iff)
qed (rule yields_cong [OF yields_return], auto)

lemma yields_in_map_loop:
  assumes "transp lt" "asymp lt" "yields P fk" "yields Q fv"
  shows "map_so_far lt P Q m acc \<Longrightarrow> yields (map_so_far lt P Q (m + n)) (in_map_loop n lt fk fv acc)"
proof (induction n arbitrary: m acc)
  case (Suc n)
  have "yields (map_so_far lt P Q (m + Suc n))
      (\<lambda>s. rbind (fk s) (\<lambda>(k, s). rbind (fv s) (\<lambda>(v, s). in_map_loop n lt fk fv (emplace lt fst (k, v) acc) s)))"
    using Suc.IH [OF map_so_far_emplace [OF assms(1,2) Suc.prems]]
    by (intro yields_bind [OF assms(3)] yields_bind [OF assms(4)]) simp
  then show ?case by (rule yields_cong) (auto simp: fun_eq_iff)
qed (rule yields_cong [OF yields_return], auto)


section \<open>Extracted objects are well-typed\<close>

text \<open>Types whose sizes are those of the 32-bit target.\<close>

primrec storable :: "ty \<Rightarrow> bool" where
  "storable (TPrim n) = True"
| "storable TBool = True"
| "storable TUnsignedInt = True"
| "storable TSignedInt = True"
| "storable TString = True"
| "storable TVectorChar = True"
| "storable (TList t) = storable t"
| "storable (TDeque t) = storable t"
| "storable (TVector t) = storable t"
| "storable (TSet t) = storable t"
| "storable (TMap a b) = (storable a \<and> storable b)"
| "storable (TOptional t) = storable t"
| "storable (TVariant ts) = (length ts < 2 ^ 31 \<and> list_all storable ts)"
| "storable (TPair a b) = (storable a \<and> storable b)"
| "storable (TTuple ts) = list_all storable ts"
| "storable (TClass ts) = list_all storable ts"
| "storable (TArray n t) = storable t"
| "storable (TCArray n t) = (n < 2 ^ 32 \<and> storable t)"
| "storable (TCArrayPrim n size_of) = (n < 2 ^ 32)"

lemma yields_sequence:
  assumes "\<And>d. fresh t d \<Longrightarrow> yields (has_type lt t) (deser lt list_stream t d)" "list_all (fresh t) l"
  shows "yields (\<lambda>xs. length xs < 2 ^ 32 \<and> list_all (has_type lt t) xs)
    (\<lambda>s. rbind (get_unsigned_int list_stream s)
       (\<lambda>(n, s). in_each (deser lt list_stream t) (resize (unat (ui_value n)) (default_val t) l) s))"
proof (rule yields_sized)
  fix n :: nat
  assume "n < 2 ^ 32"
  have "list_all (fresh t) (resize n (default_val t) l)"
    using assms(2) by (simp add: list_all_resize fresh_default)
  then have "yields (\<lambda>xs. length xs = length (resize n (default_val t) l) \<and> list_all (has_type lt t) xs)
      (in_each (deser lt list_stream t) (resize n (default_val t) l))"
    by (intro yields_in_each assms(1)) (auto simp: list_all_iff)
  then show "yields (\<lambda>xs. length xs < 2 ^ 32 \<and> list_all (has_type lt t) xs)
      (in_each (deser lt list_stream t) (resize n (default_val t) l))"
    using \<open>n < 2 ^ 32\<close> by (elim yields_mono) simp
qed

lemma yields_members:
  assumes "\<And>t d. t \<in> set ts \<Longrightarrow> fresh t d \<Longrightarrow> yields (has_type lt t) (deser lt list_stream t d)"
    and "list_all2 (\<lambda>p x. p x) (map fresh ts) ds"
  shows "yields (\<lambda>xs. list_all2 (\<lambda>p x. p x) (map (has_type lt) ts) xs)
    (in_fields (zip (map (deser lt list_stream) ts) ds))"
  using assms by (intro yields_in_fields) (auto simp: list_all2_conv_all_nth)

lemma yields_deser:
  assumes lt: "\<And>u. transp (lt u)" "\<And>u. asymp (lt u)"
  shows "storable t \<Longrightarrow> fresh t d \<Longrightarrow> yields (has_type lt t) (deser lt list_stream t d)"
proof (induction t arbitrary: d)
  case (TPrim n)
  show ?case by (simp, rule yields_map_res [OF yields_primitive]) simp
next
  case TBool
  show ?case
    by (simp add: in_bool_def, rule yields_map_res, rule yields_bind [OF yields_primitive], rule yields_return) auto
next
  case TUnsignedInt
  show ?case by (simp, rule yields_map_res [OF yields_unsigned_int]) simp
next
  case TSignedInt
  show ?case by (simp, rule yields_map_res [OF yields_signed_int]) simp
next
  case TString
  show ?case unfolding deser.simps in_string_def in_vector_char_def
    by (rule yields_map_res [where P = "\<lambda>x. length x < 2 ^ 31"], rule yields_bind [where P = "\<lambda>x. length x < 2 ^ 31"],
        rule yields_sized, simp, rule yields_mono [OF yields_read], auto intro!: yields_return)
next
  case TVectorChar
  show ?case unfolding deser.simps in_vector_char_def
    by (rule yields_map_res [where P = "\<lambda>x. length x < 2 ^ 31"], rule yields_sized, simp,
        rule yields_mono [OF yields_read], auto)
next
  case (TList t)
  then show ?case unfolding deser.simps in_list_def
    by (intro yields_map_res [OF yields_sequence]) auto
next
  case (TDeque t)
  then show ?case unfolding deser.simps in_deque_def
    by (intro yields_map_res [OF yields_sequence]) auto
next
  case (TVector t)
  then show ?case unfolding deser.simps in_vector_def
    by (intro yields_map_res [OF yields_sequence]) auto
next
  case (TSet t)
  have s: "yields (set_so_far (lt t) (has_type lt t) (0 + n)) (in_set_loop n (lt t) (deser lt list_stream t (default_val t)) [])" for n
    using TSet fresh_default [of t] by (intro yields_in_set_loop lt) (auto simp: set_so_far_def ascending_def)
  have "yields (\<lambda>l. length l < 2 ^ 32 \<and> list_all (has_type lt t) l \<and> ascending (lt t) l)
      (in_set_loop n (lt t) (deser lt list_stream t (default_val t)) [])" if "n < 2 ^ 32" for n
    by (rule yields_mono [OF s]) (use that in \<open>auto simp: set_so_far_def\<close>)
  then show ?case unfolding deser.simps in_set_def
    by (intro yields_map_res [OF yields_sized]) auto
next
  case (TMap a b)
  let ?f = "deser lt list_stream a (default_val a)" and ?g = "deser lt list_stream b (default_val b)"
  have s: "yields (map_so_far (lt a) (has_type lt a) (has_type lt b) (0 + n)) (in_map_loop n (lt a) ?f ?g [])" for n
    using TMap fresh_default by (intro yields_in_map_loop lt) (auto simp: map_so_far_def ascending_def)
  have "yields (\<lambda>m. length m < 2 ^ 32 \<and> list_all (has_type lt a) (map fst m) \<and> list_all (has_type lt b) (map snd m) \<and>
      ascending (lt a) (map fst m)) (in_map_loop n (lt a) ?f ?g [])" if "n < 2 ^ 32" for n
    by (rule yields_mono [OF s]) (use that in \<open>auto simp: map_so_far_def list_all_iff\<close>)
  then show ?case unfolding deser.simps in_map_def
    by (intro yields_map_res [OF yields_sized]) auto
next
  case (TOptional t)
  have "yields (\<lambda>opt. case opt of None \<Rightarrow> True | Some x \<Rightarrow> has_type lt t x)
      (\<lambda>s. if hd valid \<noteq> 0 then rbind (deser lt list_stream t (default_val t) s) (\<lambda>(x, s). Inr (Some x, s))
           else Inr (None, s))" for valid :: "byte list"
    using TOptional fresh_default [of t]
    by (cases "hd valid \<noteq> 0") (auto intro!: yields_return yields_bind [of "has_type lt t"])
  then have "yields (\<lambda>opt. case opt of None \<Rightarrow> True | Some x \<Rightarrow> has_type lt t x)
      (in_optional list_stream (deser lt list_stream t (default_val t)) None)"
    unfolding in_optional_def by (intro yields_bind [OF yields_primitive])
  then show ?case using TOptional.prems by (simp add: yields_map_res)
next
  case (TVariant ts)
  have "list_all2 yields (map (has_type lt) ts) (map (\<lambda>t. deser lt list_stream t (default_val t)) ts)"
    using TVariant fresh_default by (auto simp: list_all2_conv_all_nth list_all_length)
  from yields_deserialize [OF this]
  have "yields (\<lambda>(k, x). k < length ts \<and> (map (has_type lt) ts ! k) x)
      (in_variant list_stream (map (\<lambda>t. deser lt list_stream t (default_val t)) ts))"
    unfolding in_variant_def by (intro yields_bind [OF yields_unsigned_int]) simp
  then show ?case using TVariant.prems by (auto intro!: yields_map_res)
next
  case (TPair a b)
  have "yields (\<lambda>(x, y). has_type lt a x \<and> has_type lt b y)
      (in_pair (deser lt list_stream a (default_val a)) (deser lt list_stream b (default_val b)))"
    unfolding in_pair_def
    by (rule yields_bind [OF TPair.IH(1)], use TPair.prems fresh_default in simp, use fresh_default in simp,
        rule yields_bind [OF TPair.IH(2)], use TPair.prems fresh_default in simp, use fresh_default in simp,
        auto intro: yields_return)
  then show ?case by (auto intro!: yields_map_res)
next
  case (TTuple ts)
  then show ?case unfolding deser.simps in_tuple_def
    by (intro yields_map_res [OF yields_members]) (auto simp: list_all_iff)
next
  case (TClass ts)
  then show ?case unfolding deser.simps in_class_def
    by (intro yields_map_res [OF yields_members]) (auto simp: list_all_iff)
next
  case (TArray n t)
  then have "yields (\<lambda>xs. length xs = length (elems d) \<and> list_all (has_type lt t) xs)
      (in_each (deser lt list_stream t) (elems d))"
    by (intro yields_in_each) (auto simp: list_all_iff)
  then show ?case using TArray.prems unfolding deser.simps in_array_def
    by (elim yields_map_res) simp
next
  case (TCArray n t)
  then have "yields (\<lambda>xs. length xs = length (elems d) \<and> list_all (has_type lt t) xs)
      (in_each (deser lt list_stream t) (elems d))"
    by (intro yields_in_each) (auto simp: list_all_iff)
  then have "yields (\<lambda>xs. length xs = length (elems d) \<and> list_all (has_type lt t) xs)
      (in_c_array list_stream n (deser lt list_stream t) (elems d))"
    unfolding in_c_array_def by (intro yields_bind [OF yields_unsigned_int] yields_check)
  then show ?case using TCArray.prems unfolding deser.simps
    by (elim yields_map_res) simp
next
  case (TCArrayPrim n size_of)
  have "yields (\<lambda>x. length x = n * size_of \<and> n * size_of < 2 ^ 31) (in_c_array_primitive list_stream n size_of)"
    unfolding in_c_array_primitive_def
    by (intro yields_bind [OF yields_unsigned_int] yields_check) (use yields_read in simp)
  then show ?case using TCArrayPrim.prems unfolding deser.simps
    by (elim yields_map_res) simp
qed

end
