(* ===== verification/WireProperties.thy ===== *)
theory WireProperties
  imports Typed
begin

text \<open>
  The properties of serialisation, over the models of \<open>datastream.hpp\<close> and \<open>varint.hpp\<close>.
  In the witnesses the comparison is the one of unsigned integers on \<open>VUnsignedInt\<close>.
\<close>

definition wit_lt :: "ty \<Rightarrow> val \<Rightarrow> val \<Rightarrow> bool" where
  "wit_lt t v w = (case (v, w) of
     (VUnsignedInt a, VUnsignedInt b) \<Rightarrow> ui_value a < ui_value b | _ \<Rightarrow> False)"

abbreviation wit_ty :: ty where
  "wit_ty \<equiv> TMap TUnsignedInt (TOptional (TPair TString TBool))"

abbreviation wit_val :: val where
  "wit_val \<equiv> VMap
     [(VUnsignedInt (unsigned_int 3), VOptional None),
      (VUnsignedInt (unsigned_int 300), VOptional (Some (VPair (VString [104, 105]) (VBool True))))]"

lemma wit_has_type: "has_type wit_lt wit_ty wit_val"
  by (simp add: ascending_def wit_lt_def unsigned_int_def)

lemma wit_enc: "enc wit_val = [2, 3, 0, 172, 2, 1, 2, 104, 105, 1]"
  by (simp add: size_bytes_def unsigned_int_def vbytes.simps byte_of_def)

section \<open>Round trips\<close>

text \<open>C1: \<open>unpack\<close> of a vector made by \<open>pack\<close> gives the object back, for every type the
  operators cover and wherever the two vectors are stored.\<close>

theorem pack_unpack:
  assumes "has_type lt t v" "small t" "length (enc v) < 2 ^ 31"
    and "unat p + length (enc v) < 2 ^ 32" "unat q + length (enc v) < 2 ^ 32"
  shows "\<exists>bytes. pack m p v = Inr bytes \<and> unpack_vector lt t m' q bytes = Inr v"
proof -
  have "load_bytes (store_bytes m' q (enc v)) q (length (enc v)) = enc v @ []"
    using assms(3) by simp
  then have "unpack_vector lt t m' q (enc v) = Inr v"
    using assms(5) unfolding unpack_vector_def by (intro unpack_enc [OF assms(1,2)])
  then show ?thesis using pack_enc [OF assms(4,3)] by blast
qed

theorem pack_unpack_witness:
  "\<exists>bytes. pack (\<lambda>_. 7) 64 wit_val = Inr bytes \<and> unpack_vector wit_lt wit_ty (\<lambda>_. 9) 128 bytes = Inr wit_val"
  by (rule pack_unpack [OF wit_has_type]) (simp_all only: wit_enc, simp_all)

text \<open>C2: an object written into a buffer at the position of the stream is read back from
  there into any destination without an engaged optional, both streams end at the same
  position, and no byte outside of the written block has changed.\<close>

theorem write_read_buffer:
  assumes "has_type lt t v" "small t" "fresh t d" "ds_out_ok ds" "length (enc v) \<le> ds_room ds"
  shows "\<exists>m' ds'. ser ds_write v (m, ds) = Inr (m', ds') \<and>
           deser lt (mem_stream m') t d ds = Inr (v, ds') \<and>
           (\<forall>a. \<not> in_block a (ds_pos ds) (length (enc v)) \<longrightarrow> m' a = m a)"
proof -
  let ?m = "store_bytes m (ds_pos ds) (enc v)"
  have n: "length (enc v) \<le> 2 ^ 32" using assms(5) ds_room_bound [of ds] by simp
  have ok: "ds_ok ds" using assms(4) by (simp add: ds_out_ok_def)
  have "load_bytes ?m (ds_pos ds) (length (enc v)) = enc v" using n by (rule load_store_bytes)
  then have "ds_left ?m ds = enc v @ drop (length (enc v)) (ds_left ?m ds)"
    using take_load_bytes [OF assms(5), of ?m "ds_pos ds"]
    by (metis append_take_drop_id ds_left_def)
  from deser_buffer [OF assms(1-3) ok this] ser_buffer_ok [OF assms(4,5)]
    store_bytes_other [of _ "ds_pos ds" "enc v" m, OF _ n]
  show ?thesis by blast
qed

theorem write_read_buffer_witness:
  "\<exists>m' ds'. ser ds_write wit_val ((\<lambda>_. 7), mk_datastream 64 32) = Inr (m', ds') \<and>
     deser wit_lt (mem_stream m') wit_ty (VMap []) (mk_datastream 64 32) = Inr (wit_val, ds') \<and>
     (\<forall>a. \<not> in_block a (ds_pos (mk_datastream 64 32)) (length (enc wit_val)) \<longrightarrow> m' a = 7)"
  by (rule write_read_buffer [OF wit_has_type])
    (simp_all only: wit_enc, simp_all add: mk_datastream_out_ok mk_datastream_room)

section \<open>Sizes and bounds\<close>

lemma chunks_small: "has_type lt t v \<Longrightarrow> c \<in> set (chunks v) \<Longrightarrow> length c < 2 ^ 31"
proof (induction t arbitrary: v c)
  case (TTuple ts)
  then obtain l x where l: "list_all2 (\<lambda>p x. p x) (map (has_type lt) ts) l"
    and x: "x \<in> set l" "c \<in> set (chunks x)"
    by (auto split: val.splits)
  from list_all2_right [OF l x(1)] obtain t where "t \<in> set ts" "has_type lt t x" by auto
  with x(2) TTuple.IH show ?case by blast
next
  case (TClass ts)
  then obtain l x where l: "list_all2 (\<lambda>p x. p x) (map (has_type lt) ts) l"
    and x: "x \<in> set l" "c \<in> set (chunks x)"
    by (auto split: val.splits)
  from list_all2_right [OF l x(1)] obtain t where "t \<in> set ts" "has_type lt t x" by auto
  with x(2) TClass.IH show ?case by blast
next
  case (TMap a b)
  then show ?case by (fastforce simp: list_all_iff split: val.splits)
next
  case (TVariant ts)
  then obtain i x where "i < length ts" "has_type lt (ts ! i) x"
    "c \<in> set (singles (size_bytes i)) \<or> c \<in> set (chunks x)"
    by (auto split: val.splits)
  with TVariant.IH [of "ts ! i" x c] show ?case by auto
next
  case (TOptional t)
  then show ?case by (auto split: val.splits option.splits)
qed (auto simp: list_all_iff split: val.splits if_splits)

text \<open>C3: \<open>pack_size\<close> is the number of bytes an insertion needs: it advances any buffer
  stream with that much room by exactly this number, and it aborts with \<open>write\<close> on a
  smaller one.\<close>

theorem pack_size_exact:
  assumes "has_type lt t v" "length (enc v) < 2 ^ 31" "ds_out_ok ds"
  shows "\<exists>n. pack_size v = Inr n \<and>
     (if unat n \<le> ds_room ds
      then \<exists>m' ds'. ser ds_write v (m, ds) = Inr (m', ds') \<and> ds_pos ds' = ds_pos ds + n \<and>
             ds_room ds' = ds_room ds - unat n
      else ser ds_write v (m, ds) = Inl (Abort ''write''))"
proof -
  let ?n = "of_nat (length (enc v)) :: u32"
  have n: "unat ?n = length (enc v)" using assms(2) by simp
  have "ser ds_write v (m, ds) = Inl (Abort ''write'')" if "ds_room ds < length (enc v)"
    using ws.write_all_full [of "(m, ds)" "chunks v"] that assms(3) chunks_small [OF assms(1)]
    by (simp add: ser_chunks enc_def)
  moreover have "ds_room (ds_adv (length (enc v)) ds) = ds_room ds - unat ?n"
    if "length (enc v) \<le> ds_room ds"
    using that assms(3) n by (simp add: ds_adv_room ds_out_ok_def)
  moreover have "pack_size v = Inr ?n" using assms(2) by (intro pack_size_enc) simp
  ultimately show ?thesis
    using ser_buffer_ok [OF assms(3), of v m] n by (cases "length (enc v) \<le> ds_room ds") auto
qed

theorem pack_size_exact_witness:
  "\<exists>n. pack_size wit_val = Inr n \<and>
     (if unat n \<le> ds_room (mk_datastream 64 9)
      then \<exists>m' ds'. ser ds_write wit_val ((\<lambda>_. 7), mk_datastream 64 9) = Inr (m', ds') \<and>
             ds_pos ds' = ds_pos (mk_datastream 64 9) + n \<and>
             ds_room ds' = ds_room (mk_datastream 64 9) - unat n
      else ser ds_write wit_val ((\<lambda>_. 7), mk_datastream 64 9) = Inl (Abort ''write''))"
  by (rule pack_size_exact [OF wit_has_type])
    (simp_all only: wit_enc, simp_all add: mk_datastream_out_ok)

section \<open>Input from anywhere\<close>

text \<open>C4: a buffer that holds only a proper prefix of a packed object is refused.\<close>

theorem unpack_truncated:
  assumes "has_type lt t v" "small t" "unat p + n < 2 ^ 32"
    and "n < length (enc v)" "load_bytes m p n = take n (enc v)"
  shows "\<exists>e. unpack lt t m p (of_nat n) = Inl e"
  using assms by (rule unpack_prefix)

theorem unpack_truncated_witness:
  "\<exists>e. unpack wit_lt wit_ty (store_bytes (\<lambda>_. 0) 64 [2, 3, 0, 172, 2, 1, 2, 104]) 64 (of_nat 8) = Inl e"
proof (rule unpack_truncated [OF wit_has_type])
  show "load_bytes (store_bytes (\<lambda>_. 0) 64 [2, 3, 0, 172, 2, 1, 2, 104]) 64 8 = take 8 (enc wit_val)"
    by (simp only: wit_enc) (simp add: load_bytes_numeral)
qed (simp_all only: wit_enc, simp_all)

lemma get_unsigned_byte:
  "unat b < 128 \<Longrightarrow> get_unsigned_int list_stream (b # r) = Inr (unsigned_int (ucast b), r)"
  using get_put_unsigned_int [of "unsigned_int (ucast b)" r]
  by (simp add: unat_ucast_up)

lemma in_set_loop_numeral:
  "in_set_loop (numeral k) lt f acc s =
     rbind (f s) (\<lambda>(v, s). in_set_loop (pred_numeral k) lt f (emplace lt (\<lambda>x. x) v acc) s)"
  by (simp add: numeral_eq_Suc)

text \<open>C5: whatever bytes arrive and whatever the stream, an extracted \<open>std::set\<close> is in
  strictly ascending order of its comparison, so it holds no element twice, and so are the keys
  of an extracted \<open>std::map\<close>.\<close>

theorem ordered_extraction:
  assumes "transp (lt t)" "asymp (lt t)"
  shows "(deser lt st (TSet t) d s = Inr (v, s') \<longrightarrow> (\<exists>l. v = VSet l \<and> ascending (lt t) l)) \<and>
    (deser lt st (TMap t u) d s = Inr (w, s') \<longrightarrow> (\<exists>m. w = VMap m \<and> ascending (lt t) (map fst m)))"
  using in_set_loop_ascending [OF assms, of "[]"] in_map_loop_ascending [OF assms, of "[]"]
  by (auto simp: map_res_def in_set_def in_map_def rbind_eq_Inr ascending_def)

theorem ordered_extraction_witness:
  "deser wit_lt list_stream (TSet TUnsignedInt) (VSet []) [2, 5, 1] =
     Inr (VSet [VUnsignedInt (unsigned_int 1), VUnsignedInt (unsigned_int 5)], []) \<and>
   ascending (wit_lt TUnsignedInt) [VUnsignedInt (unsigned_int 1), VUnsignedInt (unsigned_int 5)]"
proof -
  have lt: "transp (wit_lt TUnsignedInt)" "asymp (wit_lt TUnsignedInt)"
    by (auto intro!: transpI simp: wit_lt_def split: val.splits)
  have "deser wit_lt list_stream (TSet TUnsignedInt) (VSet []) [2, 5, 1] =
     Inr (VSet [VUnsignedInt (unsigned_int 1), VUnsignedInt (unsigned_int 5)], [])"
    by (simp add: map_res_def in_set_def get_unsigned_byte in_set_loop_numeral)
      (simp add: unsigned_int_def wit_lt_def)
  with ordered_extraction [of wit_lt TUnsignedInt list_stream "VSet []" "[2, 5, 1]" _ "[]", OF lt]
  show ?thesis by fastforce
qed

text \<open>C28: whatever bytes a buffer holds, an object that is unpacked from it is a value of its type:
  blocks and containers have the sizes of the type, variants hold one of their alternatives, and
  sets and maps are in strictly ascending order.\<close>

theorem unpack_well_typed:
  assumes "\<And>u. transp (lt u)" "\<And>u. asymp (lt u)" "storable t" "small t"
    and "unat p + n < 2 ^ 32" "n < 2 ^ 31" "unpack lt t m p (of_nat n) = Inr v"
  shows "has_type lt t v"
proof -
  have ok: "ds_ok (mk_datastream p (of_nat n))" using assms(5) by (simp add: mk_datastream_ok)
  obtain ds where v: "deser lt (mem_stream m) t (default_val t) (mk_datastream p (of_nat n)) = Inr (v, ds)"
    using assms(7) by (auto simp: unpack_def rbind_eq_Inr)
  show ?thesis
  proof (cases "deser lt list_stream t (default_val t) (ds_left m (mk_datastream p (of_nat n)))")
    case (Inl e)
    from rs.simulates_Inl [OF rs.sim_deser [OF assms(4)] ok this] v show ?thesis by simp
  next
    case (Inr y)
    then obtain x r where x: "deser lt list_stream t (default_val t) (ds_left m (mk_datastream p (of_nat n))) = Inr (x, r)"
      by (cases y) simp
    then have "x = v" using rs.simulates_Inr [OF rs.sim_deser [OF assms(4)] ok x] v by (metis Inr_inject prod.inject)
    moreover have "length (ds_left m (mk_datastream p (of_nat n))) < 2 ^ 31"
      using assms(6) by (simp add: ds_left_prefix [OF assms(5)])
    ultimately show ?thesis
      using yieldsD [OF yields_deser [OF assms(1,2,3) fresh_default] _ x] by simp
  qed
qed

theorem unpack_well_typed_witness:
  "unpack wit_lt (TSet TUnsignedInt) (store_bytes (\<lambda>_. 0) 64 [2, 5, 1]) 64 3 =
     Inr (VSet [VUnsignedInt (unsigned_int 1), VUnsignedInt (unsigned_int 5)]) \<and>
   has_type wit_lt (TSet TUnsignedInt) (VSet [VUnsignedInt (unsigned_int 1), VUnsignedInt (unsigned_int 5)])"
proof -
  have lt: "transp (wit_lt u)" "asymp (wit_lt u)" for u
    by (auto intro!: transpI asympI simp: wit_lt_def split: val.splits)
  have l: "deser wit_lt list_stream (TSet TUnsignedInt) (VSet []) [2, 5, 1] =
     Inr (VSet [VUnsignedInt (unsigned_int 1), VUnsignedInt (unsigned_int 5)], [])"
    by (simp add: map_res_def in_set_def get_unsigned_byte in_set_loop_numeral)
      (simp add: unsigned_int_def wit_lt_def)
  have b: "ds_left (store_bytes (\<lambda>_. 0) 64 [2, 5, 1]) (mk_datastream 64 3) = [2, 5, 1]"
    using ds_left_prefix [of 64 3] by (simp add: load_bytes_numeral)
  have ok: "ds_ok (mk_datastream 64 3)" using mk_datastream_ok [of 64 3] by simp
  have small: "small (TSet TUnsignedInt)" by simp
  from l have "deser wit_lt list_stream (TSet TUnsignedInt) (VSet [])
      (ds_left (store_bytes (\<lambda>_. 0) 64 [2, 5, 1]) (mk_datastream 64 3)) =
     Inr (VSet [VUnsignedInt (unsigned_int 1), VUnsignedInt (unsigned_int 5)], [])"
    by (simp only: b)
  from rs.simulates_Inr [OF rs.sim_deser [OF small] ok this] obtain ds where
    "deser wit_lt (mem_stream (store_bytes (\<lambda>_. 0) 64 [2, 5, 1])) (TSet TUnsignedInt) (VSet []) (mk_datastream 64 3) =
       Inr (VSet [VUnsignedInt (unsigned_int 1), VUnsignedInt (unsigned_int 5)], ds)"
    by blast
  then have u: "unpack wit_lt (TSet TUnsignedInt) (store_bytes (\<lambda>_. 0) 64 [2, 5, 1]) 64 (of_nat 3) =
     Inr (VSet [VUnsignedInt (unsigned_int 1), VUnsignedInt (unsigned_int 5)])"
    by (simp add: unpack_def)
  show ?thesis using unpack_well_typed [OF lt _ _ _ _ u] u by simp
qed

lemma buffer_fails:
  assumes "small t" "ds_ok ds" "deser lt list_stream t d (ds_left m ds) = Inl e"
  shows "deser lt (mem_stream m) t d ds = Inl e"
  using rs.simulates_Inl [OF rs.sim_deser [OF assms(1)] assms(2,3)] .

lemma deserialize_none:
  "\<forall>k < length alts. i \<noteq> int k \<Longrightarrow>
     deserialize I alts i s = Inl (Abort ''invalid variant index'')"
proof (induction "length alts - I" arbitrary: I)
  case 0
  then show ?case by (subst deserialize.simps) simp
next
  case (Suc n)
  then show ?case by (subst deserialize.simps) simp
qed

text \<open>C6: a variant whose index names no alternative is refused with its own message,
  indices that are negative as an \<open>int\<close> included.\<close>

theorem variant_index_checked:
  assumes "small (TVariant ts)" "length ts \<le> i" "i < 2 ^ 32" "length ts < 2 ^ 31"
    and "ds_ok ds" "ds_left m ds = size_bytes i @ r"
  shows "deser lt (mem_stream m) (TVariant ts) d ds = Inl (Abort ''invalid variant index'')"
proof (rule buffer_fails [OF assms(1,5)])
  have "sint (ui_as (unsigned_int (of_nat i)) :: u32) \<noteq> int k" if "k < length ts" for k
    using that assms(2-4) by (auto simp: ui_as_def sint_u32)
  then show "deser lt list_stream (TVariant ts) d (ds_left m ds) = Inl (Abort ''invalid variant index'')"
    using assms(3) by (simp add: assms(6) in_variant_def map_res_def deserialize_none)
qed

theorem variant_index_checked_witness:
  "deser wit_lt (mem_stream (store_bytes (\<lambda>_. 0) 8 [2, 9])) (TVariant [TBool, TPrim 4]) (VBool False)
     (mk_datastream 8 2) = Inl (Abort ''invalid variant index'')"
  by (rule variant_index_checked [where i = 2 and r = "[9]"])
    (simp_all add: mk_datastream_ok ds_left_def mk_datastream_room load_bytes_numeral size_bytes_def byte_of_def)

text \<open>C7: an array \<open>T[n]\<close> is filled only from a record of exactly \<open>n\<close> elements.\<close>

theorem array_size_checked:
  assumes "small (TCArray n t)" "n < 2 ^ 32" "k < 2 ^ 32" "k \<noteq> n"
    and "ds_ok ds" "ds_left m ds = size_bytes k @ r"
  shows "deser lt (mem_stream m) (TCArray n t) d ds =
     Inl (Abort ''T[] size and unpacked size don't match'')"
proof (rule buffer_fails [OF assms(1,5)])
  have "of_nat n \<noteq> (of_nat k :: u32)"
    using assms(2-4) unat_of_nat_u32 by metis
  then show "deser lt list_stream (TCArray n t) d (ds_left m ds) =
     Inl (Abort ''T[] size and unpacked size don't match'')"
    using assms(3) by (simp add: assms(6) in_c_array_def map_res_def)
qed

theorem array_size_checked_witness:
  "deser wit_lt (mem_stream (store_bytes (\<lambda>_. 0) 8 [1, 1])) (TCArray 2 TBool) (VCArray [])
     (mk_datastream 8 2) = Inl (Abort ''T[] size and unpacked size don't match'')"
  by (rule array_size_checked [where k = 1 and r = "[1]"])
    (simp_all add: mk_datastream_ok ds_left_def mk_datastream_room load_bytes_numeral size_bytes_def byte_of_def)

text \<open>Extraction of a disengaged optional leaves the destination as it was: an engaged
  destination keeps its old value, so it does not end up equal to the object that was packed.\<close>

theorem disengaged_optional_keeps_destination:
  "deser lt list_stream (TOptional t) (VOptional (Some x)) (enc (VOptional None) @ r) =
     Inr (VOptional (Some x), r)"
  by (simp add: in_optional_def in_primitive_def map_res_def)

section \<open>Variable-length integers\<close>

text \<open>No input of which the extraction makes a number is shorter than its encoding.\<close>

lemma unsigned_int_shortest:
  assumes "get_unsigned_int list_stream (bs @ r) = Inr (v, r)"
  shows "length (enc (VUnsignedInt v)) \<le> length bs"
proof -
  from assms obtain w :: u64 where w: "get_varint_loop list_stream 0 0 (bs @ r) = Inr (w, r)"
    and v: "ui_value v = ucast w"
    by (auto simp: get_unsigned_int_def rbind_eq_Inr unsigned_int_def)
  from get_varint_loop_bound [OF w] have bs: "bs \<noteq> []" "unat w < 2 ^ (7 * length bs)" by auto
  have "unat (ui_value v) \<le> unat w" by (simp add: v unat_ucast_mod)
  also have "unat w < 128 ^ length bs" using bs(2) by (simp add: power_mult)
  finally show "length (enc (VUnsignedInt v)) \<le> length bs"
    using length_vbytes_le [of "unat (ui_value v)" "length bs - 1"] bs(1) by simp
qed

text \<open>C5: the insertion of an unsigned integer appends at most five bytes to a stream, the extraction
  reads the integer back from them, whatever follows, and it reads it from no shorter input.\<close>

theorem unsigned_int_minimal:
  "\<exists>bs. put_unsigned_int list_writer v s = Inr (s @ bs) \<and> length bs \<le> 5 \<and>
     get_unsigned_int list_stream (bs @ r) = Inr (v, r) \<and>
     (\<forall>bs'. get_unsigned_int list_stream (bs' @ r) = Inr (v, r) \<longrightarrow> length bs \<le> length bs')"
  using unsigned_int_written [of v s] unsigned_int_shortest [of _ r v]
  by (intro exI [of _ "enc (VUnsignedInt v)"]) (simp add: length_vbytes_u32)

theorem unsigned_int_minimal_witness:
  "\<exists>bs. put_unsigned_int list_writer (unsigned_int 300) [] = Inr bs \<and> length bs \<le> length [172, 2 :: byte]"
proof -
  have "get_unsigned_int list_stream ([172, 2] @ []) = Inr (unsigned_int 300, [])"
    by (simp add: get_unsigned_int_def get_varint_loop.simps unsigned_int_def)
  with unsigned_int_minimal [of "unsigned_int 300" "[]" "[]"] show ?thesis by fastforce
qed

text \<open>C7: a signed integer is read back from its encoding, and the encoding is as short as
  the magnitude allows: \<open>k\<close> bytes for a value in \<open>[- 2 ^ (7 k - 1), 2 ^ (7 k - 1))\<close>.\<close>

theorem signed_int_short:
  assumes "- (2 ^ (7 * k + 6)) \<le> sint (si_value v)" "sint (si_value v) < 2 ^ (7 * k + 6)"
  shows "get_signed_int list_stream (enc (VSignedInt v) @ r) = Inr (v, r) \<and>
    length (enc (VSignedInt v)) \<le> Suc k"
proof -
  have "int (unat (zigzag (si_value v))) < 2 * 2 ^ (7 * k + 6)"
    using assms by (simp only: zigzag_value split: if_splits) linarith
  also have "\<dots> = int (2 ^ (7 * Suc k))" by (simp add: power_add)
  finally have "unat (zigzag (si_value v)) < 2 ^ (7 * Suc k)" by (simp only: of_nat_less_iff)
  then have "unat (zigzag (si_value v)) < (2 ^ 7) ^ Suc k" by (simp only: power_mult)
  then have "unat (zigzag (si_value v)) < 128 ^ Suc k" by simp
  then show ?thesis by (simp add: length_vbytes_le)
qed

theorem signed_int_short_witness:
  "get_signed_int list_stream (enc (VSignedInt (signed_int (- 64))) @ [7]) = Inr (signed_int (- 64), [7]) \<and>
   length (enc (VSignedInt (signed_int (- 64)))) \<le> Suc 0"
  by (rule signed_int_short [where k = 0]) (simp_all add: signed_int_def)

text \<open>Nothing bounds the number of continuation bytes the reader accepts: after five of
  them the next byte is shifted by 35, which the 32-bit shift leaves undefined.\<close>

theorem overlong_varint_undefined:
  assumes "length bs = 5" "\<forall>b \<in> set bs. b AND 0x80 \<noteq> 0"
  shows "get_unsigned_int list_stream (bs @ c # r) = Inl (UB ''shift'') \<and>
    get_signed_int list_stream (bs @ c # r) = Inl (UB ''shift'')"
proof -
  obtain b1 b2 b3 b4 b5 where "bs = [b1, b2, b3, b4, b5]"
    using assms(1) by (auto simp: numeral_eq_Suc length_Suc_conv)
  then show ?thesis
    using assms(2) by (simp add: get_unsigned_int_def get_signed_int_def get_varint_loop.simps)
qed

theorem overlong_varint_undefined_witness:
  "get_unsigned_int list_stream ([128, 128, 128, 128, 128] @ 0 # []) = Inl (UB ''shift'') \<and>
   get_signed_int list_stream ([128, 128, 128, 128, 128] @ 0 # []) = Inl (UB ''shift'')"
  by (rule overlong_varint_undefined) simp_all

section \<open>What the bounds checks do not catch\<close>

text \<open>C12: the check of \<open>write\<close> compares with the size cast to \<open>int32_t\<close>, so a size of
  \<open>2 ^ 31\<close> or more, negative after the cast, passes it however small the buffer is.\<close>

theorem write_negative_size_unchecked:
  assumes "ds_out_ok ds" "ds_room ds < 2 ^ 31" "2 ^ 31 \<le> length d" "length d < 2 ^ 32"
  shows "ds_write d (m, ds) =
    Inr (store_bytes m (ds_pos ds) d, ds\<lparr>ds_pos := ds_pos ds + of_nat (length d)\<rparr>)"
proof -
  have "sint (of_nat (length d) :: u32) < 0" using assms(3,4) by (simp add: sint_u32)
  moreover have "0 \<le> sint (ds_end ds - ds_pos ds)"
    using assms(1,2) by (simp add: sint_u32 unat_ds_remaining ds_out_ok_def)
  ultimately have "sint (of_nat (length d) :: u32) \<le> sint (ds_end ds - ds_pos ds)" by linarith
  then show ?thesis by (simp add: ds_write_def)
qed

theorem write_negative_size_unchecked_witness:
  "ds_write (replicate (2 ^ 31) 1) ((\<lambda>_. 0), mk_datastream 64 4) =
     Inr (store_bytes (\<lambda>_. 0) 64 (replicate (2 ^ 31) 1), (mk_datastream 64 4)\<lparr>ds_pos := 64 + 2 ^ 31\<rparr>)"
  using write_negative_size_unchecked [of "mk_datastream 64 4" "replicate (2 ^ 31) 1" "\<lambda>_. 0"]
  by (simp add: mk_datastream_out_ok mk_datastream_room)

text \<open>C9: \<open>skip\<close> is not checked, and once it has passed the end of the buffer the remaining
  size wraps around: \<open>read\<close> then accepts up to \<open>2 ^ 32 - k\<close> bytes where \<open>k\<close> is the number
  of bytes skipped behind the end. \<open>valid\<close> tells, but no operation asks.\<close>

theorem read_after_skip_unchecked:
  assumes "ds_ok ds" "ds_room ds < unat n" "unat (ds_pos ds) + unat n < 2 ^ 32"
    and "unat s + (unat n - ds_room ds) \<le> 2 ^ 32"
  shows "\<not> ds_valid (ds_skip n ds) \<and>
    ds_read m s (ds_skip n ds) =
      Inr (load_bytes m (ds_pos ds + n) (unat s), ds_skip (n + s) ds)"
proof -
  let ?p = "ds_pos ds + n"
  have p: "unat ?p = unat (ds_pos ds) + unat n" using assms(3) by (simp add: unat_add_small)
  have e: "unat (ds_end ds) < unat ?p" "unat ?p - unat (ds_end ds) = unat n - ds_room ds"
    using assms(1,2) p by (auto simp: ds_ok_def ds_room_def word_le_nat_alt)
  have "unat (ds_end ds - ?p) = 2 ^ 32 - (unat n - ds_room ds)"
    using e by (simp add: unat_sub_if_size word_size)
  then have "s \<le> ds_end ds - ?p" using assms(4) by (simp add: word_le_nat_alt)
  moreover have "\<not> ?p \<le> ds_end ds" using e(1) by (simp add: word_le_nat_alt)
  ultimately show ?thesis by (simp add: ds_valid_def ds_skip_def ds_read_def ac_simps)
qed

theorem read_after_skip_unchecked_witness:
  "\<not> ds_valid (ds_skip 5 (mk_datastream 64 4)) \<and>
   ds_read (\<lambda>_. 7) 1000 (ds_skip 5 (mk_datastream 64 4)) =
     Inr (load_bytes (\<lambda>_. 7) (ds_pos (mk_datastream 64 4) + 5) (unat (1000 :: u32)),
          ds_skip (5 + 1000) (mk_datastream 64 4))"
  by (rule read_after_skip_unchecked) (simp_all add: mk_datastream_ok mk_datastream_room)

end
