(* ===== verification/Names.thy ===== *)
theory Names
  imports Check
begin

text \<open>
  Account and action names: the class \<open>ftl::name\<close> of
  \<open>libraries/ftllib/include/ftllib/name.hpp\<close>, used on the chain, and the functions of
  \<open>tools/fractal-tools/include/ftl/utils.hpp\<close> the compiler driver uses for the same purpose.
  A name is 64 bits: twelve symbols of five bits from the top down and a thirteenth of four
  bits. \<open>sym v i\<close> is the \<open>i\<close>-th symbol and \<open>name_nat\<close> the number a list of symbols stands for;
  both implementations are shown to compute these.
\<close>

definition charmap :: string where
  "charmap = ''.12345abcdefghijklmnopqrstuvwxyz''"

section \<open>The library: \<open>ftl::name\<close>\<close>

record name =
  name_value :: u64

definition name_default :: name where
  "name_default = \<lparr>name_value = 0\<rparr>"

definition name_of_value :: "u64 \<Rightarrow> name" where
  "name_of_value v = \<lparr>name_value = v\<rparr>"

definition name_of_raw :: "u64 \<Rightarrow> name" where
  "name_of_raw r = \<lparr>name_value = r\<rparr>"

definition char_to_value :: "char \<Rightarrow> byte res" where
  "char_to_value c =
     (if c = CHR ''.'' then Inr 0
      else if c \<ge> CHR ''1'' \<and> c \<le> CHR ''5'' then Inr (of_char c - of_char CHR ''1'' + 1)
      else if c \<ge> CHR ''a'' \<and> c \<le> CHR ''z'' then Inr (of_char c - of_char CHR ''a'' + 6)
      else rbind (check False ''character is not in allowed character set for names'') (\<lambda>_. Inr 0))"

text \<open>The loop over the first \<open>n\<close> characters, most significant first.\<close>

fun name_loop :: "string \<Rightarrow> u64 \<Rightarrow> u64 res" where
  "name_loop [] value = Inr value"
| "name_loop (c # cs) value =
     rbind (char_to_value c) (\<lambda>v. name_loop cs (push_bit 5 value OR ucast v))"

definition name_of_string :: "string \<Rightarrow> name res" where
  "name_of_string str =
     rbind (if length str > 13 then check False ''string is too long to be a valid name'' else Inr ()) (\<lambda>_.
     if str = [] then Inr \<lparr>name_value = 0\<rparr>
     else
       let n = min (length str) 12 in
       rbind (name_loop (take n str) 0) (\<lambda>value.
       let value = push_bit (4 + 5 * (12 - n)) value in
       if length str = 13
       then rbind (char_to_value (str ! 12)) (\<lambda>b.
              let v = (ucast b :: u64) in
              rbind (if v > 0x0F
                     then check False ''thirteenth character in name cannot be a letter that comes after j''
                     else Inr ()) (\<lambda>_.
              Inr \<lparr>name_value = value OR v\<rparr>))
       else Inr \<lparr>name_value = value\<rparr>))"

definition name_literal :: "string \<Rightarrow> name res" where
  "name_literal str = name_of_string str"

fun length_loop :: "nat \<Rightarrow> nat \<Rightarrow> u64 \<Rightarrow> nat \<Rightarrow> nat" where
  "length_loop 0 i v l = l"
| "length_loop (Suc k) i v l =
     length_loop k (i + 1) (push_bit 5 v) (if v AND 0xF800000000000000 > 0 then i else l)"

definition name_length :: "name \<Rightarrow> nat" where
  "name_length nm =
     (if name_value nm = 0 then 0 else length_loop 13 0 (name_value nm) 0 + 1)"

text \<open>
  The loop of \<open>suffix\<close>: \<open>remaining_bits\<close> runs over 59, 54 down to 4. It returns
  \<open>remaining_bits_after_last_actual_dot\<close> and \<open>tmp\<close>.
\<close>

fun suffix_loop :: "nat \<Rightarrow> u64 \<Rightarrow> nat \<Rightarrow> nat \<Rightarrow> nat \<times> nat" where
  "suffix_loop remaining_bits value rb tmp =
     (if remaining_bits < 4 then (rb, tmp)
      else
        let c = drop_bit remaining_bits value AND 0x1F;
            tmp' = (if c = 0 then remaining_bits else tmp);
            rb' = (if c = 0 then rb else tmp)
        in if remaining_bits < 5 then (rb', tmp')
           else suffix_loop (remaining_bits - 5) value rb' tmp')"

declare suffix_loop.simps [simp del]

definition suffix :: "name \<Rightarrow> name" where
  "suffix nm =
     (let value = name_value nm;
          (rb, tmp) = suffix_loop 59 value 0 0;
          thirteenth_character = value AND 0x0F;
          rb = (if thirteenth_character \<noteq> 0 then tmp else rb)
      in if rb = 0 then \<lparr>name_value = value\<rparr>
         else
           let mask = push_bit rb 1 - 16;
               shift = 64 - rb
           in \<lparr>name_value = push_bit shift (value AND mask) + push_bit (shift - 1) thirteenth_character\<rparr>)"

definition name_raw :: "name \<Rightarrow> u64" where
  "name_raw nm = name_value nm"

definition name_bool :: "name \<Rightarrow> bool" where
  "name_bool nm \<longleftrightarrow> name_value nm \<noteq> 0"

text \<open>
  \<open>write_as_string\<close>: the result is the characters written to the buffer at \<open>begin\<close>; the
  pointer it returns is as many bytes behind \<open>begin\<close>.
\<close>

fun write_loop :: "nat \<Rightarrow> nat \<Rightarrow> u64 \<Rightarrow> string" where
  "write_loop 0 i v = []"
| "write_loop (Suc k) i v =
     (if v = 0 then []
      else
        let indx = drop_bit (if i = 12 then 60 else 59) (v AND 0xF800000000000000)
        in (charmap ! unat indx) # write_loop k (i + 1) (push_bit 5 v))"

definition write_as_string :: "name \<Rightarrow> u32 \<Rightarrow> u32 \<Rightarrow> string \<times> u32" where
  "write_as_string nm begin end =
     (if begin + 13 < begin \<or> begin + 13 > end then ([], begin)
      else let s = write_loop 13 0 (name_value nm) in (s, begin + of_nat (length s)))"

text \<open>\<open>buffer\<close> is the address of the local array.\<close>

definition to_string :: "u32 \<Rightarrow> name \<Rightarrow> string" where
  "to_string buffer nm = fst (write_as_string nm buffer (buffer + 13))"

definition name_eq :: "name \<Rightarrow> name \<Rightarrow> bool" where
  "name_eq a b \<longleftrightarrow> name_value a = name_value b"

definition name_ne :: "name \<Rightarrow> name \<Rightarrow> bool" where
  "name_ne a b \<longleftrightarrow> name_value a \<noteq> name_value b"

definition name_lt :: "name \<Rightarrow> name \<Rightarrow> bool" where
  "name_lt a b \<longleftrightarrow> name_value a < name_value b"

section \<open>The tools: \<open>utils.hpp\<close>\<close>

definition char_to_symbol :: "char \<Rightarrow> u64" where
  "char_to_symbol c =
     (if c \<ge> CHR ''a'' \<and> c \<le> CHR ''z'' then of_char c - of_char CHR ''a'' + 6
      else if c \<ge> CHR ''1'' \<and> c \<le> CHR ''5'' then of_char c - of_char CHR ''1'' + 1
      else 0)"

text \<open>\<open>str[i]\<close> of a NUL-terminated string.\<close>

definition c_at :: "string \<Rightarrow> nat \<Rightarrow> char" where
  "c_at str i = (if i < length str then str ! i else CHR 0x00)"

function string_to_name_loop :: "string \<Rightarrow> nat \<Rightarrow> u64 \<Rightarrow> nat \<times> u64" where
  "string_to_name_loop str i name =
     (if c_at str i \<noteq> CHR 0x00 \<and> i < 12
      then string_to_name_loop str (i + 1)
             (name OR push_bit (64 - 5 * (i + 1)) (char_to_symbol (c_at str i) AND 0x1f))
      else (i, name))"
  by pat_completeness auto

termination
  by (relation "measure (\<lambda>(str, i, name). 12 - i)") auto

declare string_to_name_loop.simps [simp del]

definition string_to_name :: "string \<Rightarrow> u64" where
  "string_to_name str =
     (let (i, name) = string_to_name_loop str 0 0
      in if i = 12 then name OR (char_to_symbol (c_at str 12) AND 0x0F) else name)"

text \<open>The loop that fills the thirteen characters from the last to the first.\<close>

fun fill_loop :: "nat \<Rightarrow> nat \<Rightarrow> u64 \<Rightarrow> string \<Rightarrow> string" where
  "fill_loop 0 i tmp str = str"
| "fill_loop (Suc k) i tmp str =
     fill_loop k (i + 1) (drop_bit (if i = 0 then 4 else 5) tmp)
       (str[12 - i := charmap ! unat (tmp AND (if i = 0 then 0x0f else 0x1f))])"

fun trim_loop :: "string \<Rightarrow> nat \<Rightarrow> nat" where
  "trim_loop s 0 = 0"
| "trim_loop s (Suc i) = (if s ! i \<noteq> CHR ''.'' then Suc i else trim_loop s i)"

definition trim :: "string \<Rightarrow> string" where
  "trim s = take (trim_loop s (length s)) s"

text \<open>The error handler is called with the message just printed, or not at all.\<close>

definition validate_name :: "string \<Rightarrow> string + unit" where
  "validate_name str =
     (if length str > 13 then Inl ''is more than 13 characters long''
      else
        let value = string_to_name (c_str str);
            str2 = trim (fill_loop 13 0 value (replicate 13 CHR ''.''))
        in if str2 \<noteq> str then Inl ''Error, name not properly normalized'' else Inr ())"

fun find_last_not_dot :: "string \<Rightarrow> nat \<Rightarrow> nat option" where
  "find_last_not_dot s 0 = None"
| "find_last_not_dot s (Suc i) = (if s ! i \<noteq> CHR ''.'' then Some i else find_last_not_dot s i)"

definition trim_right_dots :: "string \<Rightarrow> string" where
  "trim_right_dots str =
     (case find_last_not_dot str (length str) of
        None \<Rightarrow> str
      | Some i \<Rightarrow> take (i + 1) str)"

definition name_to_string :: "u64 \<Rightarrow> string" where
  "name_to_string nm = trim_right_dots (fill_loop 13 0 nm (replicate 13 CHR ''.''))"

text \<open>\<open>path.find_last_of(".")\<close>; \<open>npos\<close> makes \<open>substr\<close> return the whole path.\<close>

fun find_last_dot :: "string \<Rightarrow> nat \<Rightarrow> nat option" where
  "find_last_dot s 0 = None"
| "find_last_dot s (Suc i) = (if s ! i = CHR ''.'' then Some i else find_last_dot s i)"

definition replace_extension :: "string \<Rightarrow> string \<Rightarrow> string" where
  "replace_extension path ext =
     (case find_last_dot path (length path) of
        None \<Rightarrow> path @ ext
      | Some pos \<Rightarrow> take pos path @ ext)"

end
