(* ===== verification/NameCodec.thy ===== *)
theory NameCodec
  imports Names
begin

text \<open>
  What the two implementations of names compute. \<open>sym v i\<close> reads a symbol off a value,
  \<open>name_nat i cs\<close> is the number of the symbols \<open>cs\<close> placed from position \<open>i\<close> on; the lemmas
  bring every loop of \<open>Names\<close> down to them. The properties of names are at the end.
\<close>

section \<open>Symbols\<close>

lemma unat_and_31: "unat (w AND 31 :: 'a::len word) = unat w mod 32"
  using unat_and_low [of w 5] by (simp add: mask_eq_exp_minus_1)

lemma unat_and_15: "unat (w AND 15 :: 'a::len word) = unat w mod 16"
  using unat_and_low [of w 4] by (simp add: mask_eq_exp_minus_1)

definition sym :: "u64 \<Rightarrow> nat \<Rightarrow> nat" where
  "sym v i = (if i < 12 then unat v div 2 ^ (59 - 5 * i) mod 32 else unat v mod 16)"

definition symbols :: "u64 \<Rightarrow> nat list" where
  "symbols v = map (sym v) [0..<13]"

definition weight :: "nat \<Rightarrow> nat" where
  "weight i = (if i < 12 then 2 ^ (59 - 5 * i) else 1)"

fun name_nat :: "nat \<Rightarrow> nat list \<Rightarrow> nat" where
  "name_nat i [] = 0"
| "name_nat i (c # cs) = c * weight i + name_nat (Suc i) cs"

definition tail_nat :: "u64 \<Rightarrow> nat \<Rightarrow> nat" where
  "tail_nat v i = unat v mod 2 ^ (64 - 5 * i)"

lemma length_symbols [simp]: "length (symbols v) = 13"
  by (simp add: symbols_def)

lemma nth_symbols [simp]: "i < 13 \<Longrightarrow> symbols v ! i = sym v i"
  by (simp add: symbols_def)

lemma sym_less: "sym v i < 32"
proof -
  have "unat v mod 16 < 16" by simp
  then have "unat v mod 16 < 32" by linarith
  then show ?thesis by (simp add: sym_def)
qed

lemma sym_12_less: "sym v 12 < 16"
  by (simp add: sym_def)

lemma tail_nat_12: "tail_nat v 12 = sym v 12"
  by (simp add: tail_nat_def sym_def)

lemma tail_nat_0: "tail_nat v 0 = unat v"
  using unsigned_less [of v, where 'a = nat] by (simp add: tail_nat_def)

lemma mod_split: "(n::nat) mod 2 ^ (a + b) = (n div 2 ^ b mod 2 ^ a) * 2 ^ b + n mod 2 ^ b"
proof -
  have "n mod (2 ^ b * 2 ^ a) = 2 ^ b * (n div 2 ^ b mod 2 ^ a) + n mod 2 ^ b" by (rule mod_mult2_eq)
  then show ?thesis by (simp only: power_add mult.commute)
qed

lemma weight_step:
  assumes "i < 12"
  shows "(2::nat) ^ (64 - 5 * i) = 32 * weight i" and "(2::nat) ^ (64 - 5 * Suc i) = weight i"
proof -
  have "64 - 5 * i = 5 + (59 - 5 * i)" "64 - 5 * Suc i = 59 - 5 * i" using assms by auto
  then show "(2::nat) ^ (64 - 5 * i) = 32 * weight i" "(2::nat) ^ (64 - 5 * Suc i) = weight i"
    using assms by (simp_all only: weight_def power_add if_True) simp_all
qed

lemma tail_nat_step:
  assumes "i < 12"
  shows "tail_nat v i = sym v i * weight i + tail_nat v (Suc i)"
proof -
  have "64 - 5 * i = 5 + (59 - 5 * i)" "64 - 5 * Suc i = 59 - 5 * i" using assms by auto
  then show ?thesis
    using assms mod_split [of "unat v" 5 "59 - 5 * i"]
    by (simp add: tail_nat_def sym_def weight_def)
qed

lemma tail_nat_symbols: "i < 13 \<Longrightarrow> tail_nat v i = name_nat i (drop i (symbols v))"
proof (induction "12 - i" arbitrary: i)
  case 0
  then have "i = 12" by simp
  then show ?case by (simp add: tail_nat_12 Cons_nth_drop_Suc [symmetric] weight_def)
next
  case (Suc n)
  then have "tail_nat v (Suc i) = name_nat (Suc i) (drop (Suc i) (symbols v))" "i < 12" by simp_all
  then show ?case by (simp add: tail_nat_step Cons_nth_drop_Suc [symmetric])
qed

lemma unat_symbols: "unat v = name_nat 0 (symbols v)"
  using tail_nat_symbols [of 0 v] by (simp add: tail_nat_0)

lemma symbols_inject: "symbols v = symbols w \<longleftrightarrow> v = w"
  by (metis unat_symbols word_unat_eq_iff)

text \<open>Symbol lists that fit.\<close>

definition fits :: "nat \<Rightarrow> nat list \<Rightarrow> bool" where
  "fits i cs \<longleftrightarrow> i + length cs \<le> 13 \<and> (\<forall>k < length cs. cs ! k < (if i + k = 12 then 16 else 32))"

lemma fits_Nil [simp]: "i \<le> 13 \<Longrightarrow> fits i []"
  by (simp add: fits_def)

lemma fits_Cons: "fits i (c # cs) \<longleftrightarrow> i < 13 \<and> c < (if i = 12 then 16 else 32) \<and> fits (Suc i) cs"
  by (auto simp: fits_def nth_Cons split: nat.splits) 

lemma fits_symbols: "fits 0 (symbols v)"
  by (auto simp: fits_def sym_less sym_12_less)

lemma name_nat_bound: "fits i cs \<Longrightarrow> i \<le> 12 \<Longrightarrow> name_nat i cs < 2 ^ (64 - 5 * i)"
proof (induction cs arbitrary: i)
  case (Cons c cs)
  show ?case
  proof (cases "i = 12")
    case True
    with Cons.prems show ?thesis by (cases cs) (auto simp: fits_Cons weight_def)
  next
    case False
    then have i: "i < 12" "64 - 5 * i = 5 + (59 - 5 * i)" "64 - 5 * Suc i = 59 - 5 * i"
      using Cons.prems by auto
    have "name_nat (Suc i) cs < 2 ^ (59 - 5 * i)"
      using Cons.IH [of "Suc i"] Cons.prems i by (simp add: fits_Cons)
    moreover have "c * 2 ^ (59 - 5 * i) \<le> 31 * 2 ^ (59 - 5 * i)"
      using Cons.prems i by (simp add: fits_Cons)
    ultimately have "c * 2 ^ (59 - 5 * i) + name_nat (Suc i) cs < 32 * 2 ^ (59 - 5 * i)" by linarith
    then show ?thesis using i(1) by (simp add: weight_step weight_def)
  qed
qed simp

lemma name_nat_zeros: "name_nat i (cs @ replicate n 0) = name_nat i cs"
proof (induction cs arbitrary: i)
  case Nil
  show ?case by (induction n arbitrary: i) auto
qed simp

text \<open>
  The order of values is the lexicographic order of symbols; in particular a value has only
  one list of thirteen symbols.
\<close>

lemma digit_less:
  "r < w \<Longrightarrow> s < w \<Longrightarrow> c * w + r < d * w + s \<longleftrightarrow> c < d \<or> c = d \<and> r < (s::nat)"
proof (cases c d rule: linorder_cases)
  case less
  assume "r < w"
  moreover have "Suc c * w \<le> d * w" using less by (intro mult_le_mono1) simp
  ultimately show ?thesis using less by simp
next
  case greater
  assume "s < w"
  moreover have "Suc d * w \<le> c * w" using greater by (intro mult_le_mono1) simp
  ultimately show ?thesis using greater by simp
qed simp

lemma name_nat_tail:
  "fits i (c # cs) \<Longrightarrow> name_nat (Suc i) cs < weight i"
  using name_nat_bound [of "Suc i" cs] by (cases "i = 12"; cases cs) (auto simp: fits_Cons weight_def)

lemma name_nat_less:
  "fits i cs \<Longrightarrow> fits i ds \<Longrightarrow> length cs = length ds \<Longrightarrow>
     name_nat i cs < name_nat i ds \<longleftrightarrow> (cs, ds) \<in> lexord {(a, b). a < b}"
proof (induction cs arbitrary: i ds)
  case (Cons c cs)
  then obtain d ds' where ds: "ds = d # ds'" by (cases ds) auto
  have "name_nat (Suc i) cs < name_nat (Suc i) ds' \<longleftrightarrow> (cs, ds') \<in> lexord {(a, b). a < b}"
    using Cons ds by (simp add: fits_Cons)
  then show ?case
    using name_nat_tail [OF Cons.prems(1)] name_nat_tail [of i d ds'] Cons.prems(2) ds
    by (auto simp: digit_less)
qed simp

lemma name_nat_inject:
  "fits i cs \<Longrightarrow> fits i ds \<Longrightarrow> length cs = length ds \<Longrightarrow> name_nat i cs = name_nat i ds \<Longrightarrow> cs = ds"
proof (induction cs arbitrary: i ds)
  case (Cons c cs)
  then obtain d ds' where ds: "ds = d # ds'" by (cases ds) auto
  have "c = d \<and> name_nat (Suc i) cs = name_nat (Suc i) ds'"
    using name_nat_tail [OF Cons.prems(1)] name_nat_tail [of i d ds'] Cons.prems(2,4) ds
      digit_less [of "name_nat (Suc i) cs" "weight i" "name_nat (Suc i) ds'" c d]
      digit_less [of "name_nat (Suc i) ds'" "weight i" "name_nat (Suc i) cs" d c]
    by simp linarith
  then show ?case using Cons ds by (auto simp: fits_Cons)
qed simp

text \<open>Reading back.\<close>

lemma fits_pad: "fits 0 cs \<Longrightarrow> fits 0 (cs @ replicate (13 - length cs) 0)"
  by (auto simp: fits_def nth_append)

lemma symbols_of_name_nat:
  assumes "fits 0 cs"
  shows "symbols (of_nat (name_nat 0 cs)) = cs @ replicate (13 - length cs) 0"
proof (rule name_nat_inject [OF fits_symbols fits_pad [OF assms]])
  have "name_nat 0 cs < 2 ^ 64" using name_nat_bound [OF assms] by simp
  then show "name_nat 0 (symbols (of_nat (name_nat 0 cs))) = name_nat 0 (cs @ replicate (13 - length cs) 0)"
    by (simp add: name_nat_zeros unat_of_nat_mod flip: unat_symbols)
qed (use assms in \<open>simp add: fits_def\<close>)

end
