(* ===== verification/NameLoops.thy ===== *)
theory NameLoops
  imports NameCodec
begin

text \<open>
  The loops of \<open>Names\<close> in terms of symbols: encoding, decoding, trimming.
\<close>

section \<open>Characters\<close>

definition char_symbol :: "char \<Rightarrow> nat" where
  "char_symbol c = unat (char_to_symbol c)"

lemma charmap_codes: "charmap = map char_of (46 # [49..<54] @ [97..<123 :: nat])"
  by code_simp

lemma mem_char_of:
  "\<forall>n \<in> A. n < 256 \<Longrightarrow> c \<in> char_of ` A \<longleftrightarrow> of_char c \<in> (A :: nat set)"
  by (auto simp: image_iff) (metis char_of_char)

lemma mem_charmap:
  "c \<in> set charmap \<longleftrightarrow> (of_char c :: nat) \<in> {46} \<union> {49..<54} \<union> {97..<123}"
proof -
  have "set charmap = char_of ` ({46} \<union> {49..<54} \<union> {97..<123 :: nat})"
    unfolding charmap_codes by (simp del: upt_rec_numeral add: image_Un)
  then have "c \<in> set charmap \<longleftrightarrow> c \<in> char_of ` ({46} \<union> {49..<54} \<union> {97..<123 :: nat})" by (simp only:)
  also have "\<dots> \<longleftrightarrow> of_char c \<in> {46} \<union> {49..<54} \<union> {97..<123 :: nat}" by (rule mem_char_of) auto
  finally show ?thesis .
qed

lemma char_le: "(c :: char) \<le> d \<longleftrightarrow> (of_char c :: nat) \<le> of_char d"
  by (simp add: less_eq_char_def)

lemma char_symbol_nat:
  "char_symbol c =
     (if (of_char c :: nat) \<in> {97..<123} then of_char c - 91
      else if (of_char c :: nat) \<in> {49..<54} then of_char c - 48 else 0)"
proof -
  define n where "n = (of_char c :: nat)"
  have c: "of_char c = (of_nat n :: u64)" by (simp add: n_def of_nat_of_char)
  have n: "n < 256" by (simp add: n_def)
  have sub: "unat (of_nat n - of_nat k + of_nat j :: u64) = n - k + j" if "k \<le> n" "j < 256" for k j
    using that n by (simp add: unat_of_nat_mod flip: of_nat_diff of_nat_add)
  show ?thesis
    using sub [of 97 6] sub [of 49 1]
    by (auto simp: char_symbol_def char_to_symbol_def char_le c simp flip: n_def)
qed

lemma length_charmap [simp]: "length charmap = 32"
  by (simp add: charmap_def)

lemma charmap_symbols: "map char_symbol charmap = [0..<32]"
  by code_simp

lemma char_symbol_charmap [simp]: "k < 32 \<Longrightarrow> char_symbol (charmap ! k) = k"
  using arg_cong [OF charmap_symbols, of "\<lambda>l. l ! k"] by simp

lemma charmap_mem: "k < 32 \<Longrightarrow> charmap ! k \<in> set charmap"
  by simp

lemma charmap_char_symbol: "c \<in> set charmap \<Longrightarrow> charmap ! char_symbol c = c"
  by (metis char_symbol_charmap in_set_conv_nth length_charmap)


lemma char_symbol_less [simp]: "char_symbol c < 32"
  by (auto simp: char_symbol_nat)

lemma char_to_value_eq:
  "char_to_value c =
     (if c \<in> set charmap then Inr (of_nat (char_symbol c))
      else Inl (Abort ''character is not in allowed character set for names''))"
proof -
  define n where "n = (of_char c :: nat)"
  have c: "of_char c = (of_nat n :: byte)" by (simp add: n_def of_nat_of_char)
  have "of_char CHR ''.'' = (46::nat)" by simp
  then have dot: "c = CHR ''.'' \<longleftrightarrow> n = 46" unfolding n_def by (metis of_char_eq_iff)
  have sub: "(of_nat n - of_nat k + of_nat j :: byte) = of_nat (n - k + j)" if "k \<le> n" for k j
    using that by simp
  consider "n = 46" | "n \<in> {49..<54}" | "n \<in> {97..<123}"
    | "n \<notin> {46} \<union> {49..<54} \<union> {97..<123}" by blast
  then show ?thesis
  proof cases
    case 2
    then show ?thesis using sub [of 49 1]
      by (simp add: char_to_value_def char_symbol_nat mem_charmap char_le dot c flip: n_def)
  next
    case 3
    then show ?thesis using sub [of 97 6]
      by (simp add: char_to_value_def char_symbol_nat mem_charmap char_le dot c flip: n_def)
  qed (auto simp: char_to_value_def char_symbol_nat mem_charmap char_le dot simp flip: n_def)
qed

lemma charmap_0: "charmap ! 0 = CHR ''.''"
  by (simp add: charmap_def)

lemma char_symbol_0: "c \<in> set charmap \<Longrightarrow> char_symbol c = 0 \<longleftrightarrow> c = CHR ''.''"
  by (metis charmap_char_symbol char_symbol_charmap charmap_0 zero_less_numeral)

section \<open>Encoding\<close>

lemma unat_char_to_symbol: "unat (char_to_symbol c) = char_symbol c"
  by (simp add: char_symbol_def)

lemma name_loop_eq:
  assumes "unat a < 32 ^ k" "k + length cs \<le> 12"
  shows "set cs \<subseteq> set charmap \<Longrightarrow> \<exists>b. name_loop cs a = Inr b \<and>
    unat b = foldl (\<lambda>a c. a * 32 + char_symbol c) (unat a) cs \<and> unat b < 32 ^ (k + length cs)"
  using assms
proof (induction cs arbitrary: a k)
  case (Cons c cs)
  let ?a = "push_bit 5 a OR ucast (of_nat (char_symbol c) :: byte) :: u64"
  have "(32::nat) ^ Suc k \<le> 32 ^ 12" using Cons.prems by (intro power_increasing) auto
  then have small: "unat a * 32 + 32 \<le> 2 ^ 60"
    using Cons.prems(2) by simp
  have "unat (ucast (of_nat (char_symbol c) :: byte) :: u64) = char_symbol c"
    using char_symbol_less [of c] by (simp add: unat_ucast_up unat_of_nat_mod del: char_symbol_less)
  then have a: "unat ?a = unat a * 32 + char_symbol c"
    using small or_shifted_nat [of "char_symbol c" 5 "unat a"]
    by (simp add: unat_or unat_push_bit)
  moreover have "unat ?a < 32 ^ Suc k"
    unfolding a power_Suc using Cons.prems(2) char_symbol_less [of c] by linarith
  ultimately show ?case
    using Cons.IH [of ?a "Suc k"] Cons.prems by (auto simp: char_to_value_eq)
qed simp

lemma name_loop_bad: "\<not> set cs \<subseteq> set charmap \<Longrightarrow>
    name_loop cs a = Inl (Abort ''character is not in allowed character set for names'')"
  by (induction cs arbitrary: a) (auto simp: char_to_value_eq)

lemma name_nat_foldl:
  "length cs \<le> 12 \<Longrightarrow>
     name_nat 0 (map char_symbol cs) = foldl (\<lambda>a c. a * 32 + char_symbol c) 0 cs * 2 ^ (64 - 5 * length cs)"
proof (induction cs rule: rev_induct)
  case (snoc c cs)
  have app: "name_nat i (xs @ [x]) = name_nat i xs + x * weight (i + length xs)" for i xs x
    by (induction xs arbitrary: i) auto
  have "length cs < 12" using snoc.prems by simp
  with snoc weight_step [of "length cs"] show ?case by (simp add: app algebra_simps)
qed simp

lemma name_nat_snoc: "name_nat i (xs @ [x]) = name_nat i xs + x * weight (i + length xs)"
  by (induction xs arbitrary: i) auto

lemma weight_pos: "0 < weight i"
  by (simp add: weight_def)

lemma weight_dvd: "i < 12 \<Longrightarrow> j \<le> i \<Longrightarrow> (2::nat) ^ (64 - 5 * Suc i) dvd weight j"
  by (simp add: weight_def le_imp_power_dvd)

lemma dvd_name_nat:
  "i + length cs \<le> 12 \<Longrightarrow> 2 ^ (64 - 5 * (i + length cs)) dvd name_nat i cs"
proof (induction cs rule: rev_induct)
  case (snoc c cs)
  have "(2::nat) ^ (64 - 5 * (i + length (cs @ [c]))) dvd 2 ^ (64 - 5 * (i + length cs))"
    by (intro le_imp_power_dvd) simp
  moreover have "(2::nat) ^ (64 - 5 * (i + length cs)) dvd name_nat i cs" using snoc by simp
  moreover have "(2::nat) ^ (64 - 5 * (i + length (cs @ [c]))) dvd weight (i + length cs)"
    using weight_dvd [of "i + length cs" "i + length cs"] snoc.prems by simp
  ultimately show ?case by (simp add: name_nat_snoc) (meson dvd_add dvd_mult dvd_trans)
qed simp

lemma string_to_name_loop_eq:
  assumes "CHR 0x00 \<notin> set str"
  shows "i \<le> min 12 (length str) \<Longrightarrow> unat name = name_nat 0 (map char_symbol (take i str)) \<Longrightarrow>
    \<exists>name'. string_to_name_loop str i name = (min 12 (length str), name') \<and>
      unat name' = name_nat 0 (map char_symbol (take 12 str))"
  using assms
proof (induction str i name rule: string_to_name_loop.induct)
  case (1 str i name)
  show ?case
  proof (cases "i < 12 \<and> i < length str")
    case True
    let ?w = "push_bit (64 - 5 * (i + 1)) (char_to_symbol (c_at str i) AND 0x1f)"
    have c: "c_at str i = str ! i" using True by (simp add: c_at_def)
    have low: "unat (char_to_symbol (str ! i) AND 0x1f) = char_symbol (str ! i)"
      by (simp add: unat_and_31 unat_char_to_symbol)
    have s32: "char_symbol (str ! i) < 32" by simp
    have "32 * weight i \<le> 2 ^ 64"
      using True weight_step(1) [of i] by (metis diff_le_self one_le_numeral power_increasing)
    with s32 have "char_symbol (str ! i) * weight i < 2 ^ 64"
      by (meson less_le_trans mult_less_mono1 weight_pos)
    then have w: "unat ?w = char_symbol (str ! i) * weight i"
      using True weight_step(2) [of i] by (simp only: unat_push_bit low c) simp
    have "2 ^ (64 - 5 * i) dvd unat name"
      using dvd_name_nat [of 0 "map char_symbol (take i str)"] True "1.prems" by simp
    moreover have "char_symbol (str ! i) * weight i < 2 ^ (64 - 5 * i)"
      using s32 True by (simp add: weight_step(1) weight_pos)
    ultimately have "unat (name OR ?w) = unat name + char_symbol (str ! i) * weight i"
      by (simp only: unat_or w) (rule or_shifted_nat')
    then have "unat (name OR ?w) = name_nat 0 (map char_symbol (take (Suc i) str))"
      using True "1.prems" by (simp add: take_Suc_conv_app_nth name_nat_snoc)
    moreover have "str ! i \<in> set str" using True by simp
    then have "c_at str i \<noteq> CHR 0x00" using "1.prems"(3) c by fastforce
    ultimately show ?thesis
      using "1.IH" True "1.prems"(3) by (subst string_to_name_loop.simps) simp
  next
    case False
    then have i: "min 12 (length str) = i" using "1.prems" by auto
    then have t: "take 12 str = take i str" by (auto simp: min_def split: if_splits)
    have "string_to_name_loop str i name = (i, name)"
      using False by (subst string_to_name_loop.simps) (auto simp: c_at_def)
    then show ?thesis unfolding i t using "1.prems"(2) by blast
  qed
qed

lemma unat_string_to_name:
  assumes "CHR 0x00 \<notin> set str"
  shows "unat (string_to_name str) =
    name_nat 0 (map char_symbol (take 12 str)) + (if 12 < length str then char_symbol (str ! 12) mod 16 else 0)"
proof -
  obtain name' where l: "string_to_name_loop str 0 0 = (min 12 (length str), name')"
    and n: "unat name' = name_nat 0 (map char_symbol (take 12 str))"
    using string_to_name_loop_eq [OF assms, of 0 0] by auto
  have z: "char_symbol (CHR 0x00) = 0" by (simp add: char_symbol_nat)
  show ?thesis
  proof (cases "12 \<le> length str")
    case True
    let ?c = "char_to_symbol (c_at str 12) AND 0x0F"
    have c: "unat ?c = (if 12 < length str then char_symbol (str ! 12) mod 16 else 0)"
      using z by (simp add: unat_and_15 unat_char_to_symbol c_at_def)
    have "2 ^ 4 dvd unat name'"
      using dvd_name_nat [of 0 "map char_symbol (take 12 str)"] True by (simp add: n)
    moreover have "unat ?c < 2 ^ 4" by (simp add: unat_and_15)
    ultimately have "unat (name' OR ?c) = unat name' + unat ?c"
      by (simp only: unat_or) (rule or_shifted_nat')
    then show ?thesis using True l n c by (simp add: string_to_name_def min_def)
  qed (use l n in \<open>simp add: string_to_name_def min_def\<close>)
qed

text \<open>The symbols of a string, the thirteenth cut to four bits as the tools do.\<close>

definition name_syms :: "string \<Rightarrow> nat list" where
  "name_syms str = map char_symbol (take 12 str) @ map (\<lambda>c. char_symbol c mod 16) (drop 12 str)"

lemma length_name_syms [simp]: "length (name_syms str) = length str"
  by (simp add: name_syms_def)

lemma fits_name_syms: "length str \<le> 13 \<Longrightarrow> fits 0 (name_syms str)"
  by (auto simp: fits_def name_syms_def nth_append)

lemma symbols_string_to_name:
  assumes "CHR 0x00 \<notin> set str" "length str \<le> 13"
  shows "symbols (string_to_name str) = name_syms str @ replicate (13 - length str) 0"
proof -
  have "unat (string_to_name str) = name_nat 0 (name_syms str)"
  proof (cases "length str = 13")
    case True
    then have "drop 12 str = [str ! 12]" by (simp add: Cons_nth_drop_Suc [symmetric])
    with True show ?thesis
      by (simp add: unat_string_to_name [OF assms(1)] name_syms_def name_nat_snoc weight_def)
  qed (use assms in \<open>simp add: unat_string_to_name name_syms_def\<close>)
  then have "string_to_name str = of_nat (name_nat 0 (name_syms str))"
    by (metis of_nat_unat ucast_id)
  then show ?thesis using symbols_of_name_nat [OF fits_name_syms [OF assms(2)]] by simp
qed

section \<open>Decoding\<close>

lemma drop_top_mask: "59 \<le> n \<Longrightarrow> drop_bit n (w AND 0xF800000000000000 :: u64) = drop_bit n w"
proof -
  assume n: "59 \<le> n"
  have "(0xF800000000000000 :: u64) = push_bit 59 (mask 5)" by (simp add: mask_eq_exp_minus_1)
  moreover have "drop_bit n (w AND push_bit 59 (mask 5)) = drop_bit n w"
    by (rule bit_word_eqI) (use n in \<open>auto simp: bit_simps dest: bit_imp_le_length\<close>)
  ultimately show ?thesis by simp
qed

lemma sym_shift:
  assumes "i < 13"
  shows "unat (drop_bit (if i = 12 then 60 else 59) (push_bit (5 * i) v AND 0xF800000000000000)) = sym v i"
proof (cases "i = 12")
  case True
  have "drop_bit 60 (push_bit 60 v) = v AND mask 4"
    by (rule bit_word_eqI) (auto simp: bit_simps)
  then show ?thesis using True by (simp add: drop_top_mask unat_and_low unat_and_15 sym_def)
next
  case False
  have "drop_bit 59 (push_bit (5 * i) v) = drop_bit (59 - 5 * i) v AND mask 5"
    by (rule bit_word_eqI) (use False assms in \<open>auto simp: bit_simps\<close>)
  then show ?thesis using False assms by (simp add: drop_top_mask unat_and_low unat_and_31 unat_drop_bit sym_def)
qed

lemma name_nat_zero: "name_nat i cs = 0 \<longleftrightarrow> (\<forall>x \<in> set cs. x = 0)"
  by (induction cs arbitrary: i) (auto simp: weight_def)

lemma tail_zero:
  assumes "i < 13"
  shows "push_bit (5 * i) v = (0::u64) \<longleftrightarrow> (\<forall>x \<in> set (drop i (symbols v)). x = 0)"
proof -
  have e: "(2::nat) ^ 64 = 2 ^ (64 - 5 * i) * 2 ^ (5 * i)" using assms by (simp flip: power_add)
  have "unat (push_bit (5 * i) v) = unat v * 2 ^ (5 * i) mod 2 ^ 64" by (simp only: unat_push_bit) simp
  also have "\<dots> = tail_nat v i * 2 ^ (5 * i)" by (simp only: e mod_mult_mult2 tail_nat_def)
  finally have "push_bit (5 * i) v = 0 \<longleftrightarrow> tail_nat v i = 0" by (simp flip: unat_eq_0)
  then show ?thesis by (simp add: tail_nat_symbols assms name_nat_zero)
qed

lemma write_loop_eq:
  "i \<le> 13 \<Longrightarrow> write_loop (13 - i) i (push_bit (5 * i) v) =
     map ((!) charmap) (drop_trailing (\<lambda>x. x = 0) (drop i (symbols v)))"
proof (induction "13 - i" arbitrary: i)
  case (Suc k)
  then have i: "i < 13" and k: "13 - i = Suc (13 - (i + 1))" by auto
  have d: "drop i (symbols v) = sym v i # drop (i + 1) (symbols v)"
    using i by (simp add: Cons_nth_drop_Suc [symmetric])
  have p: "push_bit 5 (push_bit (5 * i) v) = push_bit (5 * (i + 1)) v"
    by (simp add: ac_simps)
  have IH: "write_loop (13 - (i + 1)) (i + 1) (push_bit (5 * (i + 1)) v) =
      map ((!) charmap) (drop_trailing (\<lambda>x. x = 0) (drop (i + 1) (symbols v)))"
    by (rule Suc.hyps(1)) (use Suc.hyps(2) i in auto)
  show ?case
  proof (cases "push_bit (5 * i) v = 0")
    case True
    then show ?thesis using tail_zero [OF i, of v] by (simp only: k write_loop.simps) simp
  next
    case False
    then have "\<not> (\<forall>x \<in> set (drop i (symbols v)). x = 0)" using tail_zero [OF i, of v] by simp
    then have t: "drop_trailing (\<lambda>x. x = 0) (drop i (symbols v)) =
        sym v i # drop_trailing (\<lambda>x. x = 0) (drop (i + 1) (symbols v))"
      unfolding d by (auto simp: drop_trailing_Cons)
    show ?thesis
      using False by (simp only: k write_loop.simps Let_def sym_shift [OF i] p IH t) simp
  qed
qed simp

lemma fill_loop_eq:
  "i \<le> 13 \<Longrightarrow> length str = 13 \<Longrightarrow> tmp = drop_bit (if i = 0 then 0 else 5 * i - 1) v \<Longrightarrow>
     fill_loop (13 - i) i tmp str = map (\<lambda>j. charmap ! sym v j) [0..<13 - i] @ drop (13 - i) str"
proof (induction "13 - i" arbitrary: i tmp str)
  case (Suc k)
  let ?m = "if i = 0 then 15 else 31 :: u64"
  have k: "13 - i = Suc (12 - i)" "13 - (i + 1) = 12 - i" using Suc.hyps(2) by auto
  have e: "0 < i \<Longrightarrow> 59 - 5 * (12 - i) = 5 * i - 1" using Suc.hyps(2) by arith
  have s: "unat (tmp AND ?m) = sym v (12 - i)"
    using Suc.prems Suc.hyps(2) e by (auto simp: unat_and_15 unat_and_31 sym_def unat_drop_bit)
  have d: "drop_bit (if i = 0 then 4 else 5) tmp = drop_bit (5 * (i + 1) - 1) v"
    using Suc.prems by (auto simp: drop_bit_drop_bit intro: arg_cong2)
  have "fill_loop (13 - (i + 1)) (i + 1) (drop_bit (if i = 0 then 4 else 5) tmp) (str[12 - i := charmap ! unat (tmp AND ?m)])
      = map (\<lambda>j. charmap ! sym v j) [0..<13 - (i + 1)] @ drop (13 - (i + 1)) (str[12 - i := charmap ! unat (tmp AND ?m)])"
    by (rule Suc.hyps(1)) (use Suc.hyps(2) Suc.prems d in auto)
  moreover have "drop (12 - i) (str[12 - i := x]) = x # drop (13 - i) str" for x
    using Suc.prems Suc.hyps(2) by (simp add: drop_update_swap Cons_nth_drop_Suc [symmetric] k)
  ultimately show ?case by (simp add: k s)
qed simp

lemma fill_loop_symbols: "fill_loop 13 0 v (replicate 13 CHR ''.'') = map ((!) charmap) (symbols v)"
  using fill_loop_eq [of 0 "replicate 13 CHR ''.''" v v] by (simp add: symbols_def)

lemma trim_eq: "trim s = drop_trailing (\<lambda>c. c = CHR ''.'') s"
proof -
  have "take (trim_loop s n) s = drop_trailing (\<lambda>c. c = CHR ''.'') (take n s)" if "n \<le> length s" for n
    using that by (induction n) (auto simp: take_Suc_conv_app_nth)
  from this [of "length s"] show ?thesis by (simp add: trim_def)
qed

lemma trim_right_dots_eq:
  "trim_right_dots s = (if \<forall>c \<in> set s. c = CHR ''.'' then s else drop_trailing (\<lambda>c. c = CHR ''.'') s)"
proof -
  have "(case find_last_not_dot s n of None \<Rightarrow> \<forall>c \<in> set (take n s). c = CHR ''.''
      | Some i \<Rightarrow> (\<exists>c \<in> set (take n s). c \<noteq> CHR ''.'') \<and>
          take (i + 1) s = drop_trailing (\<lambda>c. c = CHR ''.'') (take n s))" if "n \<le> length s" for n
    using that by (induction n) (auto simp: take_Suc_conv_app_nth split: option.splits)
  from this [of "length s"] show ?thesis by (auto simp: trim_right_dots_def split: option.splits)
qed

section \<open>What the operations compute\<close>

abbreviation trimmed :: "string \<Rightarrow> string" where
  "trimmed \<equiv> drop_trailing (\<lambda>c. c = CHR ''.'')"

definition decode :: "u64 \<Rightarrow> string" where
  "decode v = trimmed (map ((!) charmap) (symbols v))"

lemma charmap_dot: "k < 32 \<Longrightarrow> charmap ! k = CHR ''.'' \<longleftrightarrow> k = 0"
  by (metis char_symbol_charmap charmap_0 zero_less_numeral)

lemma symbols_less: "x \<in> set (symbols v) \<Longrightarrow> x < 32"
  by (auto simp: symbols_def sym_less)

lemma decode_symbols: "decode v = map ((!) charmap) (drop_trailing (\<lambda>x. x = 0) (symbols v))"
  unfolding decode_def by (rule map_drop_trailing [symmetric]) (simp add: charmap_dot symbols_less)

lemma to_string_decode: "buffer \<le> buffer + 13 \<Longrightarrow> to_string buffer nm = decode (name_value nm)"
  using write_loop_eq [of 0 "name_value nm"]
  by (simp add: to_string_def write_as_string_def decode_symbols not_less)

lemma symbols_0: "symbols 0 = replicate 13 0"
  by (rule nth_equalityI) (simp_all add: sym_def)

lemma name_to_string_decode: "name_to_string v = (if v = 0 then replicate 13 CHR ''.'' else decode v)"
proof -
  have "(\<forall>c \<in> set (map ((!) charmap) (symbols v)). c = CHR ''.'') \<longleftrightarrow> (\<forall>x \<in> set (symbols v). x = 0)"
    by (simp add: charmap_dot symbols_less)
  also have "\<dots> \<longleftrightarrow> v = 0" using tail_zero [of 0 v] by simp
  finally show ?thesis
    by (simp add: name_to_string_def fill_loop_symbols trim_right_dots_eq decode_def symbols_0 charmap_0)
qed

text \<open>Strings that stand for a name, and those that are its normal form.\<close>

definition encodable :: "string \<Rightarrow> bool" where
  "encodable s \<longleftrightarrow> length s \<le> 13 \<and> set s \<subseteq> set charmap \<and> (length s = 13 \<longrightarrow> char_symbol (s ! 12) < 16)"

definition normal_name :: "string \<Rightarrow> bool" where
  "normal_name s \<longleftrightarrow> encodable s \<and> (s = [] \<or> last s \<noteq> CHR ''.'')"

lemma NUL_notin_charmap: "CHR 0x00 \<notin> set charmap"
  by (simp add: charmap_def)

lemma encodable_NUL: "encodable s \<Longrightarrow> CHR 0x00 \<notin> set s"
  using NUL_notin_charmap by (auto simp: encodable_def)

lemma name_syms_encodable:
  assumes "encodable s"
  shows "name_syms s = map char_symbol s"
proof -
  have "map (\<lambda>c. char_symbol c mod 16) (drop 12 s) = map char_symbol (drop 12 s)"
  proof (cases "length s = 13")
    case True
    then have "drop 12 s = [s ! 12]" by (simp add: Cons_nth_drop_Suc [symmetric])
    then show ?thesis using assms True by (simp add: encodable_def)
  qed (use assms in \<open>simp add: encodable_def\<close>)
  then show ?thesis by (simp only: name_syms_def flip: map_append) simp
qed

lemma symbols_encodable:
  "encodable s \<Longrightarrow> symbols (string_to_name s) = map char_symbol s @ replicate (13 - length s) 0"
  using symbols_string_to_name [OF encodable_NUL] by (simp add: name_syms_encodable encodable_def)

lemma map_charmap_symbol: "set s \<subseteq> set charmap \<Longrightarrow> map ((!) charmap) (map char_symbol s) = s"
  by (induction s) (simp_all add: charmap_char_symbol)

lemma decode_encode: "encodable s \<Longrightarrow> decode (string_to_name s) = trimmed s"
  by (simp add: decode_def symbols_encodable map_charmap_symbol charmap_0 encodable_def del: map_map)

lemma decode_pad:
  "symbols v = map char_symbol (decode v) @ replicate (13 - length (decode v)) 0"
  "set (decode v) \<subseteq> set charmap" "length (decode v) \<le> 13"
proof -
  let ?D = "drop_trailing (\<lambda>x. x = 0) (symbols v)"
  have split: "symbols v = ?D @ replicate (13 - length ?D) 0"
    using drop_trailing_pad [of "symbols v" 0] by simp
  then have "set ?D \<subseteq> set (symbols v)" by (metis Un_upper1 set_append)
  then have less: "\<forall>x \<in> set ?D. x < 32" by (auto dest: symbols_less)
  then have "map char_symbol (map ((!) charmap) ?D) = ?D" by (simp add: map_idI)
  with split show "symbols v = map char_symbol (decode v) @ replicate (13 - length (decode v)) 0"
    by (simp only: decode_symbols length_map)
  show "set (decode v) \<subseteq> set charmap" using less by (auto simp: decode_symbols)
  show "length (decode v) \<le> 13"
    using arg_cong [OF split, of length] by (simp add: decode_symbols)
qed

lemma encodable_decode: "encodable (decode v)"
proof -
  have "char_symbol (decode v ! 12) < 16" if "length (decode v) = 13"
  proof -
    have "symbols v ! 12 = char_symbol (decode v ! 12)"
      using that decode_pad(1) [of v] by (simp add: nth_append)
    then show ?thesis using sym_12_less [of v] by simp
  qed
  then show ?thesis using decode_pad [of v] by (simp add: encodable_def)
qed

lemma encode_decode: "string_to_name (decode v) = v"
  using symbols_encodable [OF encodable_decode, of v] decode_pad(1) [of v]
  by (simp flip: symbols_inject)

lemma normal_decode: "normal_name (decode v)"
  using last_drop_trailing [of "\<lambda>c. c = CHR ''.''" "map ((!) charmap) (symbols v)"] encodable_decode
  by (auto simp: normal_name_def decode_def)

lemma decode_normal: "normal_name s \<Longrightarrow> decode (string_to_name s) = s"
  using drop_trailing_id [of s "\<lambda>c. c = CHR ''.''"] by (auto simp: normal_name_def decode_encode)

section \<open>The constructor\<close>

lemma take_12: "take (min n 12) s = take 12 s" if "length s = n" for s :: string
  using that by (simp add: min_def)

lemma name_of_string_eq:
  "name_of_string s =
     (if length s > 13 then Inl (Abort ''string is too long to be a valid name'')
      else if \<not> set s \<subseteq> set charmap then Inl (Abort ''character is not in allowed character set for names'')
      else if length s = 13 \<and> char_symbol (s ! 12) > 15
        then Inl (Abort ''thirteenth character in name cannot be a letter that comes after j'')
      else Inr \<lparr>name_value = string_to_name s\<rparr>)"
proof -
  consider "length s > 13" | "s = []" | "length s \<le> 13" "s \<noteq> []" "\<not> set (take 12 s) \<subseteq> set charmap"
    | "length s \<le> 13" "s \<noteq> []" "set (take 12 s) \<subseteq> set charmap" by fastforce
  then show ?thesis
  proof cases
    case 1
    then show ?thesis by (simp add: name_of_string_def check_def)
  next
    case 2
    have "string_to_name [] = 0"
      using unat_string_to_name [of "[]"] by (simp add: unat_eq_0)
    with 2 show ?thesis by (simp add: name_of_string_def)
  next
    case 3
    then have "\<not> set s \<subseteq> set charmap" by (meson dual_order.trans set_take_subset)
    with 3 show ?thesis by (simp add: name_of_string_def Let_def take_12 name_loop_bad)
  next
    case 4
    let ?t = "take 12 s" and ?n = "min (length s) 12"
    obtain b where b: "name_loop ?t 0 = Inr b"
      and ub: "unat b = foldl (\<lambda>a c. a * 32 + char_symbol c) 0 ?t" "unat b < 32 ^ length ?t"
      using name_loop_eq [of 0 0 ?t] 4(3) by auto
    let ?v = "push_bit (4 + 5 * (12 - ?n)) b"
    have f: "name_nat 0 (map char_symbol ?t) = unat b * 2 ^ (64 - 5 * length ?t)"
      using name_nat_foldl [of ?t] ub by simp
    have "fits 0 (map char_symbol ?t)" by (auto simp: fits_def)
    then have "name_nat 0 (map char_symbol ?t) < 2 ^ 64" using name_nat_bound [of 0] by fastforce
    moreover have "64 - 5 * length ?t = 4 + 5 * (12 - ?n)" by auto
    ultimately have v: "unat ?v = name_nat 0 (map char_symbol ?t)"
      by (simp add: unat_push_bit f)
    show ?thesis
    proof (cases "length s = 13")
      case False
      then have t: "?t = s" using 4(1) by simp
      then have "CHR 0x00 \<notin> set s" using 4(3) NUL_notin_charmap by auto
      then have "?v = string_to_name s"
        using False 4(1) t v by (simp add: word_unat_eq_iff unat_string_to_name)
      then show ?thesis using 4 False t b by (simp add: name_of_string_def Let_def)
    next
      case True
      let ?c = "ucast (of_nat (char_symbol (s ! 12)) :: byte) :: u64"
      have d: "drop 12 s = [s ! 12]" using True by (simp add: Cons_nth_drop_Suc [symmetric])
      have "set s = set ?t \<union> set (drop 12 s)" by (metis append_take_drop_id set_append)
      then have s: "set s \<subseteq> set charmap \<longleftrightarrow> s ! 12 \<in> set charmap" using 4(3) d by auto
      have c: "unat ?c = char_symbol (s ! 12)"
        using char_symbol_less [of "s ! 12"] by (simp add: unat_ucast_up unat_of_nat_mod del: char_symbol_less)
      then have gt: "?c > 0x0F \<longleftrightarrow> char_symbol (s ! 12) > 15" by (simp add: word_less_nat_alt)
      have "?v OR ?c = string_to_name s" if "s ! 12 \<in> set charmap" "\<not> char_symbol (s ! 12) > 15"
      proof -
        have "CHR 0x00 \<notin> set s" using that(1) s NUL_notin_charmap by auto
        moreover have "2 ^ 4 dvd unat ?v" unfolding v
          using dvd_name_nat [of 0 "map char_symbol ?t"] True by simp
        then have "unat (?v OR ?c) = unat ?v + char_symbol (s ! 12)"
          using that(2) by (simp only: unat_or c) (rule or_shifted_nat' [where k = 4], simp_all)
        ultimately show ?thesis
          using that(2) True v by (simp add: word_unat_eq_iff unat_string_to_name)
      qed
      then show ?thesis
        using True 4(2) b gt s by (simp add: name_of_string_def Let_def char_to_value_eq check_def)
    qed
  qed
qed

end
