(* ===== verification/NameSuffix.thy ===== *)
theory NameSuffix
  imports NameLoops
begin

text \<open>
  \<open>name::length\<close> and \<open>name::suffix\<close>: the loops that look for the last symbol and for the last
  dot, in terms of the list of symbols.
\<close>

section \<open>\<open>length\<close>\<close>

lemma top_symbol:
  assumes "i < 13"
  shows "push_bit (5 * i) v AND 0xF800000000000000 > (0::u64) \<longleftrightarrow> sym v i \<noteq> 0"
proof -
  let ?w = "push_bit (5 * i) v"
  have "(0xF800000000000000 :: u64) = push_bit 59 (mask 5)" by (simp add: mask_eq_exp_minus_1)
  moreover have "?w AND push_bit 59 (mask 5) = push_bit 59 (drop_bit 59 ?w)"
    by (rule bit_word_eqI) (auto simp: bit_simps dest: bit_imp_le_length)
  ultimately have eq: "?w AND 0xF800000000000000 = push_bit 59 (drop_bit 59 ?w)" by simp
  have "push_bit 59 (drop_bit 59 ?w) = 0 \<longleftrightarrow> drop_bit 59 ?w = 0"
    by (metis drop_bit_of_0 push_bit_of_0 drop_top_mask eq order_refl)
  moreover have "drop_bit 59 ?w = 0 \<longleftrightarrow> sym v i = 0"
  proof (cases "i = 12")
    case True
    have "unat (push_bit 60 v) = (unat v * 2 ^ 60) mod (2 ^ 4 * 2 ^ 60)"
      by (simp only: unat_push_bit) simp
    then have "unat (push_bit 60 v) = unat v mod 2 ^ 4 * 2 ^ 60" by (simp only: mod_mult_mult2)
    then have "unat (drop_bit 59 (push_bit 60 v)) = unat v mod 16 * 2" by (simp add: unat_drop_bit)
    then show ?thesis using True by (simp add: sym_def flip: unat_eq_0)
  next
    case False
    then have "unat (drop_bit 59 (?w AND 0xF800000000000000)) = sym v i"
      using sym_shift [OF assms, of v] by (simp only: if_False)
    then have "unat (drop_bit 59 ?w) = sym v i" unfolding drop_top_mask [OF order_refl] .
    then show ?thesis by (simp flip: unat_eq_0)
  qed
  ultimately show ?thesis by (simp only: eq word_gt_0) simp
qed

lemma length_loop_eq:
  "i \<le> 13 \<Longrightarrow> length_loop (13 - i) i (push_bit (5 * i) v) l =
     (if \<forall>x \<in> set (drop i (symbols v)). x = 0 then l
      else i + length (drop_trailing (\<lambda>x. x = 0) (drop i (symbols v))) - 1)"
proof (induction "13 - i" arbitrary: i l)
  case (Suc k)
  then have i: "i < 13" and k: "13 - i = Suc (13 - (i + 1))" by auto
  have d: "drop i (symbols v) = sym v i # drop (i + 1) (symbols v)"
    using i by (simp add: Cons_nth_drop_Suc [symmetric])
  have p: "push_bit 5 (push_bit (5 * i) v) = push_bit (5 * (i + 1)) v"
    by (simp add: ac_simps)
  have IH: "length_loop (13 - (i + 1)) (i + 1) (push_bit (5 * (i + 1)) v) l' =
     (if \<forall>x \<in> set (drop (i + 1) (symbols v)). x = 0 then l'
      else (i + 1) + length (drop_trailing (\<lambda>x. x = 0) (drop (i + 1) (symbols v))) - 1)" for l'
    by (rule Suc.hyps(1)) (use Suc.hyps(2) i in auto)
  show ?case
    unfolding d by (simp only: k length_loop.simps top_symbol [OF i] p IH) (auto simp: drop_trailing_Cons)
qed simp

lemma name_length_decode: "name_length nm = length (decode (name_value nm))"
proof -
  have "drop_trailing (\<lambda>x. x = 0) (symbols v) \<noteq> []" if "v \<noteq> 0" for v
    using that decode_pad(1) [of v] symbols_inject [of v 0] by (auto simp: symbols_0 decode_symbols)
  then show ?thesis
    using length_loop_eq [of 0 "name_value nm" 0] tail_zero [of 0 "name_value nm"]
    by (simp add: name_length_def decode_symbols symbols_0 Suc_leI)
qed

section \<open>\<open>suffix\<close>\<close>

text \<open>The elements behind the last \<open>z\<close>, and how many are in front of them.\<close>

definition after_last :: "'a \<Rightarrow> 'a list \<Rightarrow> 'a list" where
  "after_last z xs = rev (takeWhile (\<lambda>x. x \<noteq> z) (rev xs))"

definition upto_last :: "'a \<Rightarrow> 'a list \<Rightarrow> nat" where
  "upto_last z xs = length xs - length (after_last z xs)"

lemma after_last_snoc: "after_last z (xs @ [x]) = (if x = z then [] else after_last z xs @ [x])"
  by (simp add: after_last_def)

lemma length_after_last: "length (after_last z xs) \<le> length xs"
  by (simp add: after_last_def length_takeWhile_le [of _ "rev xs", simplified])

lemma upto_last_snoc: "upto_last z (xs @ [x]) = (if x = z then length xs + 1 else upto_last z xs)"
  using length_after_last [of z xs] by (simp add: upto_last_def after_last_snoc)

lemma after_last_drop: "after_last z xs = drop (upto_last z xs) xs"
proof (induction xs rule: rev_induct)
  case (snoc x xs)
  then show ?case by (simp add: after_last_snoc upto_last_snoc) (simp add: upto_last_def)
qed (simp add: after_last_def)

text \<open>The position in the word of the last dot among the first symbols, 0 when there is none.\<close>

definition dot_bit :: "nat list \<Rightarrow> nat" where
  "dot_bit xs = (if upto_last 0 xs = 0 then 0 else 64 - 5 * upto_last 0 xs)"

lemma dot_step:
  assumes "i < 12"
  shows "dot_bit (take (i + 1) (symbols v)) =
      (if drop_bit (59 - 5 * i) v AND 31 = 0 then 59 - 5 * i else dot_bit (take i (symbols v)))"
    and "dot_bit (drop_trailing (\<lambda>x. x = 0) (take (i + 1) (symbols v))) =
      (if drop_bit (59 - 5 * i) v AND 31 = 0 then dot_bit (drop_trailing (\<lambda>x. x = 0) (take i (symbols v)))
       else dot_bit (take i (symbols v)))"
proof -
  have "unat (drop_bit (59 - 5 * i) v AND 31) = sym v i"
    using assms by (simp only: unat_and_31 unat_drop_bit sym_def if_True)
  then have c: "drop_bit (59 - 5 * i) v AND 31 = 0 \<longleftrightarrow> sym v i = 0"
    by (metis unat_eq_0)
  have "take (i + 1) (symbols v) = take i (symbols v) @ [sym v i]"
    using assms by (simp add: take_Suc_conv_app_nth)
  then show "dot_bit (take (i + 1) (symbols v)) =
      (if drop_bit (59 - 5 * i) v AND 31 = 0 then 59 - 5 * i else dot_bit (take i (symbols v)))"
    "dot_bit (drop_trailing (\<lambda>x. x = 0) (take (i + 1) (symbols v))) =
      (if drop_bit (59 - 5 * i) v AND 31 = 0 then dot_bit (drop_trailing (\<lambda>x. x = 0) (take i (symbols v)))
       else dot_bit (take i (symbols v)))"
    using assms unfolding c by (auto simp: dot_bit_def upto_last_snoc)
qed

lemma suffix_loop_eq:
  "i \<le> 11 \<Longrightarrow> tmp = dot_bit (take i (symbols v)) \<Longrightarrow>
     rb = dot_bit (drop_trailing (\<lambda>x. x = 0) (take i (symbols v))) \<Longrightarrow>
     suffix_loop (59 - 5 * i) v rb tmp =
       (dot_bit (drop_trailing (\<lambda>x. x = 0) (take 12 (symbols v))), dot_bit (take 12 (symbols v)))"
proof (induction "11 - i" arbitrary: i rb tmp)
  case 0
  then have "i = 11" by simp
  with 0 dot_step [of 11 v] show ?case by (subst suffix_loop.simps) (simp add: Let_def)
next
  case (Suc k)
  let ?c = "drop_bit (59 - 5 * i) v AND 31"
  have i: "i < 11" "i < 12" "59 - 5 * i - 5 = 59 - 5 * (i + 1)" "\<not> 59 - 5 * i < 5" using Suc.hyps(2) by auto
  have "suffix_loop (59 - 5 * (i + 1)) v (if ?c = 0 then rb else tmp) (if ?c = 0 then 59 - 5 * i else tmp) =
       (dot_bit (drop_trailing (\<lambda>x. x = 0) (take 12 (symbols v))), dot_bit (take 12 (symbols v)))"
    by (rule Suc.hyps(1))
      (use Suc.hyps(2) Suc.prems dot_step [OF i(2), of v] in \<open>simp_all split: if_splits\<close>)
  then show ?case using i by (subst suffix_loop.simps) (simp add: Let_def)
qed

lemma upto_last_le: "upto_last z xs \<le> length xs"
  by (simp add: upto_last_def)

lemma upto_last_trailing:
  "upto_last z (drop_trailing (\<lambda>x. x = z) xs) < length xs \<or> xs = []"
proof (induction xs rule: rev_induct)
  case (snoc x xs)
  then show ?case using upto_last_le [of z xs] by (auto simp: upto_last_snoc)
qed simp

text \<open>The last dot that matters: the one in the trimmed list of symbols.\<close>

definition last_dot :: "u64 \<Rightarrow> nat" where
  "last_dot v = upto_last 0 (drop_trailing (\<lambda>x. x = 0) (symbols v))"

lemma last_dot_le: "last_dot v \<le> 12"
  using upto_last_trailing [of 0 "symbols v"] length_symbols [of v]
  by (auto simp: last_dot_def simp del: length_symbols)

lemma suffix_bits:
  "(case suffix_loop 59 v 0 0 of (rb, tmp) \<Rightarrow> if v AND 15 \<noteq> 0 then tmp else rb) =
     (if last_dot v = 0 then 0 else 64 - 5 * last_dot v)"
proof -
  have s: "symbols v = take 12 (symbols v) @ [sym v 12]"
    using take_Suc_conv_app_nth [of 12 "symbols v"] by simp
  have l: "suffix_loop 59 v 0 0 =
      (dot_bit (drop_trailing (\<lambda>x. x = 0) (take 12 (symbols v))), dot_bit (take 12 (symbols v)))"
    using suffix_loop_eq [of 0 0 v 0] by (simp add: dot_bit_def upto_last_def)
  have "unat (v AND 15) = sym v 12" by (simp add: unat_and_15 sym_def)
  then have c: "v AND 15 = 0 \<longleftrightarrow> sym v 12 = 0" by (metis unat_eq_0)
  show ?thesis
    unfolding l last_dot_def c by (subst (3 4) s) (simp add: dot_bit_def upto_last_snoc)
qed

text \<open>Shifting out the first \<open>k\<close> symbols.\<close>

lemma name_nat_shift:
  "k \<le> i \<Longrightarrow> 0 < k \<Longrightarrow> i + length cs \<le> 12 \<Longrightarrow>
     name_nat (i - k) (cs @ [c]) = name_nat i cs * 2 ^ (5 * k) + c * weight (i + length cs - k)"
proof (induction cs arbitrary: i)
  case (Cons d cs)
  have i: "i - k < 12" "i < 12" "59 - 5 * (i - k) = (59 - 5 * i) + 5 * k" using Cons.prems by auto
  then have "weight (i - k) = weight i * 2 ^ (5 * k)"
    by (simp only: weight_def if_True power_add)
  then show ?case
    using Cons.IH [of "Suc i"] Cons.prems by (simp add: Suc_diff_le algebra_simps)
qed simp

lemma and_middle:
  assumes "4 \<le> r" "r < 64"
  shows "v AND (push_bit r 1 - 16) = (of_nat (unat v mod 2 ^ r - unat v mod 16) :: u64)"
proof -
  obtain m where r: "r = m + 4" using assms(1) by (metis le_add_diff_inverse2)
  have "push_bit r 1 - 16 = (push_bit 4 (mask m) :: u64)"
    by (simp add: r push_bit_eq_mult mask_eq_exp_minus_1 power_add algebra_simps)
  moreover have "v AND push_bit 4 (mask m) = push_bit 4 (take_bit m (drop_bit 4 v))"
    by (rule bit_word_eqI) (auto simp: bit_simps)
  moreover have "unat v div 2 ^ 4 mod 2 ^ m \<le> unat v"
    by (meson div_le_dividend le_trans mod_less_eq_dividend)
  then have "unat v div 2 ^ 4 mod 2 ^ m < 2 ^ 64"
    using unsigned_less [of v, where 'a = nat] by simp
  then have "take_bit m (drop_bit 4 v) = of_nat (unat v div 2 ^ 4 mod 2 ^ m)"
    by (simp add: word_unat_eq_iff unat_of_nat_mod)
      (subst unsigned_take_bit_eq, simp only: take_bit_eq_mod unat_drop_bit, simp)
  moreover have "unat v mod 2 ^ r - unat v mod 16 = (unat v div 2 ^ 4 mod 2 ^ m) * 2 ^ 4"
    using mod_split [of "unat v" m 4] by (simp add: r)
  ultimately show ?thesis by (simp add: push_bit_eq_mult)
qed

lemma suffix_word:
  assumes "0 < k" "k \<le> 12"
  shows "push_bit (5 * k) (v AND (push_bit (64 - 5 * k) 1 - 16)) + push_bit (5 * k - 1) (v AND 15)
     = of_nat (name_nat 0 (drop k (symbols v)))"
proof -
  define cs where "cs = drop k (take 12 (symbols v))"
  have "take 12 (symbols v) @ [sym v 12] = symbols v"
    using take_Suc_conv_app_nth [of 12 "symbols v"] by simp
  then have "drop k (symbols v) = drop k (take 12 (symbols v) @ [sym v 12])" by (simp only:)
  then have d: "drop k (symbols v) = cs @ [sym v 12]" using assms by (simp add: cs_def)
  have l: "length cs = 12 - k" by (simp add: cs_def)
  have "59 - 5 * (12 - k) = 5 * k - 1" using assms by auto
  then have w: "weight (12 - k) = 2 ^ (5 * k - 1)" using assms by (simp add: weight_def)
  have n0: "name_nat 0 (drop k (symbols v)) = name_nat k cs * 2 ^ (5 * k) + sym v 12 * 2 ^ (5 * k - 1)"
    using name_nat_shift [of k k cs "sym v 12"] assms l by (simp add: d w)
  have "tail_nat v k = name_nat k (drop k (symbols v))" using assms by (intro tail_nat_symbols) simp
  also have "\<dots> = name_nat k cs + sym v 12" using assms l by (simp add: d name_nat_snoc weight_def)
  finally have "name_nat k cs = unat v mod 2 ^ (64 - 5 * k) - unat v mod 16"
    by (simp add: tail_nat_def sym_def)
  then have "v AND (push_bit (64 - 5 * k) 1 - 16) = of_nat (name_nat k cs)"
    using assms by (subst and_middle) auto
  moreover have "v AND 15 = of_nat (sym v 12)"
    by (metis of_nat_unat ucast_id unat_and_15 sym_def less_irrefl)
  ultimately show ?thesis by (simp only: n0 push_bit_eq_mult of_nat_add of_nat_mult of_nat_power of_nat_numeral)
qed

lemma after_last_map:
  "(\<And>x. x \<in> set xs \<Longrightarrow> f x = w \<longleftrightarrow> x = z) \<Longrightarrow> after_last w (map f xs) = map f (after_last z xs)"
  by (induction xs rule: rev_induct) (auto simp: after_last_snoc, simp_all add: after_last_def)

lemma suffix_unfold:
  "name_value (suffix nm) =
     (let v = name_value nm;
          rb = (case suffix_loop 59 v 0 0 of (rb, tmp) \<Rightarrow> if v AND 15 \<noteq> 0 then tmp else rb)
      in if rb = 0 then v
         else push_bit (64 - rb) (v AND (push_bit rb 1 - 16)) + push_bit (64 - rb - 1) (v AND 15))"
  unfolding suffix_def Let_def by (cases "suffix_loop 59 (name_value nm) 0 0") (simp split: if_split)

lemma decode_suffix: "decode (name_value (suffix nm)) = after_last CHR ''.'' (decode (name_value nm))"
proof -
  define v where "v = name_value nm"
  let ?D = "drop_trailing (\<lambda>x. x = 0) (symbols v)"
  have D: "symbols v = ?D @ replicate (13 - length ?D) 0"
    using drop_trailing_pad [of "symbols v" 0] by simp
  have vD: "decode v = map ((!) charmap) ?D" by (rule decode_symbols)
  have less32: "x < 32" if "x \<in> set ?D" for x
    using that D symbols_less [of x v] by (metis Un_iff set_append)
  then have a: "after_last CHR ''.'' (decode v) = map ((!) charmap) (after_last 0 ?D)"
    unfolding vD by (intro after_last_map) (simp add: charmap_dot)
  show ?thesis
  proof (cases "last_dot v = 0")
    case True
    then have "after_last 0 ?D = ?D" by (simp add: after_last_drop last_dot_def)
    moreover have "name_value (suffix nm) = v"
      unfolding suffix_unfold Let_def v_def [symmetric] suffix_bits using True by simp
    ultimately show ?thesis using a vD by (simp add: v_def)
  next
    case False
    let ?k = "last_dot v" and ?cs = "drop (last_dot v) (symbols v)"
    have k: "0 < ?k" "?k \<le> 12" using False last_dot_le by auto
    have r: "64 - 5 * ?k \<noteq> 0" "64 - (64 - 5 * ?k) = 5 * ?k" using k by auto
    have "name_value (suffix nm) = push_bit (5 * ?k) (v AND (push_bit (64 - 5 * ?k) 1 - 16)) +
        push_bit (5 * ?k - 1) (v AND 15)"
      unfolding suffix_unfold Let_def v_def [symmetric] suffix_bits
      by (simp only: False r if_False)
    then have n: "name_value (suffix nm) = of_nat (name_nat 0 ?cs)" by (simp only: suffix_word [OF k])
    have "?k \<le> length ?D" by (simp add: last_dot_def upto_last_le)
    then have cs: "?cs = after_last 0 ?D @ replicate (13 - length ?D) 0"
      by (subst D) (simp add: after_last_drop last_dot_def)
    have "fits 0 ?cs" using k by (auto simp: fits_def sym_less)
    then have "symbols (name_value (suffix nm)) = ?cs @ replicate (13 - length ?cs) 0"
      unfolding n by (rule symbols_of_name_nat)
    then have "decode (name_value (suffix nm)) = trimmed (map ((!) charmap) (after_last 0 ?D))"
      unfolding decode_def cs by (simp add: charmap_0 flip: append_assoc)
    also have "\<dots> = map ((!) charmap) (after_last 0 ?D)"
    proof (rule drop_trailing_id, rule disjCI)
      let ?A = "after_last 0 ?D"
      assume "\<not> \<not> last (map ((!) charmap) ?A) = CHR ''.''"
      then have l: "?A = [] \<or> charmap ! last ?A = CHR ''.''" by (cases "?A = []") (simp_all add: last_map)
      have "?A = []"
      proof (rule ccontr)
        assume ne: "?A \<noteq> []"
        then have "last ?A = last ?D" "?D \<noteq> []" by (auto simp: after_last_drop)
        moreover have "last ?D \<noteq> 0" using last_drop_trailing [of "\<lambda>x. x = 0" "symbols v"] calculation(2) by simp
        moreover have "last ?D < 32" using less32 calculation(2) by simp
        ultimately show False using l ne by (simp add: charmap_dot)
      qed
      then show "map ((!) charmap) ?A = []" by simp
    qed
    finally show ?thesis using a by (simp add: v_def)
  qed
qed

end
