(* ===== verification/NameProperties.thy ===== *)
theory NameProperties
  imports NameSuffix WireProperties
begin

text \<open>
  The properties of names: what strings the two implementations accept, that they agree, that
  printing and parsing are inverse, and the stream operators of \<open>name.hpp\<close>.
\<close>

section \<open>Stream operators\<close>

definition out_name :: "'s writer \<Rightarrow> name \<Rightarrow> 's \<Rightarrow> 's res" where
  "out_name wr v s = out_primitive wr (le_bytes 8 (name_value v)) s"

definition in_name :: "'s istream \<Rightarrow> (name, 's) parser" where
  "in_name st s =
     rbind (in_primitive st 8 s) (\<lambda>(bs, s). Inr (\<lparr>name_value = le_word bs\<rparr>, s))"

section \<open>The order of names\<close>

lemma lexord_pad:
  assumes "irrefl r" "\<forall>x. (x, z) \<notin> r" "\<forall>x. x \<noteq> z \<longrightarrow> (z, x) \<in> r"
    and "xs = [] \<or> last xs \<noteq> z" "ys = [] \<or> last ys \<noteq> z" "length xs + m = length ys + n"
  shows "(xs @ replicate m z, ys @ replicate n z) \<in> lexord r \<longleftrightarrow> (xs, ys) \<in> lexord r"
  using assms(4-6)
proof (induction xs arbitrary: ys)
  case Nil
  have "(replicate k z, ys @ replicate n z) \<in> lexord r \<longleftrightarrow> ys \<noteq> []"
    if "k = length ys + n" "ys = [] \<or> last ys \<noteq> z" for k
    using that
  proof (induction ys arbitrary: k)
    case Nil
    have "(replicate n z, replicate n z) \<notin> lexord r" using assms(1) lexord_irreflexive by (auto simp: irrefl_def)
    with Nil show ?case by simp
  next
    case (Cons y ys)
    then show ?case using assms(1-3) by (cases "y = z") (auto simp: irrefl_def split: if_splits)
  qed
  with Nil show ?case by (auto simp: neq_Nil_conv)
next
  case (Cons x xs)
  show ?case
  proof (cases ys)
    case Nil
    have "(us, replicate (length us) z) \<notin> lexord r" for us
      using assms(2) by (induction us) auto
    moreover have l: "length ((x # xs) @ replicate m z) = n" using Nil Cons.prems(3) by simp
    ultimately have "((x # xs) @ replicate m z, replicate n z) \<notin> lexord r" unfolding l [symmetric] by blast
    then show ?thesis using Nil by simp
  next
    case ys: (Cons y ys')
    then show ?thesis using Cons by (auto split: if_splits)
  qed
qed

lemma symbols_trimmed:
  "symbols v = map char_symbol (decode v) @ replicate (13 - length (decode v)) 0"
  "map char_symbol (decode v) = [] \<or> last (map char_symbol (decode v)) \<noteq> 0"
proof -
  show "symbols v = map char_symbol (decode v) @ replicate (13 - length (decode v)) 0"
    by (rule decode_pad)
  have "char_symbol (last (decode v)) \<noteq> 0" if "decode v \<noteq> []"
    using that normal_decode [of v] decode_pad(2) [of v] char_symbol_0 [of "last (decode v)"]
      subsetD [OF decode_pad(2) last_in_set [OF that]] by (simp add: normal_name_def)
  then show "map char_symbol (decode v) = [] \<or> last (map char_symbol (decode v)) \<noteq> 0"
    by (cases "decode v = []") (simp_all add: last_map)
qed

lemma value_less:
  "v < w \<longleftrightarrow> (map char_symbol (decode v), map char_symbol (decode w)) \<in> lexord {(a, b). a < b}"
proof -
  have "v < w \<longleftrightarrow> name_nat 0 (symbols v) < name_nat 0 (symbols w)"
    by (simp add: word_less_nat_alt unat_symbols)
  also have "\<dots> \<longleftrightarrow> (symbols v, symbols w) \<in> lexord {(a, b). a < b}"
    by (intro name_nat_less fits_symbols) simp
  also have "\<dots> \<longleftrightarrow> (map char_symbol (decode v), map char_symbol (decode w)) \<in> lexord {(a, b). a < b}"
    using symbols_trimmed(2) decode_pad(3)
    by (simp only: symbols_trimmed(1) [of v] symbols_trimmed(1) [of w], intro lexord_pad)
      (auto simp: irrefl_def)
  finally show ?thesis .
qed

section \<open>Properties\<close>

text \<open>C6: the constructor from a string, on every string: which error it raises, and that
  the value is the one the tools compute for the same string.\<close>

theorem name_constructor:
  "name_of_string s =
     (if length s > 13 then Inl (Abort ''string is too long to be a valid name'')
      else if \<not> set s \<subseteq> set charmap then Inl (Abort ''character is not in allowed character set for names'')
      else if length s = 13 \<and> char_symbol (s ! 12) > 15
        then Inl (Abort ''thirteenth character in name cannot be a letter that comes after j'')
      else Inr \<lparr>name_value = string_to_name s\<rparr>)"
  by (rule name_of_string_eq)

lemma validate_name_decode:
  "length s \<le> 13 \<Longrightarrow> validate_name s =
     (if decode (string_to_name (c_str s)) = s then Inr () else Inl ''Error, name not properly normalized'')"
  by (simp add: validate_name_def Let_def fill_loop_symbols trim_eq decode_def)

lemma validated_normal:
  assumes "validate_name s = Inr ()"
  shows "normal_name s"
proof (cases "length s \<le> 13")
  case True
  then have "decode (string_to_name (c_str s)) = s"
    using assms by (simp add: validate_name_decode split: if_splits)
  then show ?thesis using normal_decode by metis
qed (use assms in \<open>simp add: validate_name_def\<close>)

lemma name_of_normal: "normal_name s \<Longrightarrow> name_of_string s = Inr \<lparr>name_value = string_to_name s\<rparr>"
  by (auto simp: name_of_string_eq normal_name_def encodable_def)

text \<open>C7: the compiler accepts exactly the names in normal form: at most thirteen characters
  of the alphabet, the thirteenth not behind \<open>j\<close>, no dot at the end.\<close>

theorem validate_name_normal: "validate_name s = Inr () \<longleftrightarrow> normal_name s"
proof (cases "length s \<le> 13")
  case True
  have "normal_name s" if "decode (string_to_name (c_str s)) = s" using that normal_decode by metis
  moreover have "c_str s = s" if "normal_name s"
  proof -
    have "CHR 0x00 \<notin> set s" using that encodable_NUL by (simp add: normal_name_def)
    then have "\<forall>c \<in> set s. c \<noteq> CHR 0x00" by blast
    then show ?thesis unfolding c_str_def by (rule takeWhile_eq_all_conv [THEN iffD2])
  qed
  ultimately have "decode (string_to_name (c_str s)) = s \<longleftrightarrow> normal_name s"
    using decode_normal [of s] by metis
  then show ?thesis using True by (simp only: validate_name_decode split: if_split) blast
qed (auto simp: validate_name_def normal_name_def encodable_def)

text \<open>C8: a name the compiler accepts is accepted on the chain and printed as it was
  written.\<close>

theorem valid_name_roundtrip:
  assumes "validate_name s = Inr ()" "buffer \<le> buffer + 13"
  shows "\<exists>nm. name_of_string s = Inr nm \<and> to_string buffer nm = s"
proof -
  have n: "normal_name s" by (rule validated_normal [OF assms(1)])
  then have "name_of_string s = Inr \<lparr>name_value = string_to_name s\<rparr>" by (rule name_of_normal)
  then show ?thesis using n assms(2) by (simp add: to_string_decode decode_normal)
qed

theorem valid_name_roundtrip_witness:
  "\<exists>nm. name_of_string ''fractal.name'' = Inr nm \<and> to_string 64 nm = ''fractal.name''"
  by (rule valid_name_roundtrip) (code_simp, simp)

text \<open>C13: every one of the \<open>2 ^ 64\<close> values is the value of the string it is printed as.\<close>

theorem print_then_parse:
  assumes "buffer \<le> buffer + 13"
  shows "name_of_string (to_string buffer nm) = Inr nm"
  using encodable_decode [of "name_value nm"] encode_decode [of "name_value nm"]
  by (auto simp: to_string_decode assms name_of_string_eq encodable_def)

theorem print_then_parse_witness:
  "name_of_string (to_string 64 \<lparr>name_value = 0x1234567890ABCDEF\<rparr>) = Inr \<lparr>name_value = 0x1234567890ABCDEF\<rparr>"
  by (rule print_then_parse) simp

text \<open>The tools print a name as the library does, except for the value 0, which the
  library prints as the empty string and the tools as thirteen dots.\<close>

theorem tools_print_agree:
  assumes "buffer \<le> buffer + 13"
  shows "name_to_string (name_value nm) =
    (if name_value nm = 0 then replicate 13 CHR ''.'' else to_string buffer nm) \<and>
    to_string buffer \<lparr>name_value = 0\<rparr> = []"
  by (simp add: name_to_string_decode to_string_decode assms decode_symbols symbols_0)

theorem tools_print_agree_witness:
  "name_to_string 0x3232800000000000 = to_string 64 \<lparr>name_value = 0x3232800000000000\<rparr>"
  using tools_print_agree [of 64 "\<lparr>name_value = 0x3232800000000000\<rparr>"] by simp

text \<open>C9: names are ordered as their printed forms are, lexicographically in the order of
  the alphabet.\<close>

theorem name_order:
  assumes "buffer \<le> buffer + 13"
  shows "name_lt a b \<longleftrightarrow>
    (map char_symbol (to_string buffer a), map char_symbol (to_string buffer b)) \<in> lexord {(x, y). x < y}"
  by (simp add: name_lt_def value_less to_string_decode assms)

theorem name_order_witness:
  "name_lt \<lparr>name_value = 1\<rparr> \<lparr>name_value = 2\<rparr> \<longleftrightarrow>
    (map char_symbol (to_string 64 \<lparr>name_value = 1\<rparr>), map char_symbol (to_string 64 \<lparr>name_value = 2\<rparr>))
      \<in> lexord {(x, y). x < y}"
  by (rule name_order) simp

text \<open>C20: \<open>length\<close> is the length of the printed form and \<open>suffix\<close> is printed as what follows
  the last dot of the printed form, the whole of it when there is no dot.\<close>

theorem name_length_suffix:
  assumes "buffer \<le> buffer + 13"
  shows "name_length nm = length (to_string buffer nm) \<and>
    to_string buffer (suffix nm) = rev (takeWhile (\<lambda>c. c \<noteq> CHR ''.'') (rev (to_string buffer nm)))"
  by (simp add: to_string_decode assms name_length_decode decode_suffix after_last_def)

theorem name_length_suffix_witness:
  "name_length \<lparr>name_value = 7\<rparr> = length (to_string 64 \<lparr>name_value = 7\<rparr>) \<and>
    to_string 64 (suffix \<lparr>name_value = 7\<rparr>) =
      rev (takeWhile (\<lambda>c. c \<noteq> CHR ''.'') (rev (to_string 64 \<lparr>name_value = 7\<rparr>)))"
  by (rule name_length_suffix) simp

text \<open>C21: \<open>write_as_string\<close> into a buffer of less than thirteen bytes writes nothing and
  returns \<open>begin\<close>; otherwise it returns the end of what it wrote, within the buffer.\<close>

theorem write_as_string_bounds:
  "(case write_as_string nm bg en of (s, p) \<Rightarrow>
      if bg \<le> bg + 13 \<and> bg + 13 \<le> en
      then unat p = unat bg + length s \<and> p \<le> en \<and> length s \<le> 13
      else s = [] \<and> p = bg)"
proof (cases "bg \<le> bg + 13 \<and> bg + 13 \<le> en")
  case True
  let ?s = "write_loop 13 0 (name_value nm)"
  have s: "?s = decode (name_value nm)"
    using write_loop_eq [of 0 "name_value nm"] by (simp add: decode_symbols)
  have l: "length ?s \<le> 13" unfolding s by (rule decode_pad)
  have u: "unat (bg + 13) = unat bg + 13"
    using True unat_plus_simple [of bg 13] by simp
  have "unat (bg + 13) < 2 ^ 32" using unsigned_less [of "bg + 13", where 'a = nat] by simp
  then have "unat (bg + of_nat (length ?s)) = unat bg + length ?s"
    using l u by (intro unat_add_of_nat) simp
  moreover from this have "bg + of_nat (length ?s) \<le> en"
    using True l u by (simp add: word_le_nat_alt)
  moreover have "\<not> (bg + 13 < bg \<or> bg + 13 > en)" using True by (simp add: not_less)
  ultimately show ?thesis using True l unfolding write_as_string_def Let_def by simp
qed (auto simp: write_as_string_def not_less)

text \<open>A name inserted into a buffer stream is extracted again, and takes eight bytes.\<close>

theorem name_stream_roundtrip:
  assumes "ds_out_ok ds" "8 \<le> ds_room ds"
  shows "\<exists>m' ds'. out_name ds_write nm (m, ds) = Inr (m', ds') \<and>
    in_name (mem_stream m') ds = Inr (nm, ds') \<and> ds_room ds' = ds_room ds - 8"
proof -
  let ?bs = "le_bytes 8 (name_value nm)" and ?m = "store_bytes m (ds_pos ds) (le_bytes 8 (name_value nm))"
  have ok: "ds_ok ds" using assms(1) by (simp add: ds_out_ok_def)
  have "out_name ds_write nm (m, ds) = Inr (?m, ds_adv 8 ds)"
    using ds_write_ok [of ds ?bs m] assms by (simp add: out_name_def out_primitive_def)
  moreover have "ds_read ?m 8 ds = Inr (?bs, ds_adv 8 ds)"
    using ds_read_ok [OF ok assms(2), of ?m] load_store_bytes [of ?bs m "ds_pos ds"] by simp
  then have "in_name (mem_stream ?m) ds = Inr (nm, ds_adv 8 ds)"
    by (simp add: in_name_def in_primitive_def le_word_bytes)
  ultimately show ?thesis using ds_adv_room [OF ok assms(2)] by blast
qed

theorem name_stream_roundtrip_witness:
  "\<exists>m' ds'. out_name ds_write \<lparr>name_value = 99\<rparr> ((\<lambda>_. 0), mk_datastream 64 8) = Inr (m', ds') \<and>
    in_name (mem_stream m') (mk_datastream 64 8) = Inr (\<lparr>name_value = 99\<rparr>, ds') \<and>
    ds_room ds' = ds_room (mk_datastream 64 8) - 8"
  by (rule name_stream_roundtrip) (simp_all add: mk_datastream_out_ok mk_datastream_room)

end
