(* ===== verification/Malloc.thy ===== *)
theory Malloc
  imports Memory
begin

text \<open>
  The heap of a contract: \<open>libraries/ftllib/src/malloc.cpp\<close>, a bump allocator over the linear
  memory of the wasm instance, and \<open>memmove\<close> of \<open>memory.cpp\<close>, which allocates its temporary
  with it. The instance owns \<open>pages\<close> pages of 64 KiB; \<open>memory.grow\<close> adds pages unless the
  limit of the instance would be exceeded, as the wasm specification has it. The interface
  \<open>allocator\<close> states what a client may expect of the blocks it is given.
\<close>

section \<open>The wasm instance\<close>

record wasm =
  memory :: mem
  pages :: nat
  max_pages :: nat

definition current_memory :: "wasm \<Rightarrow> u32" where
  "current_memory w = of_nat (pages w)"

definition grow_memory :: "u32 \<Rightarrow> wasm \<Rightarrow> u32 \<times> wasm" where
  "grow_memory n w =
     (if pages w + unat n \<le> min (max_pages w) (2 ^ 16)
      then (of_nat (pages w), w\<lparr>pages := pages w + unat n\<rparr>)
      else (- 1, w))"

section \<open>\<open>dsmalloc\<close>\<close>

record dsmalloc =
  heap :: u32
  last_ptr :: u32
  next_page :: u32

definition align :: "u32 \<Rightarrow> byte \<Rightarrow> u32" where
  "align ptr align_amt = (ptr + ucast align_amt - 1) AND NOT (ucast align_amt - 1)"

text \<open>The constructor: the linker places the heap base at address 0.\<close>

definition init_dsmalloc :: "wasm \<Rightarrow> dsmalloc" where
  "init_dsmalloc w =
     (let h = align (le_word (load_bytes (memory w) 0 4)) 8
      in \<lparr>heap = h, last_ptr = h, next_page = current_memory w\<rparr>)"

type_synonym 'a heap_op = "dsmalloc \<times> wasm \<Rightarrow> ('a \<times> dsmalloc \<times> wasm) res"

definition dsmalloc_alloc :: "u32 \<Rightarrow> byte \<Rightarrow> u32 heap_op" where
  "dsmalloc_alloc sz align_amt = (\<lambda>(d, w).
     if sz = 0 then Inr (0, d, w)
     else
       let ret = last_ptr d;
           lp = align (last_ptr d + sz) align_amt;
           pages_to_alloc = drop_bit 16 sz;
           np = next_page d + pages_to_alloc;
           (np, pages_to_alloc) =
             (if push_bit 16 np \<le> lp then (np + 1, pages_to_alloc + 1) else (np, pages_to_alloc));
           (r, w) = grow_memory pages_to_alloc w
       in rbind (check (r \<noteq> - 1) ''failed to allocate pages'') (\<lambda>_.
            Inr (ret, d\<lparr>last_ptr := lp, next_page := np\<rparr>, w)))"

definition malloc :: "u32 \<Rightarrow> u32 heap_op" where
  "malloc sz s = dsmalloc_alloc sz 8 s"

definition calloc :: "u32 \<Rightarrow> u32 \<Rightarrow> u32 heap_op" where
  "calloc count sz s =
     rbind (dsmalloc_alloc (count * sz) 8 s) (\<lambda>(ptr, d, w).
       if ptr \<noteq> 0
       then Inr (ptr, d, w\<lparr>memory := fst (memset (memory w) ptr 0 (count * sz))\<rparr>)
       else Inr (0, d, w))"

definition realloc :: "u32 \<Rightarrow> u32 \<Rightarrow> u32 heap_op" where
  "realloc ptr sz s = dsmalloc_alloc sz 8 s"

definition free :: "u32 \<Rightarrow> unit heap_op" where
  "free ptr = (\<lambda>(d, w). Inr ((), d, w))"

text \<open>\<open>new uint8_t[n]\<close> asks \<open>malloc\<close> for at least one byte.\<close>

definition new_bytes :: "u32 \<Rightarrow> u32 heap_op" where
  "new_bytes n s = malloc (if n = 0 then 1 else n) s"

definition memmove :: "u32 \<Rightarrow> u32 \<Rightarrow> u32 \<Rightarrow> u32 heap_op" where
  "memmove ptr1 ptr2 n s =
     rbind (new_bytes n s) (\<lambda>(p3, d, w).
       let (m, _) = memcpy (memory w) p3 ptr2 n;
           (m, _) = memcpy m ptr1 p3 n
       in rbind (free p3 (d, w\<lparr>memory := m\<rparr>)) (\<lambda>(_, d, w). Inr (ptr1, d, w)))"

section \<open>Invariant\<close>

text \<open>
  The break is aligned and lies inside of the pages the instance has; the allocator's count of
  pages is the instance's.
\<close>

definition heap_inv :: "dsmalloc \<times> wasm \<Rightarrow> bool" where
  "heap_inv = (\<lambda>(d, w).
     8 dvd unat (last_ptr d) \<and> heap d \<le> last_ptr d \<and>
     unat (next_page d) = pages w \<and> pages w \<le> 2 ^ 16 \<and> unat (last_ptr d) < pages w * 2 ^ 16)"

definition heap_top :: "dsmalloc \<times> wasm \<Rightarrow> nat" where
  "heap_top = (\<lambda>(d, w). unat (last_ptr d))"

lemma unat_and_not_7: "unat ((x::u32) AND NOT 7) = unat x div 8 * 8"
proof -
  have "(7 :: u32) = mask 3" by (simp add: mask_eq_exp_minus_1)
  moreover have "x AND NOT (mask 3) = push_bit 3 (drop_bit 3 x)"
    by (rule bit_word_eqI) (auto simp: bit_simps dest: bit_imp_le_length)
  ultimately have "unat (x AND NOT 7) = unat (push_bit 3 (drop_bit 3 x))" by simp
  also have "\<dots> = unat x div 8 * 8 mod 2 ^ 32" by (simp add: unat_push_bit unat_drop_bit)
  also have "unat x div 8 * 8 < 2 ^ 32"
    using unsigned_less [of x, where 'a = nat] div_times_less_eq_dividend [of "unat x" 8] by simp
  then have "unat x div 8 * 8 mod 2 ^ 32 = unat x div 8 * 8" by simp
  finally show ?thesis .
qed

lemma unat_align_8:
  assumes "unat x + 7 < 2 ^ 32"
  shows "unat (align x 8) = (unat x + 7) div 8 * 8"
proof -
  have "align x 8 = (x + 7) AND NOT 7" by (simp add: align_def) (subst add.commute, rule refl)
  moreover have "unat (x + 7) = unat x + 7" using assms by (simp add: unat_add_small)
  ultimately show ?thesis by (simp only: unat_and_not_7)
qed

lemma alloc_inv:
  assumes inv: "heap_inv s" and sz: "sz \<noteq> 0" and ok: "dsmalloc_alloc sz 8 s = Inr (p, s')"
  shows "heap_inv s'" and "unat p = heap_top s"
    and "heap_top s + unat sz \<le> heap_top s'" and "heap_top s' < heap_top s + unat sz + 8"
    and "memory (snd s') = memory (snd s)" and "heap (fst s') = heap (fst s)"
proof -
  obtain d w where s: "s = (d, w)" by (cases s)
  define q where "q = unat sz div 2 ^ 16"
  define L where "L = unat (last_ptr d)"
  have inv': "8 dvd L" "heap d \<le> last_ptr d" "unat (next_page d) = pages w" "pages w \<le> 2 ^ 16"
    "L < pages w * 2 ^ 16"
    using inv by (auto simp: heap_inv_def s L_def)
  have qd: "unat (drop_bit 16 sz) = q" by (simp add: unat_drop_bit q_def)
  have q16: "q < 2 ^ 16" using unsigned_less [of sz, where 'a = nat] by (simp add: q_def)
  define np where "np = next_page d + drop_bit 16 sz"
  have np: "unat np = pages w + q" using inv' q16 qd by (simp add: np_def unat_add_small)
  define lp where "lp = align (last_ptr d + sz) 8"
  define full where "full \<longleftrightarrow> push_bit 16 np \<le> lp"
  define n where "n = (if full then drop_bit 16 sz + 1 else drop_bit 16 sz)"
  have un: "unat n = (if full then q + 1 else q)"
    using qd q16 by (simp add: n_def unat_add_small)
  have step: "dsmalloc_alloc sz 8 s = (case grow_memory n w of (r, w) \<Rightarrow>
      rbind (check (r \<noteq> - 1) ''failed to allocate pages'') (\<lambda>_.
        Inr (last_ptr d, d\<lparr>last_ptr := lp, next_page := (if full then np + 1 else np)\<rparr>, w)))"
    using sz by (simp add: dsmalloc_alloc_def s Let_def n_def full_def lp_def np_def)
  from ok have grown: "pages w + unat n \<le> min (max_pages w) (2 ^ 16)"
    unfolding step by (auto simp: grow_memory_def check_def split: if_splits)
  with ok have res: "p = last_ptr d"
    "s' = (d\<lparr>last_ptr := lp, next_page := (if full then np + 1 else np)\<rparr>, w\<lparr>pages := pages w + unat n\<rparr>)"
    unfolding step by (auto simp: grow_memory_def check_def split: if_splits)
  have S: "unat sz \<le> 2 ^ 16 * q + 65535" by (simp add: q_def)
  have L8: "L + 8 \<le> pages w * 2 ^ 16"
  proof -
    obtain k where "L = 8 * k" using inv'(1) by (rule dvdE)
    moreover from this inv'(5) have "k < 8192 * pages w" by simp
    ultimately show ?thesis by simp
  qed
  have room: "pages w + q < 2 ^ 16"
  proof (rule ccontr)
    assume "\<not> pages w + q < 2 ^ 16"
    with grown un have "pages w + q = 2 ^ 16" "\<not> full" by (auto split: if_splits)
    then have "unat (push_bit 16 np) = 0" by (simp only: unat_push_bit np) simp
    then have full by (simp add: full_def word_le_nat_alt)
    with \<open>\<not> full\<close> show False ..
  qed
  then have nowrap: "L + unat sz + 7 < 2 ^ 32" using S L8 by simp
  have uls: "unat (last_ptr d + sz) = L + unat sz" using nowrap by (simp add: L_def unat_add_small)
  have lp: "unat lp = (L + unat sz + 7) div 8 * 8" using nowrap by (simp add: lp_def unat_align_8 uls)
  have f: "full \<longleftrightarrow> (pages w + q) * 2 ^ 16 \<le> unat lp"
    using room by (simp add: full_def word_le_nat_alt unat_push_bit np)
  have unp: "unat (if full then np + 1 else np) = pages w + unat n"
    using room np un by (auto simp: unat_add_small)
  have top: "L + unat sz \<le> unat lp" "unat lp < L + unat sz + 8" unfolding lp by presburger+
  moreover have "unat lp < (pages w + unat n) * 2 ^ 16"
    using f un S L8 top by (auto simp: algebra_simps)
  moreover have "8 dvd unat lp" by (simp add: lp)
  moreover have "heap d \<le> lp" using inv'(2) top by (simp add: word_le_nat_alt L_def)
  ultimately show "heap_inv s'" "unat p = heap_top s" "heap_top s + unat sz \<le> heap_top s'"
    "heap_top s' < heap_top s + unat sz + 8" "memory (snd s') = memory (snd s)" "heap (fst s') = heap (fst s)"
    using grown unp by (simp_all add: heap_inv_def heap_top_def s res L_def)
qed

section \<open>What a client may expect\<close>

text \<open>
  An allocator with a moving boundary: \<open>top s\<close> is the end of what has been handed out. A block
  starts at the old boundary and ends at or below the new one, and allocation touches no byte.
\<close>

type_synonym block = "u32 \<times> nat"

text \<open>Several allocations in a row; the blocks handed out, oldest first.\<close>

fun alloc_all :: "(u32 \<Rightarrow> 's \<Rightarrow> (u32 \<times> 's) res) \<Rightarrow> u32 list \<Rightarrow> 's \<Rightarrow> (block list \<times> 's) res" where
  "alloc_all alloc [] s = Inr ([], s)"
| "alloc_all alloc (n # ns) s =
     rbind (alloc n s) (\<lambda>(p, s). rbind (alloc_all alloc ns s) (\<lambda>(bs, s). Inr ((p, unat n) # bs, s)))"

locale allocator =
  fixes alloc :: "u32 \<Rightarrow> 's \<Rightarrow> (u32 \<times> 's) res"
    and inv :: "'s \<Rightarrow> bool"
    and top :: "'s \<Rightarrow> nat"
    and bytes :: "'s \<Rightarrow> mem"
  assumes alloc_inv: "inv s \<Longrightarrow> n \<noteq> 0 \<Longrightarrow> alloc n s = Inr (p, s') \<Longrightarrow> inv s'"
    and alloc_at: "inv s \<Longrightarrow> n \<noteq> 0 \<Longrightarrow> alloc n s = Inr (p, s') \<Longrightarrow> unat p = top s"
    and alloc_top: "inv s \<Longrightarrow> n \<noteq> 0 \<Longrightarrow> alloc n s = Inr (p, s') \<Longrightarrow> top s + unat n \<le> top s'"
    and alloc_bytes: "inv s \<Longrightarrow> n \<noteq> 0 \<Longrightarrow> alloc n s = Inr (p, s') \<Longrightarrow> bytes s' = bytes s"
    and top_bound: "inv s \<Longrightarrow> top s < 2 ^ 32"
    and top_aligned: "inv s \<Longrightarrow> 8 dvd top s"
begin

lemma alloc_all_blocks:
  assumes "inv s" "\<forall>n \<in> set ns. n \<noteq> 0" "alloc_all alloc ns s = Inr (bs, s')"
  shows "inv s' \<and> top s \<le> top s' \<and> bytes s' = bytes s \<and> map snd bs = map unat ns \<and>
    (\<forall>(p, n) \<in> set bs. 8 dvd unat p \<and> top s \<le> unat p \<and> unat p + n \<le> top s') \<and>
    sorted_wrt (\<lambda>(p, n) (q, k). unat p + n \<le> unat q) bs"
  using assms
proof (induction ns arbitrary: s bs)
  case (Cons n ns)
  then obtain p s1 bs1 where a: "alloc n s = Inr (p, s1)" and r: "alloc_all alloc ns s1 = Inr (bs1, s')"
    and bs: "bs = (p, unat n) # bs1"
    by (auto simp: rbind_eq_Inr)
  have n: "n \<noteq> 0" using Cons.prems(2) by simp
  have s1: "inv s1" "unat p = top s" "top s + unat n \<le> top s1" "bytes s1 = bytes s"
    using alloc_inv [OF Cons.prems(1) n a] alloc_at [OF Cons.prems(1) n a]
      alloc_top [OF Cons.prems(1) n a] alloc_bytes [OF Cons.prems(1) n a] by simp_all
  from Cons.IH [OF s1(1) _ r] Cons.prems(2)
  have IH: "inv s'" "top s1 \<le> top s'" "bytes s' = bytes s1" "map snd bs1 = map unat ns"
    "\<forall>(p, n) \<in> set bs1. 8 dvd unat p \<and> top s1 \<le> unat p \<and> unat p + n \<le> top s'"
    "sorted_wrt (\<lambda>(p, n) (q, k). unat p + n \<le> unat q) bs1"
    by auto
  then show ?case using s1 bs top_aligned [OF Cons.prems(1)] by fastforce
qed simp

text \<open>Blocks handed out never overlap, neither each other nor anything older.\<close>

lemma alloc_all_disjoint:
  assumes "inv s" "\<forall>n \<in> set ns. n \<noteq> 0" "alloc_all alloc ns s = Inr (bs, s')"
    and "i < j" "j < length bs" "bs ! i = (p, n)" "bs ! j = (q, k)"
  shows "disjoint_blocks p n q k"
proof -
  have b: "\<forall>(p, n) \<in> set bs. 8 dvd unat p \<and> top s \<le> unat p \<and> unat p + n \<le> top s'" "inv s'"
    "sorted_wrt (\<lambda>(p, n) (q, k). unat p + n \<le> unat q) bs"
    using alloc_all_blocks [OF assms(1-3)] by simp_all
  have "(p, n) \<in> set bs" "(q, k) \<in> set bs" using assms(4-7) by (metis nth_mem less_trans, metis nth_mem)
  then have "unat p + n \<le> top s'" "unat q + k \<le> top s'" using b(1) by auto
  moreover have "unat p + n \<le> unat q" using sorted_wrt_nth_less [OF b(3) assms(4,5)] assms(6,7) by simp
  ultimately show ?thesis using top_bound [OF b(2)] by (intro disjoint_blocksI) auto
qed

lemma alloc_below:
  assumes "inv s" "n \<noteq> 0" "alloc n s = Inr (p, s')" "unat q + k \<le> top s"
  shows "disjoint_blocks p (unat n) q k"
  using alloc_at [OF assms(1-3)] alloc_top [OF assms(1-3)] alloc_inv [OF assms(1-3)] assms(4)
    top_bound [of s'] by (intro disjoint_blocksI) auto

end

interpretation ma: allocator malloc heap_inv heap_top "\<lambda>s. memory (snd s)"
proof unfold_locales
  fix s :: "dsmalloc \<times> wasm" and n p s'
  assume "heap_inv s" "n \<noteq> 0" "malloc n s = Inr (p, s')"
  note a = alloc_inv [OF this(1,2) this(3) [unfolded malloc_def]]
  show "heap_inv s'" "unat p = heap_top s" "heap_top s + unat n \<le> heap_top s'"
    "memory (snd s') = memory (snd s)" by (rule a)+
next
  fix s :: "dsmalloc \<times> wasm" assume "heap_inv s"
  then show "heap_top s < 2 ^ 32"
    using unsigned_less [of "last_ptr (fst s)", where 'a = nat] by (cases s) (simp add: heap_top_def)
next
  fix s :: "dsmalloc \<times> wasm" assume "heap_inv s"
  then show "8 dvd heap_top s" by (cases s) (simp add: heap_inv_def heap_top_def)
qed

end
