(* ===== verification/HeapProperties.thy ===== *)
theory HeapProperties
  imports Malloc
begin

text \<open>The properties of the heap of a contract, from the interpretation \<open>ma\<close> of the allocator.\<close>

text \<open>A concrete instance for the witnesses: two pages, the heap base at 70000.\<close>

definition wit_wasm :: wasm where
  "wit_wasm = \<lparr>memory = store_bytes (\<lambda>_. 0) 0 (le_bytes 4 (70000 :: u32)), pages = 2, max_pages = 33\<rparr>"

lemma init_heap_inv:
  assumes "unat (le_word (load_bytes (memory w) 0 4) :: u32) + 7 < pages w * 2 ^ 16" "pages w < 2 ^ 16"
  shows "heap_inv (init_dsmalloc w, w)"
proof -
  let ?b = "le_word (load_bytes (memory w) 0 4) :: u32"
  have b: "unat ?b + 7 < 2 ^ 32" using assms by simp
  then have a: "unat (align ?b 8) = (unat ?b + 7) div 8 * 8" by (rule unat_align_8)
  then have "unat (align ?b 8) \<le> unat ?b + 7" by simp
  moreover have "8 dvd unat (align ?b 8)" using a by simp
  ultimately show ?thesis
    using assms by (simp add: heap_inv_def init_dsmalloc_def Let_def current_memory_def unat_of_nat_mod)
qed

lemma wit_base: "(le_word (load_bytes (memory wit_wasm) 0 4) :: u32) = 70000"
  using load_store_bytes [of "le_bytes 4 (70000 :: u32)" "\<lambda>_. 0" 0]
  by (simp add: wit_wasm_def le_word_bytes)

lemma wit_pages [simp]: "pages wit_wasm = 2" "max_pages wit_wasm = 33" "wit_wasm\<lparr>pages := 2\<rparr> = wit_wasm"
  by (simp_all add: wit_wasm_def)

lemma wit_init: "heap_inv (init_dsmalloc wit_wasm, wit_wasm)"
  by (rule init_heap_inv) (simp_all add: wit_base)

lemma wit_heap: "init_dsmalloc wit_wasm = \<lparr>heap = 70000, last_ptr = 70000, next_page = 2\<rparr>"
  by (simp add: init_dsmalloc_def wit_base current_memory_def align_def)

text \<open>The same instance after \<open>malloc (5)\<close>.\<close>

definition wit_state :: "dsmalloc \<times> wasm" where
  "wit_state = (\<lparr>heap = 70000, last_ptr = 70008, next_page = 2\<rparr>, wit_wasm)"

lemma wit_state_inv: "heap_inv wit_state"
  by (simp add: wit_state_def heap_inv_def)

lemma mod_le_sub: "m \<le> x \<Longrightarrow> 0 < m \<Longrightarrow> x mod m + m \<le> (x :: nat)"
proof -
  assume "m \<le> x" "0 < m"
  then have "1 \<le> x div m" by (simp add: div_greater_zero_iff Suc_le_eq)
  then have "m \<le> m * (x div m)" by simp
  then show ?thesis using mult_div_mod_eq [of m x] by linarith
qed

lemma malloc_outcome:
  assumes "heap_inv (d, w)"
  shows "(if sz = 0 \<or> pages w + unat sz div 2 ^ 16 + 1 \<le> min (max_pages w) (2 ^ 16)
          then \<exists>p s'. malloc sz (d, w) = Inr (p, s')
          else (\<exists>p s'. malloc sz (d, w) = Inr (p, s')) \<or>
               malloc sz (d, w) = Inl (Abort ''failed to allocate pages''))"
proof -
  define n where "n = (if push_bit 16 (next_page d + drop_bit 16 sz) \<le> align (last_ptr d + sz) 8
    then drop_bit 16 sz + 1 else drop_bit 16 sz)"
  have q: "unat (drop_bit 16 sz) = unat sz div 2 ^ 16" by (simp add: unat_drop_bit)
  have "unat sz div 2 ^ 16 < 2 ^ 16" using unsigned_less [of sz, where 'a = nat] by simp
  then have un: "unat n \<le> unat sz div 2 ^ 16 + 1" using q by (simp add: n_def unat_add_small)
  have "malloc sz (d, w) = (if sz = 0 then Inr (0, d, w) else case grow_memory n w of (r, w) \<Rightarrow>
      rbind (check (r \<noteq> - 1) ''failed to allocate pages'') (\<lambda>_. Inr (last_ptr d, d\<lparr>last_ptr :=
        align (last_ptr d + sz) 8, next_page := (if push_bit 16 (next_page d + drop_bit 16 sz)
          \<le> align (last_ptr d + sz) 8 then next_page d + drop_bit 16 sz + 1 else next_page d + drop_bit 16 sz)\<rparr>, w)))"
    by (simp add: malloc_def dsmalloc_alloc_def Let_def n_def)
  moreover have "of_nat (pages w) \<noteq> (- 1 :: u32)"
  proof -
    have "pages w \<le> 2 ^ 16" using assms by (simp add: heap_inv_def)
    then have "unat (of_nat (pages w) :: u32) = pages w" by (simp add: unat_of_nat_mod)
    moreover have "unat (- 1 :: u32) = 2 ^ 32 - 1"
      by (simp add: unsigned_minus_1_eq_mask mask_eq_exp_minus_1)
    ultimately show ?thesis using \<open>pages w \<le> 2 ^ 16\<close> by auto
  qed
  ultimately show ?thesis using un by (auto simp: grow_memory_def check_def)
qed

lemma malloc_grows:
  "heap_inv (d, w) \<Longrightarrow> sz = 0 \<or> pages w + unat sz div 2 ^ 16 + 1 \<le> min (max_pages w) (2 ^ 16) \<Longrightarrow>
     \<exists>p s'. malloc sz (d, w) = Inr (p, s')"
  using malloc_outcome [of d w sz] by simp

lemma malloc_only_error:
  "heap_inv (d, w) \<Longrightarrow> malloc sz (d, w) = Inl e \<Longrightarrow> e = Abort ''failed to allocate pages''"
  using malloc_outcome [of d w sz] by (auto split: if_splits)

text \<open>C10: whatever sizes are asked for, the blocks \<open>malloc\<close> hands out are aligned to eight
  bytes, lie inside of the pages of the instance and above everything handed out before, and
  never overlap; no byte of memory changes.\<close>

theorem malloc_blocks:
  assumes "heap_inv s" "\<forall>n \<in> set ns. n \<noteq> 0" "alloc_all malloc ns s = Inr (bs, s')"
  shows "heap_inv s' \<and> map snd bs = map unat ns \<and> memory (snd s') = memory (snd s) \<and>
    (\<forall>(p, n) \<in> set bs. 8 dvd unat p \<and> heap_top s \<le> unat p \<and> unat p + n \<le> pages (snd s') * 2 ^ 16) \<and>
    (\<forall>j < length bs. \<forall>i < j. disjoint_blocks (fst (bs ! i)) (snd (bs ! i)) (fst (bs ! j)) (snd (bs ! j)))"
proof -
  note b = ma.alloc_all_blocks [OF assms]
  then have "heap_top s' \<le> pages (snd s') * 2 ^ 16"
    by (cases s') (simp add: heap_inv_def heap_top_def)
  with b have "\<forall>(p, n) \<in> set bs. 8 dvd unat p \<and> heap_top s \<le> unat p \<and> unat p + n \<le> pages (snd s') * 2 ^ 16"
    by fastforce
  moreover have "disjoint_blocks (fst (bs ! i)) (snd (bs ! i)) (fst (bs ! j)) (snd (bs ! j))"
    if "j < length bs" "i < j" for i j
    using ma.alloc_all_disjoint [OF assms that(2,1)] by (metis prod.collapse)
  ultimately show ?thesis using b by blast
qed

theorem malloc_blocks_witness:
  "\<exists>s'. heap_inv s' \<and> disjoint_blocks 70000 5 70008 3"
proof -
  have "alloc_all malloc [5, 3] (init_dsmalloc wit_wasm, wit_wasm) =
      Inr ([(70000, 5), (70008, 3)], (\<lparr>heap = 70000, last_ptr = 70016, next_page = 2\<rparr>, wit_wasm))"
    by (simp add: wit_heap malloc_def dsmalloc_alloc_def align_def Let_def grow_memory_def)
  from malloc_blocks [OF wit_init _ this] show ?thesis by fastforce
qed

text \<open>C24: \<open>malloc\<close> fails only when the instance cannot grow: with one page more than the size
  needs below the limit it succeeds, and its only failure is its own message.\<close>

theorem malloc_total:
  assumes "heap_inv (d, w)"
  shows "(if sz = 0 \<or> pages w + unat sz div 2 ^ 16 + 1 \<le> min (max_pages w) (2 ^ 16)
          then \<exists>p s'. malloc sz (d, w) = Inr (p, s')
          else (\<exists>p s'. malloc sz (d, w) = Inr (p, s')) \<or>
               malloc sz (d, w) = Inl (Abort ''failed to allocate pages''))"
proof (cases "malloc sz (d, w)")
  case (Inl e)
  then show ?thesis using malloc_grows [OF assms, of sz] malloc_only_error [OF assms, of sz] by auto
qed auto

theorem malloc_total_witness:
  "\<exists>p s'. malloc 100000 (init_dsmalloc wit_wasm, wit_wasm) = Inr (p, s')"
  using malloc_total [OF wit_init, of 100000] by simp

text \<open>C18: \<open>calloc\<close> gives a zeroed block for \<open>count * size\<close> bytes when that product fits in
  \<open>size_t\<close>; when it does not, the block it gives has only the wrapped size, less than asked for
  by at least \<open>2 ^ 32\<close> bytes.\<close>

theorem calloc_block:
  assumes "heap_inv s" "count * sz \<noteq> 0" "calloc count sz s = Inr (p, s')" "p \<noteq> 0"
  shows "load_bytes (memory (snd s')) p (unat (count * sz)) = replicate (unat (count * sz)) 0 \<and>
    unat p = heap_top s \<and> heap_top s' < heap_top s + unat (count * sz) + 8 \<and>
    (if unat count * unat sz < 2 ^ 32 then unat (count * sz) = unat count * unat sz
     else unat (count * sz) + 2 ^ 32 \<le> unat count * unat sz)"
proof -
  obtain d w where m: "malloc (count * sz) s = Inr (p, d, w)"
    and s': "s' = (d, w\<lparr>memory := fst (memset (memory w) p 0 (count * sz))\<rparr>)"
    using assms(3,4) by (auto simp: calloc_def malloc_def rbind_eq_Inr split: if_splits)
  have n: "unat (count * sz) \<le> 2 ^ 32" using unsigned_less [of "count * sz", where 'a = nat] by simp
  have "unat p = heap_top s" by (rule ma.alloc_at [OF assms(1,2) m])
  moreover have "heap_top (d, w) < heap_top s + unat (count * sz) + 8"
    using alloc_inv(4) [OF assms(1,2) m [unfolded malloc_def]] .
  moreover have "unat (count * sz) = unat count * unat sz mod 2 ^ 32" by (simp add: unat_word_ariths)
  then have "if unat count * unat sz < 2 ^ 32 then unat (count * sz) = unat count * unat sz
     else unat (count * sz) + 2 ^ 32 \<le> unat count * unat sz"
    using mod_le_sub by simp
  ultimately show ?thesis
    by (simp add: s' memset_def load_memset_loop [OF n] heap_top_def)
qed

theorem calloc_block_witness:
  "calloc 65537 65536 wit_state = calloc 1 65536 wit_state \<and>
   (\<exists>p s'. calloc 65537 65536 wit_state = Inr (p, s') \<and> heap_top s' < heap_top wit_state + 65536 + 8)"
proof -
  have e0: "65537 * 65536 = (65536 :: u32)" by simp
  have e: "calloc 65537 65536 wit_state = calloc 1 65536 wit_state"
    by (simp only: calloc_def e0 mult_1)
  obtain p d w where m: "malloc 65536 wit_state = Inr (p, d, w)"
    using malloc_grows [of "fst wit_state" wit_wasm 65536] wit_state_inv
    by (auto simp: wit_state_def)
  have "p \<noteq> 0" using ma.alloc_at [OF wit_state_inv _ m] by (auto simp: wit_state_def heap_top_def)
  then obtain s' where "calloc 1 65536 wit_state = Inr (p, s')"
    using m by (auto simp: calloc_def malloc_def)
  then have c: "calloc 65537 65536 wit_state = Inr (p, s')" unfolding e .
  from calloc_block [OF wit_state_inv _ c \<open>p \<noteq> 0\<close>, unfolded e0] c e show ?thesis by simp
qed

text \<open>C11: \<open>memmove\<close> copies correctly whatever the overlap of source and destination, when both
  lie in memory handed out before: afterwards the destination holds what the source held before,
  and nothing else below the old boundary has changed.\<close>

theorem memmove_overlapping:
  assumes "heap_inv s" "n \<noteq> 0" "unat p1 + unat n \<le> heap_top s" "unat p2 + unat n \<le> heap_top s"
    and "memmove p1 p2 n s = Inr (r, s')"
  shows "r = p1 \<and> heap_inv s' \<and>
    load_bytes (memory (snd s')) p1 (unat n) = load_bytes (memory (snd s)) p2 (unat n) \<and>
    (\<forall>a. unat a < heap_top s \<and> \<not> in_block a p1 (unat n) \<longrightarrow> memory (snd s') a = memory (snd s) a)"
proof -
  obtain p3 d w where new: "malloc n s = Inr (p3, d, w)"
    and r: "r = p1"
      "s' = (d, w\<lparr>memory := memcpy_loop (memcpy_loop (memory w) p3 p2 0 (unat n)) p1 p3 0 (unat n)\<rparr>)"
    using assms(2,5) by (auto simp: memmove_def new_bytes_def memcpy_def free_def rbind_eq_Inr Let_def)
  let ?m = "memory (snd s)" and ?k = "unat n"
  have k: "?k \<le> 2 ^ 32" using unsigned_less [of n, where 'a = nat] by simp
  have w: "memory w = ?m" using ma.alloc_bytes [OF assms(1,2) new] by simp
  have d2: "disjoint_blocks p3 ?k p2 ?k" by (rule ma.alloc_below [OF assms(1,2) new assms(4)])
  have d1: "disjoint_blocks p3 ?k p1 ?k" by (rule ma.alloc_below [OF assms(1,2) new assms(3)])
  then have d1': "disjoint_blocks p1 ?k p3 ?k" by (auto simp: disjoint_blocks_def)
  let ?bs = "load_bytes ?m p2 ?k"
  have m: "memory (snd s') = store_bytes (store_bytes ?m p3 ?bs) p1 ?bs"
    using load_store_bytes [of ?bs ?m p3] k
    by (simp add: r w memcpy_loop_store [OF d2 k] memcpy_loop_store [OF d1' k])
  have "heap_inv s'" using ma.alloc_inv [OF assms(1,2) new] by (simp add: r heap_inv_def)
  moreover have "load_bytes (memory (snd s')) p1 ?k = ?bs"
    using load_store_bytes [of ?bs "store_bytes ?m p3 ?bs" p1] k by (simp add: m)
  moreover have "memory (snd s') a = ?m a" if "unat a < heap_top s" "\<not> in_block a p1 ?k" for a
  proof -
    have "\<not> in_block a p3 ?k"
    proof
      assume "in_block a p3 ?k"
      moreover have "unat p3 + ?k \<le> 2 ^ 32"
        using ma.alloc_at [OF assms(1,2) new] ma.alloc_top [OF assms(1,2) new]
          ma.top_bound [OF ma.alloc_inv [OF assms(1,2) new]] by simp
      ultimately have "unat p3 \<le> unat a" using in_block_bounds by blast
      then show False using that(1) ma.alloc_at [OF assms(1,2) new] by simp
    qed
    then show ?thesis using that(2) k by (simp add: m store_bytes_other)
  qed
  ultimately show ?thesis using r(1) by blast
qed

theorem memmove_overlapping_witness:
  "\<exists>s'. memmove 70002 70000 4 wit_state = Inr (70002, s') \<and>
     load_bytes (memory (snd s')) 70002 4 = load_bytes (memory wit_wasm) 70000 4"
proof -
  have top: "heap_top wit_state = 70008" by (simp add: wit_state_def heap_top_def)
  obtain r s' where m: "memmove 70002 70000 4 wit_state = Inr (r, s')"
    using malloc_grows [of "fst wit_state" wit_wasm 4] wit_state_inv
    by (auto simp: memmove_def new_bytes_def memcpy_def free_def Let_def wit_state_def)
  have "unat (70002 :: u32) + unat (4 :: u32) \<le> heap_top wit_state"
    "unat (70000 :: u32) + unat (4 :: u32) \<le> heap_top wit_state" by (simp_all add: top)
  from memmove_overlapping [OF wit_state_inv _ this m]
  have r: "r = 70002" "load_bytes (memory (snd s')) 70002 4 = load_bytes (memory (snd wit_state)) 70000 4"
    by simp_all
  show ?thesis using m r by (auto simp: wit_state_def)
qed

text \<open>C27: \<open>realloc\<close> never moves contents: the block it returns is disjoint from the old one, its
  bytes are what memory held there before, and the old block is neither copied nor reused.\<close>

theorem realloc_no_copy:
  assumes "heap_inv s" "sz \<noteq> 0" "unat p + n \<le> heap_top s" "realloc p sz s = Inr (q, s')"
  shows "disjoint_blocks q (unat sz) p n \<and> memory (snd s') = memory (snd s) \<and> unat q = heap_top s"
  using ma.alloc_below [OF assms(1,2) _ assms(3)] ma.alloc_bytes [OF assms(1,2)]
    ma.alloc_at [OF assms(1,2)] assms(4)
  by (auto simp: realloc_def malloc_def)

theorem realloc_no_copy_witness:
  "disjoint_blocks 70008 16 70000 5 \<and> realloc 70000 16 wit_state =
     Inr (70008, (\<lparr>heap = 70000, last_ptr = 70024, next_page = 2\<rparr>, wit_wasm))"
proof -
  have r: "realloc 70000 16 wit_state = Inr (70008, (\<lparr>heap = 70000, last_ptr = 70024, next_page = 2\<rparr>, wit_wasm))"
    by (simp add: wit_state_def realloc_def dsmalloc_alloc_def align_def Let_def grow_memory_def)
  have "unat (70000 :: u32) + 5 \<le> heap_top wit_state" by (simp add: wit_state_def heap_top_def)
  from realloc_no_copy [OF wit_state_inv _ this r] show ?thesis by (simp add: r)
qed

end
