(* ===== verification/Print.thy ===== *)
theory Print
  imports Check
begin

text \<open>
  Console output: \<open>libraries/ftllib/include/ftllib/print.hpp\<close>. What the host functions print
  is recorded as a list of \<open>event\<close>s, one per host call; the type of an argument, which selects
  the overload of \<open>print\<close>, is a constructor of \<open>arg\<close>.
\<close>

section \<open>Host calls\<close>

datatype event =
    Prints string                 \<comment> \<open>\<open>prints\<close>: a NUL-terminated string\<close>
  | Prints_l string               \<comment> \<open>\<open>prints_l\<close>: that many characters\<close>
  | Printi int | Printui int
  | Printi128 int | Printui128 int
  | Printsf nat | Printdf nat | Printqf nat   \<comment> \<open>floating point, by object representation\<close>
  | Printn u64
  | Printhex "byte list"

section \<open>\<open>print\<close>\<close>

datatype arg =
    Char_ptr string
  | Char char
  | Signed int                    \<comment> \<open>8 to 64 bit, other than \<open>char\<close>\<close>
  | Int128 int
  | Unsigned int                  \<comment> \<open>8 to 64 bit, other than \<open>bool\<close>\<close>
  | Uint128 int
  | Bool bool
  | Float nat | Double nat | Long_double nat
  | String string
  | Object "event list"           \<comment> \<open>a class with a member \<open>print()\<close> of these host calls\<close>

definition printhex :: "byte list \<Rightarrow> event list" where
  "printhex bs = [Printhex bs]"

definition printl :: "string \<Rightarrow> nat \<Rightarrow> event list" where
  "printl s len = [Prints_l (take len s)]"

definition print_cstr :: "string \<Rightarrow> event list" where
  "print_cstr s = [Prints (c_str s)]"

fun print_signed :: "arg \<Rightarrow> event list" where
  "print_signed (Int128 num) = [Printi128 num]"
| "print_signed (Char c) = [Prints_l [c]]"
| "print_signed (Signed num) = [Printi num]"
| "print_signed _ = []"

fun print_unsigned :: "arg \<Rightarrow> event list" where
  "print_unsigned (Uint128 num) = [Printui128 num]"
| "print_unsigned (Bool num) = [Prints (if num then ''true'' else ''false'')]"
| "print_unsigned (Unsigned num) = [Printui num]"
| "print_unsigned _ = []"

definition print_float :: "nat \<Rightarrow> event list" where
  "print_float num = [Printsf num]"

definition print_double :: "nat \<Rightarrow> event list" where
  "print_double num = [Printdf num]"

definition print_long_double :: "nat \<Rightarrow> event list" where
  "print_long_double num = [Printqf num]"

fun print_class :: "arg \<Rightarrow> event list" where
  "print_class (String t) = [Prints_l t]"
| "print_class (Char_ptr t) = [Prints (c_str t)]"
| "print_class (Object es) = es"
| "print_class _ = []"

fun print :: "arg \<Rightarrow> event list" where
  "print (Char_ptr s) = print_cstr s"
| "print (Char c) = print_signed (Char c)"
| "print (Signed i) = print_signed (Signed i)"
| "print (Int128 i) = print_signed (Int128 i)"
| "print (Unsigned i) = print_unsigned (Unsigned i)"
| "print (Uint128 i) = print_unsigned (Uint128 i)"
| "print (Bool b) = print_unsigned (Bool b)"
| "print (Float f) = print_float f"
| "print (Double f) = print_double f"
| "print (Long_double f) = print_long_double f"
| "print (String s) = print_class (String s)"
| "print (Object es) = print_class (Object es)"

text \<open>\<open>print(a, args...)\<close>\<close>

fun print_all :: "arg list \<Rightarrow> event list" where
  "print_all [] = []"
| "print_all (a # args) = print a @ print_all args"

text \<open>\<open>cout << v\<close>\<close>

definition stream_print :: "event list \<Rightarrow> arg \<Rightarrow> event list" where
  "stream_print out v = out @ print v"

section \<open>\<open>print_f\<close>\<close>

text \<open>The format is a NUL-terminated string; it is given without its terminator.\<close>

definition print_f_end :: "string \<Rightarrow> event list" where
  "print_f_end s = [Prints s]"

fun print_f_args :: "string \<Rightarrow> arg \<Rightarrow> (string \<Rightarrow> event list) \<Rightarrow> event list" where
  "print_f_args [] val rest = []"
| "print_f_args (c # s) val rest =
     (if c = CHR ''%'' then print val @ rest s else Prints_l [c] # print_f_args s val rest)"

fun print_f :: "string \<Rightarrow> arg list \<Rightarrow> event list" where
  "print_f s [] = print_f_end s"
| "print_f s (val # rest) = print_f_args s val (\<lambda>s. print_f s rest)"

section \<open>What a format prints\<close>

text \<open>The format cut at its percent signs.\<close>

fun pieces :: "string \<Rightarrow> string list" where
  "pieces [] = [[]]"
| "pieces (c # s) =
     (if c = CHR ''%'' then [] # pieces s
      else (case pieces s of [] \<Rightarrow> [[c]] | p # ps \<Rightarrow> (c # p) # ps))"

definition chars :: "string \<Rightarrow> event list" where
  "chars s = map (\<lambda>c. Prints_l [c]) s"

lemma pieces_ne [simp]: "pieces s \<noteq> []"
  by (induction s) (auto split: list.splits)

lemma print_f_args_pieces:
  "print_f_args s val rest =
     (case pieces s of
        [p] \<Rightarrow> chars p
      | p # ps \<Rightarrow> chars p @ print val @ rest (drop (Suc (length p)) s)
      | [] \<Rightarrow> [])"
  by (induction s) (auto simp: chars_def split: list.splits)

fun join_pieces :: "string list \<Rightarrow> string" where
  "join_pieces [] = []"
| "join_pieces [p] = p"
| "join_pieces (p # q # ps) = p @ ''%'' @ join_pieces (q # ps)"

lemma join_pieces_pieces: "join_pieces (pieces s) = s"
  by (induction s rule: pieces.induct) (auto split: list.splits, (case_tac x22; simp)+)

lemma pieces_drop:
  "pieces s = p # q # ps \<Longrightarrow> pieces (drop (Suc (length p)) s) = q # ps"
  by (induction s arbitrary: p) (auto split: if_splits list.splits)

text \<open>The pieces and the arguments in turn, until one of them runs out.\<close>

fun weave :: "string list \<Rightarrow> arg list \<Rightarrow> event list" where
  "weave [] args = []"
| "weave ps [] = [Prints (join_pieces ps)]"
| "weave [p] (a # args) = chars p"
| "weave (p # q # ps) (a # args) = chars p @ print a @ weave (q # ps) args"

lemma print_f_weave: "print_f s args = weave (pieces s) args"
proof (induction args arbitrary: s)
  case Nil
  have "weave ps [] = [Prints (join_pieces ps)]" if "ps \<noteq> []" for ps using that by (cases ps) simp_all
  then show ?case by (simp add: print_f_end_def join_pieces_pieces)
next
  case (Cons a args)
  obtain p ps where ps: "pieces s = p # ps" by (cases "pieces s") auto
  show ?case
  proof (cases ps)
    case Nil
    then show ?thesis using ps by (simp add: print_f_args_pieces)
  next
    case (Cons q qs)
    then show ?thesis
      using ps pieces_drop [of s p q qs] by (simp add: print_f_args_pieces Cons.IH)
  qed
qed

section \<open>Property\<close>

text \<open>C28: \<open>print_f\<close> prints the characters of the format one by one, an argument for each
  percent sign from left to right; percent signs behind the last argument are printed with the
  rest of the format, and arguments that find no percent sign are not printed.\<close>

theorem print_f_format: "print_f s args = weave (pieces s) args \<and> join_pieces (pieces s) = s"
  by (simp add: print_f_weave join_pieces_pieces)

end
