(* ===== verification/Address.thy ===== *)
theory Address
  imports Print WireProperties
begin

text \<open>
  Addresses of accounts: \<open>libraries/ftllib/include/ftllib/address.hpp\<close>, and the digest type
  \<open>checksum256\<close> of \<open>base.hpp\<close>, which is read and written the same way.
\<close>

section \<open>Construction\<close>

definition addr_len :: nat where
  "addr_len = 20"

definition char2uint8 :: "char \<Rightarrow> byte" where
  "char2uint8 c =
     (if c \<ge> CHR ''0'' \<and> c \<le> CHR ''9'' then of_char c - of_char CHR ''0''
      else if c \<ge> CHR ''a'' \<and> c \<le> CHR ''f'' then of_char c - of_char CHR ''a'' + 10
      else if c \<ge> CHR ''A'' \<and> c \<le> CHR ''F'' then of_char c - of_char CHR ''A'' + 10
      else 0)"

record address =
  addr :: "byte list"

definition address_zero :: address where
  "address_zero = \<lparr>addr = replicate addr_len 0\<rparr>"

text \<open>
  \<open>p\<close> points into a NUL-terminated string, given without its terminator. The loop stops at
  the terminator only; an index past the array is undefined.
\<close>

fun address_loop :: "string \<Rightarrow> nat \<Rightarrow> byte list \<Rightarrow> byte list res" where
  "address_loop (h # l # p) i a =
     (if i < addr_len
      then address_loop p (i + 1) (a[i := char2uint8 h * 16 + char2uint8 l])
      else Inl (UB ''addr[i]''))"
| "address_loop p i a = Inr a"

definition address_of_string :: "string \<Rightarrow> address res" where
  "address_of_string s =
     (if length s < 2 then Inl (UB ''s + 2'')
      else rbind (address_loop (drop 2 s) 0 (replicate addr_len 0)) (\<lambda>a. Inr \<lparr>addr = a\<rparr>))"

section \<open>Comparison\<close>

function address_eq_loop :: "address \<Rightarrow> address \<Rightarrow> nat \<Rightarrow> bool" where
  "address_eq_loop a b i =
     (if i < addr_len
      then if addr a ! i \<noteq> addr b ! i then False else address_eq_loop a b (i + 1)
      else True)"
  by pat_completeness auto

termination
  by (relation "measure (\<lambda>(a, b, i). addr_len - i)") auto

function address_ne_loop :: "address \<Rightarrow> address \<Rightarrow> nat \<Rightarrow> bool" where
  "address_ne_loop a b i =
     (if i < addr_len
      then if addr a ! i \<noteq> addr b ! i then True else address_ne_loop a b (i + 1)
      else False)"
  by pat_completeness auto

termination
  by (relation "measure (\<lambda>(a, b, i). addr_len - i)") auto

declare address_eq_loop.simps [simp del] address_ne_loop.simps [simp del]

definition address_eq :: "address \<Rightarrow> address \<Rightarrow> bool" where
  "address_eq a b = address_eq_loop a b 0"

definition address_ne :: "address \<Rightarrow> address \<Rightarrow> bool" where
  "address_ne a b = address_ne_loop a b 0"

section \<open>Stream operators\<close>

text \<open>\<open>for (i = 0; i < n; i++) ds << v[i]\<close> and \<open>ds >> v[i]\<close> on bytes.\<close>

fun out_bytes :: "'s writer \<Rightarrow> byte list \<Rightarrow> 's \<Rightarrow> 's res" where
  "out_bytes wr [] s = Inr s"
| "out_bytes wr (b # bs) s = rbind (out_primitive wr [b] s) (out_bytes wr bs)"

fun in_bytes :: "'s istream \<Rightarrow> nat \<Rightarrow> (byte list, 's) parser" where
  "in_bytes st 0 s = Inr ([], s)"
| "in_bytes st (Suc n) s =
     rbind (in_primitive st 1 s) (\<lambda>(b, s). rbind (in_bytes st n s) (\<lambda>(bs, s). Inr (b @ bs, s)))"

definition out_address :: "'s writer \<Rightarrow> address \<Rightarrow> 's \<Rightarrow> 's res" where
  "out_address wr v s = out_bytes wr (take 20 (addr v)) s"

definition in_address :: "'s istream \<Rightarrow> (address, 's) parser" where
  "in_address st s = rbind (in_bytes st 20 s) (\<lambda>(bs, s). Inr (\<lparr>addr = bs\<rparr>, s))"

record checksum256 =
  hash :: "byte list"

definition checksum256_zero :: checksum256 where
  "checksum256_zero = \<lparr>hash = replicate 32 0\<rparr>"

definition out_checksum256 :: "'s writer \<Rightarrow> checksum256 \<Rightarrow> 's \<Rightarrow> 's res" where
  "out_checksum256 wr v s = out_bytes wr (take 32 (hash v)) s"

definition in_checksum256 :: "'s istream \<Rightarrow> (checksum256, 's) parser" where
  "in_checksum256 st s = rbind (in_bytes st 32 s) (\<lambda>(bs, s). Inr (\<lparr>hash = bs\<rparr>, s))"

section \<open>Addresses of the host\<close>

text \<open>The host fills the buffer of the length it is given; its functions are parameters.\<close>

definition get_from_address :: "(nat \<Rightarrow> byte list) \<Rightarrow> address" where
  "get_from_address get_from = address_zero\<lparr>addr := get_from addr_len\<rparr>"

definition get_to_address :: "(nat \<Rightarrow> byte list) \<Rightarrow> address" where
  "get_to_address get_to = address_zero\<lparr>addr := get_to addr_len\<rparr>"

definition get_owner_address :: "(nat \<Rightarrow> byte list) \<Rightarrow> address" where
  "get_owner_address get_owner = address_zero\<lparr>addr := get_owner addr_len\<rparr>"

definition print_address :: "address \<Rightarrow> event list" where
  "print_address a = printhex (take addr_len (addr a))"

section \<open>Lemmas\<close>

definition address_ok :: "address \<Rightarrow> bool" where
  "address_ok a \<longleftrightarrow> length (addr a) = addr_len"

lemma address_eq_loop_drop:
  "address_ok a \<Longrightarrow> address_ok b \<Longrightarrow> address_eq_loop a b i \<longleftrightarrow> drop i (addr a) = drop i (addr b)"
proof (induction a b i rule: address_eq_loop.induct)
  case (1 a b i)
  show ?case
  proof (cases "i < addr_len")
    case True
    then have "drop i (addr a) = addr a ! i # drop (i + 1) (addr a)"
      "drop i (addr b) = addr b ! i # drop (i + 1) (addr b)"
      using "1.prems" by (simp_all add: address_ok_def Cons_nth_drop_Suc)
    then show ?thesis using 1 True by (subst address_eq_loop.simps) simp
  next
    case False
    then show ?thesis using "1.prems" by (subst address_eq_loop.simps) (simp add: address_ok_def)
  qed
qed

lemma address_ne_loop_eq: "address_ne_loop a b i = (\<not> address_eq_loop a b i)"
  by (induction a b i rule: address_eq_loop.induct)
    (subst address_eq_loop.simps, subst address_ne_loop.simps, simp)

lemma address_eq_iff: "address_ok a \<Longrightarrow> address_ok b \<Longrightarrow> address_eq a b \<longleftrightarrow> a = b"
  by (cases a; cases b) (simp add: address_eq_def address_eq_loop_drop)

text \<open>Hexadecimal digits of either case.\<close>

definition hex_digit :: "bool \<Rightarrow> nat \<Rightarrow> char" where
  "hex_digit upper n = char_of (if n < 10 then 48 + n else (if upper then 55 else 87) + n)"

definition hex_byte :: "bool \<Rightarrow> byte \<Rightarrow> string" where
  "hex_byte upper b = [hex_digit upper (unat b div 16), hex_digit upper (unat b mod 16)]"

lemma char2uint8_hex_digit: "n < 16 \<Longrightarrow> unat (char2uint8 (hex_digit upper n)) = n"
proof -
  assume "n < 16"
  define k where "k = (if n < 10 then 48 + n else (if upper then 55 else 87) + n)"
  have k: "k < 256" using \<open>n < 16\<close> by (simp add: k_def)
  define c where "c = hex_digit upper n"
  have c: "(of_char c :: nat) = k" using k by (simp add: c_def hex_digit_def k_def)
  then have w: "(of_char c :: byte) = of_nat k" by (metis of_nat_of_char)
  have sub: "unat (of_nat k - of_nat m + of_nat j :: byte) = k - m + j" if "m \<le> k" "k - m + j < 256" for m j
    using that by (simp add: unat_of_nat_mod flip: of_nat_diff of_nat_add)
  show ?thesis
    unfolding c_def [symmetric] using \<open>n < 16\<close> sub [of 48 0] sub [of 97 10] sub [of 65 10]
    by (auto simp: char2uint8_def less_eq_char_def c w k_def)
qed

lemma char2uint8_hex_byte:
  "char2uint8 (hex_digit upper (unat b div 16)) * 16 + char2uint8 (hex_digit upper (unat b mod 16)) = b"
proof -
  have "unat b div 16 < 16" using unat_byte_less [of b] by (simp only: less_mult_imp_div_less)
  then have "unat (char2uint8 (hex_digit upper (unat b div 16))) = unat b div 16"
    "unat (char2uint8 (hex_digit upper (unat b mod 16))) = unat b mod 16"
    by (simp_all add: char2uint8_hex_digit)
  then have "unat (char2uint8 (hex_digit upper (unat b div 16)) * 16 + char2uint8 (hex_digit upper (unat b mod 16)))
      = unat b"
    by (simp add: unat_word_ariths mod_add_left_eq)
  then show ?thesis by (rule byte_eqI)
qed

lemma address_loop_hex:
  "i + length bs \<le> addr_len \<Longrightarrow> length a = addr_len \<Longrightarrow>
     address_loop (concat (map (hex_byte upper) bs)) i a = Inr (take i a @ bs @ drop (i + length bs) a)"
proof (induction bs arbitrary: i a)
  case (Cons b bs)
  have "take (Suc i) (a[i := b]) = take i a @ [b]"
    using Cons.prems by (simp add: take_Suc_conv_app_nth)
  then show ?case using Cons by (simp add: hex_byte_def char2uint8_hex_byte)
qed simp

lemma address_loop_overrun:
  "i \<le> addr_len \<Longrightarrow> 2 * (addr_len - i) + 2 \<le> length p \<Longrightarrow> address_loop p i a = Inl (UB ''addr[i]'')"
  by (induction p i a rule: address_loop.induct) auto

lemma out_bytes_chunks: "out_bytes wr bs = write_all wr (singles bs)"
proof (induction bs)
  case (Cons b bs)
  show ?case by (rule ext) (simp add: out_primitive_def Cons)
qed (simp add: fun_eq_iff)

lemma in_bytes_buffer:
  "ds_ok ds \<Longrightarrow> n \<le> ds_room ds \<Longrightarrow>
     in_bytes (mem_stream m) n ds = Inr (load_bytes m (ds_pos ds) n, ds_adv n ds)"
proof (induction n arbitrary: ds)
  case (Suc n)
  have r: "ds_read m 1 ds = Inr ([m (ds_pos ds)], ds_adv 1 ds)"
    using ds_read_ok [of ds 1 m] Suc.prems by simp
  have "in_bytes (mem_stream m) n (ds_adv 1 ds) = Inr (load_bytes m (ds_pos ds + 1) n, ds_adv (Suc n) ds)"
    using Suc.IH [of "ds_adv 1 ds"] Suc.prems by (simp add: ds_adv_ok ds_adv_room ds_adv_adv)
  with r show ?case by (simp add: in_primitive_def)
qed simp

section \<open>Properties\<close>

text \<open>The constructor reads pairs of hexadecimal digits of either case behind the first
  two characters, which it does not look at, and fills up with zeros.\<close>

theorem address_parse:
  assumes "length bs \<le> 20"
  shows "address_of_string ([c, d] @ concat (map (hex_byte upper) bs)) =
    Inr \<lparr>addr = bs @ replicate (20 - length bs) 0\<rparr>"
  using address_loop_hex [of 0 bs "replicate 20 0" upper] assms
  by (simp add: address_of_string_def addr_len_def)

theorem address_parse_witness:
  "address_of_string (''0x'' @ concat (map (hex_byte True) [0xde, 0xad])) =
    Inr \<lparr>addr = [0xde, 0xad] @ replicate (20 - length [0xde, 0xad :: byte]) 0\<rparr>"
  by (rule address_parse) simp

text \<open>The constructor does not bound the index: a string of 42 or more characters
  behind the prefix makes it write past the array of twenty bytes.\<close>

theorem address_parse_overrun:
  assumes "44 \<le> length s"
  shows "address_of_string s = Inl (UB ''addr[i]'')"
  using address_loop_overrun [of 0 "drop 2 s" "replicate addr_len 0"] assms
  by (simp add: address_of_string_def addr_len_def)

theorem address_parse_overrun_witness:
  "address_of_string (''0x'' @ replicate 42 CHR ''0'') = Inl (UB ''addr[i]'')"
  by (rule address_parse_overrun) simp

text \<open>C31: an address inserted into a buffer stream is extracted again as an address that
  compares equal to it, and \<open>!=\<close> is the negation of \<open>==\<close>.\<close>

theorem address_stream_roundtrip:
  assumes "ds_out_ok ds" "20 \<le> ds_room ds" "address_ok a"
  shows "\<exists>m' ds' b. out_address ds_write a (m, ds) = Inr (m', ds') \<and>
    in_address (mem_stream m') ds = Inr (b, ds') \<and> address_eq a b \<and> \<not> address_ne a b"
proof -
  have ok: "ds_ok ds" using assms(1) by (simp add: ds_out_ok_def)
  have l: "length (addr a) = 20" using assms(3) by (simp add: address_ok_def addr_len_def)
  have "out_address ds_write a (m, ds) = Inr (store_bytes m (ds_pos ds) (addr a), ds_adv 20 ds)"
    using ws.write_all_ok [of "(m, ds)" "singles (addr a)"] assms(1,2) l
    by (simp add: out_address_def out_bytes_chunks buf_adv_def)
  moreover have "in_address (mem_stream (store_bytes m (ds_pos ds) (addr a))) ds = Inr (a, ds_adv 20 ds)"
    using load_store_bytes [of "addr a" m "ds_pos ds"] l
    by (simp add: in_address_def in_bytes_buffer [OF ok assms(2)])
  moreover have "address_eq a a \<and> \<not> address_ne a a"
    using assms(3) by (simp add: address_eq_iff address_ne_def address_ne_loop_eq flip: address_eq_def)
  ultimately show ?thesis by blast
qed

theorem address_stream_roundtrip_witness:
  "\<exists>m' ds' b. out_address ds_write address_zero ((\<lambda>_. 7), mk_datastream 64 20) = Inr (m', ds') \<and>
    in_address (mem_stream m') (mk_datastream 64 20) = Inr (b, ds') \<and>
    address_eq address_zero b \<and> \<not> address_ne address_zero b"
  by (rule address_stream_roundtrip)
    (simp_all add: mk_datastream_out_ok mk_datastream_room address_ok_def address_zero_def)

end
