(* ===== verification/Contract.thy ===== *)
theory Contract
  imports NameProperties HeapProperties Address
begin

text \<open>
  A running contract: its heap, its linear memory and the host, and the idiom \<open>map.hpp\<close>,
  \<open>action.hpp\<close>, \<open>dispatcher.hpp\<close> and \<open>log.hpp\<close> share: a buffer on the stack for up to 512 bytes and
  on the heap for more. The compiler places stack objects: the place of a stack buffer of a
  given size is a parameter, \<open>alloca\<close>, and \<open>stack_ok\<close> says that it lies below the heap.
\<close>

section \<open>The contract and its host\<close>

record 'h chain =
  alloc :: dsmalloc
  inst :: wasm
  host :: 'h

definition mem_of :: "'h chain \<Rightarrow> mem" where
  "mem_of c = memory (inst c)"

definition set_mem :: "mem \<Rightarrow> 'h chain \<Rightarrow> 'h chain" where
  "set_mem m c = c\<lparr>inst := (inst c)\<lparr>memory := m\<rparr>\<rparr>"

text \<open>\<open>max_stack_buffer_size < size ? malloc(size) : alloca(size)\<close>\<close>

definition max_stack_buffer_size :: u32 where
  "max_stack_buffer_size = 512"

definition scratch :: "(u32 \<Rightarrow> u32) \<Rightarrow> u32 \<Rightarrow> 'h chain \<Rightarrow> (u32 \<times> 'h chain) res" where
  "scratch alloca sz c =
     (if max_stack_buffer_size < sz
      then rbind (malloc sz (alloc c, inst c)) (\<lambda>(p, d, w). Inr (p, c\<lparr>alloc := d, inst := w\<rparr>))
      else Inr (alloca sz, c))"

definition release :: "u32 \<Rightarrow> u32 \<Rightarrow> 'h chain \<Rightarrow> 'h chain res" where
  "release buffer sz c =
     (if max_stack_buffer_size < sz
      then rbind (free buffer (alloc c, inst c)) (\<lambda>(_, d, w). Inr (c\<lparr>alloc := d, inst := w\<rparr>))
      else Inr c)"

text \<open>\<open>datastream<char *> ds(buffer, size); ds << value;\<close>\<close>

definition pack_into :: "u32 \<Rightarrow> u32 \<Rightarrow> val \<Rightarrow> 'h chain \<Rightarrow> 'h chain res" where
  "pack_into buffer sz v c =
     rbind (ser ds_write v (mem_of c, mk_datastream buffer sz)) (\<lambda>(m, ds). Inr (set_mem m c))"

section \<open>Facts about buffers\<close>

abbreviation heap_end :: "'h chain \<Rightarrow> nat" where
  "heap_end c \<equiv> heap_top (alloc c, inst c)"

definition stack_ok :: "(u32 \<Rightarrow> u32) \<Rightarrow> 'h chain \<Rightarrow> bool" where
  "stack_ok alloca c \<longleftrightarrow> heap_inv (alloc c, inst c) \<and>
     (\<forall>sz \<le> max_stack_buffer_size. unat (alloca sz) + unat sz \<le> heap_end c)"

text \<open>The block \<open>(q, k)\<close> is in use and no stack buffer overlaps it.\<close>

definition apart :: "(u32 \<Rightarrow> u32) \<Rightarrow> u32 \<Rightarrow> nat \<Rightarrow> 'h chain \<Rightarrow> bool" where
  "apart alloca q k c \<longleftrightarrow> unat q + k \<le> heap_end c \<and>
     (\<forall>sz \<le> max_stack_buffer_size. disjoint_blocks (alloca sz) (unat sz) q k)"

text \<open>Two stack objects that are alive at the same time.\<close>

definition stacks_apart :: "(u32 \<Rightarrow> u32) \<Rightarrow> (u32 \<Rightarrow> u32) \<Rightarrow> bool" where
  "stacks_apart al al' \<longleftrightarrow>
     (\<forall>sz \<le> max_stack_buffer_size. \<forall>sz' \<le> max_stack_buffer_size.
        disjoint_blocks (al' sz') (unat sz') (al sz) (unat sz))"

definition no_pages :: "'a res \<Rightarrow> nat \<Rightarrow> bool" where
  "no_pages r n \<longleftrightarrow> r = Inl (Abort ''failed to allocate pages'') \<and> 512 < n"

lemma disjoint_blocks_sym: "disjoint_blocks p n q k \<longleftrightarrow> disjoint_blocks q k p n"
  by (auto simp: disjoint_blocks_def)

lemma chain_simps [simp]:
  "mem_of (set_mem m c) = m" "host (set_mem m c) = host c" "alloc (set_mem m c) = alloc c"
  "mem_of (c\<lparr>host := h\<rparr>) = mem_of c" "set_mem m (set_mem m' c) = set_mem m c"
  "mem_of (c\<lparr>alloc := d\<rparr>) = mem_of c" "mem_of (c\<lparr>inst := w\<rparr>) = memory w"
  by (simp_all add: mem_of_def set_mem_def)

lemma heap_end_set_mem [simp]:
  "heap_top (d, inst (set_mem m c)) = heap_top (d, inst c)"
  by (simp add: heap_top_def)

lemma heap_inv_set_mem [simp]:
  "heap_inv (d, inst (set_mem m c)) = heap_inv (d, inst c)"
  by (simp add: heap_inv_def set_mem_def)

lemma stack_ok_simps [simp]:
  "stack_ok alloca (set_mem m c) = stack_ok alloca c"
  "stack_ok alloca (c\<lparr>host := h\<rparr>) = stack_ok alloca c"
  "apart alloca q k (set_mem m c) = apart alloca q k c"
  "apart alloca q k (c\<lparr>host := h\<rparr>) = apart alloca q k c"
  by (simp_all add: stack_ok_def apart_def)

lemma heap_end_bound: "stack_ok alloca c \<Longrightarrow> heap_end c < 2 ^ 32"
  by (rule ma.top_bound) (simp add: stack_ok_def)

lemma scratch_cases:
  assumes "stack_ok alloca c"
  obtains (ok) p c' where "scratch alloca sz c = Inr (p, c')" "stack_ok alloca c'"
      "heap_end c \<le> heap_end c'" "mem_of c' = mem_of c" "host c' = host c"
      "unat p + unat sz \<le> heap_end c'" "unat p + unat sz < 2 ^ 32"
      "\<And>q k. apart alloca q k c \<Longrightarrow> disjoint_blocks p (unat sz) q k"
      "\<And>al q k. apart al q k c \<Longrightarrow> apart al q k c'" "\<And>al. stack_ok al c \<Longrightarrow> stack_ok al c'"
      "\<And>al. stack_ok al c \<Longrightarrow> stacks_apart alloca al \<Longrightarrow> apart al p (unat sz) c'"
    | (none) "no_pages (scratch alloca sz c) (unat sz)"
proof (cases "max_stack_buffer_size < sz")
  case False
  with assms have "unat (alloca sz) + unat sz \<le> heap_end c" by (auto simp: stack_ok_def)
  with False show ?thesis
    by (intro ok [of "alloca sz" c]) (use heap_end_bound [OF assms] assms in \<open>auto simp: scratch_def apart_def stacks_apart_def\<close>)
next
  case True
  then have big: "512 < unat sz" by (simp add: max_stack_buffer_size_def word_less_nat_alt)
  then have nz: "sz \<noteq> 0" by auto
  have inv: "heap_inv (alloc c, inst c)" using assms by (simp add: stack_ok_def)
  show ?thesis
  proof (cases "malloc sz (alloc c, inst c)")
    case (Inl e)
    then have "e = Abort ''failed to allocate pages''" by (rule malloc_only_error [OF inv])
    with Inl True big show ?thesis by (intro none) (simp add: scratch_def no_pages_def)
  next
    case (Inr r)
    obtain p d w where r: "r = (p, d, w)" by (cases r)
    note m = Inr [unfolded r]
    note f = ma.alloc_inv [OF inv nz m] ma.alloc_at [OF inv nz m] ma.alloc_top [OF inv nz m]
      ma.alloc_bytes [OF inv nz m] ma.alloc_below [OF inv nz m]
    let ?c = "c\<lparr>alloc := d, inst := w\<rparr>"
    have st: "stack_ok al ?c" if "stack_ok al c" for al
      using that f(1,3) by (fastforce simp: stack_ok_def)
    show ?thesis
    proof (rule ok [of p ?c])
      show "scratch alloca sz c = Inr (p, ?c)" using True m by (simp add: scratch_def)
      show "mem_of ?c = mem_of c" using f(4) by (simp add: mem_of_def)
      show "unat p + unat sz < 2 ^ 32" using f(2,3) ma.top_bound [OF f(1)] by simp
      show "disjoint_blocks p (unat sz) q k" if "apart alloca q k c" for q k
        using that f(5) by (simp add: apart_def)
      show "apart al q k ?c" if "apart al q k c" for al q k
        using that f(3) by (auto simp: apart_def)
      show "apart al p (unat sz) ?c" if "stack_ok al c" for al
        using that f(2,3) ma.top_bound [OF f(1)]
        by (fastforce simp: apart_def stack_ok_def intro!: disjoint_blocksI)
    qed (use f st assms in auto)
  qed
qed

lemma release_ok [simp]: "release buffer sz c = Inr c"
  by (simp add: release_def free_def)

lemma pack_into_ok:
  assumes "unat p + unat sz < 2 ^ 32" "length (enc v) = unat sz" "length (enc v) < 2 ^ 31"
  shows "pack_into p sz v c = Inr (set_mem (store_bytes (mem_of c) p (enc v)) c)"
  using assms ser_buffer_ok [of "mk_datastream p sz" v "mem_of c"]
  by (simp add: pack_into_def mk_datastream_out_ok mk_datastream_room buf_adv_def)

lemma deser_block:
  assumes "has_type lt t v" "small t" "fresh t d" "unat p + n < 2 ^ 32" "load_bytes m p n = enc v"
  shows "deser lt (mem_stream m) t d (mk_datastream p (of_nat n)) =
    Inr (v, ds_adv n (mk_datastream p (of_nat n)))"
proof -
  have "length (enc v) = n" using assms(5) by (metis length_load_bytes)
  then show ?thesis
    using deser_buffer [of lt t v d "mk_datastream p (of_nat n)" m "[]"] assms
    by (simp add: mk_datastream_ok ds_left_prefix)
qed

end
