(* ===== verification/Storage.thy ===== *)
theory Storage
  imports Contract
begin

text \<open>
  Tables: \<open>libraries/ftllib/include/ftllib/map.hpp\<close>. The database functions are imported from
  the host and stand here as a parameter, \<open>host_db\<close>, with the behaviour \<open>map.hpp\<close> relies on in
  \<open>db_laws\<close>.
\<close>

record 'h host_db =
  host_store :: "u64 \<Rightarrow> byte list \<Rightarrow> byte list \<Rightarrow> 'h \<Rightarrow> 'h"
  host_load :: "u64 \<Rightarrow> byte list \<Rightarrow> nat \<Rightarrow> 'h \<Rightarrow> int \<times> byte list"
  host_has_key :: "u64 \<Rightarrow> byte list \<Rightarrow> 'h \<Rightarrow> int"
  host_remove_key :: "u64 \<Rightarrow> byte list \<Rightarrow> 'h \<Rightarrow> 'h"

section \<open>Keys\<close>

definition max_key_length :: nat where
  "max_key_length = 32"

record map_key =
  key_length :: byte
  key_bytes :: "byte list"

definition map_key_empty :: map_key where
  "map_key_empty = \<lparr>key_length = 0, key_bytes = replicate max_key_length 0\<rparr>"

text \<open>\<open>MapKey(t)\<close>: \<open>kp\<close> is the address of the member \<open>bytes\<close>, which is not cleared first.\<close>

definition mk_map_key :: "u32 \<Rightarrow> val \<Rightarrow> 'h chain \<Rightarrow> (map_key \<times> 'h chain) res" where
  "mk_map_key kp t c =
     rbind (pack_size t) (\<lambda>sz.
     rbind (check (sz \<le> of_nat max_key_length) ''key size must be smaller than 32'') (\<lambda>_.
     rbind (pack_into kp sz t c) (\<lambda>c.
       Inr (\<lparr>key_length = ucast sz, key_bytes = load_bytes (mem_of c) kp max_key_length\<rparr>, c))))"

text \<open>The bytes a key passes to the host.\<close>

definition key_data :: "map_key \<Rightarrow> byte list" where
  "key_data key = take (unat (key_length key)) (key_bytes key)"

definition out_map_key :: "'s writer \<Rightarrow> map_key \<Rightarrow> 's \<Rightarrow> 's res" where
  "out_map_key wr key s = rbind (out_primitive wr [key_length key] s) (out_bytes wr (key_data key))"

fun in_map_key_loop :: "'s istream \<Rightarrow> nat \<Rightarrow> nat \<Rightarrow> byte list \<Rightarrow> (byte list, 's) parser" where
  "in_map_key_loop st 0 i bs s = Inr (bs, s)"
| "in_map_key_loop st (Suc n) i bs s =
     rbind (in_primitive st 1 s) (\<lambda>(b, s).
       if i < max_key_length then in_map_key_loop st n (i + 1) (bs[i := hd b]) s
       else Inl (UB ''key.bytes[i]''))"

definition in_map_key :: "'s istream \<Rightarrow> map_key \<Rightarrow> (map_key, 's) parser" where
  "in_map_key st key s =
     rbind (in_primitive st 1 s) (\<lambda>(n, s).
     rbind (in_map_key_loop st (unat (hd n)) 0 (key_bytes key) s) (\<lambda>(bs, s).
       Inr (\<lparr>key_length = hd n, key_bytes = bs\<rparr>, s)))"

section \<open>Database access\<close>

definition db_store :: "'h host_db \<Rightarrow> u64 \<Rightarrow> map_key \<Rightarrow> u32 \<Rightarrow> u32 \<Rightarrow> 'h chain \<Rightarrow> 'h chain" where
  "db_store db tbl key buffer buffer_size c =
     c\<lparr>host := host_store db tbl (key_data key) (load_bytes (mem_of c) buffer (unat buffer_size)) (host c)\<rparr>"

definition db_load :: "'h host_db \<Rightarrow> u64 \<Rightarrow> map_key \<Rightarrow> u32 \<Rightarrow> u32 \<Rightarrow> 'h chain \<Rightarrow> int \<times> 'h chain" where
  "db_load db tbl key buffer buffer_size c =
     (let (r, bs) = host_load db tbl (key_data key) (unat buffer_size) (host c)
      in (r, set_mem (store_bytes (mem_of c) buffer bs) c))"

definition db_has_key :: "'h host_db \<Rightarrow> u64 \<Rightarrow> map_key \<Rightarrow> 'h chain \<Rightarrow> int" where
  "db_has_key db tbl key c = host_has_key db tbl (key_data key) (host c)"

definition db_remove_key :: "'h host_db \<Rightarrow> u64 \<Rightarrow> map_key \<Rightarrow> 'h chain \<Rightarrow> 'h chain" where
  "db_remove_key db tbl key c = c\<lparr>host := host_remove_key db tbl (key_data key) (host c)\<rparr>"

section \<open>\<open>table\<close>\<close>

definition validate_table_name :: "name \<Rightarrow> bool" where
  "validate_table_name n \<longleftrightarrow> name_length n < 13"

definition table_put ::
    "'h host_db \<Rightarrow> (u32 \<Rightarrow> u32) \<Rightarrow> u32 \<Rightarrow> u64 \<Rightarrow> val \<Rightarrow> val \<Rightarrow> 'h chain \<Rightarrow> 'h chain res" where
  "table_put db alloca kp tbl key value c =
     rbind (pack_size value) (\<lambda>sz.
     rbind (scratch alloca sz c) (\<lambda>(buffer, c).
     rbind (pack_into buffer sz value c) (\<lambda>c.
     rbind (mk_map_key kp key c) (\<lambda>(pk, c).
       release buffer sz (db_store db tbl pk buffer sz c)))))"

definition table_get ::
    "'h host_db \<Rightarrow> (u32 \<Rightarrow> u32) \<Rightarrow> u32 \<Rightarrow> (ty \<Rightarrow> val \<Rightarrow> val \<Rightarrow> bool) \<Rightarrow> ty \<Rightarrow> u64 \<Rightarrow> val \<Rightarrow>
     'h chain \<Rightarrow> (val \<times> 'h chain) res" where
  "table_get db alloca kp lt vt tbl key c =
     rbind (mk_map_key kp key c) (\<lambda>(primary, c).
     let (sz, c) = db_load db tbl primary 0 0 c in
     rbind (check (sz \<ge> 0) ''error get from primary key'') (\<lambda>_.
     let sz = (of_int sz :: u32) in
     rbind (scratch alloca sz c) (\<lambda>(buffer, c).
     let (_, c) = db_load db tbl primary buffer sz c in
     rbind (deser lt (mem_stream (mem_of c)) vt (default_val vt) (mk_datastream buffer sz)) (\<lambda>(obj, ds).
     rbind (release buffer sz c) (\<lambda>c. Inr (obj, c))))))"

definition table_has_key ::
    "'h host_db \<Rightarrow> u32 \<Rightarrow> u64 \<Rightarrow> val \<Rightarrow> 'h chain \<Rightarrow> (bool \<times> 'h chain) res" where
  "table_has_key db kp tbl key c =
     rbind (mk_map_key kp key c) (\<lambda>(pk, c). Inr (db_has_key db tbl pk c \<noteq> 0, c))"

definition table_erase ::
    "'h host_db \<Rightarrow> u32 \<Rightarrow> u64 \<Rightarrow> val \<Rightarrow> 'h chain \<Rightarrow> 'h chain res" where
  "table_erase db kp tbl key c =
     rbind (mk_map_key kp key c) (\<lambda>(pk, c). Inr (db_remove_key db tbl pk c))"

section \<open>What the host promises\<close>

text \<open>
  \<open>contents h\<close> is the map the host state \<open>h\<close> stands for. A load with an empty buffer reports
  the size; with a buffer of that size it fills it.
\<close>

definition db_laws :: "'h host_db \<Rightarrow> ('h \<Rightarrow> u64 \<times> byte list \<Rightarrow> byte list option) \<Rightarrow> bool" where
  "db_laws db contents \<longleftrightarrow>
     (\<forall>h t k v. contents (host_store db t k v h) = (contents h)((t, k) := Some v)) \<and>
     (\<forall>h t k. contents (host_remove_key db t k h) = (contents h)((t, k) := None)) \<and>
     (\<forall>h t k. host_has_key db t k h \<noteq> 0 \<longleftrightarrow> contents h (t, k) \<noteq> None) \<and>
     (\<forall>h t k. contents h (t, k) = None \<longrightarrow> host_load db t k 0 h = (- 1, [])) \<and>
     (\<forall>h t k v. contents h (t, k) = Some v \<longrightarrow>
        host_load db t k 0 h = (int (length v), []) \<and>
        host_load db t k (length v) h = (int (length v), v))"

text \<open>Facts about keys.\<close>

lemma map_key_ok:
  assumes "apart al kp 32 c" "stack_ok al c" "length (enc t) \<le> 32"
  shows "mk_map_key kp t c =
    Inr (\<lparr>key_length = of_nat (length (enc t)), key_bytes = load_bytes (store_bytes (mem_of c) kp (enc t)) kp 32\<rparr>,
         set_mem (store_bytes (mem_of c) kp (enc t)) c)"
proof -
  let ?n = "length (enc t)"
  have n: "?n < 2 ^ 32" using assms(3) by simp
  have u: "unat (of_nat ?n :: u32) = ?n" using n by (simp add: unat_of_nat_mod)
  have k: "unat kp + ?n < 2 ^ 32"
    using assms(1,3) heap_end_bound [OF assms(2)] by (simp add: apart_def)
  have "(of_nat ?n :: u32) \<le> of_nat max_key_length"
    using assms(3) u by (simp add: word_le_nat_alt max_key_length_def)
  moreover have "pack_into kp (of_nat ?n) t c = Inr (set_mem (store_bytes (mem_of c) kp (enc t)) c)"
    using pack_into_ok [of kp "of_nat ?n" t c] k u assms(3) by simp
  moreover have "(ucast (of_nat ?n :: u32) :: byte) = of_nat ?n"
    using assms(3) by (intro byte_eqI) (simp add: unsigned_ucast_eq take_bit_eq_mod unat_of_nat_mod)
  ultimately show ?thesis
    using pack_size_enc [OF n] by (simp add: mk_map_key_def check_def max_key_length_def)
qed

lemma map_key_too_long:
  assumes "32 < length (enc t)" "length (enc t) < 2 ^ 32"
  shows "mk_map_key kp t c = Inl (Abort ''key size must be smaller than 32'')"
  using assms pack_size_enc [OF assms(2)]
  by (simp add: mk_map_key_def check_def word_le_nat_alt max_key_length_def unat_of_nat_mod)

lemma key_data_enc:
  assumes "length (enc t) \<le> 32"
  shows "key_data \<lparr>key_length = of_nat (length (enc t)),
    key_bytes = load_bytes (store_bytes m kp (enc t)) kp 32\<rparr> = enc t"
proof -
  have "unat (of_nat (length (enc t)) :: byte) = length (enc t)"
    using assms by (simp add: unat_of_nat_mod)
  then show ?thesis
    using assms load_store_bytes [of "enc t" m kp] by (simp add: key_data_def take_load_bytes)
qed

lemma enc_inject:
  assumes "has_type lt t v" "has_type lt t w"
  shows "enc v = enc w \<longleftrightarrow> v = w"
proof
  assume "enc v = enc w"
  with deser_enc [OF assms(1) fresh_default, of "[]"] deser_enc [OF assms(2) fresh_default, of "[]"]
  show "v = w" by (metis Pair_inject sum.inject(2))
qed simp

end
