(* ===== verification/TableSpec.thy ===== *)
theory TableSpec
  imports Storage
begin

text \<open>
  What a table promises its contract. \<open>table_store\<close> is the interface: calls from stack frames
  \<open>okf\<close> with keys \<open>okk\<close> and values \<open>okv\<close> act on a state that represents a finite map. From its
  laws every sequence of calls answers as the map does. The operations of \<open>map.hpp\<close> provide the
  interface (\<open>tb\<close>).
\<close>

section \<open>The interface and its client\<close>

datatype ('k, 'v) request = Put 'k 'v | Get 'k | Has 'k | Erase 'k

datatype 'v reply = Done | Value 'v | Answer bool

text \<open>A map as the abstract table.\<close>

fun map_step :: "('k, 'v) request \<Rightarrow> ('k \<rightharpoonup> 'v) \<Rightarrow> ('v reply \<times> ('k \<rightharpoonup> 'v)) res" where
  "map_step (Put k v) M = Inr (Done, M(k \<mapsto> v))"
| "map_step (Get k) M = (case M k of
      None \<Rightarrow> Inl (Abort ''error get from primary key'') | Some v \<Rightarrow> Inr (Value v, M))"
| "map_step (Has k) M = Inr (Answer (M k \<noteq> None), M)"
| "map_step (Erase k) M = Inr (Done, M(k := None))"

fun run_all :: "('o \<Rightarrow> 's \<Rightarrow> ('r \<times> 's) res) \<Rightarrow> 'o list \<Rightarrow> 's \<Rightarrow> ('r list \<times> 's) res" where
  "run_all step [] s = Inr ([], s)"
| "run_all step (x # xs) s =
     rbind (step x s) (\<lambda>(r, s). rbind (run_all step xs s) (\<lambda>(rs, s). Inr (r # rs, s)))"

fun request_ok :: "('k \<Rightarrow> bool) \<Rightarrow> ('v \<Rightarrow> bool) \<Rightarrow> ('k, 'v) request \<Rightarrow> bool" where
  "request_ok okk okv (Put k v) \<longleftrightarrow> okk k \<and> okv v"
| "request_ok okk okv (Get k) \<longleftrightarrow> okk k"
| "request_ok okk okv (Has k) \<longleftrightarrow> okk k"
| "request_ok okk okv (Erase k) \<longleftrightarrow> okk k"

abbreviation out_of_memory :: err where
  "out_of_memory \<equiv> Abort ''failed to allocate pages''"

locale table_store =
  fixes step :: "'f \<Rightarrow> ('k, 'v) request \<Rightarrow> 's \<Rightarrow> ('v reply \<times> 's) res"
    and rep :: "'s \<Rightarrow> ('k \<rightharpoonup> 'v) \<Rightarrow> bool"
    and okf :: "'f \<Rightarrow> bool" and okk :: "'k \<Rightarrow> bool" and okv :: "'v \<Rightarrow> bool"
  assumes step_rep:
    "rep s M \<Longrightarrow> okf f \<Longrightarrow> request_ok okk okv x \<Longrightarrow> step f x s \<noteq> Inl out_of_memory \<Longrightarrow>
       case map_step x M of
         Inl e \<Rightarrow> step f x s = Inl e
       | Inr (r, M') \<Rightarrow> \<exists>s'. step f x s = Inr (r, s') \<and> rep s' M'"
begin

lemma run_refines:
  "rep s M \<Longrightarrow> \<forall>(f, x) \<in> set xs. okf f \<and> request_ok okk okv x \<Longrightarrow>
     run_all (\<lambda>(f, x). step f x) xs s \<noteq> Inl out_of_memory \<Longrightarrow>
     case run_all map_step (map snd xs) M of
       Inl e \<Rightarrow> run_all (\<lambda>(f, x). step f x) xs s = Inl e
     | Inr (rs, M') \<Rightarrow> \<exists>s'. run_all (\<lambda>(f, x). step f x) xs s = Inr (rs, s') \<and> rep s' M'"
proof (induction xs arbitrary: s M)
  case (Cons a xs)
  obtain f x where a: "a = (f, x)" by (cases a)
  have ok: "okf f" "request_ok okk okv x" using Cons.prems(2) by (auto simp: a)
  have no: "step f x s \<noteq> Inl out_of_memory" using Cons.prems(3) by (auto simp: a)
  note st = step_rep [OF Cons.prems(1) ok no]
  show ?case
  proof (cases "map_step x M")
    case (Inl e)
    with st show ?thesis by (simp add: a)
  next
    case (Inr r)
    obtain y M' where r: "r = (y, M')" by (cases r)
    with st Inr obtain s' where s': "step f x s = Inr (y, s')" "rep s' M'" by auto
    have "run_all (\<lambda>(f, x). step f x) xs s' \<noteq> Inl out_of_memory"
      using Cons.prems(3) s'(1) by (auto simp: a)
    from Cons.IH [OF s'(2) _ this] Cons.prems(2)
    show ?thesis using Inr r s'(1) by (auto simp: a split: sum.splits)
  qed
qed simp

end

section \<open>Frames and representation\<close>

type_synonym frame = "(u32 \<Rightarrow> u32) \<times> u32"
  \<comment> \<open>where a stack buffer of a given size is placed, and where the object \<open>MapKey\<close> is\<close>

definition frame_ok :: "'h chain \<Rightarrow> frame \<Rightarrow> bool" where
  "frame_ok c f \<longleftrightarrow> stack_ok (fst f) c \<and> apart (fst f) (snd f) 32 c"

definition key_ok :: "(ty \<Rightarrow> val \<Rightarrow> val \<Rightarrow> bool) \<Rightarrow> ty \<Rightarrow> val \<Rightarrow> bool" where
  "key_ok lt kt k \<longleftrightarrow> has_type lt kt k \<and> length (enc k) \<le> 32"

definition value_ok :: "(ty \<Rightarrow> val \<Rightarrow> val \<Rightarrow> bool) \<Rightarrow> ty \<Rightarrow> val \<Rightarrow> bool" where
  "value_ok lt vt v \<longleftrightarrow> has_type lt vt v \<and> small vt \<and> length (enc v) < 2 ^ 31"

text \<open>The contract \<open>c\<close> stores exactly the packed form of the map \<open>M\<close> in the table.\<close>

definition represents ::
    "('h \<Rightarrow> u64 \<times> byte list \<Rightarrow> byte list option) \<Rightarrow> (ty \<Rightarrow> val \<Rightarrow> val \<Rightarrow> bool) \<Rightarrow> ty \<Rightarrow> ty \<Rightarrow> u64 \<Rightarrow>
     frame set \<Rightarrow> 'h chain \<Rightarrow> (val \<rightharpoonup> val) \<Rightarrow> bool" where
  "represents contents lt kt vt tbl F c M \<longleftrightarrow>
     (\<forall>f \<in> F. frame_ok c f) \<and>
     (\<forall>k. key_ok lt kt k \<longrightarrow> contents (host c) (tbl, enc k) = map_option enc (M k)) \<and>
     (\<forall>v \<in> ran M. value_ok lt vt v)"

text \<open>One call of a member of \<open>table\<close>.\<close>

fun table_step ::
    "'h host_db \<Rightarrow> (ty \<Rightarrow> val \<Rightarrow> val \<Rightarrow> bool) \<Rightarrow> ty \<Rightarrow> u64 \<Rightarrow> frame \<Rightarrow> (val, val) request \<Rightarrow>
     'h chain \<Rightarrow> (val reply \<times> 'h chain) res" where
  "table_step db lt vt tbl (al, kp) (Put k v) c =
     rbind (table_put db al kp tbl k v c) (\<lambda>c. Inr (Done, c))"
| "table_step db lt vt tbl (al, kp) (Get k) c =
     rbind (table_get db al kp lt vt tbl k c) (\<lambda>(v, c). Inr (Value v, c))"
| "table_step db lt vt tbl (al, kp) (Has k) c =
     rbind (table_has_key db kp tbl k c) (\<lambda>(b, c). Inr (Answer b, c))"
| "table_step db lt vt tbl (al, kp) (Erase k) c =
     rbind (table_erase db kp tbl k c) (\<lambda>c. Inr (Done, c))"

section \<open>The operations of \<open>map.hpp\<close>\<close>

lemma map_key_call:
  assumes "frame_ok c (al, kp)" "length (enc k) \<le> 32"
  obtains pk m where "mk_map_key kp k c = Inr (pk, set_mem m c)" "key_data pk = enc k"
    "m = store_bytes (mem_of c) kp (enc k)"
  using assms map_key_ok [of al kp c k] key_data_enc [of k "mem_of c" kp] that
  by (simp add: frame_ok_def)

lemma frame_ok_set_mem [simp]:
  "frame_ok (set_mem m c) f = frame_ok c f" "frame_ok (c\<lparr>host := h\<rparr>) f = frame_ok c f"
  by (simp_all add: frame_ok_def)

text \<open>\<open>put\<close>: memory changes, and the host stores the packed value under the packed key.\<close>

lemma table_put_cases:
  assumes fr: "frame_ok c (al, kp)" and k: "length (enc k) \<le> 32" and v: "length (enc v) < 2 ^ 31"
  obtains (ok) c' where "table_put db al kp tbl k v c = Inr c'"
      "host c' = host_store db tbl (enc k) (enc v) (host c)" "\<And>f. frame_ok c f \<Longrightarrow> frame_ok c' f"
    | (none) "no_pages (table_put db al kp tbl k v c) (length (enc v))"
proof -
  let ?sz = "of_nat (length (enc v)) :: u32"
  have st: "stack_ok al c" and ap: "apart al kp 32 c" using fr by (simp_all add: frame_ok_def)
  have u: "unat ?sz = length (enc v)" using v by (simp add: unat_of_nat_mod)
  have sz: "pack_size v = Inr ?sz" by (rule pack_size_enc) (use v in simp)
  from st show ?thesis
  proof (cases rule: scratch_cases [where sz = ?sz])
    case none
    with u sz show ?thesis by (intro that(2)) (auto simp: table_put_def no_pages_def)
  next
    case (ok p c1)
    let ?m = "store_bytes (mem_of c1) p (enc v)"
    have "pack_into p ?sz v c1 = Inr (set_mem ?m c1)"
      by (rule pack_into_ok) (use ok(7) u v in simp_all)
    moreover have fr1: "frame_ok c1 f" if "frame_ok c f" for f
      using that ok(9,10) by (simp add: frame_ok_def)
    moreover obtain pk m' where pk: "mk_map_key kp k (set_mem ?m c1) = Inr (pk, set_mem m' c1)"
      "key_data pk = enc k" "m' = store_bytes ?m kp (enc k)"
      using map_key_call [of "set_mem ?m c1" al kp k] fr1 [OF fr] k by auto
    moreover have "load_bytes m' p (length (enc v)) = enc v"
    proof -
      have "disjoint_blocks p (length (enc v)) kp (length (enc k))"
        using ok(8) [OF ap] k by (auto simp: u disjoint_blocks_def in_block_def)
      then show ?thesis using v k by (simp add: pk(3) load_store_disjoint)
    qed
    ultimately show ?thesis using sz ok(1,5) u
      by (intro that(1) [of "(set_mem m' c1)\<lparr>host := host_store db tbl (enc k) (enc v) (host c)\<rparr>"])
        (simp_all add: table_put_def db_store_def)
  qed
qed

text \<open>\<open>get\<close>: a stored value is loaded and unpacked; a missing one aborts.\<close>

lemma table_get_cases:
  assumes fr: "frame_ok c (al, kp)" and k: "length (enc k) \<le> 32" and v: "value_ok lt vt v"
    and l: "host_load db tbl (enc k) 0 (host c) = (int (length (enc v)), [])"
      "host_load db tbl (enc k) (length (enc v)) (host c) = (int (length (enc v)), enc v)"
  obtains (ok) c' where "table_get db al kp lt vt tbl k c = Inr (v, c')" "host c' = host c"
      "\<And>f. frame_ok c f \<Longrightarrow> frame_ok c' f"
    | (none) "no_pages (table_get db al kp lt vt tbl k c) (length (enc v))"
proof -
  let ?n = "length (enc v)" and ?sz = "of_nat (length (enc v)) :: u32"
  obtain pk m where pk: "mk_map_key kp k c = Inr (pk, set_mem m c)" "key_data pk = enc k"
    by (rule map_key_call [OF fr k])
  have u: "unat ?sz = ?n" using v by (simp add: value_ok_def unat_of_nat_mod)
  have st: "stack_ok al (set_mem m c)" using fr by (simp add: frame_ok_def)
  then show ?thesis
  proof (cases rule: scratch_cases [where sz = ?sz])
    case none
    with u pk l show ?thesis
      by (intro that(2)) (auto simp: table_get_def no_pages_def db_load_def check_def)
  next
    case (ok p c1)
    let ?m = "store_bytes (mem_of c1) p (enc v)"
    have "deser lt (mem_stream ?m) vt (default_val vt) (mk_datastream p ?sz) =
        Inr (v, ds_adv ?n (mk_datastream p ?sz))"
      using v ok(7) u by (intro deser_block) (simp_all add: value_ok_def fresh_default)
    then show ?thesis using pk l u ok
      by (intro that(1) [of "set_mem ?m c1"])
        (simp_all add: table_get_def db_load_def check_def frame_ok_def)
  qed
qed

lemma table_get_none:
  assumes fr: "frame_ok c (al, kp)" and k: "length (enc k) \<le> 32"
    and l: "host_load db tbl (enc k) 0 (host c) = (- 1, [])"
  shows "table_get db al kp lt vt tbl k c = Inl (Abort ''error get from primary key'')"
proof -
  obtain pk m where "mk_map_key kp k c = Inr (pk, set_mem m c)" "key_data pk = enc k"
    by (rule map_key_call [OF fr k])
  then show ?thesis using l by (simp add: table_get_def db_load_def check_def)
qed

section \<open>A table is a map\<close>

lemma represents_keys:
  assumes "represents contents lt kt vt tbl F c M" "key_ok lt kt k" "contents' (tbl, enc k) = map_option enc w"
    "\<And>k'. enc k' \<noteq> enc k \<Longrightarrow> contents' (tbl, enc k') = contents (host c) (tbl, enc k')"
    "key_ok lt kt k'"
  shows "contents' (tbl, enc k') = map_option enc ((M(k := w)) k')"
proof (cases "k' = k")
  case False
  then have "enc k' \<noteq> enc k"
    using assms(2,5) enc_inject [of lt kt k' k] by (simp add: key_ok_def)
  with False assms show ?thesis by (simp add: represents_def)
qed (use assms in simp)

lemma represents_frame: "represents contents lt kt vt tbl F c M \<Longrightarrow> f \<in> F \<Longrightarrow> frame_ok c f"
  and represents_at:
    "represents contents lt kt vt tbl F c M \<Longrightarrow> key_ok lt kt k \<Longrightarrow>
       contents (host c) (tbl, enc k) = map_option enc (M k)"
  and represents_value:
    "represents contents lt kt vt tbl F c M \<Longrightarrow> M k = Some v \<Longrightarrow> value_ok lt vt v"
  and represents_same_host:
    "represents contents lt kt vt tbl F c M \<Longrightarrow> host c' = host c \<Longrightarrow>
       (\<And>f. frame_ok c f \<Longrightarrow> frame_ok c' f) \<Longrightarrow> represents contents lt kt vt tbl F c' M"
  by (auto simp: represents_def ran_def)

lemma represents_update:
  assumes rep: "represents contents lt kt vt tbl F c M" and k: "key_ok lt kt k"
    and C: "contents (host c') = (contents (host c))((tbl, enc k) := map_option enc w)"
    and fr: "\<And>f. frame_ok c f \<Longrightarrow> frame_ok c' f" and w: "\<And>v. w = Some v \<Longrightarrow> value_ok lt vt v"
  shows "represents contents lt kt vt tbl F c' (M(k := w))"
proof -
  have "contents (host c') (tbl, enc k') = map_option enc ((M(k := w)) k')" if "key_ok lt kt k'" for k'
    unfolding C by (rule represents_keys [OF rep k _ _ that]) simp_all
  then show ?thesis using rep fr w by (auto simp: represents_def ran_def split: if_splits)
qed

lemma key_ok_length: "key_ok lt kt k \<Longrightarrow> length (enc k) \<le> 32"
  by (simp add: key_ok_def)

lemma table_put_rep:
  assumes db: "db_laws db contents" and rep: "represents contents lt kt vt tbl F c M" and f: "(al, kp) \<in> F"
    and k: "key_ok lt kt k" and v: "value_ok lt vt v"
    and mem: "table_put db al kp tbl k v c \<noteq> Inl out_of_memory"
  shows "\<exists>c'. table_put db al kp tbl k v c = Inr c' \<and> represents contents lt kt vt tbl F c' (M(k \<mapsto> v))"
proof -
  have "length (enc v) < 2 ^ 31" using v by (simp add: value_ok_def)
  with represents_frame [OF rep f] key_ok_length [OF k] show ?thesis
  proof (cases rule: table_put_cases [where db = db and tbl = tbl])
    case none
    with mem show ?thesis by (simp add: no_pages_def)
  next
    case (ok c')
    have "contents (host c') = (contents (host c))((tbl, enc k) := map_option enc (Some v))"
      using db ok(2) by (simp add: db_laws_def)
    from represents_update [OF rep k this ok(3)] v ok(1) show ?thesis by simp
  qed
qed

lemma table_get_rep:
  assumes db: "db_laws db contents" and rep: "represents contents lt kt vt tbl F c M" and f: "(al, kp) \<in> F"
    and k: "key_ok lt kt k" and M: "M k = Some v"
    and mem: "table_get db al kp lt vt tbl k c \<noteq> Inl out_of_memory"
  shows "\<exists>c'. table_get db al kp lt vt tbl k c = Inr (v, c') \<and> represents contents lt kt vt tbl F c' M"
proof -
  have l: "host_load db tbl (enc k) 0 (host c) = (int (length (enc v)), [])"
    "host_load db tbl (enc k) (length (enc v)) (host c) = (int (length (enc v)), enc v)"
    using represents_at [OF rep k] M db by (simp_all add: db_laws_def)
  from represents_frame [OF rep f] key_ok_length [OF k] represents_value [OF rep M] l show ?thesis
  proof (cases rule: table_get_cases)
    case none
    with mem show ?thesis by (simp add: no_pages_def)
  next
    case (ok c')
    with represents_same_host [OF rep ok(2,3)] show ?thesis by simp
  qed
qed

lemma table_get_none_rep:
  assumes "db_laws db contents" "represents contents lt kt vt tbl F c M" "(al, kp) \<in> F"
    "key_ok lt kt k" "M k = None"
  shows "table_get db al kp lt vt tbl k c = Inl (Abort ''error get from primary key'')"
  using assms represents_at [OF assms(2,4)]
  by (intro table_get_none [OF represents_frame key_ok_length]) (auto simp: db_laws_def)

lemma table_has_key_rep:
  assumes "db_laws db contents" "represents contents lt kt vt tbl F c M" "(al, kp) \<in> F" "key_ok lt kt k"
  shows "\<exists>m. table_has_key db kp tbl k c = Inr (M k \<noteq> None, set_mem m c) \<and>
    represents contents lt kt vt tbl F (set_mem m c) M"
proof -
  obtain pk m where "mk_map_key kp k c = Inr (pk, set_mem m c)" "key_data pk = enc k"
    by (rule map_key_call [OF represents_frame [OF assms(2,3)] key_ok_length [OF assms(4)]])
  moreover have "host_has_key db tbl (enc k) (host c) \<noteq> 0 \<longleftrightarrow> M k \<noteq> None"
    using represents_at [OF assms(2,4)] assms(1) by (simp add: db_laws_def)
  ultimately show ?thesis using represents_same_host [OF assms(2)]
    by (auto simp: table_has_key_def db_has_key_def)
qed

lemma table_erase_rep:
  assumes "db_laws db contents" "represents contents lt kt vt tbl F c M" "(al, kp) \<in> F" "key_ok lt kt k"
  shows "\<exists>c'. table_erase db kp tbl k c = Inr c' \<and> represents contents lt kt vt tbl F c' (M(k := None))"
proof -
  obtain pk m where pk: "mk_map_key kp k c = Inr (pk, set_mem m c)" "key_data pk = enc k"
    by (rule map_key_call [OF represents_frame [OF assms(2,3)] key_ok_length [OF assms(4)]])
  let ?c = "(set_mem m c)\<lparr>host := host_remove_key db tbl (enc k) (host c)\<rparr>"
  have "contents (host ?c) = (contents (host c))((tbl, enc k) := map_option enc None)"
    using assms(1) by (simp add: db_laws_def)
  from represents_update [OF assms(2,4) this] pk show ?thesis
    by (simp add: table_erase_def db_remove_key_def)
qed

lemma table_step_rep:
  assumes db: "db_laws db contents" and rep: "represents contents lt kt vt tbl F c M" and f: "f \<in> F"
    and x: "request_ok (key_ok lt kt) (value_ok lt vt) x"
    and mem: "table_step db lt vt tbl f x c \<noteq> Inl out_of_memory"
  shows "case map_step x M of
      Inl e \<Rightarrow> table_step db lt vt tbl f x c = Inl e
    | Inr (r, M') \<Rightarrow> \<exists>c'. table_step db lt vt tbl f x c = Inr (r, c') \<and>
        represents contents lt kt vt tbl F c' M'"
proof -
  obtain al kp where f': "f = (al, kp)" by (cases f)
  note F = f [unfolded f']
  show ?thesis
  proof (cases x)
    case (Put k v)
    with table_put_rep [OF db rep F, of k v] x mem show ?thesis by (force simp: f')
  next
    case (Get k)
    with table_get_none_rep [OF db rep F, of k] table_get_rep [OF db rep F, of k] x mem
    show ?thesis by (cases "M k") (force simp: f')+
  next
    case (Has k)
    with table_has_key_rep [OF db rep F, of k] x show ?thesis by (force simp: f')
  next
    case (Erase k)
    with table_erase_rep [OF db rep F, of k] x show ?thesis by (force simp: f')
  qed
qed

interpretation tb: table_store "table_step db lt vt tbl"
  "\<lambda>c M. db_laws db contents \<and> represents contents lt kt vt tbl F c M"
  "\<lambda>f. f \<in> F" "key_ok lt kt" "value_ok lt vt"
  for db contents lt kt vt tbl F
proof
  fix c M f x
  assume "db_laws db contents \<and> represents contents lt kt vt tbl F c M" "f \<in> F"
    "request_ok (key_ok lt kt) (value_ok lt vt) x" "table_step db lt vt tbl f x c \<noteq> Inl out_of_memory"
  with table_step_rep [of db contents lt kt vt tbl F c M f x]
  show "case map_step x M of
      Inl e \<Rightarrow> table_step db lt vt tbl f x c = Inl e
    | Inr (r, M') \<Rightarrow> \<exists>c'. table_step db lt vt tbl f x c = Inr (r, c') \<and>
        db_laws db contents \<and> represents contents lt kt vt tbl F c' M'"
    by (auto split: sum.splits)
qed

end
