(* ===== verification/StorageProperties.thy ===== *)
theory StorageProperties
  imports TableSpec WireProperties
begin

text \<open>The properties of tables and their keys.\<close>

text \<open>A host for the witnesses: its state is the contents of the database itself.\<close>

definition wit_db :: "(u64 \<times> byte list \<Rightarrow> byte list option) host_db" where
  "wit_db = \<lparr>host_store = (\<lambda>t k v h. h((t, k) \<mapsto> v)),
     host_load = (\<lambda>t k n h. case h (t, k) of
        None \<Rightarrow> (- 1, []) | Some v \<Rightarrow> (int (length v), if n = 0 then [] else take n v)),
     host_has_key = (\<lambda>t k h. if h (t, k) = None then 0 else 1),
     host_remove_key = (\<lambda>t k h. h((t, k) := None))\<rparr>"

lemma wit_db_laws: "db_laws wit_db (\<lambda>h. h)"
  by (simp add: db_laws_def wit_db_def)

definition wit_chain :: "(u64 \<times> byte list \<Rightarrow> byte list option) chain" where
  "wit_chain = \<lparr>alloc = fst wit_state, inst = snd wit_state, host = Map.empty\<rparr>"

abbreviation wit_frame :: frame where
  "wit_frame \<equiv> (\<lambda>_. 1024, 4096)"

lemma wit_frame_ok: "frame_ok wit_chain wit_frame"
proof -
  have "heap_end wit_chain = 70008" by (simp add: wit_chain_def wit_state_def heap_top_def)
  moreover have "disjoint_blocks 1024 (unat sz) 4096 32" if "sz \<le> max_stack_buffer_size" for sz
    using that by (intro disjoint_blocksI) (auto simp: max_stack_buffer_size_def word_le_nat_alt)
  ultimately show ?thesis using wit_state_inv
    by (auto simp: frame_ok_def stack_ok_def apart_def wit_chain_def max_stack_buffer_size_def word_le_nat_alt)
qed

lemma wit_key_ok: "key_ok wit_lt TUnsignedInt (VUnsignedInt (unsigned_int n))"
proof -
  have "length (vbytes (unat n)) \<le> 5" by (rule length_vbytes_u32)
  then show ?thesis by (simp add: key_ok_def unsigned_int_def)
qed

lemma wit_value_ok: "value_ok wit_lt wit_ty wit_val"
  using wit_has_type by (simp add: value_ok_def wit_enc del: enc_simps)

section \<open>Properties\<close>

text \<open>C12: a table is a finite map. Whatever sequence of \<open>put\<close>, \<open>get\<close>, \<open>has_key\<close> and \<open>erase\<close>
  a contract calls, with keys of at most 32 packed bytes, the answers are those of a map from keys
  to values, a \<open>get\<close> of a missing key aborts with its message, and the host holds the packed map
  at the end; the only other outcome is that memory runs out.\<close>

theorem table_refines_map:
  assumes "db_laws db contents" "represents contents lt kt vt tbl F c M"
    and "\<forall>(f, x) \<in> set xs. f \<in> F \<and> request_ok (key_ok lt kt) (value_ok lt vt) x"
  shows "(case run_all map_step (map snd xs) M of
       Inl e \<Rightarrow> run_all (\<lambda>(f, x). table_step db lt vt tbl f x) xs c = Inl e
     | Inr (rs, M') \<Rightarrow> \<exists>c'. run_all (\<lambda>(f, x). table_step db lt vt tbl f x) xs c = Inr (rs, c') \<and>
         represents contents lt kt vt tbl F c' M') \<or>
    run_all (\<lambda>(f, x). table_step db lt vt tbl f x) xs c = Inl out_of_memory"
proof (rule disjCI)
  assume "run_all (\<lambda>(f, x). table_step db lt vt tbl f x) xs c \<noteq> Inl out_of_memory"
  from tb.run_refines [OF _ assms(3) this] assms(1,2) show "case run_all map_step (map snd xs) M of
      Inl e \<Rightarrow> run_all (\<lambda>(f, x). table_step db lt vt tbl f x) xs c = Inl e
    | Inr (rs, M') \<Rightarrow> \<exists>c'. run_all (\<lambda>(f, x). table_step db lt vt tbl f x) xs c = Inr (rs, c') \<and>
        represents contents lt kt vt tbl F c' M'"
    by (fastforce split: sum.splits)
qed

theorem table_refines_map_witness:
  "run_all (\<lambda>(f, x). table_step wit_db wit_lt wit_ty 7 f x)
     [(wit_frame, Put (VUnsignedInt (unsigned_int 5)) wit_val),
      (wit_frame, Get (VUnsignedInt (unsigned_int 6)))] wit_chain \<in>
   {Inl out_of_memory, Inl (Abort ''error get from primary key'')}"
proof -
  have "represents (\<lambda>h. h) wit_lt TUnsignedInt wit_ty 7 {wit_frame} wit_chain Map.empty"
    using wit_frame_ok by (simp add: represents_def wit_chain_def)
  note run = table_refines_map [OF wit_db_laws this, of "[(wit_frame, Put (VUnsignedInt (unsigned_int 5)) wit_val),
      (wit_frame, Get (VUnsignedInt (unsigned_int 6)))]"]
  have "run_all map_step [Put (VUnsignedInt (unsigned_int 5)) wit_val, Get (VUnsignedInt (unsigned_int 6))]
      Map.empty = Inl (Abort ''error get from primary key'')"
    by (simp add: unsigned_int_def)
  with run show ?thesis using wit_key_ok [of 5] wit_key_ok [of 6] wit_value_ok
    by (simp del: run_all.simps) blast
qed

text \<open>C13: a record of at most 512 packed bytes is always stored and read back, from any two
  frames; the database gains exactly the packed value under the packed key.\<close>

theorem small_record_stored:
  assumes "db_laws db contents" "frame_ok c (al, kp)" "frame_ok c (al', kp')"
    and "key_ok lt kt k" "value_ok lt vt v" "length (enc v) \<le> 512"
  shows "\<exists>c1 c2. table_put db al kp tbl k v c = Inr c1 \<and>
    table_get db al' kp' lt vt tbl k c1 = Inr (v, c2) \<and>
    contents (host c2) = (contents (host c))((tbl, enc k) \<mapsto> enc v)"
proof -
  have "length (enc v) < 2 ^ 31" using assms(6) by simp
  with assms(2) key_ok_length [OF assms(4)] show ?thesis
  proof (cases rule: table_put_cases [where db = db and tbl = tbl])
    case none
    with assms(6) show ?thesis by (simp add: no_pages_def)
  next
    case put: (ok c1)
    then have C: "contents (host c1) = (contents (host c))((tbl, enc k) \<mapsto> enc v)"
      using assms(1) by (simp add: db_laws_def)
    then have l: "host_load db tbl (enc k) 0 (host c1) = (int (length (enc v)), [])"
      "host_load db tbl (enc k) (length (enc v)) (host c1) = (int (length (enc v)), enc v)"
      using assms(1) by (simp_all add: db_laws_def)
    from put(3) [OF assms(3)] key_ok_length [OF assms(4)] assms(5) l show ?thesis
    proof (cases rule: table_get_cases)
      case none
      with assms(6) show ?thesis by (simp add: no_pages_def)
    next
      case (ok c2)
      with put(1) C show ?thesis by auto
    qed
  qed
qed

theorem small_record_stored_witness:
  "\<exists>c1 c2. table_put wit_db (\<lambda>_. 1024) 4096 7 (VUnsignedInt (unsigned_int 5)) wit_val wit_chain = Inr c1 \<and>
    table_get wit_db (\<lambda>_. 1024) 4096 wit_lt wit_ty 7 (VUnsignedInt (unsigned_int 5)) c1 = Inr (wit_val, c2) \<and>
    host c2 = (host wit_chain)((7, enc (VUnsignedInt (unsigned_int 5))) \<mapsto> enc wit_val)"
  by (rule small_record_stored [OF wit_db_laws wit_frame_ok wit_frame_ok wit_key_ok wit_value_ok])
    (simp add: wit_enc del: enc_simps)

text \<open>A key is refused exactly when its packed form has more than 32 bytes, so a key of
  32 bytes is accepted although the message asks for fewer; an accepted key is passed to the
  host as its packed form.\<close>

theorem key_size_limit:
  assumes "frame_ok c (al, kp)" "length (enc k) < 2 ^ 32"
  shows "if length (enc k) \<le> 32
    then \<exists>pk c'. mk_map_key kp k c = Inr (pk, c') \<and> key_data pk = enc k \<and> host c' = host c
    else mk_map_key kp k c = Inl (Abort ''key size must be smaller than 32'')"
proof (cases "length (enc k) \<le> 32")
  case True
  then obtain pk m where "mk_map_key kp k c = Inr (pk, set_mem m c)" "key_data pk = enc k"
    by (rule map_key_call [OF assms(1)])
  with True show ?thesis by auto
qed (use assms(2) map_key_too_long [of k kp c] in simp)

theorem key_size_limit_witness:
  "(\<exists>pk c'. mk_map_key 4096 (VPrim (replicate 32 1)) wit_chain = Inr (pk, c') \<and> key_data pk = replicate 32 1) \<and>
   mk_map_key 4096 (VPrim (replicate 33 1)) wit_chain = Inl (Abort ''key size must be smaller than 32'')"
  using key_size_limit [OF wit_frame_ok, of "VPrim (replicate 32 1)"]
    key_size_limit [OF wit_frame_ok, of "VPrim (replicate 33 1)"] by auto

text \<open>C14: a key read from a stream is the sent one when its length byte is at most 32; a larger
  length byte is not refused and makes the loop write past the array of the key.\<close>

theorem map_key_from_stream:
  assumes "length (key_bytes key) = 32" "length bs = unat n"
  shows "in_map_key list_stream key (n # bs @ r) =
    (if unat n \<le> 32 then Inr (\<lparr>key_length = n, key_bytes = bs @ drop (unat n) (key_bytes key)\<rparr>, r)
     else Inl (UB ''key.bytes[i]''))"
proof -
  have loop: "in_map_key_loop list_stream (length cs) i a (cs @ r) =
      (if i + length cs \<le> 32 then Inr (take i a @ cs @ drop (i + length cs) a, r)
       else Inl (UB ''key.bytes[i]''))"
    if "length a = 32" "i \<le> 32" for cs i a
    using that
  proof (induction cs arbitrary: i a)
    case (Cons x cs)
    have "take (Suc i) (a[i := x]) = take i a @ [x]" if "i < 32"
      using Cons.prems that by (simp add: take_Suc_conv_app_nth)
    then show ?case using Cons
      by (cases "i = 32") (auto simp: in_primitive_def lread_def max_key_length_def)
  qed simp
  show ?thesis
    using loop [of "key_bytes key" 0 bs] assms by (simp add: in_map_key_def in_primitive_def lread_def)
qed

theorem map_key_from_stream_witness:
  "in_map_key list_stream map_key_empty (33 # replicate 33 1) = Inl (UB ''key.bytes[i]'')"
  using map_key_from_stream [of map_key_empty "replicate 33 1" 33 "[]"]
  by (simp add: map_key_empty_def max_key_length_def)

end
