(* ===== verification/Action.thy ===== *)
theory Action
  imports Contract
begin

text \<open>
  Actions: \<open>libraries/ftllib/include/ftllib/action.hpp\<close> (reading the data of the current action,
  transfers, calling another contract) and \<open>dispatcher.hpp\<close> (running the handler an action
  names). The functions imported from the host are the parameter \<open>host_api\<close>; \<open>api_laws\<close> states
  what \<open>base.hpp\<close> and the comments of \<open>action.hpp\<close> say of them. Handlers are code of the contract
  and stand as arguments.
\<close>

section \<open>The host\<close>

record 'h host_api =
  api_data_size :: "'h \<Rightarrow> u32"
  api_read :: "nat \<Rightarrow> 'h \<Rightarrow> u32 \<times> byte list"
  api_transfer :: "byte list \<Rightarrow> u64 \<Rightarrow> 'h \<Rightarrow> 'h"
  api_amount :: "'h \<Rightarrow> u64"
  api_call :: "byte list \<Rightarrow> byte list \<Rightarrow> u64 \<Rightarrow> int \<Rightarrow> int \<Rightarrow> 'h \<Rightarrow> int \<times> 'h"
  api_call_result :: "nat \<Rightarrow> 'h \<Rightarrow> u32 \<times> byte list"
  api_set_result :: "byte list \<Rightarrow> 'h \<Rightarrow> 'h"

text \<open>\<open>data h\<close> is the data of the current action, \<open>result h\<close> what the last call returned. Asked
  for no bytes the host reports the size.\<close>

definition api_laws :: "'h host_api \<Rightarrow> ('h \<Rightarrow> byte list) \<Rightarrow> ('h \<Rightarrow> byte list) \<Rightarrow> bool" where
  "api_laws api data result \<longleftrightarrow> (\<forall>h.
     length (data h) < 2 ^ 31 \<and> length (result h) < 2 ^ 31 \<and>
     api_data_size api h = of_nat (length (data h)) \<and>
     api_read api (length (data h)) h = (of_nat (length (data h)), data h) \<and>
     api_call_result api 0 h = (of_nat (length (result h)), []) \<and>
     api_call_result api (length (result h)) h = (of_nat (length (result h)), result h))"

section \<open>\<open>action.hpp\<close>\<close>

definition read_action_data :: "'h host_api \<Rightarrow> u32 \<Rightarrow> u32 \<Rightarrow> 'h chain \<Rightarrow> u32 \<times> 'h chain" where
  "read_action_data api msg len c =
     (let (n, bs) = api_read api (unat len) (host c)
      in (n, set_mem (store_bytes (mem_of c) msg bs) c))"

definition action_data_size :: "'h host_api \<Rightarrow> 'h chain \<Rightarrow> u32" where
  "action_data_size api c = api_data_size api (host c)"

definition transfer :: "'h host_api \<Rightarrow> address \<Rightarrow> u64 \<Rightarrow> 'h chain \<Rightarrow> 'h chain" where
  "transfer api a amount c = c\<lparr>host := api_transfer api (addr a) amount (host c)\<rparr>"

definition get_transfer_amount :: "'h host_api \<Rightarrow> 'h chain \<Rightarrow> u64" where
  "get_transfer_amount api c = api_amount api (host c)"

text \<open>\<open>pack_size(act) + pack_size(t)\<close>, and \<open>ds << act; ds << t;\<close>\<close>

definition call_size :: "name \<Rightarrow> val list \<Rightarrow> u32 res" where
  "call_size act args =
     rbind (out_name sz_write act (mk_size_stream 0)) (\<lambda>n.
     rbind (pack_size (VTuple args)) (\<lambda>m. Inr (sz_tellp n + m)))"

definition pack_call :: "u32 \<Rightarrow> u32 \<Rightarrow> name \<Rightarrow> val list \<Rightarrow> 'h chain \<Rightarrow> 'h chain res" where
  "pack_call buffer sz act args c =
     rbind (out_name ds_write act (mem_of c, mk_datastream buffer sz)) (\<lambda>s.
     rbind (ser ds_write (VTuple args) s) (\<lambda>(m, ds). Inr (set_mem m c)))"

definition call_action ::
    "'h host_api \<Rightarrow> address \<Rightarrow> u32 \<Rightarrow> u32 \<Rightarrow> u64 \<Rightarrow> int \<Rightarrow> int \<Rightarrow> 'h chain \<Rightarrow> int \<times> 'h chain" where
  "call_action api contract buffer sz amount sd ud c =
     (let (ret, h) = api_call api (addr contract) (load_bytes (mem_of c) buffer (unat sz)) amount sd ud (host c)
      in (ret, c\<lparr>host := h\<rparr>))"

text \<open>\<open>action<void (*)(Args...)>::call\<close>\<close>

definition action_call_void ::
    "'h host_api \<Rightarrow> (u32 \<Rightarrow> u32) \<Rightarrow> address \<Rightarrow> name \<Rightarrow> u64 \<Rightarrow> int \<Rightarrow> int \<Rightarrow> val list \<Rightarrow>
     'h chain \<Rightarrow> (int \<times> 'h chain) res" where
  "action_call_void api al contract act amount sd ud args c =
     rbind (call_size act args) (\<lambda>sz.
     rbind (scratch al sz c) (\<lambda>(buffer, c).
     rbind (pack_call buffer sz act args c) (\<lambda>c.
     let (ret, c) = call_action api contract buffer sz amount sd ud c in
     rbind (release buffer sz c) (\<lambda>c. Inr (ret, c)))))"

text \<open>\<open>if (result_size > 0) { \<dots> result_ds >> *result; \<dots> }\<close>\<close>

definition take_result ::
    "'h host_api \<Rightarrow> (u32 \<Rightarrow> u32) \<Rightarrow> (ty \<Rightarrow> val \<Rightarrow> val \<Rightarrow> bool) \<Rightarrow> ty \<Rightarrow> val \<Rightarrow>
     'h chain \<Rightarrow> (val \<times> 'h chain) res" where
  "take_result api al lt rt result c =
     (let sz = fst (api_call_result api 0 (host c)) in
      if sz > 0 then
        rbind (scratch al sz c) (\<lambda>(buffer, c).
        let c = set_mem (store_bytes (mem_of c) buffer (snd (api_call_result api (unat sz) (host c)))) c in
        rbind (deser lt (mem_stream (mem_of c)) rt result (mk_datastream buffer sz)) (\<lambda>(v, _).
        rbind (release buffer sz c) (\<lambda>c. Inr (v, c))))
      else Inr (result, c))"

definition action_call ::
    "'h host_api \<Rightarrow> (u32 \<Rightarrow> u32) \<Rightarrow> (u32 \<Rightarrow> u32) \<Rightarrow> (ty \<Rightarrow> val \<Rightarrow> val \<Rightarrow> bool) \<Rightarrow> ty \<Rightarrow> val \<Rightarrow>
     address \<Rightarrow> name \<Rightarrow> u64 \<Rightarrow> int \<Rightarrow> int \<Rightarrow> val list \<Rightarrow> 'h chain \<Rightarrow> (int \<times> val \<times> 'h chain) res" where
  "action_call api al al' lt rt result contract act amount sd ud args c =
     rbind (call_size act args) (\<lambda>sz.
     rbind (scratch al sz c) (\<lambda>(buffer, c).
     rbind (pack_call buffer sz act args c) (\<lambda>c.
     let (ret, c) = call_action api contract buffer sz amount sd ud c in
     rbind (take_result api al' lt rt result c) (\<lambda>(result, c).
     rbind (release buffer sz c) (\<lambda>c. Inr (ret, result, c))))))"

text \<open>The macros \<open>CALL\<close>, \<open>DELEGATE_CALL\<close> and \<open>CONTRACT_CALL\<close>; the \<open>_NOARGS\<close> forms pass no arguments.\<close>

definition CALL where
  "CALL api al al' lt rt result contract act amount args c =
     rbind (name_of_string act) (\<lambda>n. action_call api al al' lt rt result contract n amount 0 0 args c)"

definition DELEGATE_CALL where
  "DELEGATE_CALL api al al' lt rt result contract act amount args c =
     rbind (name_of_string act) (\<lambda>n. action_call api al al' lt rt result contract n amount 1 0 args c)"

definition CONTRACT_CALL where
  "CONTRACT_CALL api al al' lt rt result contract act amount args c =
     rbind (name_of_string act) (\<lambda>n. action_call api al al' lt rt result contract n amount 0 1 args c)"

definition CALL_NOARGS where
  "CALL_NOARGS api al al' lt rt result contract act amount c =
     rbind (name_of_string act) (\<lambda>n. action_call api al al' lt rt result contract n amount 0 0 [] c)"

definition DELEGATE_CALL_NOARGS where
  "DELEGATE_CALL_NOARGS api al al' lt rt result contract act amount c =
     rbind (name_of_string act) (\<lambda>n. action_call api al al' lt rt result contract n amount 1 0 [] c)"

definition CONTRACT_CALL_NOARGS where
  "CONTRACT_CALL_NOARGS api al al' lt rt result contract act amount c =
     rbind (name_of_string act) (\<lambda>n. action_call api al al' lt rt result contract n amount 0 1 [] c)"

section \<open>\<open>dispatcher.hpp\<close>\<close>

text \<open>The data of the action in a buffer, and the arguments extracted from it.\<close>

definition action_buffer :: "'h host_api \<Rightarrow> (u32 \<Rightarrow> u32) \<Rightarrow> u32 \<Rightarrow> 'h chain \<Rightarrow> (u32 \<times> 'h chain) res" where
  "action_buffer api al sz c =
     (if sz > 0 then
        rbind (scratch al sz c) (\<lambda>(buffer, c). Inr (buffer, snd (read_action_data api buffer sz c)))
      else Inr (0, c))"

definition action_args ::
    "(ty \<Rightarrow> val \<Rightarrow> val \<Rightarrow> bool) \<Rightarrow> ty list \<Rightarrow> u32 \<Rightarrow> u32 \<Rightarrow> 'h chain \<Rightarrow> val list res" where
  "action_args lt ts buffer sz c =
     rbind (deser lt (mem_stream (mem_of c)) (TTuple ts) (default_val (TTuple ts)) (mk_datastream buffer sz))
       (\<lambda>(args, _). Inr (elems args))"

definition execute_action_void ::
    "'h host_api \<Rightarrow> (u32 \<Rightarrow> u32) \<Rightarrow> (ty \<Rightarrow> val \<Rightarrow> val \<Rightarrow> bool) \<Rightarrow> ty list \<Rightarrow>
     (val list \<Rightarrow> 'h chain \<Rightarrow> 'h chain res) \<Rightarrow> 'h chain \<Rightarrow> (bool \<times> 'h chain) res" where
  "execute_action_void api al lt ts func c =
     (let sz = action_data_size api c in
      rbind (action_buffer api al sz c) (\<lambda>(buffer, c).
      rbind (action_args lt ts buffer sz c) (\<lambda>args.
      rbind (func args c) (\<lambda>c.
      rbind (release buffer sz c) (\<lambda>c. Inr (True, c))))))"

text \<open>The result of a handler, packed and handed to the host; its buffer is not freed.\<close>

definition return_result :: "'h host_api \<Rightarrow> (u32 \<Rightarrow> u32) \<Rightarrow> val \<Rightarrow> 'h chain \<Rightarrow> 'h chain res" where
  "return_result api al rt c =
     rbind (pack_size rt) (\<lambda>sz.
     if sz > 0 then
       rbind (scratch al sz c) (\<lambda>(buffer, c).
       rbind (pack_into buffer sz rt c) (\<lambda>c.
         Inr (c\<lparr>host := api_set_result api (load_bytes (mem_of c) buffer (unat sz)) (host c)\<rparr>)))
     else Inr c)"

definition execute_action ::
    "'h host_api \<Rightarrow> (u32 \<Rightarrow> u32) \<Rightarrow> (u32 \<Rightarrow> u32) \<Rightarrow> (ty \<Rightarrow> val \<Rightarrow> val \<Rightarrow> bool) \<Rightarrow> ty list \<Rightarrow>
     (val list \<Rightarrow> 'h chain \<Rightarrow> (val \<times> 'h chain) res) \<Rightarrow> 'h chain \<Rightarrow> (bool \<times> 'h chain) res" where
  "execute_action api al al' lt ts func c =
     (let sz = action_data_size api c in
      rbind (action_buffer api al sz c) (\<lambda>(buffer, c).
      rbind (action_args lt ts buffer sz c) (\<lambda>args.
      rbind (func args c) (\<lambda>(rt, c).
      rbind (return_result api al' rt c) (\<lambda>c.
      rbind (release buffer sz c) (\<lambda>c. Inr (True, c)))))))"

text \<open>The \<open>switch\<close> of \<open>FTL_DISPATCH\<close>: one \<open>case\<close> per member, labelled with the value of its name.\<close>

definition case_label :: "string \<Rightarrow> u64 \<Rightarrow> bool" where
  "case_label elem action = (case name_of_string elem of Inl _ \<Rightarrow> False | Inr n \<Rightarrow> name_value n = action)"

fun apply_switch ::
    "(string \<times> ('h chain \<Rightarrow> (bool \<times> 'h chain) res)) list \<Rightarrow> u64 \<Rightarrow> 'h chain \<Rightarrow> 'h chain res" where
  "apply_switch [] action c = Inr c"
| "apply_switch ((elem, h) # members) action c =
     (if case_label elem action then rbind (h c) (\<lambda>(_, c). Inr c) else apply_switch members action c)"

end
