(* ===== verification/ActionProperties.thy ===== *)
theory ActionProperties
  imports Action StorageProperties
begin

text \<open>
  What the calling and the receiving side of an action do: the bytes a call hands to the host,
  the arguments a handler receives, and the handler a name selects.
\<close>

section \<open>The calling side\<close>

definition call_bytes :: "name \<Rightarrow> val list \<Rightarrow> byte list" where
  "call_bytes act args = le_bytes 8 (name_value act) @ enc (VTuple args)"

lemma length_call_bytes [simp]: "length (call_bytes act args) = 8 + length (enc (VTuple args))"
  by (simp add: call_bytes_def del: enc_simps)

lemma call_size_ok:
  assumes "length (enc (VTuple args)) + 8 < 2 ^ 32"
  shows "call_size act args = Inr (of_nat (length (call_bytes act args)))"
  using assms pack_size_enc [of "VTuple args"]
  by (simp add: call_size_def out_name_def out_primitive_def sz_write_def mk_size_stream_def sz_tellp_def
      del: enc_simps)

lemma pack_call_ok:
  assumes "unat p + unat sz < 2 ^ 32" "length (call_bytes act args) = unat sz" "unat sz < 2 ^ 31"
  shows "pack_call p sz act args c = Inr (set_mem (store_bytes (mem_of c) p (call_bytes act args)) c)"
proof -
  let ?ds = "mk_datastream p sz" and ?m = "mem_of c"
  have ok: "ds_out_ok ?ds" "ds_room ?ds = unat sz"
    using assms by (simp_all add: mk_datastream_out_ok mk_datastream_room)
  have w: "write_all ds_write ([le_bytes 8 (name_value act)] @ chunks (VTuple args)) (?m, ?ds) =
      Inr (buf_adv (call_bytes act args) (?m, ?ds))"
    using ws.write_all_ok [of "(?m, ?ds)" "[le_bytes 8 (name_value act)] @ chunks (VTuple args)"] ok assms(2)
    by (simp add: call_bytes_def enc_def)
  have "pack_call p sz act args c =
      rbind (write_all ds_write ([le_bytes 8 (name_value act)] @ chunks (VTuple args)) (?m, ?ds))
        (\<lambda>(m, ds). Inr (set_mem m c))"
    by (simp only: pack_call_def out_name_def out_primitive_def ser_chunks write_all_append
        write_all_single rbind_assoc)
  also have "\<dots> = Inr (set_mem (store_bytes ?m p (call_bytes act args)) c)"
    unfolding w by (simp add: buf_adv_def)
  finally show ?thesis .
qed

text \<open>Up to the host call: the buffer holds the packed action, and the host is untouched.\<close>

lemma call_prepared:
  assumes "stack_ok al c" "length (call_bytes act args) < 2 ^ 31"
  obtains (ok) sz p c1 where "call_size act args = Inr sz" "scratch al sz c = Inr (p, c1)"
      "pack_call p sz act args c1 = Inr (set_mem (store_bytes (mem_of c1) p (call_bytes act args)) c1)"
      "load_bytes (store_bytes (mem_of c1) p (call_bytes act args)) p (unat sz) = call_bytes act args"
      "host c1 = host c" "\<And>al'. stack_ok al' c \<Longrightarrow> stack_ok al' c1"
    | (none) sz where "call_size act args = Inr sz" "no_pages (scratch al sz c) (length (call_bytes act args))"
proof -
  let ?sz = "of_nat (length (call_bytes act args)) :: u32"
  have u: "unat ?sz = length (call_bytes act args)"
    by (rule unat_of_nat_u32) (use assms(2) in \<open>simp del: length_call_bytes\<close>)
  have sz: "call_size act args = Inr ?sz" by (rule call_size_ok) (use assms(2) in simp)
  from assms(1) show ?thesis
  proof (cases rule: scratch_cases [where sz = ?sz])
    case none
    with sz u show ?thesis by (intro that(2)) auto
  next
    case (ok p c1)
    have "load_bytes (store_bytes (mem_of c1) p (call_bytes act args)) p (unat ?sz) = call_bytes act args"
      unfolding u by (rule load_store_bytes) (use assms(2) in simp)
    with ok u assms(2) show ?thesis by (intro that(1) [OF sz ok(1) pack_call_ok]) simp_all
  qed
qed

section \<open>The receiving side\<close>

text \<open>The arguments in a list of bytes; bytes behind them are ignored.\<close>

definition decode_args :: "(ty \<Rightarrow> val \<Rightarrow> val \<Rightarrow> bool) \<Rightarrow> ty list \<Rightarrow> byte list \<Rightarrow> val list res" where
  "decode_args lt ts bs =
     rbind (deser lt list_stream (TTuple ts) (default_val (TTuple ts)) bs) (\<lambda>(v, _). Inr (elems v))"

lemma decode_args_enc:
  assumes "has_type lt (TTuple ts) (VTuple args)"
  shows "decode_args lt ts (enc (VTuple args) @ r) = Inr args"
  using deser_enc [OF assms fresh_default, of r] by (simp add: decode_args_def del: enc_simps deser.simps)

lemma action_args_decoded:
  assumes "list_all small ts" "unat p + n < 2 ^ 32" "load_bytes (mem_of c) p n = bs"
  shows "action_args lt ts p (of_nat n) c = decode_args lt ts bs"
proof -
  let ?ds = "mk_datastream p (of_nat n)" and ?q = "deser lt list_stream (TTuple ts) (default_val (TTuple ts))"
  have n: "unat (of_nat n :: u32) = n" using assms(2) by (simp add: unat_of_nat_mod)
  have ok: "ds_ok ?ds" "ds_left (mem_of c) ?ds = bs"
    using assms n by (simp_all add: mk_datastream_ok ds_left_prefix)
  have sim: "rs.simulates (mem_of c) (deser lt (mem_stream (mem_of c)) (TTuple ts) (default_val (TTuple ts))) ?q"
    by (rule rs.sim_deser) (use assms(1) in \<open>simp add: list_all_iff\<close>)
  show ?thesis
  proof (cases "?q bs")
    case (Inl e)
    with rs.simulates_Inl [OF sim ok(1)] ok(2) show ?thesis by (simp add: action_args_def decode_args_def del: deser.simps)
  next
    case (Inr r)
    obtain v rest where "r = (v, rest)" by (cases r)
    with rs.simulates_Inr [OF sim ok(1), unfolded ok(2)] Inr show ?thesis
      by (fastforce simp: action_args_def decode_args_def simp del: deser.simps)
  qed
qed

text \<open>Up to the handler: the arguments the list decoder finds in the data, in an unchanged host.\<close>

lemma action_received:
  assumes "api_laws api data result" "stack_ok al c" "list_all small ts"
  obtains (ok) buffer c1 where "action_buffer api al (action_data_size api c) c = Inr (buffer, c1)"
      "action_args lt ts buffer (action_data_size api c) c1 = decode_args lt ts (data (host c))"
      "host c1 = host c" "\<And>al'. stack_ok al' c \<Longrightarrow> stack_ok al' c1"
    | (none) "no_pages (action_buffer api al (action_data_size api c) c) (length (data (host c)))"
proof -
  let ?bs = "data (host c)" and ?sz = "action_data_size api c"
  have n: "length ?bs < 2 ^ 31" and sz: "?sz = of_nat (length ?bs)"
    and rd: "snd (api_read api (length ?bs) (host c)) = ?bs"
    using assms(1) by (simp_all add: api_laws_def action_data_size_def)
  have u: "unat ?sz = length ?bs" using n sz by (simp add: unat_of_nat_mod)
  show ?thesis
  proof (cases "?sz > 0")
    case False
    then have "?bs = []" using u by (metis length_0_conv unsigned_0 word_gt_0)
    with False show ?thesis
      using action_args_decoded [of ts 0 0 c "[]" lt] assms(3) sz
      by (intro that(1) [of 0 c]) (simp_all add: action_buffer_def)
  next
    case True
    from assms(2) show ?thesis
    proof (cases rule: scratch_cases [where sz = ?sz])
      case none
      with True u show ?thesis by (intro that(2)) (auto simp: action_buffer_def no_pages_def)
    next
      case (ok p c1)
      let ?c = "set_mem (store_bytes (mem_of c1) p ?bs) c1"
      have "action_buffer api al ?sz c = Inr (p, ?c)"
        using True ok(1,5) rd u by (auto simp: action_buffer_def read_action_data_def split: prod.splits)
      moreover have "load_bytes (mem_of ?c) p (length ?bs) = ?bs" using n by (simp add: load_store_bytes)
      ultimately show ?thesis
        using action_args_decoded [of ts p "length ?bs" ?c ?bs lt] assms(3) ok u sz
        by (intro that(1) [of p ?c]) simp_all
    qed
  qed
qed

text \<open>A host for the witnesses: the state is the data of the action and the last result.\<close>

definition wit_api :: "(byte list \<times> byte list) host_api" where
  "wit_api = \<lparr>api_data_size = (\<lambda>h. of_nat (length (take 64 (fst h)))),
     api_read = (\<lambda>n h. (of_nat (length (take 64 (fst h))), take n (take 64 (fst h)))),
     api_transfer = (\<lambda>a n h. h), api_amount = (\<lambda>h. 0),
     api_call = (\<lambda>a bs n sd ud h. (7, (fst h, drop 8 bs))),
     api_call_result = (\<lambda>n h. (of_nat (length (take 64 (snd h))), take n (take 64 (snd h)))),
     api_set_result = (\<lambda>bs h. (fst h, bs))\<rparr>"

lemma wit_api_laws: "api_laws wit_api (\<lambda>h. take 64 (fst h)) (\<lambda>h. take 64 (snd h))"
proof -
  have "length (take 64 bs) < 2 ^ 31" for bs :: "byte list" by simp
  then show ?thesis by (simp add: api_laws_def wit_api_def del: length_take take_take)
qed

lemma wit_api_call [simp]: "api_call wit_api a bs n sd ud h = (7, fst h, drop 8 bs)"
  and wit_api_set_result [simp]: "api_set_result wit_api bs h = (fst h, bs)"
  by (simp_all add: wit_api_def)

definition wit_contract :: "'h \<Rightarrow> 'h chain" where
  "wit_contract h = \<lparr>alloc = fst wit_state, inst = snd wit_state, host = h\<rparr>"

lemma wit_stack_ok: "stack_ok (\<lambda>_. 1024) (wit_contract h)"
  using wit_state_inv
  by (auto simp: stack_ok_def wit_contract_def wit_state_def heap_top_def max_stack_buffer_size_def word_le_nat_alt)

lemma wit_host [simp]: "host (wit_contract h) = h"
  by (simp add: wit_contract_def)

abbreviation wit_arg :: val where
  "wit_arg \<equiv> VUnsignedInt (unsigned_int 300)"

lemma wit_args: "decode_args wit_lt [TUnsignedInt] [172, 2] = Inr [wit_arg]"
  "has_type wit_lt (TTuple [TUnsignedInt]) (VTuple [wit_arg])" "enc (VTuple [wit_arg]) = [172, 2]"
proof -
  show t: "has_type wit_lt (TTuple [TUnsignedInt]) (VTuple [wit_arg])" by simp
  show e: "enc (VTuple [wit_arg]) = [172, 2]"
    by (simp add: unsigned_int_def vbytes.simps byte_of_def)
  show "decode_args wit_lt [TUnsignedInt] [172, 2] = Inr [wit_arg]"
    using decode_args_enc [OF t, of "[]"] unfolding e by simp
qed

section \<open>Properties\<close>

text \<open>C15: a handler without a result runs on exactly the arguments decoded from the data of the
  action, in an unchanged host; data that do not decode never reach it, and bytes behind the
  arguments are ignored. The only other outcome is that memory runs out before it starts.\<close>

theorem execute_action_void_runs_handler:
  assumes "api_laws api data result" "stack_ok al c" "list_all small ts"
  shows "(case decode_args lt ts (data (host c)) of
      Inl e \<Rightarrow> execute_action_void api al lt ts func c = Inl e
    | Inr args \<Rightarrow> \<exists>c1. host c1 = host c \<and> stack_ok al c1 \<and>
        execute_action_void api al lt ts func c = rbind (func args c1) (\<lambda>c. Inr (True, c))) \<or>
    no_pages (execute_action_void api al lt ts func c) (length (data (host c)))"
  using assms
proof (cases rule: action_received [where lt = lt])
  case none
  then show ?thesis by (auto simp: execute_action_void_def no_pages_def)
next
  case (ok buffer c1)
  with assms(2) show ?thesis
    by (cases "decode_args lt ts (data (host c))") (auto simp: execute_action_void_def intro!: exI [of _ c1])
qed

theorem execute_action_void_runs_handler_witness:
  "\<exists>c1. host c1 = ([172, 2], []) \<and>
    execute_action_void wit_api (\<lambda>_. 1024) wit_lt [TUnsignedInt]
      (\<lambda>args c. Inr (c\<lparr>host := ([], enc (VTuple args))\<rparr>)) (wit_contract ([172, 2], [])) =
    Inr (True, c1\<lparr>host := ([], [172, 2])\<rparr>)"
  using execute_action_void_runs_handler [OF wit_api_laws wit_stack_ok, of "[TUnsignedInt]" wit_lt
      "(\<lambda>args c. Inr (c\<lparr>host := ([], enc (VTuple args))\<rparr>))" "([172, 2], [])"]
  by (auto simp: wit_args no_pages_def simp del: enc_simps)

lemma return_result_ok:
  assumes "stack_ok al' c2" "length (enc rt) < 2 ^ 31"
  shows "(\<exists>c'. return_result api al' rt c2 = Inr c' \<and>
      host c' = (if enc rt = [] then host c2 else api_set_result api (enc rt) (host c2))) \<or>
    no_pages (return_result api al' rt c2) (length (enc rt))"
proof -
  let ?sz = "of_nat (length (enc rt)) :: u32"
  have u: "unat ?sz = length (enc rt)" by (rule unat_of_nat_u32) (use assms(2) in simp)
  have ps: "pack_size rt = Inr ?sz" by (rule pack_size_enc) (use assms(2) in simp)
  have pos: "?sz > 0 \<longleftrightarrow> enc rt \<noteq> []" using u by (metis length_0_conv unsigned_0 word_gt_0 unat_eq_zero)
  from assms(1) show ?thesis
  proof (cases rule: scratch_cases [where sz = ?sz])
    case none
    with ps pos u show ?thesis by (auto simp: return_result_def no_pages_def)
  next
    case sc: (ok p c3)
    have "pack_into p ?sz rt c3 = Inr (set_mem (store_bytes (mem_of c3) p (enc rt)) c3)"
      by (rule pack_into_ok) (use sc u assms(2) in simp_all)
    moreover have "load_bytes (store_bytes (mem_of c3) p (enc rt)) p (length (enc rt)) = enc rt"
      by (rule load_store_bytes) (use assms(2) in simp)
    ultimately show ?thesis using ps pos sc u by (simp add: return_result_def)
  qed
qed

text \<open>C16: a handler with a result runs on exactly the arguments decoded from the data of the action,
  in an unchanged host. The bytes the host keeps as the result of the action are then the packed
  result, unless it packs to nothing; data that do not decode never reach the handler, and its errors
  are those of the action. Data and result may be of any size; the only other outcome is that memory
  runs out, when one of them is longer than 512 bytes and goes through the heap.\<close>

theorem execute_action_returns_result:
  assumes "api_laws api data result" "stack_ok al c" "stack_ok al' c" "list_all small ts"
    and "\<forall>args c1 rt c2. decode_args lt ts (data (host c)) = Inr args \<and> func args c1 = Inr (rt, c2) \<and>
           stack_ok al' c1 \<longrightarrow> stack_ok al' c2 \<and> length (enc rt) < 2 ^ 31"
  shows "(case decode_args lt ts (data (host c)) of
      Inl e \<Rightarrow> execute_action api al al' lt ts func c = Inl e
    | Inr args \<Rightarrow> \<exists>c1. host c1 = host c \<and> stack_ok al c1 \<and> stack_ok al' c1 \<and>
        (case func args c1 of
           Inl e \<Rightarrow> execute_action api al al' lt ts func c = Inl e
         | Inr (rt, c2) \<Rightarrow>
             (\<exists>c'. execute_action api al al' lt ts func c = Inr (True, c') \<and>
                host c' = (if enc rt = [] then host c2 else api_set_result api (enc rt) (host c2))) \<or>
             no_pages (execute_action api al al' lt ts func c) (length (enc rt)))) \<or>
    no_pages (execute_action api al al' lt ts func c) (length (data (host c)))"
  using assms(1,2,4)
proof (cases rule: action_received [where lt = lt])
  case none
  then show ?thesis by (auto simp: execute_action_def no_pages_def)
next
  case (ok buffer c1)
  show ?thesis
  proof (cases "decode_args lt ts (data (host c))")
    case (Inl e)
    then show ?thesis using ok by (simp add: execute_action_def)
  next
    case (Inr args)
    have st: "stack_ok al c1" "stack_ok al' c1" using ok assms(2,3) by simp_all
    have "case func args c1 of
         Inl e \<Rightarrow> execute_action api al al' lt ts func c = Inl e
       | Inr (rt, c2) \<Rightarrow>
           (\<exists>c'. execute_action api al al' lt ts func c = Inr (True, c') \<and>
              host c' = (if enc rt = [] then host c2 else api_set_result api (enc rt) (host c2))) \<or>
           no_pages (execute_action api al al' lt ts func c) (length (enc rt))"
    proof (cases "func args c1")
      case Inl
      then show ?thesis using ok \<open>decode_args lt ts (data (host c)) = Inr args\<close> by (simp add: execute_action_def)
    next
      case f: (Inr r)
      obtain rt c2 where r: "r = (rt, c2)" by (cases r)
      have "stack_ok al' c2" "length (enc rt) < 2 ^ 31" using assms(5) Inr f [unfolded r] st(2) by blast+
      from return_result_ok [OF this, of api] show ?thesis
        using ok Inr f r by (auto simp: execute_action_def no_pages_def)
    qed
    with ok(3) st show ?thesis unfolding Inr sum.case by (intro disjI1 exI [of _ c1] conjI)
  qed
qed

theorem execute_action_returns_result_witness:
  "\<exists>c'. execute_action wit_api (\<lambda>_. 1024) (\<lambda>_. 1024) wit_lt [TUnsignedInt]
      (\<lambda>args c. Inr (hd args, c)) (wit_contract ([172, 2], [])) = Inr (True, c') \<and>
    host c' = ([172, 2], [172, 2])"
proof -
  have e: "enc wit_arg = [172, 2]" using wit_args(3) by simp
  have "\<forall>args c1 rt c2. decode_args wit_lt [TUnsignedInt] (take 64 (fst (host (wit_contract ([172, 2], []))))) = Inr args \<and>
      Inr (hd args, c1) = (Inr (rt, c2) :: (val \<times> (byte list \<times> byte list) chain) res) \<and>
      stack_ok (\<lambda>_. 1024) c1 \<longrightarrow> stack_ok (\<lambda>_. 1024) c2 \<and> length (enc rt) < 2 ^ 31"
    using e by (auto simp: wit_args(1) simp del: enc_simps)
  from execute_action_returns_result [OF wit_api_laws wit_stack_ok wit_stack_ok, where ts = "[TUnsignedInt]"
      and lt = wit_lt and func = "\<lambda>args c. Inr (hd args, c)", of "([172, 2], [])", OF _ this]
  show ?thesis by (auto simp add: wit_args e no_pages_def simp del: enc_simps)
qed

text \<open>C17: a call without a result reaches its handler. The bytes it hands to the host are the eight bytes of the
  action name and the packed arguments; a contract that receives the bytes behind the name as its
  action data runs the handler on exactly the arguments of the call. On both sides the only other
  outcome is that memory runs out, when the bytes are more than 512 and go through the heap.\<close>

theorem call_reaches_handler:
  assumes "stack_ok al c" "has_type lt (TTuple ts) (VTuple args)" "list_all small ts"
    and "length (enc (VTuple args)) + 8 < 2 ^ 31"
  shows "no_pages (action_call_void api al contract act amount sd ud args c) (length (enc (VTuple args)) + 8) \<or>
   (\<exists>bytes c'. action_call_void api al contract act amount sd ud args c =
      Inr (fst (api_call api (addr contract) bytes amount sd ud (host c)), c') \<and>
    host c' = snd (api_call api (addr contract) bytes amount sd ud (host c)) \<and>
    le_word (take 8 bytes) = name_value act \<and>
    (\<forall>api' data result al' c2 func.
       api_laws api' data result \<and> stack_ok al' c2 \<and> data (host c2) = drop 8 bytes \<longrightarrow>
       (\<exists>c3. host c3 = host c2 \<and> execute_action_void api' al' lt ts func (c2 :: 'g chain) =
          rbind (func args c3) (\<lambda>c. Inr (True, c))) \<or>
       no_pages (execute_action_void api' al' lt ts func c2) (length (enc (VTuple args)))))"
proof -
  let ?bs = "call_bytes act args"
  have n: "length ?bs < 2 ^ 31" using assms(4) by simp
  have dec: "decode_args lt ts (enc (VTuple args)) = Inr args"
    using decode_args_enc [OF assms(2), of "[]"] by simp
  have recv: "(\<exists>c3. host c3 = host c2 \<and> execute_action_void api' al' lt ts func (c2 :: 'g chain) =
      rbind (func args c3) (\<lambda>c. Inr (True, c))) \<or>
     no_pages (execute_action_void api' al' lt ts func c2) (length (enc (VTuple args)))"
    if a: "api_laws api' data result" "stack_ok al' c2" and d: "data (host c2) = enc (VTuple args)"
    for api' data result al' c2 func
    using a assms(3)
  proof (cases rule: action_received [where lt = lt])
    case none
    with d show ?thesis by (auto simp: execute_action_void_def no_pages_def)
  next
    case (ok buffer c3)
    with dec d show ?thesis by (auto simp: execute_action_void_def)
  qed
  from assms(1) n show ?thesis
  proof (cases rule: call_prepared)
    case none
    then show ?thesis by (auto simp: action_call_void_def no_pages_def add.commute)
  next
    case (ok sz p c1)
    let ?c = "set_mem (store_bytes (mem_of c1) p ?bs) c1"
    have "action_call_void api al contract act amount sd ud args c =
      Inr (fst (api_call api (addr contract) ?bs amount sd ud (host c)),
           ?c\<lparr>host := snd (api_call api (addr contract) ?bs amount sd ud (host c))\<rparr>)"
      using ok(1-5) by (simp add: action_call_void_def call_action_def split: prod.split)
    moreover have "le_word (take 8 ?bs) = name_value act" "drop 8 ?bs = enc (VTuple args)"
      by (simp_all add: call_bytes_def le_word_bytes del: enc_simps)
    ultimately show ?thesis using recv
      by (intro disjI2 exI [of _ ?bs] exI [of _ "?c\<lparr>host := snd (api_call api (addr contract) ?bs amount sd ud (host c))\<rparr>"])
        (simp del: enc_simps, blast)
  qed
qed

theorem call_reaches_handler_witness:
  "\<exists>bytes c'. action_call_void wit_api (\<lambda>_. 1024) address_zero \<lparr>name_value = 9\<rparr> 5 0 0 [wit_arg]
      (wit_contract ([], [])) = Inr (7, c') \<and> le_word (take 8 bytes) = (9 :: u64) \<and>
    (drop 8 bytes = [172, 2] \<longrightarrow> (\<exists>c3. host c3 = ([172, 2], []) \<and>
       execute_action_void wit_api (\<lambda>_. 1024) wit_lt [TUnsignedInt] (\<lambda>_ c. Inr c)
         (wit_contract ([172, 2], [])) = Inr (True, c3)))"
proof -
  from call_reaches_handler [OF wit_stack_ok wit_args(2), of wit_api address_zero "\<lparr>name_value = 9\<rparr>" 5 0 0 "([], [])"]
  obtain bytes c' where b: "action_call_void wit_api (\<lambda>_. 1024) address_zero \<lparr>name_value = 9\<rparr> 5 0 0 [wit_arg]
      (wit_contract ([], [])) = Inr (7, c')" "le_word (take 8 bytes) = (9 :: u64)"
    and r: "\<forall>api' data result al' c2 func. api_laws api' data result \<and> stack_ok al' c2 \<and>
      data (host c2) = drop 8 bytes \<longrightarrow> (\<exists>c3. host c3 = host c2 \<and>
        execute_action_void api' al' wit_lt [TUnsignedInt] func (c2 :: (byte list \<times> byte list) chain) =
        rbind (func [wit_arg] c3) (\<lambda>c. Inr (True, c)))"
    by (simp add: wit_args(3) no_pages_def del: enc_simps) blast
  have "\<exists>c3. host c3 = ([172, 2], []) \<and> execute_action_void wit_api (\<lambda>_. 1024) wit_lt [TUnsignedInt] (\<lambda>_ c. Inr c)
       (wit_contract ([172, 2], [])) = Inr (True, c3)" if "drop 8 bytes = [172, 2]"
    using r [THEN spec, of wit_api, THEN spec, of "\<lambda>h. take 64 (fst h)", THEN spec, of "\<lambda>h. take 64 (snd h)",
        THEN spec, of "\<lambda>_. 1024", THEN spec, of "wit_contract ([172, 2], [])", THEN spec, of "\<lambda>_ c. Inr c"]
      wit_api_laws wit_stack_ok [of "([172, 2], [] :: byte list)"] that by auto
  with b show ?thesis by blast
qed

text \<open>C28: a caller gets back the result of the call: when the host has kept the packed form of an
  object of the result type, that object is what \<open>*result\<close> holds afterwards; when the call left no
  result, \<open>*result\<close> keeps its value.\<close>

theorem action_call_result:
  assumes "api_laws api data result" "stack_ok al c" "stack_ok al' c" "length (enc (VTuple args)) + 8 \<le> 512"
    and "api_call api (addr contract) (call_bytes act args) amount sd ud (host c) = (ret, h)"
    and "has_type lt rt v" "small rt" "fresh rt d" "result h = [] \<or> result h = enc v" "length (enc v) \<le> 512"
  shows "\<exists>c'. action_call api al al' lt rt d contract act amount sd ud args c =
    Inr (ret, (if result h = [] then d else v), c') \<and> host c' = h"
proof -
  have n: "length (call_bytes act args) < 2 ^ 31" using assms(4) by simp
  from assms(2) n show ?thesis
  proof (cases rule: call_prepared)
    case none
    with assms(4) show ?thesis by (simp add: no_pages_def)
  next
    case (ok sz p c1)
    let ?m = "store_bytes (mem_of c1) p (call_bytes act args)"
    let ?c = "(set_mem ?m c1)\<lparr>host := h\<rparr>" and ?rs = "of_nat (length (result h)) :: u32"
    have call: "call_action api contract p sz amount sd ud (set_mem ?m c1) = (ret, ?c)"
      using ok(4,5) assms(5) by (simp add: call_action_def)
    have r: "fst (api_call_result api 0 h) = ?rs" "snd (api_call_result api (length (result h)) h) = result h"
      using assms(1) by (simp_all add: api_laws_def)
    have rl: "length (result h) \<le> 512" using assms(9,10) by auto
    have u: "unat ?rs = length (result h)" by (rule unat_of_nat_u32) (use rl in simp)
    have pos: "?rs > 0 \<longleftrightarrow> result h \<noteq> []" using u by (metis length_0_conv unsigned_0 word_gt_0 unat_eq_zero)
    have "\<exists>c'. take_result api al' lt rt d ?c = Inr ((if result h = [] then d else v), c') \<and> host c' = h"
    proof (cases "result h = []")
      case True
      then show ?thesis using r by (simp add: take_result_def)
    next
      case False
      with assms(9) have enc: "result h = enc v" by simp
      have "stack_ok al' ?c" using ok(6) assms(3) by simp
      then show ?thesis
      proof (cases rule: scratch_cases [where sz = ?rs])
        case none
        with u rl show ?thesis by (simp add: no_pages_def)
      next
        case sc: (ok q c2)
        have "deser lt (mem_stream (store_bytes (mem_of c2) q (enc v))) rt d (mk_datastream q ?rs) =
            Inr (v, ds_adv (length (result h)) (mk_datastream q ?rs))"
          by (rule deser_block [OF assms(6-8)]) (use sc(7) u enc assms(10) in simp_all)
        then show ?thesis using sc(1,5) r u enc False pos by (simp add: take_result_def Let_def)
      qed
    qed
    then show ?thesis using ok(1-3) call by (auto simp: action_call_def)
  qed
qed

theorem action_call_result_witness:
  "\<exists>c'. action_call wit_api (\<lambda>_. 1024) (\<lambda>_. 1024) wit_lt TUnsignedInt (VUnsignedInt (unsigned_int 0))
     address_zero \<lparr>name_value = 9\<rparr> 5 0 0 [wit_arg] (wit_contract ([], [])) = Inr (7, wit_arg, c')"
proof -
  have b: "drop 8 (call_bytes \<lparr>name_value = 9\<rparr> [wit_arg]) = [172, 2]"
    by (simp add: call_bytes_def wit_args(3) del: enc_simps)
  have e: "enc wit_arg = [172, 2]" using wit_args(3) by simp
  have "api_call wit_api (addr address_zero) (call_bytes \<lparr>name_value = 9\<rparr> [wit_arg]) 5 0 0 ([], []) = (7, ([], [172, 2]))"
    using b by simp
  from action_call_result [OF wit_api_laws wit_stack_ok wit_stack_ok, of "[wit_arg]" address_zero
      "\<lparr>name_value = 9\<rparr>" 5 0 0 "([], [])", unfolded wit_host, OF _ this, of wit_lt TUnsignedInt wit_arg
      "VUnsignedInt (unsigned_int 0)"]
  show ?thesis by (auto simp: wit_args(3) e simp del: enc_simps)
qed

text \<open>C18: the dispatcher is exact. When the compiler has accepted the names of the members and they
  are distinct, the value of a member's name runs that member and no other, and a value that prints
  as none of the names runs nothing and changes nothing.\<close>

theorem dispatch_exact:
  assumes "\<forall>n \<in> fst ` set members. validate_name n = Inr ()" "distinct (map fst members)"
  shows "(\<forall>(n, h) \<in> set members. \<exists>nm. name_of_string n = Inr nm \<and>
      apply_switch members (name_value nm) c = rbind (h c) (\<lambda>(_, c). Inr c)) \<and>
    (\<forall>v. to_string 64 \<lparr>name_value = v\<rparr> \<notin> fst ` set members \<longrightarrow> apply_switch members v c = Inr c)"
proof -
  have label: "case_label n v \<longleftrightarrow> n = decode v" if "n \<in> fst ` set members" for n v
  proof -
    have "normal_name n" using assms(1) that validated_normal by blast
    then show ?thesis using decode_normal [of n] encode_decode [of v]
      by (auto simp: case_label_def name_of_normal)
  qed
  have hit: "apply_switch members v c = rbind (h c) (\<lambda>(_, c). Inr c)"
    if "(decode v, h) \<in> set members" for v h
    using that label assms(2)
  proof (induction members)
    case (Cons m ms)
    then show ?case by (cases m) (force simp: image_iff)
  qed simp
  have miss: "apply_switch members v c = Inr c" if "decode v \<notin> fst ` set members" for v
    using that label by (induction members) force+
  have "\<exists>nm. name_of_string n = Inr nm \<and> apply_switch members (name_value nm) c = rbind (h c) (\<lambda>(_, c). Inr c)"
    if m: "(n, h) \<in> set members" for n h
  proof -
    have "normal_name n" using m assms(1) validated_normal by force
    then show ?thesis using hit [of "string_to_name n" h] m by (simp add: name_of_normal decode_normal)
  qed
  moreover have "to_string 64 \<lparr>name_value = v\<rparr> = decode v" for v
    using to_string_decode [of 64] by simp
  ultimately show ?thesis using miss by auto
qed

theorem dispatch_exact_witness:
  "\<exists>nm. name_of_string ''transfer'' = Inr nm \<and>
    apply_switch [(''issue'', \<lambda>_. Inl (Abort ''issue'')), (''transfer'', \<lambda>c. Inr (True, c))] (name_value nm)
      (wit_contract ()) = Inr (wit_contract ())"
proof -
  have "validate_name ''issue'' = Inr ()" "validate_name ''transfer'' = Inr ()" by code_simp+
  then show ?thesis
    using dispatch_exact [of "[(''issue'', \<lambda>_. Inl (Abort ''issue'')), (''transfer'', \<lambda>c. Inr (True, c))]"
      "wit_contract ()"] by auto
qed

end
