(* ===== verification/Events.thy ===== *)
theory Events
  imports ActionProperties
begin

text \<open>
  Hashes, logs and block data: \<open>crypto.hpp\<close>, \<open>log.hpp\<close> and \<open>system.hpp\<close> of
  \<open>libraries/ftllib/include/ftllib\<close>. The hash function and the log of the node are imported from
  the host and stand in the parameter \<open>host_env\<close>.
\<close>

record 'h host_env =
  env_sha256 :: "byte list \<Rightarrow> byte list"
  env_log_0 :: "byte list \<Rightarrow> byte list \<Rightarrow> 'h \<Rightarrow> 'h"
  env_log_1 :: "byte list \<Rightarrow> byte list \<Rightarrow> byte list \<Rightarrow> 'h \<Rightarrow> 'h"
  env_log_2 :: "byte list \<Rightarrow> byte list \<Rightarrow> byte list \<Rightarrow> byte list \<Rightarrow> 'h \<Rightarrow> 'h"
  env_time :: "'h \<Rightarrow> u64"
  env_height :: "'h \<Rightarrow> u64"
  env_block_hash :: "'h \<Rightarrow> byte list \<times> byte list"

section \<open>\<open>crypto.hpp\<close> and \<open>system.hpp\<close>\<close>

definition sha256 :: "'h host_env \<Rightarrow> u32 \<Rightarrow> u32 \<Rightarrow> u32 \<Rightarrow> 'h chain \<Rightarrow> 'h chain" where
  "sha256 env data len hptr c =
     set_mem (store_bytes (mem_of c) hptr (env_sha256 env (load_bytes (mem_of c) data (unat len)))) c"

text \<open>The host ends the execution when the hash differs.\<close>

definition assert_sha256 :: "'h host_env \<Rightarrow> u32 \<Rightarrow> u32 \<Rightarrow> u32 \<Rightarrow> 'h chain \<Rightarrow> unit res" where
  "assert_sha256 env data len hptr c =
     check (env_sha256 env (load_bytes (mem_of c) data (unat len)) = load_bytes (mem_of c) hptr 32) ''assert_sha256''"

text \<open>The host ends the execution of the contract without failing it; what would follow, the
  destructors included, does not run.\<close>

definition ftl_exit :: "u32 \<Rightarrow> 'a res" where
  "ftl_exit code = Inl (Exited code)"

definition current_block_time :: "'h host_env \<Rightarrow> 'h chain \<Rightarrow> u64" where
  "current_block_time env c = env_time env (host c)"

definition current_block_height :: "'h host_env \<Rightarrow> 'h chain \<Rightarrow> u64" where
  "current_block_height env c = env_height env (host c)"

definition current_block_hash :: "'h host_env \<Rightarrow> u32 \<Rightarrow> u32 \<Rightarrow> 'h chain \<Rightarrow> 'h chain" where
  "current_block_hash env simple_hash full_hash c =
     (let (s, f) = env_block_hash env (host c)
      in set_mem (store_bytes (store_bytes (mem_of c) simple_hash s) full_hash f) c)"

section \<open>\<open>log.hpp\<close>\<close>

definition chain_malloc :: "u32 \<Rightarrow> 'h chain \<Rightarrow> (u32 \<times> 'h chain) res" where
  "chain_malloc sz c = rbind (malloc sz (alloc c, inst c)) (\<lambda>(p, d, w). Inr (p, c\<lparr>alloc := d, inst := w\<rparr>))"

definition chain_free :: "u32 \<Rightarrow> 'h chain \<Rightarrow> 'h chain res" where
  "chain_free p c = rbind (free p (alloc c, inst c)) (\<lambda>(_, d, w). Inr (c\<lparr>alloc := d, inst := w\<rparr>))"

definition log_hash :: "'h host_env \<Rightarrow> (u32 \<Rightarrow> u32) \<Rightarrow> val \<Rightarrow> 'h chain \<Rightarrow> (u32 \<times> 'h chain) res" where
  "log_hash env al arg c =
     rbind (pack_size arg) (\<lambda>sz.
     rbind (scratch al sz c) (\<lambda>(buffer, c).
     rbind (pack_into buffer sz arg c) (\<lambda>c.
     rbind (chain_malloc 32 c) (\<lambda>(hptr, c).
     rbind (release buffer sz (sha256 env buffer sz hptr c)) (\<lambda>c. Inr (hptr, c))))))"

text \<open>\<open>checksum256 *hash_list[] = {log_hash(args)...};\<close> the elements are evaluated in order.\<close>

fun log_hashes :: "'h host_env \<Rightarrow> (u32 \<Rightarrow> u32) \<Rightarrow> val list \<Rightarrow> 'h chain \<Rightarrow> (u32 list \<times> 'h chain) res" where
  "log_hashes env al [] c = Inr ([], c)"
| "log_hashes env al (a # as) c =
     rbind (log_hash env al a c) (\<lambda>(h, c). rbind (log_hashes env al as c) (\<lambda>(hs, c). Inr (h # hs, c)))"

fun free_all :: "u32 list \<Rightarrow> 'h chain \<Rightarrow> 'h chain res" where
  "free_all [] c = Inr c"
| "free_all (p # ps) c = rbind (chain_free p c) (free_all ps)"

definition is_pointer_typename :: "bool list \<Rightarrow> bool" where
  "is_pointer_typename arr = fold (\<lambda>a ret. ret \<or> a) arr False"

definition log_host :: "'h host_env \<Rightarrow> u32 \<Rightarrow> u32 \<Rightarrow> u32 \<Rightarrow> u32 list \<Rightarrow> 'h chain \<Rightarrow> 'h chain" where
  "log_host env buffer sz hash_name hash_list c =
     (let data = load_bytes (mem_of c) buffer (unat sz);
          sum_at = (\<lambda>p. load_bytes (mem_of c) p 32);
          num = length hash_list
      in if num = 0 then c\<lparr>host := env_log_0 env data (sum_at hash_name) (host c)\<rparr>
         else if num = 1 then
           c\<lparr>host := env_log_1 env data (sum_at hash_name) (sum_at (hash_list ! 0)) (host c)\<rparr>
         else if num = 2 then
           c\<lparr>host := env_log_2 env data (sum_at hash_name) (sum_at (hash_list ! 0)) (sum_at (hash_list ! 1)) (host c)\<rparr>
         else c)"

definition log ::
    "'h host_env \<Rightarrow> (u32 \<Rightarrow> u32) \<Rightarrow> (u32 \<Rightarrow> u32) \<Rightarrow> byte list \<Rightarrow> val \<Rightarrow> val list \<Rightarrow> 'h chain \<Rightarrow> 'h chain res" where
  "log env al0 al nm data args c =
     rbind (pack_size data) (\<lambda>sz.
     rbind (scratch al0 sz c) (\<lambda>(buffer, c).
     rbind (pack_into buffer sz data c) (\<lambda>c.
     rbind (log_hash env al (VString nm) c) (\<lambda>(hash_name, c).
     rbind (log_hashes env al args c) (\<lambda>(hash_list, c).
       free_all (buffer # hash_name # hash_list) (log_host env buffer sz hash_name hash_list c))))))"

lemma free_all_ok [simp]: "free_all ps c = Inr c"
  by (induction ps) (simp_all add: chain_free_def free_def)

section \<open>What a log passes to the host\<close>

lemma apart_load:
  assumes "disjoint_blocks p (length bs) q k" "length bs \<le> 2 ^ 32" "k \<le> 2 ^ 32"
  shows "load_bytes (store_bytes m p bs) q k = load_bytes m q k"
  using assms by (intro load_store_disjoint) (simp_all add: disjoint_blocks_sym)

text \<open>A block is kept by an operation: it stays in use, apart from the stack, with its bytes.\<close>

definition keeps :: "(u32 \<Rightarrow> u32) \<Rightarrow> 'h chain \<Rightarrow> 'h chain \<Rightarrow> bool" where
  "keeps al c c' \<longleftrightarrow> host c' = host c \<and> (stack_ok al c \<longrightarrow> stack_ok al c') \<and>
     (\<forall>q k. apart al q k c \<longrightarrow> apart al q k c' \<and> load_bytes (mem_of c') q k = load_bytes (mem_of c) q k)"

lemma keeps_trans: "keeps al a b \<Longrightarrow> keeps al b c \<Longrightarrow> keeps al a c"
  by (simp add: keeps_def)

lemma keeps_refl: "keeps al c c"
  by (simp add: keeps_def)

lemma apart_bound: "apart al q k c \<Longrightarrow> stack_ok al c \<Longrightarrow> unat q + k < 2 ^ 32"
  using heap_end_bound by (fastforce simp: apart_def)

lemma chain_malloc_cases:
  assumes "stack_ok al c" "sz \<noteq> 0"
  obtains (ok) p c' where "chain_malloc sz c = Inr (p, c')" "keeps al c c'" "stack_ok al c'"
      "apart al p (unat sz) c'" "mem_of c' = mem_of c" "\<And>q k. apart al q k c \<Longrightarrow> disjoint_blocks p (unat sz) q k"
      "\<And>q k. unat q + k \<le> heap_end c \<Longrightarrow> disjoint_blocks p (unat sz) q k" "heap_end c \<le> heap_end c'"
    | (none) "chain_malloc sz c = Inl out_of_memory"
proof (cases "malloc sz (alloc c, inst c)")
  case (Inl e)
  then have "e = out_of_memory" using malloc_only_error assms(1) by (auto simp: stack_ok_def)
  with Inl show ?thesis by (intro none) (simp add: chain_malloc_def)
next
  case (Inr r)
  obtain p d w where r: "r = (p, d, w)" by (cases r)
  have inv: "heap_inv (alloc c, inst c)" using assms(1) by (simp add: stack_ok_def)
  note m = Inr [unfolded r]
  note f = ma.alloc_inv [OF inv assms(2) m] ma.alloc_at [OF inv assms(2) m] ma.alloc_top [OF inv assms(2) m]
    ma.alloc_bytes [OF inv assms(2) m] ma.alloc_below [OF inv assms(2) m]
  let ?c = "c\<lparr>alloc := d, inst := w\<rparr>"
  have st: "stack_ok al ?c" using assms(1) f(1,3) by (fastforce simp: stack_ok_def)
  show ?thesis
  proof (rule ok [of p ?c])
    show "chain_malloc sz c = Inr (p, ?c)" using m by (simp add: chain_malloc_def)
    show mem: "mem_of ?c = mem_of c" using f(4) by (simp add: mem_of_def)
    show "keeps al c ?c" using f(3) st mem by (auto simp: keeps_def apart_def)
    show "apart al p (unat sz) ?c"
      using assms(1) f(2,3) ma.top_bound [OF f(1)]
      by (fastforce simp: apart_def stack_ok_def intro!: disjoint_blocksI)
    show "disjoint_blocks p (unat sz) q k" if "apart al q k c" for q k
      using that f(5) by (simp add: apart_def)
  qed (use f st in auto)
qed

text \<open>Writing a new block, one that no block in use overlapped before.\<close>

lemma keeps_store:
  assumes "keeps al c c1" "stack_ok al c" "length bs \<le> 2 ^ 32"
    and "\<And>q k. apart al q k c \<Longrightarrow> disjoint_blocks p (length bs) q k"
  shows "keeps al c (set_mem (store_bytes (mem_of c1) p bs) c1)"
proof -
  have "load_bytes (store_bytes (mem_of c1) p bs) q k = load_bytes (mem_of c) q k" if "apart al q k c" for q k
    using that assms apart_bound [OF that assms(2)] apart_load [of p bs q k "mem_of c1"]
    by (simp add: keeps_def)
  then show ?thesis using assms(1) by (simp add: keeps_def)
qed

lemma scratch_keeps:
  assumes "stack_ok al0 c"
  obtains (ok) p c' where "scratch al0 sz c = Inr (p, c')" "\<And>al. keeps al c c'" "unat p + unat sz < 2 ^ 32"
      "mem_of c' = mem_of c" "\<And>q k. apart al0 q k c \<Longrightarrow> disjoint_blocks p (unat sz) q k"
      "\<And>al. stack_ok al c \<Longrightarrow> stacks_apart al0 al \<Longrightarrow> apart al p (unat sz) c'"
    | (none) "scratch al0 sz c = Inl out_of_memory"
  using assms
proof (cases rule: scratch_cases [where sz = sz])
  case none
  then show ?thesis by (intro that(2)) (simp add: no_pages_def)
next
  case (ok p c')
  then show ?thesis by (intro that(1) [of p c']) (auto simp: keeps_def)
qed

lemma log_hash_cases:
  assumes st: "stack_ok al c" and n: "length (enc arg) < 2 ^ 31" and sha: "\<And>bs. length (env_sha256 env bs) = 32"
  obtains (ok) p c' where "log_hash env al arg c = Inr (p, c')" "keeps al c c'" "apart al p 32 c'"
      "load_bytes (mem_of c') p 32 = env_sha256 env (enc arg)"
    | (none) "log_hash env al arg c = Inl out_of_memory"
proof -
  let ?sz = "of_nat (length (enc arg)) :: u32"
  have u: "unat ?sz = length (enc arg)" by (rule unat_of_nat_u32) (use n in simp)
  have ps: "pack_size arg = Inr ?sz" by (rule pack_size_enc) (use n in simp)
  from st show ?thesis
  proof (cases rule: scratch_keeps [where sz = ?sz])
    case none
    with ps show ?thesis by (intro that(2)) (simp add: log_hash_def)
  next
    case b: (ok buffer c1)
    let ?c2 = "set_mem (store_bytes (mem_of c1) buffer (enc arg)) c1"
    have pk: "pack_into buffer ?sz arg c1 = Inr ?c2"
      by (rule pack_into_ok) (use b(3) u n in simp_all)
    have k2: "keeps al c ?c2"
      by (rule keeps_store [OF b(2) st]) (use n b(5) u in simp_all)
    then have st2: "stack_ok al ?c2" using st by (simp add: keeps_def)
    have "(32 :: u32) \<noteq> 0" by simp
    with st2 show ?thesis
    proof (cases rule: chain_malloc_cases)
      case none
      with ps b(1) pk show ?thesis by (intro that(2)) (simp add: log_hash_def)
    next
      case m: (ok hptr c3)
      let ?h = "env_sha256 env (enc arg)"
      let ?c4 = "set_mem (store_bytes (mem_of c3) hptr ?h) c3"
      have ld: "load_bytes (mem_of c3) buffer (unat ?sz) = enc arg"
        using n u m(5) by simp
      have "log_hash env al arg c = Inr (hptr, ?c4)"
        using ps b(1) pk m(1) ld u by (simp add: log_hash_def sha256_def)
      moreover have "keeps al c ?c4"
        by (rule keeps_trans [OF k2 keeps_store [OF m(2) st2]]) (use m(6) sha in simp_all)
      moreover have "apart al hptr 32 ?c4" using m(4) by simp
      moreover have "load_bytes (mem_of ?c4) hptr 32 = ?h"
        using load_store_bytes [of ?h "mem_of c3" hptr] sha by simp
      ultimately show ?thesis by (rule that(1))
    qed
  qed
qed

lemma log_hashes_cases:
  assumes sha: "\<And>bs. length (env_sha256 env bs) = 32" and "stack_ok al c" "\<forall>a \<in> set args. length (enc a) < 2 ^ 31"
  shows "(\<exists>ps c'. log_hashes env al args c = Inr (ps, c') \<and> keeps al c c' \<and>
      list_all2 (\<lambda>p a. load_bytes (mem_of c') p 32 = env_sha256 env (enc a)) ps args) \<or>
    log_hashes env al args c = Inl out_of_memory"
  using assms(2,3)
proof (induction args arbitrary: c)
  case Nil
  then show ?case by (simp add: keeps_refl)
next
  case (Cons a as)
  have "length (enc a) < 2 ^ 31" using Cons.prems(2) by simp
  from Cons.prems(1) this sha show ?case
  proof (cases rule: log_hash_cases)
    case none
    then show ?thesis by simp
  next
    case (ok p c1)
    then have "stack_ok al c1" using Cons.prems(1) by (simp add: keeps_def)
    from Cons.IH [OF this] Cons.prems(2) consider (none) "log_hashes env al as c1 = Inl out_of_memory"
      | (hs) ps c' where "log_hashes env al as c1 = Inr (ps, c')" "keeps al c1 c'"
          "list_all2 (\<lambda>p a. load_bytes (mem_of c') p 32 = env_sha256 env (enc a)) ps as"
      by auto
    then show ?thesis
    proof cases
      case none
      with ok(1) show ?thesis by simp
    next
      case hs
      have "load_bytes (mem_of c') p 32 = env_sha256 env (enc a)"
        using hs(2) ok(3,4) by (simp add: keeps_def)
      then show ?thesis using ok(1,2) hs keeps_trans [of al c c1 c'] by simp
    qed
  qed
qed

section \<open>Properties\<close>

text \<open>C19: a log with at most two indexed arguments reaches the node with the packed data and the
  hashes of the packed name and arguments; with three or more the call does all the work and the
  node receives nothing.\<close>

theorem log_event:
  assumes sha: "\<And>bs. length (env_sha256 env bs) = 32"
    and st: "stack_ok al0 c" "stack_ok al c" "stacks_apart al0 al"
    and n: "length (enc data) < 2 ^ 31" "\<forall>a \<in> set (VString nm # args). length (enc a) < 2 ^ 31"
  shows "log env al0 al nm data args c = Inl out_of_memory \<or>
    (\<exists>c'. log env al0 al nm data args c = Inr c' \<and>
       host c' = (case map (\<lambda>a. env_sha256 env (enc a)) (VString nm # args) of
           [h] \<Rightarrow> env_log_0 env (enc data) h (host c)
         | [h, a] \<Rightarrow> env_log_1 env (enc data) h a (host c)
         | [h, a, b] \<Rightarrow> env_log_2 env (enc data) h a b (host c)
         | _ \<Rightarrow> host c))"
proof -
  let ?sz = "of_nat (length (enc data)) :: u32"
  have u: "unat ?sz = length (enc data)" by (rule unat_of_nat_u32) (use n in simp)
  have ps: "pack_size data = Inr ?sz" by (rule pack_size_enc) (use n in simp)
  from st(1) show ?thesis
  proof (cases rule: scratch_keeps [where sz = ?sz])
    case none
    with ps show ?thesis by (simp add: log_def)
  next
    case b: (ok buffer c1)
    let ?c2 = "set_mem (store_bytes (mem_of c1) buffer (enc data)) c1"
    have pk: "pack_into buffer ?sz data c1 = Inr ?c2"
      by (rule pack_into_ok) (use b(3) u n in simp_all)
    have st2: "stack_ok al ?c2" using st(2) b(2) [of al] by (simp add: keeps_def)
    have ap: "apart al buffer (unat ?sz) ?c2" using b(6) [OF st(2,3)] by simp
    have "length (enc (VString nm)) < 2 ^ 31" using n(2) by simp
    from st2 this sha show ?thesis
    proof (cases rule: log_hash_cases)
      case none
      with ps b(1) pk show ?thesis by (simp add: log_def)
    next
      case h: (ok hn c3)
      then have "stack_ok al c3" using st2 by (simp add: keeps_def)
      from log_hashes_cases [OF sha this, of args] n(2)
      consider (none) "log_hashes env al args c3 = Inl out_of_memory"
        | (hs) hl c4 where "log_hashes env al args c3 = Inr (hl, c4)" "keeps al c3 c4"
            "list_all2 (\<lambda>p a. load_bytes (mem_of c4) p 32 = env_sha256 env (enc a)) hl args"
        by auto
      then show ?thesis
      proof cases
        case none
        with ps b(1) pk h(1) show ?thesis by (simp add: log_def)
      next
        case hs
        have "load_bytes (mem_of c4) hn 32 = env_sha256 env (enc (VString nm))"
          using hs(2) h(3,4) by (simp add: keeps_def)
        moreover have "load_bytes (mem_of c4) buffer (length (enc data)) = enc data"
          using keeps_trans [OF h(2) hs(2)] ap u n(1) by (simp add: keeps_def)
        moreover have "host c4 = host c"
          using keeps_trans [OF h(2) hs(2)] b(2) [of al] by (simp add: keeps_def)
        ultimately have "host (log_host env buffer ?sz hn hl c4) =
            (case map (\<lambda>a. env_sha256 env (enc a)) (VString nm # args) of
               [h] \<Rightarrow> env_log_0 env (enc data) h (host c)
             | [h, a] \<Rightarrow> env_log_1 env (enc data) h a (host c)
             | [h, a, b] \<Rightarrow> env_log_2 env (enc data) h a b (host c)
             | _ \<Rightarrow> host c)"
          using hs(3) u by (auto simp: log_host_def Let_def list_all2_Cons2 simp del: enc_simps split: list.split)
        then show ?thesis using ps b(1) pk h(1) hs(1) by (simp add: log_def)
      qed
    qed
  qed
qed

definition wit_env :: "nat list host_env" where
  "wit_env = \<lparr>env_sha256 = (\<lambda>bs. take 32 (bs @ replicate 32 0)),
     env_log_0 = (\<lambda>d n h. 0 # h), env_log_1 = (\<lambda>d n a h. 1 # h), env_log_2 = (\<lambda>d n a b h. 2 # h),
     env_time = (\<lambda>h. 0), env_height = (\<lambda>h. 0), env_block_hash = (\<lambda>h. ([], []))\<rparr>"

lemma wit_stacks: "stack_ok (\<lambda>_. 2048) (wit_contract h)" "stacks_apart (\<lambda>_. 1024) (\<lambda>_. 2048)"
proof -
  show "stack_ok (\<lambda>_. 2048) (wit_contract h)" using wit_state_inv
    by (auto simp: stack_ok_def wit_contract_def wit_state_def heap_top_def max_stack_buffer_size_def word_le_nat_alt)
  show "stacks_apart (\<lambda>_. 1024) (\<lambda>_. 2048)"
    by (auto simp: stacks_apart_def max_stack_buffer_size_def word_le_nat_alt intro!: disjoint_blocksI)
qed

theorem log_event_witness:
  "log wit_env (\<lambda>_. 1024) (\<lambda>_. 2048) [104, 105] wit_arg [wit_arg, wit_arg, wit_arg] (wit_contract []) =
     Inl out_of_memory \<or>
   (\<exists>c'. log wit_env (\<lambda>_. 1024) (\<lambda>_. 2048) [104, 105] wit_arg [wit_arg, wit_arg, wit_arg] (wit_contract []) =
     Inr c' \<and> host c' = [])"
proof -
  have e: "length (enc wit_arg) < 2 ^ 31" "length (enc (VString [104, 105])) < 2 ^ 31"
    using wit_args(3) by (simp_all add: size_bytes_def)
  have "length (env_sha256 wit_env bs) = 32" for bs by (simp add: wit_env_def)
  from log_event [of wit_env "\<lambda>_. 1024" "wit_contract []" "\<lambda>_. 2048" wit_arg "[104, 105]" "[wit_arg, wit_arg, wit_arg]",
      OF this wit_stack_ok wit_stacks e(1)]
  show ?thesis using e by (simp del: enc_simps)
qed

end
