(* ===== verification/Abitypes.thy ===== *)
theory Abitypes
  imports Names "HOL-Library.List_Lexorder"
begin

text \<open>
  How the ABI generator names types: \<open>tools/fractal-tools/include/ftl/gen.hpp\<close>. The syntax tree is
  clang's; of it the model has what the generator asks for: the sugar of a type, its spelling
  (\<open>getAsString\<close>), the arguments of a specialisation, and of a declaration its name, bases, fields
  and attributes.
\<close>

section \<open>Types and declarations as clang has them\<close>

text \<open>
  Every node carries its spelling. \<open>Qual\<close> stands for the qualifiers of a \<open>QualType\<close>, which
  \<open>getTypePtr\<close> ignores; \<open>TemplateT\<close> has the name of the template, its arguments and the type it
  desugars to (for a class template the record of the instance); a record is given by the number of
  its declaration. Everything else is \<open>Plain\<close>.
\<close>

datatype qtype =
    Plain string
  | RecordT string nat
  | TypedefT string qtype
  | TemplateT string string "targ list" qtype
  | ElabT string qtype
  | RefT string qtype
  | Qual string qtype
and targ = TypeArg qtype | ExprArg nat

record cxx_record =
  rec_name :: string
  rec_ignore :: bool
  rec_bases :: "qtype list"
  rec_fields :: "(string \<times> qtype) list"
  rec_action :: "string option"
  rec_table :: bool
  rec_contract :: "string option"
  rec_parent :: "nat option"

type_synonym decls = "nat \<Rightarrow> cxx_record"

fun spelling :: "qtype \<Rightarrow> string" where
  "spelling (Plain s) = s"
| "spelling (RecordT s d) = s"
| "spelling (TypedefT s u) = s"
| "spelling (TemplateT s n args u) = s"
| "spelling (ElabT s u) = s"
| "spelling (RefT s u) = s"
| "spelling (Qual s u) = s"

fun type_ptr :: "qtype \<Rightarrow> qtype" where
  "type_ptr (Qual s t) = type_ptr t"
| "type_ptr t = t"

text \<open>\<open>getAsCXXRecordDecl\<close>, \<open>isRecordType\<close> and \<open>getNonReferenceType\<close> look through all sugar.\<close>

fun as_record :: "qtype \<Rightarrow> nat option" where
  "as_record (Plain s) = None"
| "as_record (RecordT s d) = Some d"
| "as_record (TypedefT s u) = as_record u"
| "as_record (TemplateT s n args u) = as_record u"
| "as_record (ElabT s u) = as_record u"
| "as_record (RefT s u) = None"
| "as_record (Qual s u) = as_record u"

fun referee :: "qtype \<Rightarrow> qtype option" where
  "referee (RefT s u) = Some u"
| "referee (TypedefT s u) = referee u"
| "referee (TemplateT s n args u) = referee u"
| "referee (ElabT s u) = referee u"
| "referee (Qual s u) = referee u"
| "referee t = None"

definition non_reference :: "qtype \<Rightarrow> qtype" where
  "non_reference t = (case referee t of Some u \<Rightarrow> u | None \<Rightarrow> t)"

fun has_qualifiers :: "qtype \<Rightarrow> bool" where
  "has_qualifiers (Qual s u) = True"
| "has_qualifiers (TypedefT s u) = has_qualifiers u"
| "has_qualifiers (TemplateT s n args u) = has_qualifiers u"
| "has_qualifiers (ElabT s u) = has_qualifiers u"
| "has_qualifiers t = False"

fun unqualified :: "qtype \<Rightarrow> qtype" where
  "unqualified (Qual s u) = unqualified u"
| "unqualified (TypedefT s u) = (if has_qualifiers u then unqualified u else TypedefT s u)"
| "unqualified (TemplateT s n args u) = (if has_qualifiers u then unqualified u else TemplateT s n args u)"
| "unqualified (ElabT s u) = (if has_qualifiers u then unqualified u else ElabT s u)"
| "unqualified t = t"

text \<open>The specialisation a type is, at the surface or below one \<open>ElaboratedType\<close>: its template, its
  arguments and what it desugars to.\<close>

fun dyn_tst :: "qtype \<Rightarrow> (string \<times> targ list \<times> qtype) option" where
  "dyn_tst (TemplateT s n args u) = Some (n, args, u)"
| "dyn_tst t = None"

fun tst :: "qtype \<Rightarrow> (string \<times> targ list \<times> qtype) option" where
  "tst (ElabT s u) = dyn_tst (type_ptr u)"
| "tst (Qual s t) = tst t"
| "tst t = dyn_tst t"

fun dyn_record :: "qtype \<Rightarrow> nat option" where
  "dyn_record (RecordT s d) = Some d"
| "dyn_record (Qual s t) = dyn_record t"
| "dyn_record t = None"

definition num_args :: "qtype \<Rightarrow> nat" where
  "num_args t = (case tst t of Some (n, args, u) \<Rightarrow> length args | None \<Rightarrow> 0)"

section \<open>\<open>generation_utils\<close>\<close>

text \<open>\<open>error_handler\<close> of the generator throws; an assertion of clang that fails is undefined.\<close>

definition abigen_exception :: err where
  "abigen_exception = Abort ''fractal-abigen fatal error''"

definition get_arg :: "targ list \<Rightarrow> nat \<Rightarrow> qtype res" where
  "get_arg args i =
     (if i < length args
      then (case args ! i of TypeArg t \<Rightarrow> Inr t | ExprArg n \<Rightarrow> Inl (UB ''getAsType''))
      else Inl (UB ''getArg''))"

definition is_ignorable :: "decls \<Rightarrow> qtype \<Rightarrow> bool" where
  "is_ignorable ds t =
     (case tst t of
        Some (n, args, u) \<Rightarrow> (case dyn_record u of Some d \<Rightarrow> rec_ignore (ds d) | None \<Rightarrow> False)
      | None \<Rightarrow> False)"

definition get_ignored_type :: "decls \<Rightarrow> qtype \<Rightarrow> qtype res" where
  "get_ignored_type ds t =
     (if \<not> is_ignorable ds t then Inr t
      else (case tst t of
              Some (n, args, u) \<Rightarrow>
                (case dyn_record u of
                   Some d \<Rightarrow> if rec_ignore (ds d) then get_arg args 0 else Inr t
                 | None \<Rightarrow> Inr t)
            | None \<Rightarrow> Inr t))"

definition is_template_specialization :: "decls \<Rightarrow> qtype \<Rightarrow> string list \<Rightarrow> bool" where
  "is_template_specialization ds t names =
     (case tst t of
        Some (n, args, u) \<Rightarrow>
          (case dyn_record u of Some d \<Rightarrow> names = [] \<or> rec_name (ds d) \<in> set names | None \<Rightarrow> False)
      | None \<Rightarrow> False)"

definition get_template_argument :: "qtype \<Rightarrow> nat \<Rightarrow> qtype res" where
  "get_template_argument t i =
     (case tst t of Some (n, args, u) \<Rightarrow> get_arg args i | None \<Rightarrow> Inl abigen_exception)"

text \<open>The last component of a qualified name; the words before \<open>long\<close> and \<open>int\<close> stay with it.\<close>

definition valid_prefixs :: "string list" where
  "valid_prefixs = [''long'', ''signed'', ''unsigned'']"

definition prefix_at :: "string \<Rightarrow> nat \<Rightarrow> string \<Rightarrow> bool" where
  "prefix_at str i s =
     (length s \<le> i \<and> take (length s) (drop (i - length s) str) = s \<and>
      (i - length s = 0 \<or> str ! (i - length s - 1) = CHR '' ''))"

function base_name_loop :: "string \<Rightarrow> nat \<Rightarrow> int \<Rightarrow> string" where
  "base_name_loop str i nested =
     (if i = 0 then str
      else
        let nested = (if str ! i = CHR ''>'' then nested + 1 else nested);
            nested = (if str ! i = CHR ''<'' then nested - 1 else nested)
        in if str ! i = CHR '':'' \<and> nested = 0 then drop (i + 1) str
           else if str ! i = CHR '' '' \<and> nested = 0 then
             (case find (prefix_at str i) valid_prefixs of
                Some s \<Rightarrow> base_name_loop str (i - length s - 1) nested
              | None \<Rightarrow> drop (i + 1) str)
           else base_name_loop str (i - 1) nested)"
  by pat_completeness auto
termination by (relation "measure (\<lambda>(str, i, nested). i)") auto

declare base_name_loop.simps [simp del]

definition get_base_type_name_str :: "string \<Rightarrow> string" where
  "get_base_type_name_str type_str = base_name_loop type_str (length type_str - 1) 0"

definition get_base_type_name :: "qtype \<Rightarrow> string" where
  "get_base_type_name t = get_base_type_name_str (spelling (non_reference t))"

definition translation_table :: "(string \<times> string) list" where
  "translation_table =
     [(''unsigned long long'', ''uint64''), (''long long'', ''int64''),
      (''uint64_t'', ''uint64''), (''int64_t'', ''int64''),
      (''unsigned long'', ''uint32''), (''long'', ''int32''),
      (''unsigned int'', ''uint32''), (''int'', ''int32''),
      (''uint32_t'', ''uint32''), (''int32_t'', ''int32''),
      (''unsigned short'', ''uint16''), (''short'', ''int16''),
      (''uint16_t'', ''uint16''), (''int16_t'', ''int16''),
      (''unsigned char'', ''uint8''), (''signed char'', ''int8''), (''char'', ''int8''),
      (''uint8_t'', ''uint8''), (''int8_t'', ''int8''), (''_Bool'', ''bool''),
      (''unsigned_int'', ''varuint32''),
      (''capi_name'', ''name''), (''capi_public_key'', ''public_key''),
      (''capi_signature'', ''signature''), (''capi_checksum256'', ''checksum256'')]"

definition translate_type_str :: "string \<Rightarrow> string" where
  "translate_type_str t = (case map_of translation_table t of Some ret \<Rightarrow> ret | None \<Rightarrow> t)"

definition translate_base_type :: "qtype \<Rightarrow> string" where
  "translate_base_type t = translate_type_str (get_base_type_name_str (spelling (non_reference t)))"

definition replace_in_name :: "string \<Rightarrow> string" where
  "replace_in_name name =
     map (\<lambda>c. if c \<in> {CHR ''<'', CHR ''>'', CHR '','', CHR '' '', CHR '':''} then CHR ''_'' else c) name"

text \<open>\<open>get_template_argument\<close> returns a type, of which \<open>get_template_name\<close> asks \<open>getAsExpr\<close>.\<close>

definition get_template_name :: "qtype \<Rightarrow> string res" where
  "get_template_name t =
     (case tst t of
        None \<Rightarrow> Inl (UB ''tst'')
      | Some (n, args, u) \<Rightarrow>
          if args = [] then Inr (translate_type_str (replace_in_name (n @ ''_'')))
          else rbind (get_template_argument t 0) (\<lambda>arg. Inl (UB ''getAsExpr'')))"

text \<open>\<open>translate_type\<close>; its loops over the arguments are the two that follow it. The argument of an
  expression does not come back from \<open>get_template_argument\<close>, so every argument is a type there.\<close>

lemma size_arg: "i < length args \<Longrightarrow> args ! i = TypeArg t \<Longrightarrow> size t < size_list size args"
proof -
  assume "i < length args" "args ! i = TypeArg t"
  then have "TypeArg t \<in> set args" by (metis nth_mem)
  then have "size (TypeArg t) \<le> size_list size args" by (rule size_list_estimation') simp
  then show ?thesis by simp
qed

lemma size_dyn_tst: "dyn_tst t = Some (n, args, u) \<Longrightarrow> size_list size args < size t"
  by (cases t) auto

lemma size_tst: "tst t = Some (n, args, u) \<Longrightarrow> size_list size args < size t"
proof (induction t rule: tst.induct)
  case (1 s u)
  have "size (type_ptr u) \<le> size u" by (induction u rule: type_ptr.induct) auto
  with 1 show ?case by (auto dest!: size_dyn_tst)
qed (auto dest: size_dyn_tst)

lemma size_get_template_argument: "get_template_argument t i = Inr a \<Longrightarrow> size a < size t"
  by (auto simp: get_template_argument_def get_arg_def split: option.splits if_splits targ.splits
      dest!: size_tst size_arg)

definition suffixed :: "string \<Rightarrow> nat \<Rightarrow> nat \<Rightarrow> string" where
  "suffixed s i n = s @ (if i < n - 1 then ''_'' else [])"

fun tuple_names :: "qtype \<Rightarrow> nat \<Rightarrow> nat \<Rightarrow> string \<Rightarrow> string res" where
  "tuple_names t 0 i ret = Inr ret"
| "tuple_names t (Suc k) i ret =
     rbind (get_template_argument t i) (\<lambda>a.
       tuple_names t k (i + 1) (ret @ suffixed (translate_base_type a) i (num_args t)))"

function translate_type :: "decls \<Rightarrow> qtype \<Rightarrow> string res"
  and template_names :: "decls \<Rightarrow> qtype \<Rightarrow> nat \<Rightarrow> nat \<Rightarrow> string \<Rightarrow> string res" where
  "translate_type ds t =
     (if is_template_specialization ds t [''ignore''] then
        rbind (get_template_argument t 0) (\<lambda>a. translate_type ds a)
      else if is_template_specialization ds t [''binary_extension''] then
        rbind (get_template_argument t 0) (\<lambda>a. rbind (translate_type ds a) (\<lambda>s. Inr (s @ ''$'')))
      else if is_template_specialization ds t [''vector'', ''set'', ''deque'', ''list''] then
        rbind (get_template_argument t 0) (\<lambda>a. rbind (translate_type ds a) (\<lambda>s.
          Inr (if s = ''int8'' then ''bytes'' else s @ ''[]'')))
      else if is_template_specialization ds t [''optional''] then
        rbind (get_template_argument t 0) (\<lambda>a. rbind (translate_type ds a) (\<lambda>s. Inr (s @ ''?'')))
      else if is_template_specialization ds t [''map''] then
        rbind (get_template_argument t 0) (\<lambda>a. rbind (translate_type ds a) (\<lambda>t0.
        rbind (get_template_argument t 1) (\<lambda>a. rbind (translate_type ds a) (\<lambda>t1.
          Inr (replace_in_name (''pair_'' @ t0 @ ''_'' @ t1 @ ''[]''))))))
      else if is_template_specialization ds t [''pair''] then
        rbind (get_template_argument t 0) (\<lambda>a. rbind (translate_type ds a) (\<lambda>t0.
        rbind (get_template_argument t 1) (\<lambda>a. rbind (translate_type ds a) (\<lambda>t1.
          Inr (replace_in_name (''pair_'' @ t0 @ ''_'' @ t1))))))
      else if is_template_specialization ds t [''tuple''] then
        rbind (tuple_names t (num_args t) 0 ''tuple_'') (\<lambda>ret. Inr (replace_in_name ret))
      else if is_template_specialization ds t [] then
        (case tst t of
           Some (n, args, u) \<Rightarrow>
             rbind (template_names ds t (num_args t) 0 (n @ ''_'')) (\<lambda>ret.
               Inr (translate_type_str (replace_in_name ret)))
         | None \<Rightarrow> Inl (UB ''tst''))
      else Inr (translate_base_type t))"
| "template_names ds t 0 i ret = Inr ret"
| "template_names ds t (Suc k) i ret =
     rbind (get_template_argument t i) (\<lambda>a. rbind (translate_type ds a) (\<lambda>s.
       template_names ds t k (i + 1) (ret @ suffixed s i (num_args t))))"
  by pat_completeness auto
termination
  by (relation "measures [\<lambda>x. case x of Inl (ds, t) \<Rightarrow> size t | Inr (ds, t, k, i, ret) \<Rightarrow> size t,
       \<lambda>x. case x of Inl (ds, t) \<Rightarrow> Suc (num_args t) | Inr (ds, t, k, i, ret) \<Rightarrow> k]")
     (auto dest: size_get_template_argument)

declare translate_type.simps [simp del]

definition builtins :: "string list" where
  "builtins = [''bool'', ''int8'', ''uint8'', ''int16'', ''uint16'', ''int32'', ''uint32'', ''int64'', ''uint64'',
     ''varuint32'', ''name'', ''bytes'', ''string'', ''address'', ''checksum256'', ''public_key'', ''signature'']"

definition is_builtin_type_str :: "string \<Rightarrow> bool" where
  "is_builtin_type_str t \<longleftrightarrow> translate_type_str t \<in> set builtins"

definition is_builtin_type :: "decls \<Rightarrow> qtype \<Rightarrow> bool res" where
  "is_builtin_type ds t = rbind (translate_type ds t) (\<lambda>nt. Inr (is_builtin_type_str nt))"

definition get_type :: "decls \<Rightarrow> qtype \<Rightarrow> string res" where
  "get_type ds t = rbind (get_ignored_type ds t) (translate_type ds)"

definition get_type_alias :: "qtype \<Rightarrow> qtype option" where
  "get_type_alias t = (case type_ptr t of TypedefT s u \<Rightarrow> Some u | _ \<Rightarrow> None)"

definition get_type_alias_string :: "decls \<Rightarrow> qtype \<Rightarrow> string res" where
  "get_type_alias_string ds t =
     (case type_ptr t of TypedefT s u \<Rightarrow> get_type ds u | _ \<Rightarrow> get_type ds t)"

definition is_aliasing :: "decls \<Rightarrow> qtype \<Rightarrow> bool res" where
  "is_aliasing ds t =
     rbind (is_builtin_type ds t) (\<lambda>b.
       if b then Inr False
       else if CHR ''<'' \<in> set (get_base_type_name t) then Inr False
       else rbind (get_type_alias_string ds t) (\<lambda>alias. Inr (get_base_type_name t \<noteq> alias)))"

section \<open>Which names a declaration goes by\<close>

record cxx_method =
  m_name :: string
  m_action :: "string option"
  m_contract :: "string option"
  m_parent :: nat
  m_params :: "(string \<times> qtype) list"

text \<open>\<open>getFtlActionAttr()\<close> of a declaration without the attribute is a null pointer.\<close>

definition get_action_name :: "string option \<Rightarrow> string \<Rightarrow> string res" where
  "get_action_name attr decl_name =
     (case attr of
        None \<Rightarrow> Inl (UB ''getFtlActionAttr'')
      | Some tmp \<Rightarrow> Inr (if tmp \<noteq> [] then tmp else decl_name))"

definition is_ftl_contract_method :: "decls \<Rightarrow> cxx_method \<Rightarrow> string \<Rightarrow> bool" where
  "is_ftl_contract_method ds decl cn =
     (let parent = ds (m_parent decl);
          name = (case m_contract decl of
                    Some n \<Rightarrow> n
                  | None \<Rightarrow> (case rec_contract parent of Some n \<Rightarrow> n | None \<Rightarrow> []));
          name = (if name = [] then rec_name parent else name)
      in name = cn)"

definition is_ftl_contract_record :: "decls \<Rightarrow> cxx_record \<Rightarrow> string \<Rightarrow> bool" where
  "is_ftl_contract_record ds decl cn =
     (let name = (case rec_contract decl of
                    Some nm \<Rightarrow> if nm = [] then rec_name decl else nm
                  | None \<Rightarrow>
                      (case rec_parent decl of
                         Some p \<Rightarrow> (case rec_contract (ds p) of
                                     Some nm \<Rightarrow> if nm = [] then rec_name (ds p) else nm
                                   | None \<Rightarrow> [])
                       | None \<Rightarrow> []))
      in cn = name)"

end
