(* ===== verification/Abigen.thy ===== *)
theory Abigen
  imports Abitypes Serialize
begin

text \<open>
  The ABI generator of the compiler driver: \<open>tools/fractal-tools/include/ftl/abi.hpp\<close>,
  \<open>ftl/abigen.hpp\<close> and the matchers of \<open>cc/fractal-cpp.cpp.in\<close>. The generator is the state, an
  \<open>abi\<close> that operations return extended. \<open>add_type\<close> and \<open>add_struct\<close> call each other along the
  declarations of the contract, which need not end; they take fuel, and \<open>None\<close> says that it ran out.
\<close>

section \<open>\<open>abi.hpp\<close>\<close>

record abi_typedef =
  new_type_name :: string
  td_type :: string

record abi_field =
  f_name :: string
  f_type :: string

record abi_struct =
  s_name :: string
  s_base :: string
  s_fields :: "abi_field list"

record abi_action =
  a_name :: string
  a_type :: string

record abi_table =
  t_name :: string
  key_type :: string
  value_type :: string

text \<open>A \<open>std::set\<close> is the list of its elements in order; the elements compare by name.\<close>

record abi =
  structs :: "abi_struct list"
  typedefs :: "abi_typedef list"
  actions :: "abi_action list"
  tables :: "abi_table list"

definition empty_abi :: abi where
  "empty_abi = \<lparr>structs = [], typedefs = [], actions = [], tables = []\<rparr>"

definition set_insert :: "('a \<Rightarrow> string) \<Rightarrow> 'a \<Rightarrow> 'a list \<Rightarrow> 'a list" where
  "set_insert name x xs = emplace (<) name x xs"

definition insert_struct :: "abi_struct \<Rightarrow> abi \<Rightarrow> abi" where
  "insert_struct s a = a\<lparr>structs := set_insert s_name s (structs a)\<rparr>"

definition insert_typedef :: "abi_typedef \<Rightarrow> abi \<Rightarrow> abi" where
  "insert_typedef t a = a\<lparr>typedefs := set_insert new_type_name t (typedefs a)\<rparr>"

definition insert_action :: "abi_action \<Rightarrow> abi \<Rightarrow> abi" where
  "insert_action x a = a\<lparr>actions := set_insert a_name x (actions a)\<rparr>"

definition insert_table :: "abi_table \<Rightarrow> abi \<Rightarrow> abi" where
  "insert_table t a = a\<lparr>tables := set_insert t_name t (tables a)\<rparr>"

section \<open>Results of operations that may not return\<close>

definition obind :: "'a res option \<Rightarrow> ('a \<Rightarrow> 'b res option) \<Rightarrow> 'b res option" where
  "obind r f = (case r of None \<Rightarrow> None | Some (Inl e) \<Rightarrow> Some (Inl e) | Some (Inr x) \<Rightarrow> f x)"

type_synonym gen_op = "abi \<Rightarrow> abi res option"

section \<open>\<open>abigen.hpp\<close>\<close>

text \<open>Each operation is given the \<open>add_type\<close> (and \<open>add_struct\<close>) it calls.\<close>

definition add_typedef :: "decls \<Rightarrow> (qtype \<Rightarrow> gen_op) \<Rightarrow> qtype \<Rightarrow> gen_op" where
  "add_typedef ds add_ty t a =
     (case get_type_alias t of
        None \<Rightarrow> Some (Inr a)
      | Some td \<Rightarrow>
          obind (Some (translate_type ds td)) (\<lambda>ty.
          let ret = \<lparr>new_type_name = get_base_type_name t, td_type = ty\<rparr> in
          obind (Some (is_builtin_type ds td)) (\<lambda>b.
          obind (if \<not> b then add_ty td a else Some (Inr a)) (\<lambda>a.
            Some (Inr (insert_typedef ret a))))))"

text \<open>Both forms of \<open>add_action\<close>. The exception of an invalid name leaves the one for records; the
  one for methods catches it and goes on.\<close>

definition validate :: "string \<Rightarrow> unit res" where
  "validate n = (case validate_name n of Inl _ \<Rightarrow> Inl abigen_exception | Inr u \<Rightarrow> Inr u)"

definition add_action_record :: "cxx_record \<Rightarrow> abi \<Rightarrow> abi res" where
  "add_action_record decl a =
     (case rec_action decl of
        None \<Rightarrow> Inl (UB ''getFtlActionAttr'')
      | Some action_name \<Rightarrow>
          if action_name = [] then
            rbind (validate (rec_name decl)) (\<lambda>_.
              Inr (insert_action \<lparr>a_name = rec_name decl, a_type = rec_name decl\<rparr> a))
          else
            rbind (validate action_name) (\<lambda>_.
              Inr (insert_action \<lparr>a_name = action_name, a_type = rec_name decl\<rparr> a)))"

definition caught :: "unit res \<Rightarrow> unit" where
  "caught r = (case r of Inl e \<Rightarrow> () | Inr u \<Rightarrow> u)"

definition add_action_method :: "cxx_method \<Rightarrow> abi \<Rightarrow> abi res" where
  "add_action_method decl a =
     (case m_action decl of
        None \<Rightarrow> Inl (UB ''getFtlActionAttr'')
      | Some action_name \<Rightarrow>
          if action_name = [] then
            (let _ = caught (validate (m_name decl))
             in Inr (insert_action \<lparr>a_name = m_name decl, a_type = m_name decl\<rparr> a))
          else
            (let _ = caught (validate action_name)
             in Inr (insert_action \<lparr>a_name = action_name, a_type = m_name decl\<rparr> a)))"

fun tuple_fields ::
    "decls \<Rightarrow> (qtype \<Rightarrow> gen_op) \<Rightarrow> qtype \<Rightarrow> nat \<Rightarrow> nat \<Rightarrow> abi_field list \<Rightarrow> abi \<Rightarrow> (abi_field list \<times> abi) res option" where
  "tuple_fields ds add_ty t 0 i fs a = Some (Inr (fs, a))"
| "tuple_fields ds add_ty t (Suc k) i fs a =
     obind (Some (get_template_argument t i)) (\<lambda>ftype.
     obind (add_ty ftype a) (\<lambda>a.
     obind (Some (translate_type ds ftype)) (\<lambda>ty.
       tuple_fields ds add_ty t k (i + 1) (fs @ [\<lparr>f_name = ''field_'' @ decimal i, f_type = ty\<rparr>]) a)))"

text \<open>\<open>add_tuple\<close> looks only below an \<open>ElaboratedType\<close>; of any other type \<open>pt\<close> is a null pointer.\<close>

definition add_tuple :: "decls \<Rightarrow> (qtype \<Rightarrow> gen_op) \<Rightarrow> qtype \<Rightarrow> gen_op" where
  "add_tuple ds add_ty t a =
     (case type_ptr t of
        ElabT s u \<Rightarrow>
          (case dyn_tst (type_ptr u) of
             None \<Rightarrow> Some (Inl abigen_exception)
           | Some (n, args, d) \<Rightarrow>
               obind (Some (get_type ds t)) (\<lambda>name.
               obind (tuple_fields ds add_ty t (length args) 0 [] a) (\<lambda>(fs, a).
                 Some (Inr (insert_struct \<lparr>s_name = name, s_base = [], s_fields = fs\<rparr> a)))))
      | _ \<Rightarrow> Some (Inl (UB ''pt'')))"

definition add_argument :: "decls \<Rightarrow> (qtype \<Rightarrow> gen_op) \<Rightarrow> qtype \<Rightarrow> nat \<Rightarrow> gen_op" where
  "add_argument ds add_ty t i a =
     obind (Some (get_template_argument t i)) (\<lambda>ftype.
     obind (Some (translate_type ds ftype)) (\<lambda>ty. add_ty ftype a))"

definition argument_type :: "decls \<Rightarrow> qtype \<Rightarrow> nat \<Rightarrow> string res" where
  "argument_type ds t i = rbind (get_template_argument t i) (translate_type ds)"

definition add_pair :: "decls \<Rightarrow> (qtype \<Rightarrow> gen_op) \<Rightarrow> qtype \<Rightarrow> gen_op" where
  "add_pair ds add_ty t a =
     obind (add_argument ds add_ty t 0 a) (\<lambda>a.
     obind (add_argument ds add_ty t 1 a) (\<lambda>a.
     obind (Some (get_type ds t)) (\<lambda>name.
     obind (Some (argument_type ds t 0)) (\<lambda>t0.
     obind (Some (argument_type ds t 1)) (\<lambda>t1.
     obind (Some (get_template_argument t 0)) (\<lambda>a0.
     obind (add_ty a0 a) (\<lambda>a.
     obind (Some (get_template_argument t 1)) (\<lambda>a1.
     obind (add_ty a1 a) (\<lambda>a.
       Some (Inr (insert_struct \<lparr>s_name = name, s_base = [],
         s_fields = [\<lparr>f_name = ''first'', f_type = t0\<rparr>, \<lparr>f_name = ''second'', f_type = t1\<rparr>]\<rparr> a)))))))))))"

definition add_map :: "decls \<Rightarrow> (qtype \<Rightarrow> gen_op) \<Rightarrow> qtype \<Rightarrow> gen_op" where
  "add_map ds add_ty t a =
     obind (add_argument ds add_ty t 0 a) (\<lambda>a.
     obind (add_argument ds add_ty t 1 a) (\<lambda>a.
     obind (Some (get_type ds t)) (\<lambda>name.
     let name = (if length name < 2 then name else take (length name - 2) name) in
     obind (Some (argument_type ds t 0)) (\<lambda>t0.
     obind (Some (argument_type ds t 1)) (\<lambda>t1.
     obind (Some (get_template_argument t 0)) (\<lambda>a0.
     obind (add_ty a0 a) (\<lambda>a.
     obind (Some (get_template_argument t 1)) (\<lambda>a1.
     obind (add_ty a1 a) (\<lambda>a.
       Some (Inr (insert_struct \<lparr>s_name = name, s_base = [],
         s_fields = [\<lparr>f_name = ''key'', f_type = t0\<rparr>, \<lparr>f_name = ''value'', f_type = t1\<rparr>]\<rparr> a)))))))))))"

definition extension_struct :: abi_struct where
  "extension_struct = \<lparr>s_name = ''extension'', s_base = [],
     s_fields = [\<lparr>f_name = ''type'', f_type = ''uint16''\<rparr>, \<lparr>f_name = ''data'', f_type = ''bytes''\<rparr>]\<rparr>"

fun struct_fields ::
    "decls \<Rightarrow> (qtype \<Rightarrow> gen_op) \<Rightarrow> (string \<times> qtype) list \<Rightarrow> abi_field list \<Rightarrow> abi \<Rightarrow> (abi_field list \<times> abi) res option" where
  "struct_fields ds add_ty [] fs a = Some (Inr (fs, a))"
| "struct_fields ds add_ty ((nm, t) # flds) fs a =
     (if nm = ''transaction_extensions'' then
        struct_fields ds add_ty flds (fs @ [\<lparr>f_name = ''transaction_extensions'', f_type = ''extension[]''\<rparr>])
          (insert_struct extension_struct a)
      else
        obind (Some (get_type ds t)) (\<lambda>ty.
        obind (add_ty t a) (\<lambda>a.
          struct_fields ds add_ty flds (fs @ [\<lparr>f_name = nm, f_type = ty\<rparr>]) a)))"

definition add_struct_record ::
    "decls \<Rightarrow> (qtype \<Rightarrow> gen_op) \<Rightarrow> (nat \<Rightarrow> string \<Rightarrow> gen_op) \<Rightarrow> nat \<Rightarrow> string \<Rightarrow> gen_op" where
  "add_struct_record ds add_ty add_st d rname a =
     (let decl = ds d in
      obind
        (case rec_bases decl of
           [b] \<Rightarrow>
             obind (Some (get_type ds b)) (\<lambda>base.
               case as_record b of
                 None \<Rightarrow> Some (Inl (UB ''getAsCXXRecordDecl''))
               | Some bd \<Rightarrow> obind (add_st bd [] a) (\<lambda>a. Some (Inr (base, a))))
         | _ \<Rightarrow> Some (Inr ([], a)))
        (\<lambda>(base, a).
      obind (struct_fields ds add_ty (rec_fields decl) [] a) (\<lambda>(fs, a).
        Some (Inr (insert_struct
          \<lparr>s_name = if rname \<noteq> [] then rname else rec_name decl, s_base = base, s_fields = fs\<rparr> a)))))"

fun add_type :: "nat \<Rightarrow> decls \<Rightarrow> qtype \<Rightarrow> gen_op"
  and add_struct :: "nat \<Rightarrow> decls \<Rightarrow> nat \<Rightarrow> string \<Rightarrow> gen_op" where
  "add_type 0 ds t a = None"
| "add_type (Suc n) ds t a =
     obind (Some (get_ignored_type ds t)) (\<lambda>ty.
     obind (Some (translate_type ds ty)) (\<lambda>nm.
     if is_builtin_type_str nm then Some (Inr a)
     else
       obind (Some (is_aliasing ds ty)) (\<lambda>al.
       if al then add_typedef ds (add_type n ds) ty a
       else if is_template_specialization ds ty
           [''vector'', ''set'', ''deque'', ''list'', ''optional'', ''binary_extension'', ''ignore''] then
         obind (Some (get_template_argument ty 0)) (\<lambda>arg. add_type n ds arg a)
       else if is_template_specialization ds ty [''map''] then add_map ds (add_type n ds) ty a
       else if is_template_specialization ds ty [''pair''] then add_pair ds (add_type n ds) ty a
       else if is_template_specialization ds ty [''tuple''] then add_tuple ds (add_type n ds) ty a
       else if is_template_specialization ds ty [] then
         obind (Some (get_template_name ty)) (\<lambda>nm.
           case as_record ty of
             None \<Rightarrow> Some (Inl (UB ''getAsCXXRecordDecl''))
           | Some d \<Rightarrow> add_struct n ds d nm a)
       else (case as_record ty of Some d \<Rightarrow> add_struct n ds d [] a | None \<Rightarrow> Some (Inr a)))))"
| "add_struct 0 ds d rname a = None"
| "add_struct (Suc n) ds d rname a = add_struct_record ds (add_type n ds) (add_struct n ds) d rname a"

fun method_fields ::
    "decls \<Rightarrow> (qtype \<Rightarrow> gen_op) \<Rightarrow> (string \<times> qtype) list \<Rightarrow> abi_field list \<Rightarrow> abi \<Rightarrow> (abi_field list \<times> abi) res option" where
  "method_fields ds add_ty [] fs a = Some (Inr (fs, a))"
| "method_fields ds add_ty ((nm, t) # params) fs a =
     (let param_type = unqualified (non_reference t) in
      obind (Some (get_type ds param_type)) (\<lambda>ty.
      obind (add_ty param_type a) (\<lambda>a.
        method_fields ds add_ty params (fs @ [\<lparr>f_name = nm, f_type = ty\<rparr>]) a)))"

definition add_struct_method :: "decls \<Rightarrow> (qtype \<Rightarrow> gen_op) \<Rightarrow> cxx_method \<Rightarrow> gen_op" where
  "add_struct_method ds add_ty decl a =
     obind (method_fields ds add_ty (m_params decl) [] a) (\<lambda>(fs, a).
       Some (Inr (insert_struct \<lparr>s_name = m_name decl, s_base = [], s_fields = fs\<rparr> a)))"

text \<open>A later field of the same name would replace the type; a table has one of each.\<close>

fun table_types :: "decls \<Rightarrow> (string \<times> qtype) list \<Rightarrow> string \<times> string \<Rightarrow> (string \<times> string) res" where
  "table_types ds [] kv = Inr kv"
| "table_types ds ((nm, t) # flds) (k, v) =
     (if nm = ''key'' then rbind (get_type ds t) (\<lambda>k. table_types ds flds (k, v))
      else if nm = ''value'' then rbind (get_type ds t) (\<lambda>v. table_types ds flds (k, v))
      else table_types ds flds (k, v))"

definition add_table :: "decls \<Rightarrow> cxx_record \<Rightarrow> abi \<Rightarrow> abi res" where
  "add_table ds decl a =
     rbind (table_types ds (rec_fields decl) ([], [])) (\<lambda>(k, v).
       Inr (insert_table \<lparr>t_name = rec_name decl, key_type = k, value_type = v\<rparr> a))"

section \<open>The JSON of an ABI\<close>

text \<open>\<open>ojson\<close> keeps the members of an object in the order in which they were set.\<close>

datatype json = JString string | JArray "json list" | JObject "(string \<times> json) list"

definition struct_to_json :: "abi_struct \<Rightarrow> json" where
  "struct_to_json s = JObject [(''name'', JString (s_name s)), (''base'', JString (s_base s)),
     (''fields'', JArray (map (\<lambda>f. JObject [(''name'', JString (f_name f)), (''type'', JString (f_type f))]) (s_fields s)))]"

definition typedef_to_json :: "abi_typedef \<Rightarrow> json" where
  "typedef_to_json t = JObject [(''new_type_name'', JString (new_type_name t)), (''type'', JString (td_type t))]"

definition action_to_json :: "abi_action \<Rightarrow> json" where
  "action_to_json x = JObject [(''name'', JString (a_name x)), (''type'', JString (a_type x))]"

definition table_to_json :: "abi_table \<Rightarrow> json" where
  "table_to_json t = JObject [(''name'', JString (t_name t)), (''key_type'', JString (key_type t)),
     (''value_type'', JString (value_type t))]"

definition abi_is_empty :: "abi \<Rightarrow> bool" where
  "abi_is_empty a \<longleftrightarrow> structs a = [] \<and> typedefs a = [] \<and> actions a = [] \<and> tables a = []"

fun suffix_start :: "string \<Rightarrow> nat \<Rightarrow> nat" where
  "suffix_start name 0 = 0"
| "suffix_start name (Suc i) =
     (if name ! i \<noteq> CHR ''['' \<and> name ! i \<noteq> CHR '']'' \<and> name ! i \<noteq> CHR ''?'' \<and> name ! i \<noteq> CHR ''$''
      then Suc i else suffix_start name i)"

definition remove_suffix :: "string \<Rightarrow> string" where
  "remove_suffix name = take (suffix_start name (length name)) name"

definition validate_struct :: "abi \<Rightarrow> abi_struct \<Rightarrow> bool" where
  "validate_struct a st =
     (if is_builtin_type_str (translate_type_str (s_name st)) then False
      else if list_ex (\<lambda>s. list_ex (\<lambda>f. s_name st = translate_type_str (remove_suffix (f_type f))) (s_fields s)
                \<or> s_base s = s_name st) (structs a) then True
      else if list_ex (\<lambda>x. s_name st = translate_type_str (a_type x)) (actions a) then True
      else if list_ex (\<lambda>t. s_name st = translate_type_str (key_type t) \<or>
                s_name st = translate_type_str (value_type t)) (tables a) then True
      else list_ex (\<lambda>td. s_name st = translate_type_str (remove_suffix (td_type td))) (typedefs a))"

definition validate_types :: "abi \<Rightarrow> abi_typedef \<Rightarrow> bool" where
  "validate_types a td =
     (if list_ex (\<lambda>s. validate_struct a s \<and> list_ex (\<lambda>f. remove_suffix (f_type f) = new_type_name td) (s_fields s))
          (structs a) then True
      else if list_ex (\<lambda>t. value_type t = new_type_name td) (tables a) then True
      else if list_ex (\<lambda>x. a_type x = new_type_name td) (actions a) then True
      else list_ex (\<lambda>td'. remove_suffix (td_type td') = new_type_name td) (typedefs a))"

definition abi_version :: string where
  "abi_version = ''ftl::abi/0.3.0''"

definition to_json :: "abi \<Rightarrow> json" where
  "to_json a = JObject
     [(''____comment'', JString ''This file was generated automatically. DO NOT EDIT ''),
      (''version'', JString abi_version),
      (''structs'', JArray (map struct_to_json (filter (validate_struct a) (structs a)))),
      (''types'', JArray (map typedef_to_json (filter (validate_types a) (typedefs a)))),
      (''actions'', JArray (map action_to_json (actions a))),
      (''tables'', JArray (map table_to_json (tables a)))]"

section \<open>\<open>fractal-cpp\<close>: the matchers and \<open>generate\<close>\<close>

text \<open>The nodes come in the order in which clang's traversal finds them.\<close>

datatype ast_node = MethodNode cxx_method | RecordNode nat

fun add_types :: "nat \<Rightarrow> decls \<Rightarrow> (string \<times> qtype) list \<Rightarrow> gen_op" where
  "add_types n ds [] a = Some (Inr a)"
| "add_types n ds ((nm, t) # ts) a = obind (add_type n ds t a) (add_types n ds ts)"

definition method_matcher :: "nat \<Rightarrow> decls \<Rightarrow> string \<Rightarrow> cxx_method \<Rightarrow> gen_op" where
  "method_matcher n ds cn decl a =
     (if m_action decl \<noteq> None \<and> is_ftl_contract_method ds decl cn then
        obind (add_struct_method ds (add_type n ds) decl a) (\<lambda>a.
        obind (Some (add_action_method decl a)) (\<lambda>a.
          add_types n ds (m_params decl) a))
      else Some (Inr a))"

definition record_matcher :: "nat \<Rightarrow> decls \<Rightarrow> string \<Rightarrow> nat \<Rightarrow> gen_op" where
  "record_matcher n ds cn d a =
     (let decl = ds d in
      obind
        (if rec_action decl \<noteq> None \<and> is_ftl_contract_record ds decl cn then
           obind (add_struct n ds d [] a) (\<lambda>a.
           obind (Some (add_action_record decl a)) (\<lambda>a.
             add_types n ds (rec_fields decl) a))
         else Some (Inr a))
        (\<lambda>a.
        if rec_table decl \<and> is_ftl_contract_record ds decl cn then
          obind (Some (add_table ds decl a)) (\<lambda>a. add_types n ds (rec_fields decl) a)
        else Some (Inr a)))"

fun run_matchers :: "nat \<Rightarrow> decls \<Rightarrow> string \<Rightarrow> ast_node list \<Rightarrow> gen_op" where
  "run_matchers n ds cn [] a = Some (Inr a)"
| "run_matchers n ds cn (MethodNode m # nodes) a = obind (method_matcher n ds cn m a) (run_matchers n ds cn nodes)"
| "run_matchers n ds cn (RecordNode d # nodes) a = obind (record_matcher n ds cn d a) (run_matchers n ds cn nodes)"

text \<open>\<open>generate\<close> after its options are put together: the front end's verdict and the nodes it finds
  are arguments. The generator is a static variable, so the next input starts from its state. The
  result is the state and the file that is written, if any.\<close>

definition generate ::
    "nat \<Rightarrow> decls \<Rightarrow> bool \<Rightarrow> ast_node list \<Rightarrow> string \<Rightarrow> string \<Rightarrow> abi \<Rightarrow> (abi \<times> (string \<times> json) option) res option" where
  "generate n ds parsed nodes input contract_name ag =
     obind (run_matchers n ds contract_name nodes ag) (\<lambda>ag.
     if \<not> parsed then Some (Inl (Abort ''abigen error''))
     else Some (Inr (ag,
       if \<not> abi_is_empty ag then Some (replace_extension input ''.abi'', to_json ag) else None)))"

end
