(* ===== verification/AbigenLoop.thy ===== *)
theory AbigenLoop
  imports Abigen WireProperties "HOL-Library.Infinite_Set"
begin

text \<open>
  What holds of the recursion of the ABI generator whatever the declarations: an interface for the
  properties of an \<open>abi\<close> that insertions keep, more fuel does not change a result, and which
  declarations let the recursion end.
\<close>

section \<open>Results\<close>

lemma obind_simps [simp]:
  "obind None f = None" "obind (Some (Inl e)) f = Some (Inl e)" "obind (Some (Inr x)) f = f x"
  by (simp_all add: obind_def)

lemma obind_eq_Inr: "obind r f = Some (Inr y) \<longleftrightarrow> (\<exists>x. r = Some (Inr x) \<and> f x = Some (Inr y))"
  by (auto simp: obind_def split: option.splits sum.splits)

lemma obind_eq_None: "obind r f = None \<longleftrightarrow> r = None \<or> (\<exists>x. r = Some (Inr x) \<and> f x = None)"
  by (auto simp: obind_def split: option.splits sum.splits)

lemma obind_pair_eq_Inr:
  "obind r (\<lambda>(x, y). f x y) = Some (Inr z) \<longleftrightarrow> (\<exists>x y. r = Some (Inr (x, y)) \<and> f x y = Some (Inr z))"
  by (auto simp: obind_eq_Inr)

text \<open>What a computation that returns has ensured; the rules follow its structure.\<close>

definition ensures :: "('a \<Rightarrow> bool) \<Rightarrow> 'a res option \<Rightarrow> bool" where
  "ensures P r \<longleftrightarrow> (\<forall>x. r = Some (Inr x) \<longrightarrow> P x)"

named_theorems ensures_intros \<open>rules for computations that return\<close>

lemma ensures_return [ensures_intros]: "P x \<Longrightarrow> ensures P (Some (Inr x))"
  and ensures_none [ensures_intros]: "ensures P None"
  and ensures_error [ensures_intros]: "ensures P (Some (Inl e))"
  by (simp_all add: ensures_def)

lemma ensures_pure [ensures_intros]:
  "(\<And>x. r = Inr x \<Longrightarrow> ensures P (f x)) \<Longrightarrow> ensures P (obind (Some r) f)"
  by (cases r) (simp_all add: ensures_def)

lemma ensures_if [ensures_intros]:
  "(b \<Longrightarrow> ensures P r) \<Longrightarrow> (\<not> b \<Longrightarrow> ensures P s) \<Longrightarrow> ensures P (if b then r else s)"
  by simp

lemma ensures_case_option [ensures_intros]:
  "(x = None \<Longrightarrow> ensures P r) \<Longrightarrow> (\<And>y. x = Some y \<Longrightarrow> ensures P (f y)) \<Longrightarrow> ensures P (case x of None \<Rightarrow> r | Some y \<Rightarrow> f y)"
  by (cases x) simp_all

lemma ensures_lift: "ensures P (Some r) \<longleftrightarrow> (\<forall>x. r = Inr x \<longrightarrow> P x)"
  by (simp add: ensures_def)

lemma ensures_obind: "ensures Q r \<Longrightarrow> (\<And>x. Q x \<Longrightarrow> ensures P (f x)) \<Longrightarrow> ensures P (obind r f)"
  by (auto simp: ensures_def obind_eq_Inr)

lemma ensures_obind_pair:
  "ensures Q r \<Longrightarrow> (\<And>x y. Q (x, y) \<Longrightarrow> ensures P (f x y)) \<Longrightarrow> ensures P (obind r (\<lambda>(x, y). f x y))"
  by (auto simp: ensures_def obind_pair_eq_Inr)

section \<open>Actions\<close>

lemma add_action_method_eq:
  "add_action_method decl a = (case m_action decl of
     None \<Rightarrow> Inl (UB ''getFtlActionAttr'')
   | Some n \<Rightarrow> Inr (insert_action \<lparr>a_name = if n = [] then m_name decl else n, a_type = m_name decl\<rparr> a))"
  by (simp add: add_action_method_def split: option.split)

section \<open>Properties that insertions keep\<close>

definition keeps :: "(abi \<Rightarrow> bool) \<Rightarrow> gen_op \<Rightarrow> bool" where
  "keeps P f \<longleftrightarrow> (\<forall>a. P a \<longrightarrow> ensures P (f a))"

lemma keepsD: "keeps P f \<Longrightarrow> P a \<Longrightarrow> ensures P (f a)"
  by (simp add: keeps_def)

lemma keepsI: "(\<And>a. P a \<Longrightarrow> ensures P (f a)) \<Longrightarrow> keeps P f"
  by (simp add: keeps_def)

locale type_invariant =
  fixes P :: "abi \<Rightarrow> bool"
  assumes insert_struct: "P a \<Longrightarrow> P (insert_struct s a)"
    and insert_typedef: "P a \<Longrightarrow> P (insert_typedef t a)"
begin

lemmas step = ensures_obind [where Q = P] ensures_obind_pair [where Q = "\<lambda>(x, a). P a", simplified]
lemmas insertion = insert_struct insert_typedef

lemma add_typedef:
  assumes f: "\<And>t. keeps P (f t)"
  shows "keeps P (add_typedef ds f t)"
  unfolding add_typedef_def Let_def
  by (intro keepsI ensures_intros step insertion f [THEN keepsD])

lemma tuple_fields:
  assumes f: "\<And>t. keeps P (f t)"
  shows "P a \<Longrightarrow> ensures (\<lambda>(x, a). P a) (tuple_fields ds f t k i fs a)"
proof (induction k arbitrary: i fs a)
  case (Suc k)
  show ?case unfolding tuple_fields.simps
    by (intro ensures_intros step Suc.IH f [THEN keepsD] Suc.prems)
qed (simp add: ensures_return)

lemma add_tuple:
  assumes f: "\<And>t. keeps P (f t)"
  shows "keeps P (add_tuple ds f t)"
proof (rule keepsI)
  fix a assume "P a"
  then have "ensures (\<lambda>(x, a). P a) (tuple_fields ds f t k i fs a)" for k i fs by (rule tuple_fields [OF f])
  then show "ensures P (add_tuple ds f t a)"
    by (auto simp: add_tuple_def split: qtype.splits option.splits intro!: ensures_intros step insertion)
qed

lemma add_argument:
  assumes f: "\<And>t. keeps P (f t)"
  shows "keeps P (add_argument ds f t i)"
  unfolding add_argument_def by (intro keepsI ensures_intros f [THEN keepsD])

lemma add_pair:
  assumes f: "\<And>t. keeps P (f t)"
  shows "keeps P (add_pair ds f t)"
  unfolding add_pair_def
  by (intro keepsI add_argument [OF f, THEN keepsD] ensures_intros step insertion f [THEN keepsD])

lemma add_map:
  assumes f: "\<And>t. keeps P (f t)"
  shows "keeps P (add_map ds f t)"
  unfolding add_map_def Let_def
  by (intro keepsI add_argument [OF f, THEN keepsD] ensures_intros step insertion f [THEN keepsD])

lemma struct_fields:
  assumes f: "\<And>t. keeps P (f t)"
  shows "P a \<Longrightarrow> ensures (\<lambda>(x, a). P a) (struct_fields ds f fs gs a)"
proof (induction fs arbitrary: gs a)
  case (Cons x fs)
  obtain nm t where "x = (nm, t)" by (cases x)
  then show ?case unfolding \<open>x = (nm, t)\<close> struct_fields.simps
    by (intro ensures_intros step Cons.IH f [THEN keepsD] insertion Cons.prems)
qed (simp add: ensures_return)

lemma add_struct_record:
  assumes f: "\<And>t. keeps P (f t)" and g: "\<And>d r. keeps P (g d r)"
  shows "keeps P (add_struct_record ds f g d r)"
proof (rule keepsI)
  fix a assume "P a"
  let ?bases = "case rec_bases (ds d) of
      [b] \<Rightarrow> obind (Some (get_type ds b)) (\<lambda>base.
          case as_record b of None \<Rightarrow> Some (Inl (UB ''getAsCXXRecordDecl''))
          | Some bd \<Rightarrow> obind (g bd [] a) (\<lambda>a. Some (Inr (base, a))))
    | _ \<Rightarrow> Some (Inr ([], a))"
  have "ensures (\<lambda>(x, a). P a) ?bases"
    using \<open>P a\<close> by (auto split: list.splits intro!: ensures_intros step g [THEN keepsD])
  then show "ensures P (add_struct_record ds f g d r a)"
    unfolding add_struct_record_def Let_def
    by (intro step ensures_intros insertion struct_fields [OF f])
qed

lemma add_type_struct: "(\<forall>t. keeps P (add_type n ds t)) \<and> (\<forall>d r. keeps P (add_struct n ds d r))"
proof (induction n)
  case 0
  then show ?case by (simp add: keeps_def ensures_none)
next
  case (Suc n)
  then have t: "\<And>t. keeps P (add_type n ds t)" and s: "\<And>d r. keeps P (add_struct n ds d r)" by simp_all
  show ?case
  proof (intro conjI allI)
    show "keeps P (add_struct (Suc n) ds d r)" for d r
      using add_struct_record [OF t s] by (simp add: keeps_def)
    show "keeps P (add_type (Suc n) ds t)" for t
      unfolding add_type.simps
      by (intro keepsI ensures_intros t [THEN add_typedef, THEN keepsD] t [THEN add_map, THEN keepsD]
          t [THEN add_pair, THEN keepsD] t [THEN add_tuple, THEN keepsD] t [THEN keepsD] s [THEN keepsD])
  qed
qed

lemmas add_type = add_type_struct [THEN conjunct1, rule_format, THEN keepsD]
  and add_struct = add_type_struct [THEN conjunct2, rule_format, THEN keepsD]

lemma method_fields:
  "P a \<Longrightarrow> ensures (\<lambda>(x, a). P a) (method_fields ds (add_type n ds) ps gs a)"
proof (induction ps arbitrary: gs a)
  case (Cons x ps)
  obtain nm t where "x = (nm, t)" by (cases x)
  then show ?case unfolding \<open>x = (nm, t)\<close> method_fields.simps Let_def
    by (intro ensures_intros step Cons.IH add_type Cons.prems)
qed (simp add: ensures_return)

lemma add_types: "P a \<Longrightarrow> ensures P (add_types n ds ts a)"
proof (induction ts arbitrary: a)
  case (Cons x ts)
  obtain nm t where "x = (nm, t)" by (cases x)
  then show ?case unfolding \<open>x = (nm, t)\<close> add_types.simps by (intro step add_type Cons.IH Cons.prems)
qed (simp add: ensures_return)

lemma add_struct_method: "P a \<Longrightarrow> ensures P (add_struct_method ds (add_type n ds) decl a)"
  unfolding add_struct_method_def by (intro step ensures_intros insertion method_fields)

end

locale abi_invariant = type_invariant +
  assumes insert_action: "P a \<Longrightarrow> P (insert_action x a)"
    and insert_table: "P a \<Longrightarrow> P (insert_table tb a)"
begin

lemma add_action_method: "P a \<Longrightarrow> ensures P (Some (add_action_method decl a))"
  by (auto simp: add_action_method_eq ensures_lift intro: insert_action split: option.splits)

lemma add_action_record: "P a \<Longrightarrow> ensures P (Some (add_action_record decl a))"
  by (auto simp: add_action_record_def ensures_lift rbind_eq_Inr intro: insert_action split: option.splits if_splits)

lemma add_table: "P a \<Longrightarrow> ensures P (Some (add_table ds decl a))"
  by (auto simp: add_table_def ensures_lift rbind_eq_Inr intro: insert_table)

lemma method_matcher: "P a \<Longrightarrow> ensures P (method_matcher n ds cn decl a)"
  unfolding method_matcher_def
  by (intro ensures_if ensures_return step add_struct_method add_types add_action_method)

lemma record_matcher: "P a \<Longrightarrow> ensures P (record_matcher n ds cn d a)"
  unfolding record_matcher_def Let_def
  by (intro step ensures_if ensures_return add_struct add_types add_action_record add_table)

lemma run_matchers: "P a \<Longrightarrow> ensures P (run_matchers n ds cn nodes a)"
proof (induction nodes arbitrary: a)
  case (Cons x nodes)
  then show ?case
    by (cases x; simp only: run_matchers.simps; intro step method_matcher record_matcher Cons.IH)
qed (simp add: ensures_return)

end


section \<open>Fuel\<close>

text \<open>More fuel gives the same result.\<close>

definition less_def :: "'a option \<Rightarrow> 'a option \<Rightarrow> bool" where
  "less_def r s \<longleftrightarrow> r = None \<or> r = s"

named_theorems fuel_intros \<open>rules for results of less fuel\<close>

lemma less_def_refl [fuel_intros]: "less_def r r"
  and less_def_None: "less_def None r"
  by (simp_all add: less_def_def)

lemma less_def_obind [fuel_intros]:
  "less_def r s \<Longrightarrow> (\<And>x. less_def (f x) (g x)) \<Longrightarrow> less_def (obind r f) (obind s g)"
  by (auto simp: less_def_def obind_def split: option.splits sum.splits)

lemma less_def_obind_pair [fuel_intros]:
  "less_def r s \<Longrightarrow> (\<And>x y. less_def (f x y) (g x y)) \<Longrightarrow>
     less_def (obind r (\<lambda>(x, y). f x y)) (obind s (\<lambda>(x, y). g x y))"
  by (rule less_def_obind) auto

lemma less_def_if [fuel_intros]:
  "less_def r r' \<Longrightarrow> less_def s s' \<Longrightarrow> less_def (if b then r else s) (if b then r' else s')"
  by simp

lemma less_def_case_option [fuel_intros]:
  "less_def r r' \<Longrightarrow> (\<And>y. less_def (f y) (g y)) \<Longrightarrow>
     less_def (case x of None \<Rightarrow> r | Some y \<Rightarrow> f y) (case x of None \<Rightarrow> r' | Some y \<Rightarrow> g y)"
  by (cases x) simp_all

lemma less_def_tuple_fields:
  "(\<And>t a. less_def (f t a) (g t a)) \<Longrightarrow> less_def (tuple_fields ds f t k i fs a) (tuple_fields ds g t k i fs a)"
  by (induction k arbitrary: i fs a) (auto intro!: fuel_intros)

lemma less_def_struct_fields:
  "(\<And>t a. less_def (f t a) (g t a)) \<Longrightarrow> less_def (struct_fields ds f fs gs a) (struct_fields ds g fs gs a)"
  by (induction fs arbitrary: gs a) (auto intro!: fuel_intros)

lemma less_def_add_struct_record:
  assumes "\<And>t a. less_def (f t a) (g t a)" "\<And>d r a. less_def (f' d r a) (g' d r a)"
  shows "less_def (add_struct_record ds f f' d r a) (add_struct_record ds g g' d r a)"
  using assms
  by (auto simp: add_struct_record_def Let_def split: list.split
      intro!: fuel_intros less_def_struct_fields)

lemma less_def_operations:
  assumes t: "\<And>t a. less_def (f t a) (g t a)"
  shows "less_def (add_typedef ds f t a) (add_typedef ds g t a)"
    and "less_def (add_pair ds f t a) (add_pair ds g t a)"
    and "less_def (add_map ds f t a) (add_map ds g t a)"
    and "less_def (add_tuple ds f t a) (add_tuple ds g t a)"
proof -
  show "less_def (add_typedef ds f t a) (add_typedef ds g t a)"
    unfolding add_typedef_def Let_def by (intro fuel_intros t)
  show "less_def (add_pair ds f t a) (add_pair ds g t a)"
    unfolding add_pair_def add_argument_def by (intro fuel_intros t)
  show "less_def (add_map ds f t a) (add_map ds g t a)"
    unfolding add_map_def add_argument_def Let_def by (intro fuel_intros t)
  show "less_def (add_tuple ds f t a) (add_tuple ds g t a)"
    by (auto simp: add_tuple_def split: qtype.split option.split intro!: fuel_intros less_def_tuple_fields t)
qed

lemma less_def_add_type_struct:
  "(\<forall>t a. less_def (add_type n ds t a) (add_type (Suc n) ds t a)) \<and>
   (\<forall>d r a. less_def (add_struct n ds d r a) (add_struct (Suc n) ds d r a))"
proof (induction n)
  case 0
  then show ?case by (simp add: less_def_None)
next
  case (Suc n)
  then have t: "\<And>t a. less_def (add_type n ds t a) (add_type (Suc n) ds t a)"
    and s: "\<And>d r a. less_def (add_struct n ds d r a) (add_struct (Suc n) ds d r a)" by simp_all
  show ?case
  proof (intro conjI allI)
    show "less_def (add_struct (Suc n) ds d r a) (add_struct (Suc (Suc n)) ds d r a)" for d r a
    proof -
      have e: "add_struct (Suc n) ds d r a = add_struct_record ds (add_type n ds) (add_struct n ds) d r a"
        "add_struct (Suc (Suc n)) ds d r a = add_struct_record ds (add_type (Suc n) ds) (add_struct (Suc n) ds) d r a"
        by (rule add_struct.simps)+
      show ?thesis unfolding e by (rule less_def_add_struct_record [OF t s])
    qed
    show "less_def (add_type (Suc n) ds t a) (add_type (Suc (Suc n)) ds t a)" for t a
      unfolding add_type.simps(2) [of "Suc n" ds t a] add_type.simps(2) [of n ds t a]
      by (intro less_def_obind less_def_refl less_def_if less_def_case_option less_def_operations t s)
  qed
qed

lemma add_type_more_fuel: "add_type n ds t a = Some r \<Longrightarrow> n \<le> m \<Longrightarrow> add_type m ds t a = Some r"
proof (induction m)
  case (Suc m)
  then show ?case using less_def_add_type_struct [of m ds]
    by (cases "n = Suc m") (auto simp: less_def_def le_Suc_eq dest!: spec [of _ t] spec [of _ a])
qed simp

section \<open>When the recursion ends\<close>

primrec records_of :: "qtype \<Rightarrow> nat list" and records_of_arg :: "targ \<Rightarrow> nat list" where
  "records_of (Plain s) = []"
| "records_of (RecordT s d) = [d]"
| "records_of (TypedefT s u) = records_of u"
| "records_of (TemplateT s n args u) = concat (map records_of_arg args) @ records_of u"
| "records_of (ElabT s u) = records_of u"
| "records_of (RefT s u) = records_of u"
| "records_of (Qual s u) = records_of u"
| "records_of_arg (TypeArg t) = records_of t"
| "records_of_arg (ExprArg n) = []"

text \<open>Every declaration mentions only declarations of lower rank.\<close>

definition ranked :: "(nat \<Rightarrow> nat) \<Rightarrow> decls \<Rightarrow> bool" where
  "ranked rank ds \<longleftrightarrow>
     (\<forall>d. \<forall>t \<in> set (rec_bases (ds d)) \<union> snd ` set (rec_fields (ds d)). \<forall>d' \<in> set (records_of t). rank d' < rank d)"

lemma records_type_ptr: "set (records_of (type_ptr t)) \<subseteq> set (records_of t)"
  by (induction t rule: type_ptr.induct) auto

lemma size_type_ptr: "size (type_ptr t) \<le> size t"
  by (induction t rule: type_ptr.induct) auto

lemma records_tst: "tst t = Some (n, args, u) \<Longrightarrow> arg \<in> set args \<Longrightarrow> set (records_of_arg arg) \<subseteq> set (records_of t)"
proof (induction t rule: tst.induct)
  case (1 s u)
  then show ?case using records_type_ptr [of u] by (cases "type_ptr u") auto
qed auto

lemma records_get_template_argument:
  "get_template_argument t i = Inr a \<Longrightarrow> set (records_of a) \<subseteq> set (records_of t)"
  using records_tst [of t]
  by (auto simp: get_template_argument_def get_arg_def split: option.splits if_splits targ.splits)
    (metis nth_mem records_of_arg.simps(1) subsetD)

lemma as_record_records: "as_record t = Some d \<Longrightarrow> d \<in> set (records_of t)"
  by (induction t rule: as_record.induct) auto

lemma get_ignored_type_cases:
  "get_ignored_type ds t = Inr u \<Longrightarrow> u = t \<or> get_template_argument t 0 = Inr u"
  by (auto simp: get_ignored_type_def get_template_argument_def split: if_splits option.splits)

lemma get_type_alias_below:
  "get_type_alias t = Some u \<Longrightarrow> size u < size t \<and> set (records_of u) \<subseteq> set (records_of t)"
  using size_type_ptr [of t] records_type_ptr [of t]
  by (auto simp: get_type_alias_def split: qtype.splits)

text \<open>Computations that end, with a result or an error.\<close>

definition returns :: "'a option \<Rightarrow> bool" where
  "returns r \<longleftrightarrow> r \<noteq> None"

named_theorems returns_intros \<open>rules for computations that end\<close>

lemma returns_Some [returns_intros]: "returns (Some x)"
  by (simp add: returns_def)

lemma returns_obind [returns_intros]:
  "returns r \<Longrightarrow> (\<And>x. r = Some (Inr x) \<Longrightarrow> returns (f x)) \<Longrightarrow> returns (obind r f)"
  by (auto simp: returns_def obind_eq_None)

lemma returns_pure [returns_intros]: "(\<And>x. r = Inr x \<Longrightarrow> returns (f x)) \<Longrightarrow> returns (obind (Some r) f)"
  by (rule returns_obind) (simp_all add: returns_def)

lemma returns_obind_pair [returns_intros]:
  "returns r \<Longrightarrow> (\<And>x y. returns (f x y)) \<Longrightarrow> returns (obind r (\<lambda>(x, y). f x y))"
  by (rule returns_obind) auto

lemma returns_if [returns_intros]: "returns r \<Longrightarrow> returns s \<Longrightarrow> returns (if b then r else s)"
  by simp

lemma returns_case_option [returns_intros]:
  "returns r \<Longrightarrow> (\<And>y. x = Some y \<Longrightarrow> returns (f y)) \<Longrightarrow> returns (case x of None \<Rightarrow> r | Some y \<Rightarrow> f y)"
  by (auto split: option.split)

lemma tuple_fields_returns:
  assumes "\<And>i u a. get_template_argument t i = Inr u \<Longrightarrow> returns (f u a)"
  shows "returns (tuple_fields ds f t k i fs a)"
proof (induction k arbitrary: i fs a)
  case (Suc k)
  show ?case unfolding tuple_fields.simps
    by (rule returns_pure) (intro returns_intros Suc assms)
qed (simp add: returns_def)

lemma struct_fields_returns:
  "(\<And>u a. u \<in> snd ` set fs \<Longrightarrow> returns (f u a)) \<Longrightarrow> returns (struct_fields ds f fs gs a)"
proof (induction fs arbitrary: gs a)
  case (Cons x fs)
  obtain nm t where x: "x = (nm, t)" by (cases x)
  show ?case unfolding x struct_fields.simps
    by (intro returns_if returns_pure returns_obind Cons.IH Cons.prems) (auto simp: x)
qed (simp add: returns_def)

lemma add_type_returns:
  assumes ty: "get_ignored_type ds t = Inr ty"
    and f: "\<And>i u a. get_template_argument ty i = Inr u \<Longrightarrow> returns (add_type m ds u a)"
    and al: "\<And>u a. get_type_alias ty = Some u \<Longrightarrow> returns (add_type m ds u a)"
    and g: "\<And>d r a. as_record ty = Some d \<Longrightarrow> returns (add_struct m ds d r a)"
  shows "returns (add_type (Suc m) ds t a)"
proof -
  have "returns (add_typedef ds (add_type m ds) ty a)"
    unfolding add_typedef_def Let_def
    by (intro returns_case_option returns_pure returns_obind returns_if returns_Some al)
  moreover have arg: "returns (add_argument ds (add_type m ds) ty i a)" for i a
    unfolding add_argument_def by (intro returns_pure f)
  moreover have "returns (add_pair ds (add_type m ds) ty a)"
    unfolding add_pair_def by (intro arg returns_pure returns_Some f returns_obind)
  moreover have "returns (add_map ds (add_type m ds) ty a)"
    unfolding add_map_def Let_def by (intro arg returns_pure returns_Some f returns_obind)
  moreover have "returns (add_tuple ds (add_type m ds) ty a)"
    by (auto simp: add_tuple_def split: qtype.split option.split
        intro!: returns_pure returns_obind_pair returns_Some tuple_fields_returns f)
  ultimately show ?thesis
    unfolding add_type.simps ty
    by (intro returns_pure returns_if returns_Some returns_case_option g f) simp_all
qed

lemma add_struct_returns:
  assumes f: "\<And>u a. u \<in> snd ` set (rec_fields (ds d)) \<Longrightarrow> returns (add_type m ds u a)"
    and g: "\<And>b bd a. b \<in> set (rec_bases (ds d)) \<Longrightarrow> as_record b = Some bd \<Longrightarrow> returns (add_struct m ds bd [] a)"
  shows "returns (add_struct (Suc m) ds d r a)"
proof -
  have "returns (struct_fields ds (add_type m ds) (rec_fields (ds d)) [] a)" for a
    by (intro struct_fields_returns f)
  then show ?thesis
    unfolding add_struct.simps add_struct_record_def Let_def
    by (intro returns_obind_pair returns_Some)
      (auto split: list.split intro!: returns_pure returns_case_option returns_obind returns_Some g)
qed

lemma finite_arguments: "finite {u. \<exists>i. get_template_argument t i = Inr u}"
proof (cases "tst t")
  case (Some x)
  obtain n args u where x: "x = (n, args, u)" by (cases x)
  have "{u. \<exists>i. get_template_argument t i = Inr u} \<subseteq> (\<lambda>a. case a of TypeArg u \<Rightarrow> u | ExprArg n \<Rightarrow> Plain []) ` set args"
  proof
    fix u assume "u \<in> {u. \<exists>i. get_template_argument t i = Inr u}"
    then obtain i where "i < length args" "args ! i = TypeArg u"
      using Some x by (auto simp: get_template_argument_def get_arg_def split: if_splits targ.splits)
    then have "TypeArg u \<in> set args" by (metis nth_mem)
    then show "u \<in> (\<lambda>a. case a of TypeArg u \<Rightarrow> u | ExprArg n \<Rightarrow> Plain []) ` set args"
      by (rule rev_image_eqI) simp
  qed
  then show ?thesis by (rule finite_subset) simp
qed (simp add: get_template_argument_def)


text \<open>From some amount of fuel on, the generator returns, from any state.\<close>

lemma ranked_struct_returns:
  assumes "ranked rank ds" and d: "rank d < k"
    and t: "\<And>t. \<forall>d' \<in> set (records_of t). rank d' < rank d \<Longrightarrow> MOST m. \<forall>a. returns (add_type m ds t a)"
    and s: "\<And>bd. rank bd < rank d \<Longrightarrow> MOST m. \<forall>r a. returns (add_struct m ds bd r a)"
  shows "MOST m. \<forall>r a. returns (add_struct m ds d r a)"
proof -
  have below: "rank d' < rank d" if "u \<in> set (rec_bases (ds d)) \<union> snd ` set (rec_fields (ds d))" "d' \<in> set (records_of u)" for u d'
    using assms(1) that by (auto simp: ranked_def)
  have "MOST m. \<forall>u \<in> snd ` set (rec_fields (ds d)). \<forall>a. returns (add_type m ds u a)"
    using t below by (simp only: MOST_finite_Ball_distrib finite_imageI finite_set) blast
  moreover have "finite {bd. \<exists>b \<in> set (rec_bases (ds d)). as_record b = Some bd}"
    by (rule finite_subset [of _ "the ` as_record ` set (rec_bases (ds d))"]) (force simp: image_iff)+
  then have "MOST m. \<forall>bd \<in> {bd. \<exists>b \<in> set (rec_bases (ds d)). as_record b = Some bd}. \<forall>r a. returns (add_struct m ds bd r a)"
    using s below as_record_records by (simp only: MOST_finite_Ball_distrib) blast
  ultimately have "MOST m. (\<forall>u \<in> snd ` set (rec_fields (ds d)). \<forall>a. returns (add_type m ds u a)) \<and>
      (\<forall>bd \<in> {bd. \<exists>b \<in> set (rec_bases (ds d)). as_record b = Some bd}. \<forall>r a. returns (add_struct m ds bd r a))"
    by (rule MOST_conjI)
  then have "MOST m. \<forall>r a. returns (add_struct (Suc m) ds d r a)"
    by (rule MOST_mono) (intro allI add_struct_returns; blast)
  then show ?thesis by (rule MOST_Suc_iff [THEN iffD1])
qed

lemma finite_set_option: "finite (set_option x)"
  by (cases x) simp_all

lemma ranked_type_returns:
  assumes s: "\<And>d. rank d < k \<Longrightarrow> MOST m. \<forall>r a. returns (add_struct m ds d r a)"
  shows "\<forall>d \<in> set (records_of t). rank d < k \<Longrightarrow> MOST m. \<forall>a. returns (add_type m ds t a)"
proof (induction t rule: measure_induct_rule [of size])
  case (less t)
  show ?case
  proof (cases "get_ignored_type ds t")
    case (Inl e)
    then have "\<forall>a. returns (add_type (Suc m) ds t a)" for m by (simp add: returns_def)
    then have "MOST m. \<forall>a. returns (add_type (Suc m) ds t a)" by (rule MOST_I)
    then show ?thesis by (rule MOST_Suc_iff [THEN iffD1])
  next
    case (Inr ty)
    then have ty: "size ty \<le> size t" "set (records_of ty) \<subseteq> set (records_of t)"
      using get_ignored_type_cases [OF Inr] size_get_template_argument [of t 0 ty] records_get_template_argument [of t 0 ty]
      by auto
    have sub: "MOST m. \<forall>a. returns (add_type m ds u a)" if "size u < size ty" "set (records_of u) \<subseteq> set (records_of ty)" for u
      using that ty less.prems by (intro less.IH) auto
    have "MOST m. \<forall>u \<in> {u. \<exists>i. get_template_argument ty i = Inr u}. \<forall>a. returns (add_type m ds u a)"
      using sub size_get_template_argument records_get_template_argument finite_arguments [of ty]
      by (simp only: MOST_finite_Ball_distrib) blast
    moreover have "MOST m. \<forall>u \<in> set_option (get_type_alias ty). \<forall>a. returns (add_type m ds u a)"
      using sub get_type_alias_below by (simp only: MOST_finite_Ball_distrib finite_set_option) auto
    moreover have "rank d < k" if "as_record ty = Some d" for d
      using as_record_records [OF that] ty(2) less.prems by blast
    then have "MOST m. \<forall>d \<in> set_option (as_record ty). \<forall>r a. returns (add_struct m ds d r a)"
      using s by (simp only: MOST_finite_Ball_distrib finite_set_option) auto
    ultimately have "MOST m. (\<forall>u \<in> {u. \<exists>i. get_template_argument ty i = Inr u}. \<forall>a. returns (add_type m ds u a)) \<and>
        (\<forall>u \<in> set_option (get_type_alias ty). \<forall>a. returns (add_type m ds u a)) \<and>
        (\<forall>d \<in> set_option (as_record ty). \<forall>r a. returns (add_struct m ds d r a))"
      by (intro MOST_conjI)
    then have "MOST m. \<forall>a. returns (add_type (Suc m) ds t a)"
      by (rule MOST_mono) (intro allI add_type_returns [OF Inr]; auto)
    then show ?thesis by (rule MOST_Suc_iff [THEN iffD1])
  qed
qed

lemma ranked_returns:
  assumes "ranked rank ds"
  shows "MOST m. \<forall>r a. returns (add_struct m ds d r a)" and "MOST m. \<forall>a. returns (add_type m ds t a)"
proof -
  have *: "\<forall>d. rank d < k \<longrightarrow> (MOST m. \<forall>r a. returns (add_struct m ds d r a))" for k
  proof (induction k rule: less_induct)
    case (less k)
    show ?case
    proof (intro allI impI)
      fix d assume d: "rank d < k"
      show "MOST m. \<forall>r a. returns (add_struct m ds d r a)"
        by (rule ranked_struct_returns [OF assms d]) (use less.IH [OF d] ranked_type_returns in blast)+
    qed
  qed
  show "MOST m. \<forall>r a. returns (add_struct m ds d r a)" using * [of "Suc (rank d)"] by simp
  obtain k where "\<forall>d \<in> set (records_of t). rank d < k"
    using finite_nat_set_iff_bounded [of "rank ` set (records_of t)"] by auto
  then show "MOST m. \<forall>a. returns (add_type m ds t a)"
    using * by (intro ranked_type_returns) auto
qed


section \<open>The sets of an ABI\<close>

lemma set_insert_names: "name ` set (set_insert name x xs) = insert (name x) (name ` set xs)"
  by (induction xs) (auto simp: set_insert_def not_less_iff_gr_or_eq)

lemma set_insert_subset: "set (set_insert name x xs) \<subseteq> insert x (set xs)"
  unfolding set_insert_def by (rule set_emplace)

lemma set_insert_keeps: "set xs \<subseteq> set (set_insert name x xs)"
  by (induction xs) (auto simp: set_insert_def)

lemma set_insert_sorted:
  "sorted_wrt (<) (map name xs) \<Longrightarrow> sorted_wrt (<) (map name (set_insert name x xs))"
proof -
  have "(\<lambda>x y :: string. x < y \<and> \<not> y < x) = (<)" by (intro ext) auto
  then have "ascending (<) ys \<longleftrightarrow> sorted_wrt (<) ys" for ys :: "string list"
    by (simp add: ascending_def)
  then show "sorted_wrt (<) (map name xs) \<Longrightarrow> sorted_wrt (<) (map name (set_insert name x xs))"
    using emplace_ascending [of "(<)" name xs x] by (simp add: set_insert_def)
qed

lemmas insert_defs = insert_struct_def insert_typedef_def insert_action_def insert_table_def

text \<open>The sets are in strict order of their names, and nothing is ever removed.\<close>

definition abi_sorted :: "abi \<Rightarrow> bool" where
  "abi_sorted a \<longleftrightarrow> sorted_wrt (<) (map s_name (structs a)) \<and> sorted_wrt (<) (map new_type_name (typedefs a)) \<and>
     sorted_wrt (<) (map a_name (actions a)) \<and> sorted_wrt (<) (map t_name (tables a))"

interpretation sorted: abi_invariant abi_sorted
  by unfold_locales (simp_all add: abi_sorted_def insert_defs set_insert_sorted)

definition type_names :: "abi \<Rightarrow> string set" where
  "type_names a = s_name ` set (structs a) \<union> new_type_name ` set (typedefs a)"

interpretation names: abi_invariant "\<lambda>a. N \<subseteq> type_names a" for N
  by unfold_locales (auto simp: type_names_def insert_defs set_insert_names)

interpretation elements: abi_invariant
  "\<lambda>a. S \<subseteq> set (structs a) \<and> T \<subseteq> set (typedefs a) \<and> A \<subseteq> set (actions a) \<and> B \<subseteq> set (tables a)" for S T A B
  by unfold_locales (auto simp: insert_defs intro: subset_trans [OF _ set_insert_keeps, THEN subsetD])

interpretation struct_names: abi_invariant "\<lambda>a. N \<subseteq> s_name ` set (structs a)" for N
  by unfold_locales (auto simp: insert_defs set_insert_names)

interpretation rest: type_invariant "\<lambda>a. actions a = xs \<and> tables a = ts" for xs ts
  by unfold_locales (auto simp: insert_defs)

end
