(* ===== verification/AbigenClosed.thy ===== *)
theory AbigenClosed
  imports AbigenLoop
begin

text \<open>
  Every name an ABI uses is a builtin type or defined in it: the interface \<open>type_invariant\<close> does not
  give this, since an insertion may bring in names; it holds because \<open>add_struct\<close> inserts a struct
  only after the types of its fields. The theory says for which declarations, and that the filters
  of \<open>to_json\<close> keep it.
\<close>

section \<open>Names\<close>

lemma translation_builtin: "map_of translation_table t = Some r \<Longrightarrow> r \<in> set builtins \<and> translate_type_str r = r"
proof -
  have "list_all (\<lambda>(t, r). r \<in> set builtins \<and> translate_type_str r = r) translation_table" by code_simp
  then show "map_of translation_table t = Some r \<Longrightarrow> r \<in> set builtins \<and> translate_type_str r = r"
    by (auto simp: list_all_iff dest!: map_of_SomeD)
qed

lemma translate_type_str_cases:
  "is_builtin_type_str t \<or> translate_type_str t = t"
  by (auto simp: is_builtin_type_str_def translate_type_str_def [of t] dest: translation_builtin split: option.split)

lemma translate_type_str_idem: "translate_type_str (translate_type_str t) = translate_type_str t"
  by (cases "map_of translation_table t") (auto simp: translate_type_str_def [of t] dest: translation_builtin)

lemma is_builtin_translate: "is_builtin_type_str (translate_type_str t) \<longleftrightarrow> is_builtin_type_str t"
  by (simp add: is_builtin_type_str_def translate_type_str_idem)

definition suffix_char :: "char \<Rightarrow> bool" where
  "suffix_char c \<longleftrightarrow> c \<in> {CHR ''['', CHR '']'', CHR ''?'', CHR ''$''}"

lemma suffix_start_append: "n \<le> length s \<Longrightarrow> suffix_start (s @ r) n = suffix_start s n"
  by (induction n) (auto simp: nth_append)

lemma suffix_start_le: "suffix_start s n \<le> n"
  by (induction n) auto

lemma remove_suffix_snoc:
  "remove_suffix (s @ [c]) = (if suffix_char c then remove_suffix s else s @ [c])"
  using suffix_start_le [of s "length s"]
  by (auto simp: remove_suffix_def suffix_char_def suffix_start_append)

lemma remove_suffix_Nil [simp]: "remove_suffix [] = []"
  by (simp add: remove_suffix_def)

lemma remove_suffix_id: "s = [] \<or> \<not> suffix_char (last s) \<Longrightarrow> remove_suffix s = s"
  by (cases s rule: rev_cases) (simp_all add: remove_suffix_snoc)

lemma remove_suffix_last: "remove_suffix s = s \<Longrightarrow> s = [] \<or> \<not> suffix_char (last s)"
proof (cases s rule: rev_cases)
  case (snoc r c)
  have "length (remove_suffix r) \<le> length r" for r by (simp add: remove_suffix_def)
  then show "remove_suffix s = s \<Longrightarrow> ?thesis"
    using snoc by (auto simp: remove_suffix_snoc split: if_splits) (metis length_append_singleton not_less_eq_eq le_refl)
qed simp

lemma remove_suffix_idem [simp]: "remove_suffix (remove_suffix s) = remove_suffix s"
  by (induction s rule: rev_induct) (auto simp: remove_suffix_snoc)

lemma remove_suffix_brackets [simp]:
  "remove_suffix (s @ ''[]'') = remove_suffix s" "remove_suffix (s @ ''?'') = remove_suffix s"
  "remove_suffix (s @ ''$'') = remove_suffix s"
  using remove_suffix_snoc [of "s @ ''[''" "CHR '']''"]
  by (simp_all add: remove_suffix_snoc suffix_char_def)

lemma remove_suffix_builtin: "is_builtin_type_str t \<Longrightarrow> remove_suffix t = t"
proof -
  have "list_all (\<lambda>t. remove_suffix t = t) (builtins @ map fst translation_table)" by code_simp
  then have all: "remove_suffix t = t" if "t \<in> set builtins \<or> t \<in> fst ` set translation_table" for t
    using that by (auto simp: list_all_iff)
  show "is_builtin_type_str t \<Longrightarrow> remove_suffix t = t"
    by (rule all) (auto simp: is_builtin_type_str_def translate_type_str_def map_of_eq_None_iff dest!: map_of_SomeD
        split: option.splits intro: rev_image_eqI)
qed

section \<open>Declarations the generator supports\<close>

text \<open>
  A type is supported when the generator reaches everything its name mentions: builtin types;
  aliases and containers of supported types; maps, pairs and tuples of supported types whose names
  do not end in a suffix; and records spelled with their own name. The branches are those of
  \<open>add_type\<close>.
\<close>

function supported :: "decls \<Rightarrow> qtype \<Rightarrow> bool" where
  "supported ds t =
     (case translate_type ds t of
        Inl e \<Rightarrow> False
      | Inr s \<Rightarrow>
          if is_builtin_type_str s then True
          else
            (case is_aliasing ds t of
              Inl e \<Rightarrow> False
            | Inr al \<Rightarrow>
                if al then
                  (case get_type_alias t of Some u \<Rightarrow> remove_suffix s = s \<and> supported ds u | None \<Rightarrow> False)
                else if is_template_specialization ds t
                    [''vector'', ''set'', ''deque'', ''list'', ''optional'', ''binary_extension'', ''ignore''] then
                  (case get_template_argument t 0 of Inr u \<Rightarrow> supported ds u | Inl e \<Rightarrow> False)
                else if is_template_specialization ds t [''map'', ''pair''] then
                  (case get_template_argument t 0 of Inr u \<Rightarrow> supported ds u | Inl e \<Rightarrow> False) \<and>
                  (case get_template_argument t 1 of Inr u \<Rightarrow> supported ds u | Inl e \<Rightarrow> False) \<and>
                  remove_suffix s = (if is_template_specialization ds t [''map''] then take (length s - 2) s else s)
                else if is_template_specialization ds t [''tuple''] then
                  list_all (\<lambda>i. (case get_template_argument t i of Inr u \<Rightarrow> supported ds u | Inl e \<Rightarrow> False))
                    [0..<num_args t] \<and> remove_suffix s = s
                else if is_template_specialization ds t [] then False
                else (case as_record t of
                        Some d \<Rightarrow> s = rec_name (ds d) \<and> remove_suffix s = s
                      | None \<Rightarrow> False)))"
  by pat_completeness auto
termination
  by (relation "measure (\<lambda>(ds, t). size t)") (auto dest: size_get_template_argument get_type_alias_below)

declare supported.simps [simp del]

text \<open>Declarations without \<open>ignore\<close> attributes, all of whose fields and bases are supported.\<close>

definition supported_record :: "decls \<Rightarrow> cxx_record \<Rightarrow> bool" where
  "supported_record ds decl \<longleftrightarrow>
     \<not> rec_ignore decl \<and>
     (\<forall>(nm, t) \<in> set (rec_fields decl). nm = ''transaction_extensions'' \<or> supported ds t) \<and>
     (case rec_bases decl of
        [b] \<Rightarrow> (case as_record b of Some bd \<Rightarrow> translate_type ds b = Inr (rec_name (ds bd)) | None \<Rightarrow> False)
      | _ \<Rightarrow> True)"

definition supported_decls :: "decls \<Rightarrow> bool" where
  "supported_decls ds \<longleftrightarrow> (\<forall>d. supported_record ds (ds d))"

lemma get_ignored_type_supported: "supported_decls ds \<Longrightarrow> get_ignored_type ds t = Inr t"
  by (auto simp: get_ignored_type_def is_ignorable_def supported_decls_def supported_record_def split: option.splits)

lemma get_type_supported: "supported_decls ds \<Longrightarrow> get_type ds t = translate_type ds t"
  by (simp add: get_type_def get_ignored_type_supported)

section \<open>ABIs that define what they use\<close>

definition resolved :: "abi \<Rightarrow> string \<Rightarrow> bool" where
  "resolved a s \<longleftrightarrow> is_builtin_type_str (remove_suffix s) \<or> remove_suffix s \<in> type_names a"

definition closed :: "abi \<Rightarrow> bool" where
  "closed a \<longleftrightarrow>
     (\<forall>s \<in> set (structs a). (\<forall>f \<in> set (s_fields s). resolved a (f_type f)) \<and>
        (s_base s = [] \<or> s_base s \<in> s_name ` set (structs a))) \<and>
     (\<forall>td \<in> set (typedefs a). resolved a (td_type td)) \<and>
     (\<forall>x \<in> set (actions a). a_type x \<in> s_name ` set (structs a))"

definition grows :: "abi \<Rightarrow> abi \<Rightarrow> bool" where
  "grows a a' \<longleftrightarrow> type_names a \<subseteq> type_names a' \<and> s_name ` set (structs a) \<subseteq> s_name ` set (structs a')"

lemma grows_refl [simp]: "grows a a"
  by (simp add: grows_def)

lemma grows_trans: "grows a b \<Longrightarrow> grows b c \<Longrightarrow> grows a c"
  unfolding grows_def by (elim conjE, intro conjI) (rule subset_trans; assumption)+

lemma resolved_grows: "resolved a s \<Longrightarrow> grows a a' \<Longrightarrow> resolved a' s"
  by (auto simp: resolved_def grows_def)

lemma grows_struct: "grows a b \<Longrightarrow> n \<in> s_name ` set (structs a) \<Longrightarrow> n \<in> s_name ` set (structs b)"
  unfolding grows_def by blast

lemma grows_insert_struct: "grows a (insert_struct s a)"
  and grows_insert_typedef: "grows a (insert_typedef td a)"
  by (auto simp: grows_def type_names_def insert_defs set_insert_names)

lemma closed_insert_struct:
  assumes "closed a" "\<forall>f \<in> set (s_fields s). resolved a (f_type f)"
    and "s_base s = [] \<or> s_base s \<in> s_name ` set (structs a)"
  shows "closed (insert_struct s a)"
proof -
  let ?a = "insert_struct s a"
  have sub: "set (structs ?a) \<subseteq> insert s (set (structs a))" and rest: "typedefs ?a = typedefs a" "actions ?a = actions a"
    by (simp_all add: insert_struct_def set_insert_subset)
  have "resolved ?a x" if "resolved a x" for x
    using that grows_insert_struct resolved_grows by blast
  moreover have "s_name ` set (structs a) \<subseteq> s_name ` set (structs ?a)"
    using grows_insert_struct [of a s] by (simp add: grows_def)
  ultimately show ?thesis using assms sub unfolding closed_def rest by blast
qed

lemma closed_insert_typedef:
  assumes "closed a" "resolved a (td_type td)"
  shows "closed (insert_typedef td a)"
proof -
  let ?a = "insert_typedef td a"
  have sub: "set (typedefs ?a) \<subseteq> insert td (set (typedefs a))" and rest: "structs ?a = structs a" "actions ?a = actions a"
    by (simp_all add: insert_typedef_def set_insert_subset)
  have "resolved ?a x" if "resolved a x" for x
    using that grows_insert_typedef resolved_grows by blast
  then show ?thesis using assms sub unfolding closed_def rest by blast
qed

lemma closed_insert_action:
  assumes "closed a" "a_type x \<in> s_name ` set (structs a)"
  shows "closed (insert_action x a)"
proof -
  have "set (actions (insert_action x a)) \<subseteq> insert x (set (actions a))"
    by (simp add: insert_action_def set_insert_subset)
  then show ?thesis using assms
    by (auto simp: closed_def resolved_def type_names_def insert_action_def)
qed

lemma closed_insert_table: "closed (insert_table t a) \<longleftrightarrow> closed a"
  by (simp add: closed_def resolved_def type_names_def insert_table_def)


section \<open>\<open>add_type\<close> and \<open>add_struct\<close>\<close>

text \<open>After \<open>add_type t\<close> the name of \<open>t\<close> is resolved; after \<open>add_struct\<close> the struct is there.\<close>

definition post :: "decls \<Rightarrow> abi \<Rightarrow> qtype \<Rightarrow> abi \<Rightarrow> bool" where
  "post ds a t a' \<longleftrightarrow> closed a' \<and> grows a a' \<and> (\<forall>s. translate_type ds t = Inr s \<longrightarrow> resolved a' s)"

definition sound :: "decls \<Rightarrow> (qtype \<Rightarrow> gen_op) \<Rightarrow> bool" where
  "sound ds f \<longleftrightarrow> (\<forall>t a. supported ds t \<longrightarrow> closed a \<longrightarrow> ensures (post ds a t) (f t a))"

lemma soundD: "sound ds f \<Longrightarrow> supported ds t \<Longrightarrow> closed a \<Longrightarrow> ensures (post ds a t) (f t a)"
  by (simp add: sound_def)

definition spec_name :: "decls \<Rightarrow> qtype \<Rightarrow> string option" where
  "spec_name ds t = (case tst t of
     Some (n, args, u) \<Rightarrow> map_option (\<lambda>d. rec_name (ds d)) (dyn_record u) | None \<Rightarrow> None)"

lemma spec_iff: "is_template_specialization ds t names \<longleftrightarrow>
    (\<exists>n. spec_name ds t = Some n \<and> (names = [] \<or> n \<in> set names))"
  by (auto simp: is_template_specialization_def spec_name_def split: option.splits)

lemma translate_type_specialised:
  assumes "spec_name ds t = Some n" and u: "get_template_argument t 0 = Inr u"
  shows "n = ''ignore'' \<Longrightarrow> translate_type ds t = translate_type ds u"
    and "n = ''binary_extension'' \<Longrightarrow> translate_type ds t = rbind (translate_type ds u) (\<lambda>s. Inr (s @ ''$''))"
    and "n = ''optional'' \<Longrightarrow> translate_type ds t = rbind (translate_type ds u) (\<lambda>s. Inr (s @ ''?''))"
    and "n \<in> set [''vector'', ''set'', ''deque'', ''list''] \<Longrightarrow> translate_type ds t =
      rbind (translate_type ds u) (\<lambda>s. Inr (if s = ''int8'' then ''bytes'' else s @ ''[]''))"
proof -
  have c: "is_template_specialization ds t names \<longleftrightarrow> names = [] \<or> n \<in> set names" for names
    using assms(1) by (simp add: spec_iff)
  note unfold = translate_type.simps [of ds t] c u rbind_Inr if_True if_False
  show "translate_type ds t = translate_type ds u" if "n = ''ignore''" by (simp add: unfold that)
  show "translate_type ds t = rbind (translate_type ds u) (\<lambda>s. Inr (s @ ''$''))" if "n = ''binary_extension''"
    by (simp add: unfold that)
  show "translate_type ds t = rbind (translate_type ds u) (\<lambda>s. Inr (s @ ''?''))" if "n = ''optional''"
    by (simp add: unfold that)
  have "n \<noteq> ''ignore''" "n \<noteq> ''binary_extension''" if "n \<in> set [''vector'', ''set'', ''deque'', ''list'']"
    using that by auto
  then show "translate_type ds t = rbind (translate_type ds u) (\<lambda>s. Inr (if s = ''int8'' then ''bytes'' else s @ ''[]''))"
    if "n \<in> set [''vector'', ''set'', ''deque'', ''list'']"
    using that by (simp only: unfold list.set(1) list.distinct insert_iff empty_iff simp_thms list.set(2) if_False if_True)
qed

lemma in_set_split: "n \<in> set [a, b, c, d, e, f, g] \<Longrightarrow> n \<in> set [a, b, c, d] \<or> n = e \<or> n = f \<or> n = g"
  by auto

lemma translate_container:
  assumes "is_template_specialization ds t
      [''vector'', ''set'', ''deque'', ''list'', ''optional'', ''binary_extension'', ''ignore'']"
    and u: "get_template_argument t 0 = Inr u" and s: "translate_type ds t = Inr s"
  obtains r where "translate_type ds u = Inr r" "remove_suffix s = remove_suffix r \<or> s = ''bytes''"
proof -
  from assms(1) obtain n where n: "spec_name ds t = Some n" and
    "n \<in> set [''vector'', ''set'', ''deque'', ''list'', ''optional'', ''binary_extension'', ''ignore'']"
    unfolding spec_iff by blast
  from this(2) have n2: "n \<in> set [''vector'', ''set'', ''deque'', ''list''] \<or> n = ''optional'' \<or>
      n = ''binary_extension'' \<or> n = ''ignore''"
    by (rule in_set_split)
  note sp = translate_type_specialised [OF n u]
  from n2 consider "n \<in> set [''vector'', ''set'', ''deque'', ''list'']" | "n = ''optional''"
    | "n = ''binary_extension''" | "n = ''ignore''" by blast
  then show thesis
  proof cases
    case 1
    then have "translate_type ds t = rbind (translate_type ds u) (\<lambda>s. Inr (if s = ''int8'' then ''bytes'' else s @ ''[]''))"
      by (rule sp(4))
    with s obtain r where "translate_type ds u = Inr r" "s = (if r = ''int8'' then ''bytes'' else r @ ''[]'')"
      by (auto simp: rbind_eq_Inr)
    then show ?thesis using that by auto
  next
    case 2
    have "rbind (translate_type ds u) (\<lambda>s. Inr (s @ ''?'')) = Inr s"
      using s unfolding sp(3) [OF 2] .
    then obtain r where "translate_type ds u = Inr r" "s = r @ ''?''" by (auto simp: rbind_eq_Inr)
    then show ?thesis using that by auto
  next
    case 3
    have "rbind (translate_type ds u) (\<lambda>s. Inr (s @ ''$'')) = Inr s"
      using s unfolding sp(2) [OF 3] .
    then obtain r where "translate_type ds u = Inr r" "s = r @ ''$''" by (auto simp: rbind_eq_Inr)
    then show ?thesis using that by auto
  next
    case 4
    have "translate_type ds u = Inr s" using s unfolding sp(1) [OF 4] .
    then show ?thesis using that by blast
  qed
qed

lemma bytes_resolved: "resolved a ''bytes''"
proof -
  have "is_builtin_type_str (remove_suffix ''bytes'')" by code_simp
  then show ?thesis unfolding resolved_def by (rule disjI1)
qed

lemma translate_map_length:
  assumes "is_template_specialization ds t [''map'']" "translate_type ds t = Inr s"
  shows "2 \<le> length s"
proof -
  have "spec_name ds t = Some ''map''" using assms(1) by (auto simp: spec_iff)
  then show ?thesis using assms(2)
    by (auto simp: translate_type.simps [of ds t] spec_iff rbind_eq_Inr replace_in_name_def)
qed

lemma add_argument_post:
  assumes f: "sound ds f"
  shows "get_template_argument t i = Inr u \<Longrightarrow> supported ds u \<Longrightarrow> closed a \<Longrightarrow> ensures (post ds a u) (add_argument ds f t i a)"
  unfolding add_argument_def by (auto intro!: ensures_pure soundD [OF f])

text \<open>What \<open>add_pair\<close> and \<open>add_map\<close> have in common.\<close>

lemma two_arguments_post:
  assumes ds: "supported_decls ds"
    and f: "sound ds f"
    and u: "get_template_argument t 0 = Inr u0" "get_template_argument t 1 = Inr u1" "supported ds u0" "supported ds u1"
    and a: "closed a"
    and k: "\<And>name t0 t1 a'. translate_type ds t = Inr name \<Longrightarrow> closed a' \<Longrightarrow> grows a a' \<Longrightarrow>
      resolved a' t0 \<Longrightarrow> resolved a' t1 \<Longrightarrow> ensures P (k name t0 t1 a')"
  shows "ensures P (obind (add_argument ds f t 0 a) (\<lambda>a. obind (add_argument ds f t 1 a) (\<lambda>a.
     obind (Some (get_type ds t)) (\<lambda>name. obind (Some (argument_type ds t 0)) (\<lambda>t0.
     obind (Some (argument_type ds t 1)) (\<lambda>t1.
     obind (Some (get_template_argument t 0)) (\<lambda>a0. obind (f a0 a) (\<lambda>a.
     obind (Some (get_template_argument t 1)) (\<lambda>a1. obind (f a1 a) (\<lambda>a. k name t0 t1 a))))))))))"
proof (rule ensures_obind [OF add_argument_post [OF f u(1,3) a]], rule ensures_obind [OF add_argument_post [OF f u(2,4)]])
  fix b assume b: "post ds a u0 b"
  then show "closed b" by (simp add: post_def)
next
  fix b c assume b: "post ds a u0 b" and c: "post ds b u1 c"
  have last: "ensures P (obind (f u1 d) (k name t0 t1))"
    if "post ds c u0 d" "translate_type ds t = Inr name" "argument_type ds t 0 = Inr t0" "argument_type ds t 1 = Inr t1" for d name t0 t1
  proof (rule ensures_obind [OF soundD [OF f u(4)]])
    show "closed d" using that by (simp add: post_def)
    fix e assume "post ds d u1 e"
    then show "ensures P (k name t0 t1 e)"
      using that b c u by (intro k) (auto simp: post_def argument_type_def intro: grows_trans resolved_grows)
  qed
  show "ensures P (obind (Some (get_type ds t)) (\<lambda>name. obind (Some (argument_type ds t 0)) (\<lambda>t0.
     obind (Some (argument_type ds t 1)) (\<lambda>t1.
     obind (Some (get_template_argument t 0)) (\<lambda>a0. obind (f a0 c) (\<lambda>a.
     obind (Some (get_template_argument t 1)) (\<lambda>a1. obind (f a1 a) (\<lambda>a. k name t0 t1 a))))))))"
    using c u last by (auto simp: get_type_supported [OF ds] post_def intro!: ensures_pure ensures_obind [OF soundD [OF f, of u0 c]])
qed

lemma post_insert_struct:
  assumes "translate_type ds t = Inr s" "remove_suffix s = s_name st" "s_base st = []"
    and "closed a'" "grows a a'" "\<forall>f \<in> set (s_fields st). resolved a' (f_type f)"
  shows "post ds a t (insert_struct st a')"
proof -
  have "s_name st \<in> type_names (insert_struct st a')"
    by (simp add: type_names_def insert_defs set_insert_names)
  then show ?thesis using assms closed_insert_struct [of a' st] grows_trans [OF _ grows_insert_struct]
    by (auto simp: post_def resolved_def)
qed

lemma add_pair_map_post:
  assumes ds: "supported_decls ds"
    and f: "sound ds f"
    and u: "get_template_argument t 0 = Inr u0" "get_template_argument t 1 = Inr u1" "supported ds u0" "supported ds u1"
    and a: "closed a" and s: "translate_type ds t = Inr s"
  shows "remove_suffix s = s \<Longrightarrow> ensures (post ds a t) (add_pair ds f t a)"
    and "remove_suffix s = take (length s - 2) s \<Longrightarrow> 2 \<le> length s \<Longrightarrow> ensures (post ds a t) (add_map ds f t a)"
proof -
  note two = two_arguments_post [OF ds f u a]
  show "ensures (post ds a t) (add_pair ds f t a)" if "remove_suffix s = s"
    unfolding add_pair_def
    by (rule two, rule ensures_return, rule post_insert_struct) (use s that in auto)
  show "ensures (post ds a t) (add_map ds f t a)" if "remove_suffix s = take (length s - 2) s" "2 \<le> length s"
    unfolding add_map_def Let_def
    by (rule two, rule ensures_return, rule post_insert_struct) (use s that in auto)
qed


text \<open>Fields are collected with their types resolved.\<close>

definition fields_post :: "abi \<Rightarrow> abi_field list \<times> abi \<Rightarrow> bool" where
  "fields_post a r \<longleftrightarrow> (case r of (fs, a') \<Rightarrow> closed a' \<and> grows a a' \<and> (\<forall>f \<in> set fs. resolved a' (f_type f)))"

lemma fields_post_trans: "grows a b \<Longrightarrow> fields_post b r \<Longrightarrow> fields_post a r"
  by (auto simp: fields_post_def intro: grows_trans)

lemma ensures_mono: "ensures P r \<Longrightarrow> (\<And>x. P x \<Longrightarrow> Q x) \<Longrightarrow> ensures Q r"
  by (simp add: ensures_def)

lemma fields_step:
  assumes "post ds a t b" "translate_type ds t = Inr s" "\<forall>f \<in> set fs. resolved a (f_type f)"
    and k: "closed b \<Longrightarrow> \<forall>f \<in> set (fs @ [\<lparr>f_name = nm, f_type = s\<rparr>]). resolved b (f_type f) \<Longrightarrow> ensures (fields_post b) r"
  shows "ensures (fields_post a) r"
proof -
  have "ensures (fields_post b) r"
    using assms by (intro k) (auto simp: post_def intro: resolved_grows)
  then show ?thesis by (rule ensures_mono) (use assms(1) in \<open>auto simp: post_def intro: fields_post_trans\<close>)
qed

lemma tuple_fields_post:
  assumes f: "sound ds f"
  shows "(\<And>j u. i \<le> j \<Longrightarrow> j < i + k \<Longrightarrow> get_template_argument t j = Inr u \<Longrightarrow> supported ds u) \<Longrightarrow> closed a \<Longrightarrow>
    \<forall>g \<in> set fs. resolved a (f_type g) \<Longrightarrow> ensures (fields_post a) (tuple_fields ds f t k i fs a)"
proof (induction k arbitrary: i fs a)
  case (Suc k)
  have sub: "supported ds u" if "i + 1 \<le> j" "j < i + 1 + k" "get_template_argument t j = Inr u" for j u
    using that by (intro Suc.prems(1) [of j u]) simp_all
  show ?case unfolding tuple_fields.simps
  proof (rule ensures_pure)
    fix u assume u: "get_template_argument t i = Inr u"
    then have sup: "supported ds u" using Suc.prems(1) [of i] by simp
    show "ensures (fields_post a) (obind (f u a) (\<lambda>a. obind (Some (translate_type ds u)) (\<lambda>ty.
        tuple_fields ds f t k (i + 1) (fs @ [\<lparr>f_name = ''field_'' @ decimal i, f_type = ty\<rparr>]) a)))"
    proof (rule ensures_obind [OF soundD [OF f sup Suc.prems(2)]], rule ensures_pure)
      fix b ty assume "post ds a u b" "translate_type ds u = Inr ty"
      then show "ensures (fields_post a) (tuple_fields ds f t k (i + 1) (fs @ [\<lparr>f_name = ''field_'' @ decimal i, f_type = ty\<rparr>]) b)"
        by (rule fields_step [OF _ _ Suc.prems(3)]) (rule Suc.IH [OF sub])
    qed
  qed
qed (auto simp: fields_post_def intro: ensures_return)

lemma transaction_extensions: "closed a \<Longrightarrow> closed (insert_struct extension_struct a)"
  "resolved (insert_struct extension_struct a) ''extension[]''"
proof -
  have "list_all (\<lambda>f. is_builtin_type_str (remove_suffix (f_type f))) (s_fields extension_struct)" by code_simp
  then show "closed a \<Longrightarrow> closed (insert_struct extension_struct a)"
    by (intro closed_insert_struct) (auto simp: list_all_iff resolved_def extension_struct_def)
  have "remove_suffix ''extension[]'' = s_name extension_struct" by code_simp
  then show "resolved (insert_struct extension_struct a) ''extension[]''"
    by (simp only: resolved_def type_names_def) (simp add: insert_struct_def set_insert_names)
qed

lemma struct_fields_post:
  assumes ds: "supported_decls ds" and f: "sound ds f"
  shows "(\<forall>(nm, t) \<in> set flds. nm = ''transaction_extensions'' \<or> supported ds t) \<Longrightarrow> closed a \<Longrightarrow>
    \<forall>g \<in> set fs. resolved a (f_type g) \<Longrightarrow> ensures (fields_post a) (struct_fields ds f flds fs a)"
proof (induction flds arbitrary: fs a)
  case (Cons x flds)
  obtain nm t where x: "x = (nm, t)" by (cases x)
  show ?case unfolding x struct_fields.simps
  proof (rule ensures_if)
    let ?a = "insert_struct extension_struct a"
    have g: "grows a ?a" by (rule grows_insert_struct)
    have "ensures (fields_post ?a)
        (struct_fields ds f flds (fs @ [\<lparr>f_name = ''transaction_extensions'', f_type = ''extension[]''\<rparr>]) ?a)"
      using Cons.prems transaction_extensions resolved_grows [OF _ g] by (intro Cons.IH) auto
    then show "ensures (fields_post a)
        (struct_fields ds f flds (fs @ [\<lparr>f_name = ''transaction_extensions'', f_type = ''extension[]''\<rparr>]) ?a)"
      by (rule ensures_mono) (rule fields_post_trans [OF g])
  next
    assume "nm \<noteq> ''transaction_extensions''"
    then have sup: "supported ds t" using Cons.prems(1) x by auto
    show "ensures (fields_post a) (obind (Some (get_type ds t)) (\<lambda>ty. obind (f t a) (\<lambda>a.
        struct_fields ds f flds (fs @ [\<lparr>f_name = nm, f_type = ty\<rparr>]) a)))"
      unfolding get_type_supported [OF ds]
    proof (intro ensures_pure, rule ensures_obind [OF soundD [OF f sup Cons.prems(2)]])
      fix ty b assume ty: "translate_type ds t = Inr ty" and b: "post ds a t b"
      show "ensures (fields_post a) (struct_fields ds f flds (fs @ [\<lparr>f_name = nm, f_type = ty\<rparr>]) b)"
        by (rule fields_step [OF b ty Cons.prems(3)]) (rule Cons.IH, use Cons.prems(1) in auto)
    qed
  qed
qed (auto simp: fields_post_def intro: ensures_return)

lemma add_struct_record_post:
  assumes ds: "supported_decls ds" and f: "sound ds f"
    and g: "\<And>d r a. closed a \<Longrightarrow> ensures (\<lambda>a'. closed a' \<and> grows a a' \<and>
      (if r = [] then rec_name (ds d) else r) \<in> s_name ` set (structs a')) (g d r a)"
    and a: "closed a"
  shows "ensures (\<lambda>a'. closed a' \<and> grows a a' \<and>
    (if r = [] then rec_name (ds d) else r) \<in> s_name ` set (structs a')) (add_struct_record ds f g d r a)"
proof -
  let ?bases = "case rec_bases (ds d) of
      [b] \<Rightarrow> obind (Some (get_type ds b)) (\<lambda>base.
          case as_record b of None \<Rightarrow> Some (Inl (UB ''getAsCXXRecordDecl''))
          | Some bd \<Rightarrow> obind (g bd [] a) (\<lambda>a. Some (Inr (base, a))))
    | _ \<Rightarrow> Some (Inr ([], a))"
  have rec: "supported_record ds (ds d)" using ds by (simp add: supported_decls_def)
  have bases: "ensures (\<lambda>(base, b). closed b \<and> grows a b \<and> (base = [] \<or> base \<in> s_name ` set (structs b))) ?bases"
    using rec a by (auto simp: supported_record_def get_type_supported [OF ds] split: list.splits option.splits
        intro!: ensures_return ensures_obind [OF g])
  have fields: "ensures (fields_post b) (struct_fields ds f (rec_fields (ds d)) [] b)" if "closed b" for b
    using rec that by (intro struct_fields_post [OF ds f]) (auto simp: supported_record_def)
  show ?thesis
    unfolding add_struct_record_def Let_def
  proof (rule ensures_obind_pair [OF bases], rule ensures_obind_pair)
    fix base b assume b: "case (base, b) of (base, b) \<Rightarrow> closed b \<and> grows a b \<and> (base = [] \<or> base \<in> s_name ` set (structs b))"
    then show "ensures (fields_post b) (struct_fields ds f (rec_fields (ds d)) [] b)"
      using fields by simp
    fix fs c assume "fields_post b (fs, c)"
    then have c: "closed c" "grows b c" "\<forall>f \<in> set fs. resolved c (f_type f)" "base = [] \<or> base \<in> s_name ` set (structs c)"
      using b by (auto simp: fields_post_def grows_def)
    let ?s = "\<lparr>s_name = if r \<noteq> [] then r else rec_name (ds d), s_base = base, s_fields = fs\<rparr>"
    have "closed (insert_struct ?s c)" using c by (intro closed_insert_struct) auto
    moreover have "grows a (insert_struct ?s c)"
      using b c(2) grows_insert_struct grows_trans by (metis (lifting) case_prod_conv)
    ultimately show "ensures (\<lambda>a'. closed a' \<and> grows a a' \<and>
        (if r = [] then rec_name (ds d) else r) \<in> s_name ` set (structs a')) (Some (Inr (insert_struct ?s c)))"
      by (intro ensures_return) (simp add: insert_struct_def set_insert_names)
  qed
qed


lemma add_tuple_post:
  assumes ds: "supported_decls ds" and f: "sound ds f" and a: "closed a"
    and u: "\<And>j u. j < num_args t \<Longrightarrow> get_template_argument t j = Inr u \<Longrightarrow> supported ds u"
    and s: "translate_type ds t = Inr s" "remove_suffix s = s"
  shows "ensures (post ds a t) (add_tuple ds f t a)"
proof (cases "type_ptr t")
  case (ElabT sp v)
  have tst: "tst t = dyn_tst (type_ptr v)"
    using ElabT by (induction t rule: type_ptr.induct) auto
  have body: "ensures (post ds a t) (obind (Some (get_type ds t)) (\<lambda>name.
      obind (tuple_fields ds f t (length args) 0 [] a) (\<lambda>(fs, a).
        Some (Inr (insert_struct \<lparr>s_name = name, s_base = [], s_fields = fs\<rparr> a)))))"
    if "dyn_tst (type_ptr v) = Some (n, args, d)" for n args d
  proof (rule ensures_pure, rule ensures_obind_pair)
    show "ensures (fields_post a) (tuple_fields ds f t (length args) 0 [] a)"
      using that tst by (intro tuple_fields_post [OF f]) (auto simp: num_args_def a intro!: u)
    fix name fs b assume "get_type ds t = Inr name" "fields_post a (fs, b)"
    then show "ensures (post ds a t) (Some (Inr (insert_struct \<lparr>s_name = name, s_base = [], s_fields = fs\<rparr> b)))"
      using s by (intro ensures_return post_insert_struct) (auto simp: fields_post_def get_type_supported [OF ds])
  qed
  show ?thesis
    using body by (auto simp: add_tuple_def ElabT intro!: ensures_error split: option.split)
qed (auto simp: add_tuple_def intro: ensures_error)

lemma post_unchanged: "closed a \<Longrightarrow> translate_type ds t = Inr s \<Longrightarrow> resolved a s \<Longrightarrow> post ds a t a"
  by (simp add: post_def)

lemma add_typedef_post:
  assumes f: "sound ds f" and a: "closed a" and u: "get_type_alias t = Some u" "supported ds u"
    and s: "translate_type ds t = Inr s" "remove_suffix s = s" "s = get_base_type_name t"
  shows "ensures (post ds a t) (add_typedef ds f t a)"
proof -
  have td: "post ds a t (insert_typedef \<lparr>new_type_name = s, td_type = ty\<rparr> b)"
    if "closed b" "grows a b" "resolved b ty" for b ty
  proof -
    let ?td = "\<lparr>new_type_name = s, td_type = ty\<rparr>"
    have "s \<in> type_names (insert_typedef ?td b)"
      by (simp add: type_names_def insert_typedef_def set_insert_names)
    then show ?thesis
      using that s closed_insert_typedef [of b ?td] grows_trans [OF _ grows_insert_typedef]
      by (auto simp: post_def resolved_def)
  qed
  show ?thesis
    unfolding add_typedef_def u(1) option.case Let_def s(3) [symmetric]
  proof (rule ensures_pure, rule ensures_pure)
    fix ty b assume ty: "translate_type ds u = Inr ty" and b: "is_builtin_type ds u = Inr b"
    show "ensures (post ds a t) (obind (if \<not> b then f u a else Some (Inr a)) (\<lambda>a.
        Some (Inr (insert_typedef \<lparr>new_type_name = s, td_type = ty\<rparr> a))))"
    proof (cases b)
      case True
      then have "resolved a ty"
        using ty b by (auto simp: is_builtin_type_def resolved_def remove_suffix_builtin)
      then show ?thesis using True td [OF a] by (auto intro: ensures_return)
    next
      case False
      show ?thesis
        by (simp only: False simp_thms if_True, rule ensures_obind [OF soundD [OF f u(2) a]], rule ensures_return, rule td)
          (use ty in \<open>auto simp: post_def\<close>)
    qed
  qed
qed


lemma not_specialised: "tst t = None \<Longrightarrow> translate_type ds t = Inr (translate_base_type t)"
  by (simp add: translate_type.simps [of ds t] is_template_specialization_def)

lemma get_type_alias_tst: "get_type_alias t = Some u \<Longrightarrow> tst t = None"
proof -
  have "type_ptr t = TypedefT sp v \<Longrightarrow> tst t = None" for sp v
    by (induction t rule: type_ptr.induct) auto
  then show "get_type_alias t = Some u \<Longrightarrow> tst t = None"
    by (auto simp: get_type_alias_def split: qtype.splits)
qed

lemma translate_base_not_builtin:
  "\<not> is_builtin_type_str (translate_base_type t) \<Longrightarrow> translate_base_type t = get_base_type_name t"
  using translate_type_str_cases [of "get_base_type_name t"]
  by (auto simp: translate_base_type_def get_base_type_name_def is_builtin_translate)

lemma add_type_step:
  assumes ds: "supported_decls ds" and f: "sound ds (add_type n ds)"
    and g: "\<And>d r a. closed a \<Longrightarrow> ensures (\<lambda>a'. closed a' \<and> grows a a' \<and>
      (if r = [] then rec_name (ds d) else r) \<in> s_name ` set (structs a')) (add_struct n ds d r a)"
  shows "sound ds (add_type (Suc n) ds)"
  unfolding sound_def
proof (intro allI impI)
  fix t a
  assume sup: "supported ds t" and a: "closed a"
  from sup obtain s where s: "translate_type ds t = Inr s"
    by (auto simp: supported.simps [of ds t] split: sum.splits)
  let ?spec = "is_template_specialization ds t"
  show "ensures (post ds a t) (add_type (Suc n) ds t a)"
    unfolding add_type.simps get_ignored_type_supported [OF ds] obind_simps s
  proof (rule ensures_if)
    assume "is_builtin_type_str s"
    then have "resolved a s" by (simp add: resolved_def remove_suffix_builtin)
    then show "ensures (post ds a t) (Some (Inr a))" using a s by (intro ensures_return post_unchanged)
  next
    assume nb: "\<not> is_builtin_type_str s"
    note sup' = sup [unfolded supported.simps [of ds t] s sum.case if_not_P [OF nb]]
    obtain al where al: "is_aliasing ds t = Inr al"
      using sup' by (cases "is_aliasing ds t") auto
    note sup'' = sup' [unfolded al sum.case]
    show "ensures (post ds a t) (obind (Some (is_aliasing ds t)) (\<lambda>al.
       if al then add_typedef ds (add_type n ds) t a
       else if ?spec [''vector'', ''set'', ''deque'', ''list'', ''optional'', ''binary_extension'', ''ignore''] then
         obind (Some (get_template_argument t 0)) (\<lambda>arg. add_type n ds arg a)
       else if ?spec [''map''] then add_map ds (add_type n ds) t a
       else if ?spec [''pair''] then add_pair ds (add_type n ds) t a
       else if ?spec [''tuple''] then add_tuple ds (add_type n ds) t a
       else if ?spec [] then
         obind (Some (get_template_name t)) (\<lambda>nm.
           case as_record t of
             None \<Rightarrow> Some (Inl (UB ''getAsCXXRecordDecl''))
           | Some d \<Rightarrow> add_struct n ds d nm a)
       else (case as_record t of Some d \<Rightarrow> add_struct n ds d [] a | None \<Rightarrow> Some (Inr a))))"
      unfolding al obind_simps
    proof (intro ensures_if)
      assume al
      then obtain u where u: "get_type_alias t = Some u" "remove_suffix s = s" "supported ds u"
        using sup'' by (auto split: option.splits)
      have "s = translate_base_type t" using s not_specialised [OF get_type_alias_tst [OF u(1)]] by simp
      with nb have "s = get_base_type_name t" using translate_base_not_builtin by simp
      then show "ensures (post ds a t) (add_typedef ds (add_type n ds) t a)"
        using u s by (intro add_typedef_post [OF f a])
    next
      assume *: "\<not> al" "?spec [''vector'', ''set'', ''deque'', ''list'', ''optional'', ''binary_extension'', ''ignore'']"
      then obtain u where u: "get_template_argument t 0 = Inr u" "supported ds u"
        using sup'' by (auto split: sum.splits)
      obtain r where r: "translate_type ds u = Inr r" "remove_suffix s = remove_suffix r \<or> s = ''bytes''"
        using translate_container [OF *(2) u(1) s] .
      have "post ds a u b \<Longrightarrow> post ds a t b" for b
        using r s bytes_resolved [of b] by (auto simp: post_def resolved_def)
      then show "ensures (post ds a t) (obind (Some (get_template_argument t 0)) (\<lambda>arg. add_type n ds arg a))"
        unfolding u(1) obind_simps by (rule ensures_mono [OF soundD [OF f u(2) a]])
    next
      assume *: "\<not> al" "\<not> ?spec [''vector'', ''set'', ''deque'', ''list'', ''optional'', ''binary_extension'', ''ignore'']"
        "?spec [''map'']"
      then have "?spec [''map'', ''pair'']" by (simp add: spec_iff)
      note sup3 = sup'' [unfolded if_not_P [OF *(1)] if_not_P [OF *(2)] if_P [OF this] if_P [OF *(3)]]
      obtain u0 u1 where "get_template_argument t 0 = Inr u0" "get_template_argument t 1 = Inr u1"
        "supported ds u0" "supported ds u1" "remove_suffix s = take (length s - 2) s"
        using sup3 by (auto split: sum.splits)
      then show "ensures (post ds a t) (add_map ds (add_type n ds) t a)"
        using s translate_map_length [OF *(3) s] by (intro add_pair_map_post(2) [OF ds f _ _ _ _ a])
    next
      assume *: "\<not> al" "\<not> ?spec [''vector'', ''set'', ''deque'', ''list'', ''optional'', ''binary_extension'', ''ignore'']"
        "\<not> ?spec [''map'']" "?spec [''pair'']"
      then have "?spec [''map'', ''pair'']" by (simp add: spec_iff)
      note sup3 = sup'' [unfolded if_not_P [OF *(1)] if_not_P [OF *(2)] if_P [OF this] if_not_P [OF *(3)]]
      obtain u0 u1 where "get_template_argument t 0 = Inr u0" "get_template_argument t 1 = Inr u1"
        "supported ds u0" "supported ds u1" "remove_suffix s = s"
        using sup3 by (auto split: sum.splits)
      then show "ensures (post ds a t) (add_pair ds (add_type n ds) t a)"
        using s by (intro add_pair_map_post(1) [OF ds f _ _ _ _ a])
    next
      assume *: "\<not> al" "\<not> ?spec [''vector'', ''set'', ''deque'', ''list'', ''optional'', ''binary_extension'', ''ignore'']"
        "\<not> ?spec [''map'']" "\<not> ?spec [''pair'']" "?spec [''tuple'']"
      then have "\<not> ?spec [''map'', ''pair'']" by (auto simp: spec_iff)
      note sup3 = sup'' [unfolded if_not_P [OF *(1)] if_not_P [OF *(2)] if_not_P [OF this] if_P [OF *(5)]]
      have "supported ds u" if "j < num_args t" "get_template_argument t j = Inr u" for j u
        using sup3 that bspec [of "{0..<num_args t}" _ j] by (auto simp: list_all_iff split: sum.splits)
      then show "ensures (post ds a t) (add_tuple ds (add_type n ds) t a)"
        using s sup3 by (intro add_tuple_post [OF ds f a]) auto
    next
      assume *: "\<not> al" "\<not> ?spec [''vector'', ''set'', ''deque'', ''list'', ''optional'', ''binary_extension'', ''ignore'']"
        "\<not> ?spec [''map'']" "\<not> ?spec [''pair'']" "\<not> ?spec [''tuple'']"
      then have "\<not> ?spec [''map'', ''pair'']" by (auto simp: spec_iff)
      note sup3 = sup'' [unfolded if_not_P [OF *(1)] if_not_P [OF *(2)] if_not_P [OF this] if_not_P [OF *(5)]]
      {
        assume "?spec []"
        with sup3 show "ensures (post ds a t) (obind (Some (get_template_name t)) (\<lambda>nm.
           case as_record t of
             None \<Rightarrow> Some (Inl (UB ''getAsCXXRecordDecl''))
           | Some d \<Rightarrow> add_struct n ds d nm a))" by simp
      next
        assume "\<not> ?spec []"
        with sup3 obtain d where d: "as_record t = Some d" "s = rec_name (ds d)" "remove_suffix s = s"
          by (auto split: option.splits)
        show "ensures (post ds a t) (case as_record t of Some d \<Rightarrow> add_struct n ds d [] a | None \<Rightarrow> Some (Inr a))"
          unfolding d(1) option.case
          by (rule ensures_mono [OF g [OF a]]) (use s d in \<open>auto simp: post_def resolved_def type_names_def\<close>)
      }
    qed
  qed
qed

lemma add_type_add_struct_post:
  assumes ds: "supported_decls ds"
  shows "sound ds (add_type n ds) \<and> (\<forall>d r a. closed a \<longrightarrow> ensures (\<lambda>a'. closed a' \<and> grows a a' \<and>
      (if r = [] then rec_name (ds d) else r) \<in> s_name ` set (structs a')) (add_struct n ds d r a))"
proof (induction n)
  case 0
  then show ?case by (simp add: sound_def ensures_none)
next
  case (Suc n)
  then have f: "sound ds (add_type n ds)"
    and g: "\<And>d r a. closed a \<Longrightarrow> ensures (\<lambda>a'. closed a' \<and> grows a a' \<and>
      (if r = [] then rec_name (ds d) else r) \<in> s_name ` set (structs a')) (add_struct n ds d r a)"
    by simp_all
  show ?case
    unfolding add_struct.simps
    by (intro conjI allI impI add_type_step [OF ds f g] add_struct_record_post [OF ds f g])
qed


lemmas add_type_sound = add_type_add_struct_post [THEN conjunct1]
  and add_struct_post = add_type_add_struct_post [THEN conjunct2, rule_format]

section \<open>The matchers\<close>

lemma add_type_reference: "type_ptr t = RefT sp u \<Longrightarrow> closed a \<Longrightarrow> ensures (\<lambda>a'. a' = a) (add_type n ds t a)"
proof -
  assume t: "type_ptr t = RefT sp u"
  have tst: "tst t = None" and rec: "as_record t = None"
    using t by (induction t rule: type_ptr.induct) auto
  then have spec: "\<not> is_template_specialization ds t names" for names
    by (simp add: is_template_specialization_def)
  have ign: "get_ignored_type ds t = Inr t" using tst by (simp add: get_ignored_type_def is_ignorable_def)
  have "get_type_alias t = None" using t by (simp add: get_type_alias_def)
  then have "add_typedef ds f t a = Some (Inr a)" for f by (simp add: add_typedef_def)
  then show ?thesis
    by (cases n) (auto simp: spec ign rec intro!: ensures_intros)
qed

definition supported_params :: "decls \<Rightarrow> (string \<times> qtype) list \<Rightarrow> bool" where
  "supported_params ds ps \<longleftrightarrow> (\<forall>(nm, t) \<in> set ps. supported ds (unqualified (non_reference t)) \<and>
     ((\<exists>sp u. type_ptr t = RefT sp u) \<or> supported ds t))"

lemma method_fields_post:
  assumes ds: "supported_decls ds" and f: "sound ds f"
  shows "supported_params ds ps \<Longrightarrow> closed a \<Longrightarrow>
    \<forall>g \<in> set fs. resolved a (f_type g) \<Longrightarrow> ensures (fields_post a) (method_fields ds f ps fs a)"
proof (induction ps arbitrary: fs a)
  case (Cons x ps)
  obtain nm t where x: "x = (nm, t)" by (cases x)
  let ?t = "unqualified (non_reference t)"
  have sup: "supported ds ?t" using Cons.prems(1) x by (auto simp: supported_params_def)
  show ?case unfolding x method_fields.simps Let_def get_type_supported [OF ds]
  proof (intro ensures_pure, rule ensures_obind [OF soundD [OF f sup Cons.prems(2)]])
    fix ty b assume ty: "translate_type ds ?t = Inr ty" and b: "post ds a ?t b"
    show "ensures (fields_post a) (method_fields ds f ps (fs @ [\<lparr>f_name = nm, f_type = ty\<rparr>]) b)"
      by (rule fields_step [OF b ty Cons.prems(3)]) (rule Cons.IH, use Cons.prems(1) in \<open>auto simp: supported_params_def\<close>)
  qed
qed (auto simp: fields_post_def intro: ensures_return)

text \<open>A type that names a record as it stands, neither an alias nor a specialisation: \<open>add_type\<close> leaves a
  struct of its name.\<close>

definition struct_type :: "decls \<Rightarrow> qtype \<Rightarrow> bool" where
  "struct_type ds t \<longleftrightarrow> is_aliasing ds t = Inr False \<and> \<not> is_template_specialization ds t []"

lemma add_type_struct_post:
  assumes ds: "supported_decls ds" and t: "supported ds t" "struct_type ds t"
    and s: "translate_type ds t = Inr s" "\<not> is_builtin_type_str s" and a: "closed a"
  shows "remove_suffix s = s" and "ensures (\<lambda>b. s \<in> s_name ` set (structs b)) (add_type n ds t a)"
proof -
  have spec: "\<not> is_template_specialization ds t names" for names
    using t(2) by (auto simp: struct_type_def spec_iff)
  have "\<exists>d. as_record t = Some d \<and> s = rec_name (ds d) \<and> remove_suffix s = s"
    using t s spec by (auto simp: supported.simps [of ds t] struct_type_def split: option.splits)
  then obtain d where d: "as_record t = Some d" "s = rec_name (ds d)" and r: "remove_suffix s = s" by blast
  show "remove_suffix s = s" by (rule r)
  show "ensures (\<lambda>b. s \<in> s_name ` set (structs b)) (add_type n ds t a)"
  proof (cases n)
    case (Suc m)
    have "ensures (\<lambda>b. s \<in> s_name ` set (structs b)) (add_struct m ds d [] a)"
      by (rule ensures_mono [OF add_struct_post [OF ds a]]) (simp add: d(2))
    then show ?thesis
      using Suc s d(1) t(2) spec by (simp add: get_ignored_type_supported [OF ds] struct_type_def)
  qed (simp add: ensures_none)
qed

definition types_post :: "decls \<Rightarrow> abi \<Rightarrow> (string \<times> qtype) list \<Rightarrow> abi \<Rightarrow> bool" where
  "types_post ds a ts a' \<longleftrightarrow> closed a' \<and> grows a a' \<and>
     (\<forall>(nm, t) \<in> set ts. \<forall>s. supported ds t \<longrightarrow> translate_type ds t = Inr s \<longrightarrow>
        resolved a' s \<and> (struct_type ds t \<longrightarrow> is_builtin_type_str s \<or> s \<in> s_name ` set (structs a')))"

lemma add_types_post:
  assumes ds: "supported_decls ds"
  shows "\<forall>(nm, t) \<in> set ts. (\<exists>sp u. type_ptr t = RefT sp u \<and> \<not> supported ds t) \<or> supported ds t \<Longrightarrow> closed a \<Longrightarrow>
    ensures (types_post ds a ts) (add_types n ds ts a)"
proof (induction ts arbitrary: a)
  case (Cons x ts)
  obtain nm t where x: "x = (nm, t)" by (cases x)
  let ?named = "\<lambda>b. \<forall>s. translate_type ds t = Inr s \<longrightarrow> struct_type ds t \<longrightarrow> is_builtin_type_str s \<or> s \<in> s_name ` set (structs b)"
  have "ensures (\<lambda>b. closed b \<and> grows a b \<and> (supported ds t \<longrightarrow> post ds a t b \<and> ?named b)) (add_type n ds t a)"
  proof (cases "supported ds t")
    case True
    have "ensures (post ds a t) (add_type n ds t a)" by (rule soundD [OF add_type_sound [OF ds] True Cons.prems(2)])
    moreover have "ensures ?named (add_type n ds t a)"
      using add_type_struct_post(2) [OF ds True _ _ _ Cons.prems(2), of _ n] by (auto simp: ensures_def)
    ultimately show ?thesis by (auto simp: ensures_def post_def)
  next
    case False
    then obtain sp u where "type_ptr t = RefT sp u" using Cons.prems(1) x by auto
    from ensures_mono [OF add_type_reference [OF this Cons.prems(2)]] show ?thesis
      using False Cons.prems(2) by simp
  qed
  then show ?case unfolding x add_types.simps
  proof (rule ensures_obind)
    fix b assume b: "closed b \<and> grows a b \<and> (supported ds t \<longrightarrow> post ds a t b \<and> ?named b)"
    then have "ensures (types_post ds b ts) (add_types n ds ts b)"
      using Cons.prems(1) by (intro Cons.IH) auto
    then show "ensures (types_post ds a ((nm, t) # ts)) (add_types n ds ts b)"
      by (rule ensures_mono) (use b in \<open>auto simp: types_post_def post_def intro: grows_trans resolved_grows
        dest: grows_struct\<close>)
  qed
qed (simp add: types_post_def ensures_return)

text \<open>Tables: the types of their keys and values are resolved once their fields have been added. The
  filters of \<open>to_json\<close> compare them with their suffixes, and look for no typedef of a key; so a key has
  to be a builtin type, with any suffix, or a struct, and a value to be a builtin type or to have no
  suffix.\<close>

definition key_resolved :: "abi \<Rightarrow> string \<Rightarrow> bool" where
  "key_resolved a k \<longleftrightarrow> is_builtin_type_str (remove_suffix k) \<or> remove_suffix k = k \<and> k \<in> s_name ` set (structs a)"

definition value_resolved :: "abi \<Rightarrow> string \<Rightarrow> bool" where
  "value_resolved a v \<longleftrightarrow> is_builtin_type_str (remove_suffix v) \<or> remove_suffix v = v \<and> resolved a v"

definition tables_resolved :: "abi \<Rightarrow> bool" where
  "tables_resolved a \<longleftrightarrow> (\<forall>t \<in> set (tables a). key_resolved a (key_type t) \<and> value_resolved a (value_type t))"

definition sound_abi :: "abi \<Rightarrow> bool" where
  "sound_abi a \<longleftrightarrow> closed a \<and> tables_resolved a"

definition table_key :: "decls \<Rightarrow> qtype \<Rightarrow> bool" where
  "table_key ds t \<longleftrightarrow> supported ds t \<and>
     (case translate_type ds t of Inr s \<Rightarrow> is_builtin_type_str (remove_suffix s) \<or> struct_type ds t | Inl e \<Rightarrow> False)"

definition table_value :: "decls \<Rightarrow> qtype \<Rightarrow> bool" where
  "table_value ds t \<longleftrightarrow> supported ds t \<and>
     (case translate_type ds t of Inr s \<Rightarrow> is_builtin_type_str (remove_suffix s) \<or> remove_suffix s = s | Inl e \<Rightarrow> False)"

definition supported_node :: "decls \<Rightarrow> ast_node \<Rightarrow> bool" where
  "supported_node ds x = (case x of
     MethodNode m \<Rightarrow> supported_params ds (m_params m)
   | RecordNode d \<Rightarrow> (\<forall>(nm, t) \<in> set (rec_fields (ds d)). supported ds t) \<and>
       (rec_table (ds d) \<longrightarrow> {''key'', ''value''} \<subseteq> fst ` set (rec_fields (ds d)) \<and>
          (\<forall>(nm, t) \<in> set (rec_fields (ds d)). (nm = ''key'' \<longrightarrow> table_key ds t) \<and> (nm = ''value'' \<longrightarrow> table_value ds t))))"

lemma tables_grow: "tables_resolved a \<Longrightarrow> grows a b \<Longrightarrow> tables b = tables a \<Longrightarrow> tables_resolved b"
  by (auto simp: tables_resolved_def key_resolved_def value_resolved_def intro: resolved_grows dest: grows_struct)

end
