(* ===== verification/AbigenProperties.thy ===== *)
theory AbigenProperties
  imports AbigenClosed
begin

text \<open>
  Properties of the ABI generator: which names the generated file defines, which actions and tables
  it lists, that its sets are ordered, and for which declarations it returns.
\<close>

section \<open>The matchers keep the ABI sound\<close>

lemma insert_action_sound:
  assumes "sound_abi a" "a_type x \<in> s_name ` set (structs a)"
  shows "sound_abi (insert_action x a)"
proof -
  have "key_resolved (insert_action x a) k = key_resolved a k" "value_resolved (insert_action x a) k = value_resolved a k" for k
    by (simp_all add: key_resolved_def value_resolved_def resolved_def type_names_def insert_action_def)
  moreover have "tables (insert_action x a) = tables a" by (simp add: insert_action_def)
  ultimately show ?thesis using assms closed_insert_action [of a x] by (simp add: sound_abi_def tables_resolved_def)
qed

lemma add_action_type:
  "add_action_method decl a = Inr a' \<Longrightarrow> \<exists>n. a' = insert_action \<lparr>a_name = n, a_type = m_name decl\<rparr> a"
  "add_action_record r a = Inr a' \<Longrightarrow> \<exists>n. a' = insert_action \<lparr>a_name = n, a_type = rec_name r\<rparr> a"
  by (auto simp: add_action_method_eq add_action_record_def rbind_eq_Inr split: option.splits if_splits)

lemma struct_sound:
  assumes "sound_abi a" and r: "ensures (\<lambda>b. closed b \<and> grows a b \<and> x \<in> s_name ` set (structs b)) r"
    and rest: "ensures (\<lambda>b. actions b = actions a \<and> tables b = tables a) r"
  shows "ensures (\<lambda>b. sound_abi b \<and> grows a b \<and> x \<in> s_name ` set (structs b)) r"
  using assms tables_grow by (auto simp: ensures_def sound_abi_def)

lemma add_types_sound:
  assumes "supported_decls ds" "sound_abi a"
    and "\<forall>(nm, t) \<in> set ts. (\<exists>sp u. type_ptr t = RefT sp u \<and> \<not> supported ds t) \<or> supported ds t"
  shows "ensures (\<lambda>b. sound_abi b) (add_types n ds ts a)"
  using add_types_post [OF assms(1,3), of a n] rest.add_types [of a "actions a" "tables a" n ds ts] assms(2) tables_grow
  by (auto simp: ensures_def sound_abi_def types_post_def)

lemma add_struct_method_sound:
  assumes ds: "supported_decls ds" and "supported_params ds (m_params m)" and a: "sound_abi a"
  shows "ensures (\<lambda>b. sound_abi b \<and> grows a b \<and> m_name m \<in> s_name ` set (structs b))
    (add_struct_method ds (add_type n ds) m a)"
proof (rule struct_sound [OF a])
  have "ensures (fields_post a) (method_fields ds (add_type n ds) (m_params m) [] a)"
    using assms by (intro method_fields_post [OF ds add_type_sound [OF ds]]) (auto simp: sound_abi_def)
  then show "ensures (\<lambda>b. closed b \<and> grows a b \<and> m_name m \<in> s_name ` set (structs b))
      (add_struct_method ds (add_type n ds) m a)"
    unfolding add_struct_method_def
  proof (rule ensures_obind_pair)
    fix fs b assume b: "fields_post a (fs, b)"
    let ?s = "\<lparr>s_name = m_name m, s_base = [], s_fields = fs\<rparr>"
    have "closed (insert_struct ?s b)" "grows a (insert_struct ?s b)"
      using b by (auto simp: fields_post_def intro!: closed_insert_struct intro: grows_trans [OF _ grows_insert_struct])
    then show "ensures (\<lambda>b. closed b \<and> grows a b \<and> m_name m \<in> s_name ` set (structs b)) (Some (Inr (insert_struct ?s b)))"
      by (intro ensures_return) (simp add: insert_struct_def set_insert_names)
  qed
  show "ensures (\<lambda>b. actions b = actions a \<and> tables b = tables a) (add_struct_method ds (add_type n ds) m a)"
    by (rule rest.add_struct_method) simp
qed

lemma method_matcher_sound:
  assumes ds: "supported_decls ds" and m: "supported_node ds (MethodNode m)" and a: "sound_abi a"
  shows "ensures sound_abi (method_matcher n ds cn m a)"
proof -
  have ps: "supported_params ds (m_params m)" using m by (simp add: supported_node_def)
  have types: "ensures sound_abi (add_types n ds (m_params m) c)" if "sound_abi c" for c
    using ps by (intro add_types_sound [OF ds that]) (auto simp: supported_params_def)
  have act: "ensures sound_abi (obind (Some (add_action_method m b)) (add_types n ds (m_params m)))"
    if "sound_abi b" "m_name m \<in> s_name ` set (structs b)" for b
  proof (rule ensures_pure)
    fix c assume "add_action_method m b = Inr c"
    then obtain x where "c = insert_action \<lparr>a_name = x, a_type = m_name m\<rparr> b" using add_action_type(1) by blast
    then have "sound_abi c" using that by (simp add: insert_action_sound)
    then show "ensures sound_abi (add_types n ds (m_params m) c)" by (rule types)
  qed
  show ?thesis
    unfolding method_matcher_def
    by (intro ensures_if ensures_return a ensures_obind [OF add_struct_method_sound [OF ds ps a]]) (rule act; blast)
qed

lemma table_types_found:
  assumes ds: "supported_decls ds"
  shows "table_types ds flds (k0, v0) = Inr (k, v) \<Longrightarrow>
    (k = k0 \<and> ''key'' \<notin> fst ` set flds \<or> (\<exists>t. (''key'', t) \<in> set flds \<and> translate_type ds t = Inr k)) \<and>
    (v = v0 \<and> ''value'' \<notin> fst ` set flds \<or> (\<exists>t. (''value'', t) \<in> set flds \<and> translate_type ds t = Inr v))"
proof (induction flds arbitrary: k0 v0)
  case (Cons x flds)
  obtain nm t where x: "x = (nm, t)" by (cases x)
  consider "nm = ''key''" | "nm = ''value''" | "nm \<noteq> ''key''" "nm \<noteq> ''value''" by blast
  then show ?case
  proof cases
    case 1
    then obtain k1 where "translate_type ds t = Inr k1" "table_types ds flds (k1, v0) = Inr (k, v)"
      using Cons.prems x by (auto simp: rbind_eq_Inr get_type_supported [OF ds])
    with Cons.IH [of k1 v0] 1 x show ?thesis by fastforce
  next
    case 2
    then obtain v1 where "translate_type ds t = Inr v1" "table_types ds flds (k0, v1) = Inr (k, v)"
      using Cons.prems x by (auto simp: rbind_eq_Inr get_type_supported [OF ds])
    with Cons.IH [of k0 v1] 2 x show ?thesis by fastforce
  next
    case 3
    with Cons.prems x have "table_types ds flds (k0, v0) = Inr (k, v)" by simp
    with Cons.IH [of k0 v0] 3 x show ?thesis by fastforce
  qed
qed simp

text \<open>After \<open>add_table\<close> one table may mention types that are only there once its fields are added.\<close>

lemma insert_table_sound:
  assumes ds: "supported_decls ds" and "sound_abi a" "ensures (types_post ds (insert_table tb a) ts) r"
    and "ensures (\<lambda>b. actions b = actions a \<and> tables b = tables (insert_table tb a)) r"
    and kv: "\<exists>t. (''key'', t) \<in> set ts \<and> table_key ds t \<and> translate_type ds t = Inr (key_type tb)"
      "\<exists>t. (''value'', t) \<in> set ts \<and> table_value ds t \<and> translate_type ds t = Inr (value_type tb)"
  shows "ensures sound_abi r"
  unfolding ensures_def
proof (intro allI impI)
  fix b assume r: "r = Some (Inr b)"
  then have b: "types_post ds (insert_table tb a) ts b" "tables b = tables (insert_table tb a)"
    using assms(3,4) by (simp_all add: ensures_def)
  have g: "grows a b" using b(1)
    by (simp add: types_post_def grows_def type_names_def insert_table_def)
  have "key_resolved b (key_type t) \<and> value_resolved b (value_type t)" if "t \<in> set (tables a)" for t
    using that assms(2) resolved_grows [OF _ g]
    by (auto simp: sound_abi_def tables_resolved_def key_resolved_def value_resolved_def intro: grows_struct [OF g])
  moreover have res: "resolved b s \<and> (struct_type ds t \<longrightarrow> is_builtin_type_str s \<or> s \<in> s_name ` set (structs b))"
    if "(nm, t) \<in> set ts" "supported ds t" "translate_type ds t = Inr s" for nm t s
    using b(1) that by (fastforce simp: types_post_def)
  have "key_resolved b (key_type tb)"
  proof -
    obtain t where t: "(''key'', t) \<in> set ts" "table_key ds t" "translate_type ds t = Inr (key_type tb)" using kv(1) by blast
    then have sup: "supported ds t" by (simp add: table_key_def)
    have "closed empty_abi" by (simp add: closed_def empty_abi_def)
    with add_type_struct_post(1) [OF ds sup _ t(3)] res [OF t(1) sup t(3)] t(2,3) remove_suffix_builtin [of "key_type tb"]
    show ?thesis by (auto simp: table_key_def key_resolved_def)
  qed
  moreover have "value_resolved b (value_type tb)"
    using kv(2) res by (auto simp: table_value_def value_resolved_def)
  moreover have "set (tables b) \<subseteq> insert tb (set (tables a))"
    unfolding b(2) by (simp add: insert_table_def set_insert_subset)
  ultimately show "sound_abi b"
    using b(1) by (auto simp: sound_abi_def tables_resolved_def types_post_def)
qed

lemma record_matcher_sound:
  assumes ds: "supported_decls ds" and d: "supported_node ds (RecordNode d)" and a: "sound_abi a"
  shows "ensures sound_abi (record_matcher n ds cn d a)"
proof -
  have flds: "\<forall>(nm, t) \<in> set (rec_fields (ds d)). supported ds t" using d by (simp add: supported_node_def)
  then have flds': "\<forall>(nm, t) \<in> set (rec_fields (ds d)). (\<exists>sp u. type_ptr t = RefT sp u \<and> \<not> supported ds t) \<or> supported ds t"
    by auto
  have struct: "ensures (\<lambda>b. sound_abi b \<and> grows a b \<and> rec_name (ds d) \<in> s_name ` set (structs b)) (add_struct n ds d [] a)"
    using add_struct_post [OF ds, where a = a and n = n and r = "[]" and d = d] a
    by (intro struct_sound [OF a] rest.add_struct) (simp_all add: sound_abi_def)
  have act: "ensures sound_abi (obind (Some (add_action_record (ds d) b)) (add_types n ds (rec_fields (ds d))))"
    if "sound_abi b" "rec_name (ds d) \<in> s_name ` set (structs b)" for b
  proof (rule ensures_pure)
    fix c assume "add_action_record (ds d) b = Inr c"
    then obtain x where "c = insert_action \<lparr>a_name = x, a_type = rec_name (ds d)\<rparr> b" using add_action_type(2) by blast
    then have "sound_abi c" using that by (simp add: insert_action_sound)
    then show "ensures sound_abi (add_types n ds (rec_fields (ds d)) c)" by (rule add_types_sound [OF ds _ flds'])
  qed
  have tab: "ensures sound_abi (obind (Some (add_table ds (ds d) b)) (add_types n ds (rec_fields (ds d))))"
    if b: "sound_abi b" and t: "rec_table (ds d)" for b
  proof (rule ensures_pure)
    fix c assume "add_table ds (ds d) b = Inr c"
    then obtain k v where kv: "table_types ds (rec_fields (ds d)) ([], []) = Inr (k, v)"
      and c: "c = insert_table \<lparr>t_name = rec_name (ds d), key_type = k, value_type = v\<rparr> b"
      by (auto simp: add_table_def rbind_eq_Inr)
    have "closed c" using b c by (simp add: sound_abi_def closed_insert_table)
    then have "ensures (types_post ds c (rec_fields (ds d))) (add_types n ds (rec_fields (ds d)) c)"
      by (intro add_types_post [OF ds flds'])
    moreover have "ensures (\<lambda>e. actions e = actions b \<and> tables e = tables c) (add_types n ds (rec_fields (ds d)) c)"
      by (rule rest.add_types) (simp add: c insert_table_def)
    moreover have "{''key'', ''value''} \<subseteq> fst ` set (rec_fields (ds d))"
      "\<forall>(nm, t) \<in> set (rec_fields (ds d)). (nm = ''key'' \<longrightarrow> table_key ds t) \<and> (nm = ''value'' \<longrightarrow> table_value ds t)"
      using d t by (simp_all add: supported_node_def)
    ultimately show "ensures sound_abi (add_types n ds (rec_fields (ds d)) c)"
      using table_types_found [OF ds kv] unfolding c
      by (intro insert_table_sound [OF ds b]) auto
  qed
  show ?thesis
    unfolding record_matcher_def Let_def
    by (rule ensures_obind [where Q = sound_abi]; intro ensures_if ensures_return a ensures_obind [OF struct])
      (auto intro: act tab)
qed

lemma run_matchers_sound:
  assumes "supported_decls ds"
  shows "\<forall>x \<in> set nodes. supported_node ds x \<Longrightarrow> sound_abi a \<Longrightarrow> ensures sound_abi (run_matchers n ds cn nodes a)"
proof (induction nodes arbitrary: a)
  case (Cons x nodes)
  show ?case
  proof (cases x)
    case (MethodNode m)
    then show ?thesis using Cons method_matcher_sound [OF assms]
      by (auto intro!: ensures_obind [where Q = sound_abi])
  next
    case (RecordNode d)
    then show ?thesis using Cons record_matcher_sound [OF assms]
      by (auto intro!: ensures_obind [where Q = sound_abi])
  qed
qed (simp add: ensures_return)


section \<open>What the file uses and defines\<close>

fun json_member :: "string \<Rightarrow> json \<Rightarrow> json option" where
  "json_member k (JObject kvs) = map_of kvs k"
| "json_member k j = None"

definition json_entries :: "string \<Rightarrow> json \<Rightarrow> json list" where
  "json_entries k j = (case json_member k j of Some (JArray xs) \<Rightarrow> xs | _ \<Rightarrow> [])"

definition json_strings :: "string \<Rightarrow> json list \<Rightarrow> string list" where
  "json_strings k xs = concat (map (\<lambda>x. case json_member k x of Some (JString s) \<Rightarrow> [s] | _ \<Rightarrow> []) xs)"

definition abi_defines :: "json \<Rightarrow> string list" where
  "abi_defines j = json_strings ''name'' (json_entries ''structs'' j) @
     json_strings ''new_type_name'' (json_entries ''types'' j)"

text \<open>Names that a reader of the file has to find: of the types of fields, typedefs, and keys and
  values of tables, each without its suffixes, of bases, and of actions.\<close>

definition abi_uses :: "json \<Rightarrow> string list" where
  "abi_uses j =
     map remove_suffix (json_strings ''type'' (concat (map (json_entries ''fields'') (json_entries ''structs'' j))) @
       json_strings ''type'' (json_entries ''types'' j) @
       json_strings ''key_type'' (json_entries ''tables'' j) @ json_strings ''value_type'' (json_entries ''tables'' j)) @
     filter (\<lambda>b. b \<noteq> []) (json_strings ''base'' (json_entries ''structs'' j)) @
     json_strings ''type'' (json_entries ''actions'' j)"

lemma to_json_entries:
  "json_entries ''structs'' (to_json a) = map struct_to_json (filter (validate_struct a) (structs a))"
  "json_entries ''types'' (to_json a) = map typedef_to_json (filter (validate_types a) (typedefs a))"
  "json_entries ''actions'' (to_json a) = map action_to_json (actions a)"
  "json_entries ''tables'' (to_json a) = map table_to_json (tables a)"
  by (simp_all add: json_entries_def to_json_def)

lemma json_strings_map:
  "(\<And>x. json_member k (f x) = Some (JString (g x))) \<Longrightarrow> json_strings k (map f xs) = map g xs"
  by (induction xs) (simp_all add: json_strings_def)

lemma json_of_parts:
  "json_strings ''name'' (map struct_to_json xs) = map s_name xs"
  "json_strings ''base'' (map struct_to_json xs) = map s_base xs"
  "json_strings ''new_type_name'' (map typedef_to_json tds) = map new_type_name tds"
  "json_strings ''type'' (map typedef_to_json tds) = map td_type tds"
  "json_strings ''type'' (map action_to_json acs) = map a_type acs"
  "json_strings ''key_type'' (map table_to_json tbs) = map key_type tbs"
  "json_strings ''value_type'' (map table_to_json tbs) = map value_type tbs"
  by (rule json_strings_map, simp add: struct_to_json_def typedef_to_json_def action_to_json_def table_to_json_def)+

lemma json_of_fields:
  "json_strings ''type'' (concat (map (json_entries ''fields'') (map struct_to_json xs))) = map f_type (concat (map s_fields xs))"
proof -
  have "json_entries ''fields'' (struct_to_json x) =
      map (\<lambda>f. JObject [(''name'', JString (f_name f)), (''type'', JString (f_type f))]) (s_fields x)" for x
    by (simp add: json_entries_def struct_to_json_def)
  then have "concat (map (json_entries ''fields'') (map struct_to_json xs)) =
      map (\<lambda>f. JObject [(''name'', JString (f_name f)), (''type'', JString (f_type f))]) (concat (map s_fields xs))"
    by (induction xs) simp_all
  then show ?thesis by (simp add: json_strings_map)
qed

lemma abi_defines_eq: "set (abi_defines (to_json a)) =
    s_name ` {s \<in> set (structs a). validate_struct a s} \<union> new_type_name ` {t \<in> set (typedefs a). validate_types a t}"
  by (auto simp: abi_defines_def to_json_entries json_of_parts)

lemma abi_uses_eq: "set (abi_uses (to_json a)) =
    remove_suffix ` (\<Union>s \<in> {s \<in> set (structs a). validate_struct a s}. f_type ` set (s_fields s)) \<union>
    remove_suffix ` td_type ` {t \<in> set (typedefs a). validate_types a t} \<union>
    remove_suffix ` key_type ` set (tables a) \<union> remove_suffix ` value_type ` set (tables a) \<union>
    {b \<in> s_base ` {s \<in> set (structs a). validate_struct a s}. b \<noteq> []} \<union>
    a_type ` set (actions a)"
proof -
  have c: "f_type ` set (concat (map s_fields xs)) = (\<Union>s \<in> set xs. f_type ` set (s_fields s))" for xs
    by auto
  show ?thesis
    unfolding abi_uses_def to_json_entries json_of_parts json_of_fields set_append set_map set_filter
    by (simp only: c image_Un set_filter Un_assoc)
qed

text \<open>The filters keep every struct and typedef that something else in the file mentions.\<close>

inductive mentioned :: "abi \<Rightarrow> string \<Rightarrow> bool" for a where
  base: "s \<in> set (structs a) \<Longrightarrow> mentioned a (s_base s)"
| field: "s \<in> set (structs a) \<Longrightarrow> f \<in> set (s_fields s) \<Longrightarrow> mentioned a (remove_suffix (f_type f))"
| action: "x \<in> set (actions a) \<Longrightarrow> mentioned a (a_type x)"
| key: "t \<in> set (tables a) \<Longrightarrow> mentioned a (key_type t)"
| table: "t \<in> set (tables a) \<Longrightarrow> mentioned a (value_type t)"
| aliased: "td \<in> set (typedefs a) \<Longrightarrow> mentioned a (remove_suffix (td_type td))"

lemma validate_struct_used:
  assumes nb: "\<not> is_builtin_type_str (s_name st)" and "mentioned a r" "r = s_name st"
  shows "validate_struct a st"
proof -
  have eq: "translate_type_str r = s_name st"
    using translate_type_str_cases [of r] nb assms(3) by auto
  show ?thesis
    unfolding validate_struct_def list_ex_iff is_builtin_translate if_not_P [OF nb]
    using assms(2,3) eq by cases (force split: if_split)+
qed

lemma struct_emitted:
  assumes "r \<in> s_name ` set (structs a)" "\<not> is_builtin_type_str r" "mentioned a r"
  shows "r \<in> set (abi_defines (to_json a))"
  using assms validate_struct_used [of _ a r] unfolding abi_defines_eq by blast

lemma typedef_emitted:
  assumes "r \<in> new_type_name ` set (typedefs a)"
  shows "s \<in> set (structs a) \<Longrightarrow> validate_struct a s \<Longrightarrow> f \<in> set (s_fields s) \<Longrightarrow> remove_suffix (f_type f) = r \<Longrightarrow>
      r \<in> set (abi_defines (to_json a))"
    and "t \<in> set (tables a) \<Longrightarrow> value_type t = r \<Longrightarrow> r \<in> set (abi_defines (to_json a))"
    and "td \<in> set (typedefs a) \<Longrightarrow> remove_suffix (td_type td) = r \<Longrightarrow> r \<in> set (abi_defines (to_json a))"
  using assms unfolding abi_defines_eq by (auto simp: validate_types_def list_ex_iff)

lemma sound_abi_json:
  assumes a: "sound_abi a" and u: "u \<in> set (abi_uses (to_json a))"
  shows "is_builtin_type_str u \<or> u \<in> set (abi_defines (to_json a))"
proof (cases "is_builtin_type_str u")
  case nb: False
  have closed: "closed a" and tab: "tables_resolved a" using a by (simp_all add: sound_abi_def)
  have names: "u \<in> s_name ` set (structs a) \<or> u \<in> new_type_name ` set (typedefs a)"
    if "resolved a v" "remove_suffix v = u" for v
    using that nb by (auto simp: resolved_def type_names_def)
  from u consider
      s f where "s \<in> set (structs a)" "validate_struct a s" "f \<in> set (s_fields s)" "remove_suffix (f_type f) = u"
    | td where "td \<in> set (typedefs a)" "remove_suffix (td_type td) = u"
    | s where "s \<in> set (structs a)" "u = s_base s" "u \<noteq> []"
    | x where "x \<in> set (actions a)" "u = a_type x"
    | t where "t \<in> set (tables a)" "remove_suffix (key_type t) = u"
    | t where "t \<in> set (tables a)" "remove_suffix (value_type t) = u"
    unfolding abi_uses_eq by blast
  then have "u \<in> set (abi_defines (to_json a))"
  proof cases
    case (1 s f)
    then have "resolved a (f_type f)" using closed by (auto simp: closed_def)
    with 1 show ?thesis
      using names nb struct_emitted typedef_emitted(1) mentioned.field by metis
  next
    case (2 td)
    then have "resolved a (td_type td)" using closed by (auto simp: closed_def)
    with 2 show ?thesis
      using names nb struct_emitted typedef_emitted(3) mentioned.aliased by metis
  next
    case (3 s)
    then have "u \<in> s_name ` set (structs a)" using closed by (auto simp: closed_def)
    with 3 show ?thesis using nb struct_emitted mentioned.base by metis
  next
    case (4 x)
    then have "u \<in> s_name ` set (structs a)" using closed by (auto simp: closed_def)
    with 4 show ?thesis using nb struct_emitted mentioned.action by metis
  next
    case (5 t)
    then have "key_type t = u" "u \<in> s_name ` set (structs a)"
      using tab nb by (auto simp: tables_resolved_def key_resolved_def)
    with 5 show ?thesis using nb struct_emitted mentioned.key by metis
  next
    case (6 t)
    then have "value_type t = u" "resolved a (value_type t)"
      using tab nb by (auto simp: tables_resolved_def value_resolved_def)
    with 6 show ?thesis
      using names nb struct_emitted typedef_emitted(2) mentioned.table by metis
  qed
  then show ?thesis ..
qed simp


section \<open>What a run lists\<close>

text \<open>The actions of a node, each with its name and the struct of its arguments, and the tables.\<close>

definition node_actions :: "decls \<Rightarrow> string \<Rightarrow> ast_node \<Rightarrow> (string \<times> string) list" where
  "node_actions ds cn x = (case x of
     MethodNode m \<Rightarrow> (case m_action m of
        Some attr \<Rightarrow> if is_ftl_contract_method ds m cn then [(if attr = [] then m_name m else attr, m_name m)] else []
      | None \<Rightarrow> [])
   | RecordNode d \<Rightarrow> (case rec_action (ds d) of
        Some attr \<Rightarrow> if is_ftl_contract_record ds (ds d) cn
          then [(if attr = [] then rec_name (ds d) else attr, rec_name (ds d))] else []
      | None \<Rightarrow> []))"

definition node_tables :: "decls \<Rightarrow> string \<Rightarrow> ast_node \<Rightarrow> string list" where
  "node_tables ds cn x = (case x of
     MethodNode m \<Rightarrow> []
   | RecordNode d \<Rightarrow> if rec_table (ds d) \<and> is_ftl_contract_record ds (ds d) cn then [rec_name (ds d)] else [])"

text \<open>\<open>lists as ts a b\<close>: from \<open>a\<close> to \<open>b\<close> exactly these actions and tables came in.\<close>

definition lists :: "(string \<times> string) list \<Rightarrow> string list \<Rightarrow> abi \<Rightarrow> abi \<Rightarrow> bool" where
  "lists xs ts a b \<longleftrightarrow>
     a_name ` set (actions b) = a_name ` set (actions a) \<union> fst ` set xs \<and>
     t_name ` set (tables b) = t_name ` set (tables a) \<union> set ts \<and>
     s_name ` set (structs a) \<union> snd ` set xs \<subseteq> s_name ` set (structs b)"

lemma lists_refl: "lists [] [] a a"
  by (simp add: lists_def)

lemma lists_trans: "lists xs ts a b \<Longrightarrow> lists ys us b c \<Longrightarrow> lists (xs @ ys) (ts @ us) a c"
proof -
  assume *: "lists xs ts a b" "lists ys us b c"
  then have "s_name ` set (structs b) \<subseteq> s_name ` set (structs c)"
    "s_name ` set (structs a) \<subseteq> s_name ` set (structs b)" "snd ` set xs \<subseteq> s_name ` set (structs b)"
    by (simp_all add: lists_def)
  then have "s_name ` set (structs a) \<subseteq> s_name ` set (structs c)" "snd ` set xs \<subseteq> s_name ` set (structs c)"
    by (iprover intro: subset_trans)+
  then show ?thesis using * by (simp add: lists_def image_Un Un_assoc)
qed

lemma add_table_result:
  assumes "add_table ds decl a = Inr b"
  obtains k v where "table_types ds (rec_fields decl) ([], []) = Inr (k, v)"
    "b = insert_table \<lparr>t_name = rec_name decl, key_type = k, value_type = v\<rparr> a"
  using assms by (auto simp: add_table_def rbind_eq_Inr)

lemma lists_types:
  assumes "lists xs ts a b"
  shows "ensures (lists xs ts a) (add_types n ds fs b)"
proof -
  have "lists (xs @ []) (ts @ []) a e" if "add_types n ds fs b = Some (Inr e)" for e
  proof (rule lists_trans [OF assms])
    show "lists [] [] b e"
      using that rest.add_types [of b "actions b" "tables b" n ds fs]
        struct_names.add_types [of "s_name ` set (structs b)" b n ds fs] by (simp add: ensures_def lists_def)
  qed
  then show ?thesis by (simp add: ensures_def)
qed

lemma add_struct_named:
  "ensures (\<lambda>b. (if r = [] then rec_name (ds d) else r) \<in> s_name ` set (structs b)) (add_struct n ds d r a)"
proof (cases n)
  case (Suc m)
  have "ensures P (obind r f)" if "\<And>x. ensures P (f x)" for r :: "'x res option" and f :: "'x \<Rightarrow> abi res option" and P
    using that by (auto simp: ensures_def obind_eq_Inr)
  then show ?thesis
    unfolding Suc add_struct.simps add_struct_record_def Let_def
    by (auto simp: ensures_def obind_eq_Inr insert_struct_def set_insert_names split: prod.splits if_splits)
qed (simp add: ensures_none)

lemma action_struct:
  assumes "ensures (\<lambda>b. n \<in> s_name ` set (structs b)) r" "ensures (\<lambda>b. actions b = actions a \<and> tables b = tables a) r"
    and "ensures (\<lambda>b. s_name ` set (structs a) \<subseteq> s_name ` set (structs b)) r"
    and "\<And>b. lists [] [] a b \<Longrightarrow> n \<in> s_name ` set (structs b) \<Longrightarrow> ensures P (f b)"
  shows "ensures P (obind r f)"
proof (rule ensures_obind)
  show "ensures (\<lambda>b. lists [] [] a b \<and> n \<in> s_name ` set (structs b)) r"
    using assms(1-3) by (simp add: ensures_def lists_def)
qed (use assms(4) in blast)

lemma add_action_listed:
  assumes "lists [] [] a b" "n \<in> s_name ` set (structs b)"
  shows "lists [(x, n)] [] a (insert_action \<lparr>a_name = x, a_type = n\<rparr> b)"
  using assms by (auto simp: lists_def insert_action_def set_insert_names)

lemma method_matcher_lists:
  "ensures (lists (node_actions ds cn (MethodNode m)) [] a) (method_matcher n ds cn m a)"
proof (cases "m_action m \<noteq> None \<and> is_ftl_contract_method ds m cn")
  case True
  then obtain attr where attr: "m_action m = Some attr" and c: "is_ftl_contract_method ds m cn" by auto
  have n: "ensures (\<lambda>b. m_name m \<in> s_name ` set (structs b)) (add_struct_method ds (add_type n ds) m a)"
    by (auto simp: add_struct_method_def ensures_def obind_pair_eq_Inr insert_struct_def set_insert_names)
  show ?thesis
    unfolding method_matcher_def if_P [OF True]
  proof (rule action_struct [OF n rest.add_struct_method struct_names.add_struct_method])
    fix b assume "lists [] [] a b" "m_name m \<in> s_name ` set (structs b)"
    from add_action_listed [OF this] show "ensures (lists (node_actions ds cn (MethodNode m)) [] a)
        (obind (Some (add_action_method m b)) (\<lambda>a. add_types n ds (m_params m) a))"
      by (simp add: add_action_method_eq attr c node_actions_def lists_types)
  qed simp_all
qed (auto simp: method_matcher_def node_actions_def lists_refl intro: ensures_return split: option.split)

lemma record_matcher_lists:
  "ensures (lists (node_actions ds cn (RecordNode d)) (node_tables ds cn (RecordNode d)) a) (record_matcher n ds cn d a)"
proof -
  let ?r = "ds d" and ?xs = "node_actions ds cn (RecordNode d)"
  have "ensures (lists ?xs [] a) (if rec_action ?r \<noteq> None \<and> is_ftl_contract_record ds ?r cn then
      obind (add_struct n ds d [] a) (\<lambda>a. obind (Some (add_action_record ?r a)) (add_types n ds (rec_fields ?r)))
      else Some (Inr a))"
  proof (rule ensures_if)
    assume c: "rec_action ?r \<noteq> None \<and> is_ftl_contract_record ds ?r cn"
    then obtain attr where attr: "rec_action ?r = Some attr" by auto
    have n: "ensures (\<lambda>b. rec_name ?r \<in> s_name ` set (structs b)) (add_struct n ds d [] a)"
      using add_struct_named [of "[]"] by simp
    show "ensures (lists ?xs [] a) (obind (add_struct n ds d [] a) (\<lambda>a.
        obind (Some (add_action_record ?r a)) (add_types n ds (rec_fields ?r))))"
    proof (rule action_struct [OF n rest.add_struct struct_names.add_struct])
      fix b assume b: "lists [] [] a b" "rec_name ?r \<in> s_name ` set (structs b)"
      show "ensures (lists ?xs [] a) (obind (Some (add_action_record ?r b)) (add_types n ds (rec_fields ?r)))"
      proof (rule ensures_pure, rule lists_types)
        fix e assume "add_action_record ?r b = Inr e"
        then have "e = insert_action \<lparr>a_name = if attr = [] then rec_name ?r else attr, a_type = rec_name ?r\<rparr> b"
          by (auto simp: add_action_record_def attr rbind_eq_Inr split: if_splits)
        with add_action_listed [OF b] c show "lists ?xs [] a e" by (simp add: node_actions_def attr)
      qed
    qed simp_all
  qed (auto simp: node_actions_def lists_refl intro!: ensures_return split: option.split)
  moreover have "ensures (lists ?xs (node_tables ds cn (RecordNode d)) a)
      (if rec_table ?r \<and> is_ftl_contract_record ds ?r cn
       then obind (Some (add_table ds ?r b)) (\<lambda>a. add_types n ds (rec_fields ?r) a) else Some (Inr b))"
    if b: "lists ?xs [] a b" for b
  proof (rule ensures_if)
    assume c: "rec_table ?r \<and> is_ftl_contract_record ds ?r cn"
    show "ensures (lists ?xs (node_tables ds cn (RecordNode d)) a)
        (obind (Some (add_table ds ?r b)) (\<lambda>a. add_types n ds (rec_fields ?r) a))"
    proof (rule ensures_pure, rule lists_types)
      fix e assume "add_table ds ?r b = Inr e"
      then have "lists [] [rec_name ?r] b e"
        by (elim add_table_result) (simp add: lists_def insert_table_def set_insert_names)
      from lists_trans [OF b this] c show "lists ?xs (node_tables ds cn (RecordNode d)) a e"
        by (simp add: node_tables_def)
    qed
  qed (use b in \<open>auto simp: node_tables_def intro: ensures_return\<close>)
  ultimately show ?thesis unfolding record_matcher_def Let_def by (rule ensures_obind)
qed

lemma run_matchers_lists:
  "ensures (lists (concat (map (node_actions ds cn) nodes)) (concat (map (node_tables ds cn) nodes)) a)
     (run_matchers n ds cn nodes a)"
proof (induction nodes arbitrary: a)
  case (Cons x nodes)
  have "ensures (lists (node_actions ds cn x) (node_tables ds cn x) a) (run_matchers n ds cn [x] a)"
  proof (cases x)
    case (MethodNode m)
    then show ?thesis using method_matcher_lists [of ds cn m a n]
      by (auto simp: node_tables_def ensures_def obind_eq_Inr)
  next
    case (RecordNode d)
    then show ?thesis using record_matcher_lists [of ds cn d a n] by (auto simp: ensures_def obind_eq_Inr)
  qed
  moreover have "run_matchers n ds cn (x # nodes) a = obind (run_matchers n ds cn [x] a) (run_matchers n ds cn nodes)"
    by (cases x) (simp_all add: obind_def split: option.split sum.split)
  ultimately show ?case
    using Cons.IH lists_trans by (fastforce simp: ensures_def obind_eq_Inr)
qed (simp add: lists_refl ensures_return)

section \<open>Fuel for a whole run\<close>

lemma add_types_returns: "(\<And>t a. t \<in> snd ` set ts \<Longrightarrow> returns (add_type n ds t a)) \<Longrightarrow> returns (add_types n ds ts a)"
proof (induction ts arbitrary: a)
  case (Cons x ts)
  then show ?case by (cases x) (auto intro!: returns_obind)
qed (simp add: returns_def)

lemma method_fields_returns:
  "(\<And>t a. t \<in> (\<lambda>(nm, t). unqualified (non_reference t)) ` set ps \<Longrightarrow> returns (f t a)) \<Longrightarrow> returns (method_fields ds f ps fs a)"
proof (induction ps arbitrary: fs a)
  case (Cons x ps)
  then show ?case by (cases x) (auto simp: Let_def intro!: returns_pure returns_obind)
qed (simp add: returns_def)

definition node_types :: "decls \<Rightarrow> ast_node \<Rightarrow> qtype list" where
  "node_types ds x = (case x of
     MethodNode m \<Rightarrow> map snd (m_params m) @ map (\<lambda>(nm, t). unqualified (non_reference t)) (m_params m)
   | RecordNode d \<Rightarrow> map snd (rec_fields (ds d)))"

definition node_records :: "ast_node \<Rightarrow> nat list" where
  "node_records x = (case x of MethodNode m \<Rightarrow> [] | RecordNode d \<Rightarrow> [d])"

lemma run_matchers_returns:
  assumes "\<And>x t a. x \<in> set nodes \<Longrightarrow> t \<in> set (node_types ds x) \<Longrightarrow> returns (add_type n ds t a)"
    and "\<And>x d r a. x \<in> set nodes \<Longrightarrow> d \<in> set (node_records x) \<Longrightarrow> returns (add_struct n ds d r a)"
  shows "returns (run_matchers n ds cn nodes a)"
  using assms
proof (induction nodes arbitrary: a)
  case (Cons x nodes)
  have rest: "returns (run_matchers n ds cn nodes b)" for b
    by (rule Cons.IH) (use Cons.prems in \<open>meson list.set_intros(2)\<close>)+
  show ?case
  proof (cases x)
    case (MethodNode m)
    have "returns (add_types n ds (m_params m) b)" for b
      using Cons.prems(1) [of x] MethodNode by (intro add_types_returns) (auto simp: node_types_def)
    moreover have "returns (add_struct_method ds (add_type n ds) m b)" for b
      unfolding add_struct_method_def using Cons.prems(1) [of x] MethodNode
      by (intro returns_obind_pair returns_Some method_fields_returns) (auto simp: node_types_def)
    ultimately have "returns (method_matcher n ds cn m b)" for b
      unfolding method_matcher_def by (intro returns_if returns_obind returns_pure returns_Some)
    then show ?thesis using MethodNode rest by (auto intro: returns_obind)
  next
    case (RecordNode d)
    have "returns (add_types n ds (rec_fields (ds d)) b)" for b
      using Cons.prems(1) [of x] RecordNode by (intro add_types_returns) (auto simp: node_types_def)
    moreover have "returns (add_struct n ds d [] b)" for b
      using Cons.prems(2) [of x] RecordNode by (auto simp: node_records_def)
    ultimately have "returns (record_matcher n ds cn d b)" for b
      unfolding record_matcher_def Let_def
      by (intro returns_obind returns_if returns_Some)
    then show ?thesis using RecordNode rest by (auto intro: returns_obind)
  qed
qed (simp add: returns_def)

section \<open>Properties\<close>

text \<open>C24: the file that \<open>generate\<close> writes defines every name it uses that is no builtin type, and
  leaves the generator in a state from which that holds again. The declarations have to be supported,
  as \<open>supported_decls\<close> says; of a table this asks that the key is a builtin type or a record that is
  no template, and that the value is no vector or optional of a record, since \<open>to_json\<close> does not
  look for other types of tables.\<close>

theorem abi_complete:
  assumes "supported_decls ds" and "\<forall>x \<in> set nodes. supported_node ds x" and "sound_abi ag"
    and "generate n ds parsed nodes input cn ag = Some (Inr (ag', Some (file, j)))"
  shows "(\<forall>u \<in> set (abi_uses j). is_builtin_type_str u \<or> u \<in> set (abi_defines j)) \<and> sound_abi ag' \<and>
    file = replace_extension input ''.abi''"
proof -
  have "run_matchers n ds cn nodes ag = Some (Inr ag')" "j = to_json ag'" "file = replace_extension input ''.abi''"
    using assms(4) by (auto simp: generate_def obind_eq_Inr split: if_splits)
  moreover from this(1) have "sound_abi ag'"
    using run_matchers_sound [OF assms(1-3), of n cn] by (simp add: ensures_def)
  ultimately show ?thesis using sound_abi_json by blast
qed

text \<open>C25: a run lists exactly the actions and tables of the contract: the names of the actions are
  those that were there and those of the nodes with the attribute, the same holds of the tables, and
  the struct of the arguments of every action is there. Nothing that was in the generator is removed or
  changed, and its sets stay in strict order of their names, so no two elements of one have one name.\<close>

theorem abi_lists_contract:
  assumes "generate n ds parsed nodes input cn ag = Some (Inr (ag', out))"
  shows "a_name ` set (actions ag') = a_name ` set (actions ag) \<union> (\<Union>x \<in> set nodes. fst ` set (node_actions ds cn x)) \<and>
    t_name ` set (tables ag') = t_name ` set (tables ag) \<union> (\<Union>x \<in> set nodes. set (node_tables ds cn x)) \<and>
    (\<Union>x \<in> set nodes. snd ` set (node_actions ds cn x)) \<subseteq> s_name ` set (structs ag') \<and>
    set (structs ag) \<subseteq> set (structs ag') \<and> set (typedefs ag) \<subseteq> set (typedefs ag') \<and>
    set (actions ag) \<subseteq> set (actions ag') \<and> set (tables ag) \<subseteq> set (tables ag') \<and>
    (abi_sorted ag \<longrightarrow> abi_sorted ag')"
proof -
  have run: "run_matchers n ds cn nodes ag = Some (Inr ag')"
    using assms by (auto simp: generate_def obind_eq_Inr split: if_splits)
  have "lists (concat (map (node_actions ds cn) nodes)) (concat (map (node_tables ds cn) nodes)) ag ag'"
    using run_matchers_lists [of ds cn nodes ag n] run by (simp add: ensures_def)
  moreover have "set (structs ag) \<subseteq> set (structs ag') \<and> set (typedefs ag) \<subseteq> set (typedefs ag') \<and>
      set (actions ag) \<subseteq> set (actions ag') \<and> set (tables ag) \<subseteq> set (tables ag')"
    using elements.run_matchers [of "set (structs ag)" ag "set (typedefs ag)" "set (actions ag)" "set (tables ag)" n ds cn nodes]
      run by (simp add: ensures_def)
  moreover have "abi_sorted ag \<longrightarrow> abi_sorted ag'"
    using sorted.run_matchers [of ag n ds cn nodes] run by (simp add: ensures_def)
  ultimately show ?thesis by (auto simp: lists_def image_UN)
qed

text \<open>C26: when every declaration mentions only declarations of lower rank, the generator returns with
  enough fuel, whatever its state, options and nodes.\<close>

theorem generate_returns:
  assumes "ranked rank ds"
  shows "\<exists>n. \<forall>m \<ge> n. \<forall>ag. generate m ds parsed nodes input cn ag \<noteq> None"
proof -
  have "MOST m. \<forall>t \<in> set (concat (map (node_types ds) nodes)). \<forall>a. returns (add_type m ds t a)"
    using ranked_returns(2) [OF assms] by (simp only: MOST_finite_Ball_distrib finite_set) blast
  moreover have "MOST m. \<forall>d \<in> set (concat (map node_records nodes)). \<forall>r a. returns (add_struct m ds d r a)"
    using ranked_returns(1) [OF assms] by (simp only: MOST_finite_Ball_distrib finite_set) blast
  ultimately have "MOST m. (\<forall>t \<in> set (concat (map (node_types ds) nodes)). \<forall>a. returns (add_type m ds t a)) \<and>
      (\<forall>d \<in> set (concat (map node_records nodes)). \<forall>r a. returns (add_struct m ds d r a))"
    by (rule MOST_conjI)
  then have "MOST m. \<forall>ag. returns (generate m ds parsed nodes input cn ag)"
    unfolding generate_def
    by (rule MOST_mono) (intro allI returns_obind returns_if returns_Some run_matchers_returns; auto)
  then show ?thesis by (simp add: MOST_nat_le returns_def)
qed

text \<open>C27: it does not return for a record whose first field is a vector of the record itself, whatever
  the fuel: \<open>add_struct\<close> inserts the struct only after the types of its fields.\<close>

theorem recursive_struct_diverges:
  assumes "rec_bases (ds d) = []" and "nm \<noteq> ''transaction_extensions''"
    and "rec_fields (ds d) = (nm, TemplateT spv ''vector'' [TypeArg (RecordT spd d)] (RecordT spv v)) # flds"
    and "rec_name (ds v) = ''vector''" and "\<not> rec_ignore (ds v)"
    and "\<not> is_builtin_type_str (get_base_type_name_str spd)"
    and "CHR ''<'' \<in> set (get_base_type_name_str spv)"
  shows "add_struct n ds d rname a = None"
proof -
  let ?r = "RecordT spd d" and ?v = "TemplateT spv ''vector'' [TypeArg (RecordT spd d)] (RecordT spv v)"
  have r: "translate_type ds ?r = Inr (get_base_type_name_str spd)"
    using assms(6) translate_type_str_cases [of "get_base_type_name_str spd"]
    by (simp add: not_specialised translate_base_type_def non_reference_def)
  have spec: "spec_name ds ?v = Some ''vector''" and arg: "get_template_argument ?v 0 = Inr ?r"
    using assms(4) by (simp_all add: spec_name_def get_template_argument_def get_arg_def)
  have "translate_type ds ?v = rbind (translate_type ds ?r) (\<lambda>s. Inr (if s = ''int8'' then ''bytes'' else s @ ''[]''))"
    by (rule translate_type_specialised(4) [OF spec arg]) simp
  moreover have "is_builtin_type_str ''int8''" by code_simp
  then have "get_base_type_name_str spd \<noteq> ''int8''" using assms(6) by metis
  ultimately have v: "translate_type ds ?v = Inr (get_base_type_name_str spd @ ''[]'')" using r by simp
  have nbv: "\<not> is_builtin_type_str (get_base_type_name_str spd @ ''[]'')"
  proof
    assume "is_builtin_type_str (get_base_type_name_str spd @ ''[]'')"
    from remove_suffix_builtin [OF this]
    have "length (remove_suffix (get_base_type_name_str spd)) = length (get_base_type_name_str spd) + 2" by simp
    then show False by (simp add: remove_suffix_def)
  qed
  have ign: "get_ignored_type ds ?v = Inr ?v" "get_ignored_type ds ?r = Inr ?r"
    using assms(5) by (simp_all add: get_ignored_type_def is_ignorable_def)
  have alv: "is_aliasing ds ?v = Inr False"
    using assms(7) v nbv by (simp add: is_aliasing_def is_builtin_type_def get_base_type_name_def non_reference_def)
  have alr: "is_aliasing ds ?r = Inr False"
    using assms(6) r by (simp add: is_aliasing_def is_builtin_type_def get_base_type_name_def non_reference_def
        get_type_alias_string_def get_type_def ign)
  have specr: "\<not> is_template_specialization ds ?r names" for names by (simp add: is_template_specialization_def)
  have specv: "is_template_specialization ds ?v (''vector'' # names)" for names using spec by (simp add: spec_iff)
  show ?thesis
  proof (induction n arbitrary: rname a rule: less_induct)
    case (less n)
    have rec: "add_type m ds ?r a = None" if "m < n" for m a
      using that less by (cases m) (simp_all add: ign r assms(6) alr specr)
    have vec: "add_type m ds ?v a = None" if "m < n" for m a
      using that rec by (cases m) (simp_all add: ign v nbv alv specv arg)
    show ?case
      using assms(1-3) vec by (cases n) (simp_all add: add_struct_record_def Let_def get_type_def ign v)
  qed
qed


subsection \<open>Declarations for the witnesses\<close>

definition decl_of :: "cxx_record list \<Rightarrow> decls" where
  "decl_of l d = (if d < length l then l ! d else \<lparr>rec_name = ''x'', rec_ignore = False, rec_bases = [], rec_fields = [],
     rec_action = None, rec_table = False, rec_contract = None, rec_parent = None\<rparr>)"

definition plain_record :: "string \<Rightarrow> (string \<times> qtype) list \<Rightarrow> cxx_record" where
  "plain_record n flds = \<lparr>rec_name = n, rec_ignore = False, rec_bases = [], rec_fields = flds,
     rec_action = None, rec_table = False, rec_contract = None, rec_parent = None\<rparr>"

definition uint_t :: qtype where
  "uint_t = TypedefT ''uint32_t'' (Plain ''unsigned int'')"

definition vector_t :: "string \<Rightarrow> qtype \<Rightarrow> qtype" where
  "vector_t sp t = ElabT sp (TemplateT sp ''vector'' [TypeArg t] (RecordT sp 0))"

definition pair_t :: "string \<Rightarrow> qtype \<Rightarrow> qtype \<Rightarrow> qtype" where
  "pair_t sp t u = ElabT sp (TemplateT sp ''pair'' [TypeArg t, TypeArg u] (RecordT sp 1))"

text \<open>A contract \<open>shop\<close> with a struct \<open>item\<close>, an action \<open>order\<close> and a table \<open>stock\<close>.\<close>

definition shop_decls :: "cxx_record list" where
  "shop_decls = [plain_record ''vector'' [], plain_record ''pair'' [],
     plain_record ''item'' [(''id'', uint_t), (''price'', Plain ''long long'')],
     (plain_record ''order'' [(''items'', vector_t ''std::vector<item>'' (RecordT ''item'' 2)),
        (''limits'', pair_t ''std::pair<uint32_t, item>'' uint_t (RecordT ''item'' 2))])
       \<lparr>rec_action := Some [], rec_contract := Some ''shop''\<rparr>,
     (plain_record ''stock'' [(''key'', uint_t), (''value'', RecordT ''item'' 2)])
       \<lparr>rec_table := True, rec_contract := Some ''shop''\<rparr>]"

definition shop_nodes :: "ast_node list" where
  "shop_nodes = [RecordNode 2, RecordNode 3, RecordNode 4,
     MethodNode \<lparr>m_name = ''ship'', m_action = Some [], m_contract = Some ''shop'', m_parent = 3,
       m_params = [(''what'', RefT ''const item &'' (Qual ''const item'' (RecordT ''item'' 2)))]\<rparr>]"

lemma supported_decl_of: "list_all (supported_record (decl_of l)) l \<Longrightarrow> supported_decls (decl_of l)"
  by (auto simp: supported_decls_def decl_of_def supported_record_def list_all_length)

lemma shop_supported: "supported_decls (decl_of shop_decls)" "\<forall>x \<in> set shop_nodes. supported_node (decl_of shop_decls) x"
proof -
  have "list_all (supported_record (decl_of shop_decls)) shop_decls" by code_simp
  then show "supported_decls (decl_of shop_decls)" by (rule supported_decl_of)
  have sup: "list_all (\<lambda>t. supported (decl_of shop_decls) t)
      ([Qual ''const item'' (RecordT ''item'' 2), RecordT ''item'' 2] @ concat (map (\<lambda>r. map snd (rec_fields r)) shop_decls))"
    by code_simp
  moreover have "table_key (decl_of shop_decls) uint_t" "table_value (decl_of shop_decls) (RecordT ''item'' 2)"
    by code_simp+
  ultimately show "\<forall>x \<in> set shop_nodes. supported_node (decl_of shop_decls) x"
    by (simp add: shop_nodes_def shop_decls_def supported_node_def supported_params_def decl_of_def plain_record_def non_reference_def)
qed

lemma shop_abi:
  "generate 9 (decl_of shop_decls) True shop_nodes ''shop.cpp'' ''shop'' empty_abi = Some (Inr (
    let item = \<lparr>s_name = ''item'', s_base = [],
          s_fields = [\<lparr>f_name = ''id'', f_type = ''uint32''\<rparr>, \<lparr>f_name = ''price'', f_type = ''int64''\<rparr>]\<rparr>;
        order = \<lparr>s_name = ''order'', s_base = [],
          s_fields = [\<lparr>f_name = ''items'', f_type = ''item[]''\<rparr>, \<lparr>f_name = ''limits'', f_type = ''pair_uint32_item''\<rparr>]\<rparr>;
        pair = \<lparr>s_name = ''pair_uint32_item'', s_base = [],
          s_fields = [\<lparr>f_name = ''first'', f_type = ''uint32''\<rparr>, \<lparr>f_name = ''second'', f_type = ''item''\<rparr>]\<rparr>;
        ship = \<lparr>s_name = ''ship'', s_base = [], s_fields = [\<lparr>f_name = ''what'', f_type = ''item''\<rparr>]\<rparr>;
        a = \<lparr>structs = [item, order, pair, ship], typedefs = [],
          actions = [\<lparr>a_name = ''order'', a_type = ''order''\<rparr>, \<lparr>a_name = ''ship'', a_type = ''ship''\<rparr>],
          tables = [\<lparr>t_name = ''stock'', key_type = ''uint32'', value_type = ''item''\<rparr>]\<rparr>
    in (a, Some (''shop.abi'', to_json a))))"
  by code_simp


subsection \<open>Witnesses\<close>

lemma sound_empty: "sound_abi empty_abi" "abi_sorted empty_abi"
  by (simp_all add: sound_abi_def closed_def tables_resolved_def empty_abi_def abi_sorted_def)

definition shop_run :: "abi \<times> (string \<times> json) option" where
  "shop_run = (case generate 9 (decl_of shop_decls) True shop_nodes ''shop.cpp'' ''shop'' empty_abi of
     Some (Inr r) \<Rightarrow> r | _ \<Rightarrow> (empty_abi, None))"

lemma shop_run: "generate 9 (decl_of shop_decls) True shop_nodes ''shop.cpp'' ''shop'' empty_abi =
    Some (Inr (fst shop_run, Some (''shop.abi'', to_json (fst shop_run))))"
  unfolding shop_run_def shop_abi by (simp add: Let_def)

theorem abi_complete_witness:
  "list_all (\<lambda>u. is_builtin_type_str u \<or> u \<in> set (abi_defines (to_json (fst shop_run))))
     (abi_uses (to_json (fst shop_run)))"
  unfolding list_all_iff using abi_complete [OF shop_supported sound_empty(1) shop_run] by blast

theorem abi_lists_contract_witness:
  "a_name ` set (actions (fst shop_run)) = {''order'', ''ship''} \<and> t_name ` set (tables (fst shop_run)) = {''stock''} \<and>
   abi_sorted (fst shop_run)"
proof -
  have "map (node_actions (decl_of shop_decls) ''shop'') shop_nodes = [[], [(''order'', ''order'')], [], [(''ship'', ''ship'')]]"
    "map (node_tables (decl_of shop_decls) ''shop'') shop_nodes = [[], [], [''stock''], []]"
    by code_simp+
  then have "(\<Union>x \<in> set shop_nodes. fst ` set (node_actions (decl_of shop_decls) ''shop'' x)) = {''order'', ''ship''}"
    "(\<Union>x \<in> set shop_nodes. set (node_tables (decl_of shop_decls) ''shop'' x)) = {''stock''}"
    by (auto simp: shop_nodes_def)
  with abi_lists_contract [OF shop_run] sound_empty(2) show ?thesis by (simp add: empty_abi_def)
qed

definition shop_rank :: "nat \<Rightarrow> nat" where
  "shop_rank d = (if d < 2 then 0 else if d = 2 then 1 else 2)"

theorem generate_returns_witness:
  "\<exists>n. generate n (decl_of shop_decls) True shop_nodes ''shop.cpp'' ''shop'' empty_abi \<noteq> None"
proof -
  have "list_all (\<lambda>d. list_all (\<lambda>t. list_all (\<lambda>d'. shop_rank d' < shop_rank d) (records_of t))
      (rec_bases (decl_of shop_decls d) @ map snd (rec_fields (decl_of shop_decls d)))) [0..<5]"
    by code_simp
  moreover have "rec_bases (decl_of shop_decls d) = []" "rec_fields (decl_of shop_decls d) = []" if "\<not> d < 5" for d
    using that by (simp_all add: decl_of_def shop_decls_def)
  ultimately have "\<forall>t \<in> set (rec_bases (decl_of shop_decls d)) \<union> snd ` set (rec_fields (decl_of shop_decls d)).
      \<forall>d' \<in> set (records_of t). shop_rank d' < shop_rank d" for d
    by (cases "d < 5") (auto simp: list_all_iff simp del: upt_rec_numeral)
  then have "ranked shop_rank (decl_of shop_decls)" unfolding ranked_def by blast
  then show ?thesis using generate_returns [of shop_rank] by blast
qed

text \<open>A tree: \<open>struct node { std::vector<node> children; }\<close>.\<close>

definition tree_decls :: "cxx_record list" where
  "tree_decls = [plain_record ''vector'' [], plain_record ''node''
     [(''children'', TemplateT ''vector<node>'' ''vector'' [TypeArg (RecordT ''node'' 1)] (RecordT ''vector<node>'' 0))]]"

theorem recursive_struct_diverges_witness:
  "add_struct 1000 (decl_of tree_decls) 1 [] empty_abi = None"
  by (rule recursive_struct_diverges [where nm = "''children''" and spv = "''vector<node>''" and spd = "''node''"
        and v = 0 and flds = "[]"]) code_simp+

text \<open>A table whose key is a typedef and whose value is a vector of structs is not supported.\<close>

definition table_decls :: "cxx_record list" where
  "table_decls = [plain_record ''vector'' [], plain_record ''item'' [(''id'', uint_t)],
     (plain_record ''stock'' [(''key'', TypedefT ''item_id'' uint_t),
        (''value'', vector_t ''std::vector<item>'' (RecordT ''item'' 1))])
       \<lparr>rec_table := True, rec_contract := Some ''c''\<rparr>]"

lemma table_decls_unsupported: "\<not> supported_node (decl_of table_decls) (RecordNode 2)"
proof -
  have "\<not> table_value (decl_of table_decls) (vector_t ''std::vector<item>'' (RecordT ''item'' 1))"
    "\<not> table_key (decl_of table_decls) (TypedefT ''item_id'' uint_t)" by code_simp+
  then show ?thesis by (simp add: supported_node_def decl_of_def table_decls_def plain_record_def)
qed

end
