(* ===== verification/Fixup.thy ===== *)
theory Fixup
  imports Prelude
begin

text \<open>
  The LLVM pass \<open>FtlFixup\<close>: \<open>tools/llvm/lib/Transforms/FtlFixup/FtlFixup.cpp\<close>. Around the body of
  the entry function of a contract it runs the constructors and the destructors of the global
  objects. Of the intermediate language the model keeps functions as lists of basic blocks; an
  instruction the pass does not look at, and the condition of a branch, are values of type
  parameters.
\<close>

section \<open>Modules of the intermediate language\<close>

datatype ir_type = VoidTy | IntTy nat | OtherTy string

record fun_type =
  result_type :: ir_type
  param_types :: "ir_type list"

text \<open>A call has the name of the function, its calling convention and constant arguments.\<close>

datatype 'i instr = Call string nat "u32 list" | Instr 'i

datatype 'i terminator = Ret | Br 'i "nat list" | Unreachable

record 'i basic_block =
  body :: "'i instr list"
  term_inst :: "'i terminator"

record 'i ir_function =
  fn_name :: string
  fn_type :: fun_type
  fn_attrs :: "string list"
  calling_conv :: nat
  fn_blocks :: "'i basic_block list"

record 'i ir_module =
  function_list :: "'i ir_function list"
  variables :: "string list"

definition is_declaration :: "'i ir_function \<Rightarrow> bool" where
  "is_declaration F \<longleftrightarrow> fn_blocks F = []"

text \<open>\<open>Module::getNamedValue\<close>: a function, by its position, or another global value.\<close>

datatype named_value = NamedFunction nat | NamedOther

fun find_function :: "string \<Rightarrow> 'i ir_function list \<Rightarrow> nat \<Rightarrow> nat option" where
  "find_function nm [] i = None"
| "find_function nm (F # Fs) i = (if fn_name F = nm then Some i else find_function nm Fs (i + 1))"

definition get_named_value :: "string \<Rightarrow> 'i ir_module \<Rightarrow> named_value option" where
  "get_named_value nm m =
     (case find_function nm (function_list m) 0 of
        Some i \<Rightarrow> Some (NamedFunction i)
      | None \<Rightarrow> if nm \<in> set (variables m) then Some NamedOther else None)"

definition prototype :: "string \<Rightarrow> fun_type \<Rightarrow> 'i ir_function" where
  "prototype nm ty = \<lparr>fn_name = nm, fn_type = ty, fn_attrs = [], calling_conv = 0, fn_blocks = []\<rparr>"

text \<open>A value of another type comes back as a constant expression that casts it; the pass uses it
  as a function all the same, which it is not.\<close>

datatype global_constant = TheFunction nat | BitCast named_value

definition get_or_insert_function ::
    "string \<Rightarrow> fun_type \<Rightarrow> 'i ir_module \<Rightarrow> global_constant \<times> 'i ir_module" where
  "get_or_insert_function nm ty m =
     (case get_named_value nm m of
        None \<Rightarrow> (TheFunction (length (function_list m)), m\<lparr>function_list := function_list m @ [prototype nm ty]\<rparr>)
      | Some (NamedFunction i) \<Rightarrow>
          (if fn_type (function_list m ! i) \<noteq> ty then (BitCast (NamedFunction i), m) else (TheFunction i, m))
      | Some NamedOther \<Rightarrow> (BitCast NamedOther, m))"

section \<open>\<open>FtlFixup.cpp\<close>\<close>

definition is_entry :: "'i ir_function \<Rightarrow> bool" where
  "is_entry F \<longleftrightarrow> ''ftl_wasm_entry'' \<in> set (fn_attrs F) \<or> fn_name F = ''apply''"

definition as_function :: "global_constant \<Rightarrow> 'i ir_module \<Rightarrow> 'i ir_function res" where
  "as_function k m =
     (case k of TheFunction i \<Rightarrow> Inr (function_list m ! i) | BitCast v \<Rightarrow> Inl (UB ''(Function *) of a cast''))"

definition call_of :: "'i ir_function \<Rightarrow> u32 list \<Rightarrow> 'i instr" where
  "call_of G args = Call (fn_name G) (calling_conv G) args"

text \<open>The insertion point is in front of the first instruction of the entry block, and in front of
  the terminator of a block that returns.\<close>

fun insert_front :: "'i instr \<Rightarrow> 'i basic_block list \<Rightarrow> 'i basic_block list" where
  "insert_front c [] = []"
| "insert_front c (b # bs) = b\<lparr>body := c # body b\<rparr> # bs"

definition before_return :: "'i instr \<Rightarrow> 'i basic_block \<Rightarrow> 'i basic_block" where
  "before_return d b = (if term_inst b = Ret then b\<lparr>body := body b @ [d]\<rparr> else b)"

definition ctors_type :: fun_type where
  "ctors_type = \<lparr>result_type = VoidTy, param_types = []\<rparr>"

definition dtors_type :: fun_type where
  "dtors_type = \<lparr>result_type = VoidTy, param_types = [IntTy 32]\<rparr>"

definition run_on_function :: "nat \<Rightarrow> 'i ir_module \<Rightarrow> (bool \<times> 'i ir_module) res" where
  "run_on_function i m =
     (if is_entry (function_list m ! i) then
        let (wasm_ctors, m) = get_or_insert_function ''__wasm_call_ctors'' ctors_type m;
            (wasm_dtors, m) = get_or_insert_function ''__cxa_finalize'' dtors_type m
        in rbind (as_function wasm_ctors m) (\<lambda>C.
           rbind (as_function wasm_dtors m) (\<lambda>D.
           let F = function_list m ! i;
               bs = map (before_return (call_of D [0])) (insert_front (call_of C []) (fn_blocks F))
           in Inr (True, m\<lparr>function_list := (function_list m)[i := F\<lparr>fn_blocks := bs\<rparr>]\<rparr>)))
      else Inr (False, m))"

text \<open>The pass manager skips declarations and goes on to the functions a pass has appended.\<close>

definition manager_run_on_function :: "nat \<Rightarrow> 'i ir_module \<Rightarrow> (bool \<times> 'i ir_module) res" where
  "manager_run_on_function i m =
     (if is_declaration (function_list m ! i) then Inr (False, m) else run_on_function i m)"

text \<open>How many of the two runtime functions are not yet in the module.\<close>

definition missing :: "string \<Rightarrow> 'i ir_module \<Rightarrow> nat" where
  "missing nm m = (if get_named_value nm m = None then 1 else 0)"

definition runtime_missing :: "'i ir_module \<Rightarrow> nat" where
  "runtime_missing m = missing ''__wasm_call_ctors'' m + missing ''__cxa_finalize'' m"


lemma find_function_None: "find_function nm Fs i = None \<longleftrightarrow> nm \<notin> fn_name ` set Fs"
  by (induction Fs arbitrary: i) auto

lemma find_function_Some: "find_function nm Fs i = Some j \<Longrightarrow> i \<le> j \<and> j < i + length Fs \<and> fn_name (Fs ! (j - i)) = nm"
proof (induction Fs arbitrary: i)
  case (Cons F Fs)
  show ?case
  proof (cases "fn_name F = nm")
    case False
    then have "find_function nm Fs (i + 1) = Some j" using Cons.prems by simp
    from Cons.IH [OF this] show ?thesis by (auto simp: nth_Cons')
  qed (use Cons.prems in auto)
qed simp

lemma get_named_value_None:
  "get_named_value nm m = None \<longleftrightarrow> nm \<notin> set (map fn_name (function_list m)) \<union> set (variables m)"
  using find_function_None [of nm "function_list m" 0]
  by (cases "find_function nm (function_list m) 0") (simp_all add: get_named_value_def)

lemma missing_cong:
  "map fn_name (function_list m) = map fn_name (function_list n) \<Longrightarrow> variables m = variables n \<Longrightarrow>
   missing nm m = missing nm n"
  unfolding missing_def get_named_value_None by simp

text \<open>What \<open>getOrInsertFunction\<close> does to the module.\<close>

lemma get_or_insert_result:
  assumes "get_or_insert_function nm ty m = (k, m')"
  shows "function_list m' = function_list m @ (if get_named_value nm m = None then [prototype nm ty] else [])"
    and "variables m' = variables m"
    and "missing nm m' = 0"
    and "other \<noteq> nm \<Longrightarrow> missing other m' = missing other m"
proof -
  show 1: "function_list m' = function_list m @ (if get_named_value nm m = None then [prototype nm ty] else [])"
    and 2: "variables m' = variables m"
    using assms by (auto simp: get_or_insert_function_def split: option.splits named_value.splits if_splits)
  show "missing nm m' = 0" using 1 2
    by (auto simp: missing_def get_named_value_None prototype_def)
  show "other \<noteq> nm \<Longrightarrow> missing other m' = missing other m" using 1 2
    by (auto simp: missing_def get_named_value_None prototype_def)
qed

lemma get_or_insert_function_at:
  assumes "get_or_insert_function nm ty m = (TheFunction j, m')"
  shows "j < length (function_list m')" "fn_name (function_list m' ! j) = nm"
    "fn_type (function_list m' ! j) = ty"
  using assms find_function_Some [of nm "function_list m" 0]
  by (auto simp: get_or_insert_function_def get_named_value_def prototype_def split: option.splits if_splits)

text \<open>The two runtime functions as the pass finds or declares them.\<close>

definition with_runtime :: "'i ir_module \<Rightarrow> 'i ir_module" where
  "with_runtime m = snd (get_or_insert_function ''__cxa_finalize'' dtors_type
                       (snd (get_or_insert_function ''__wasm_call_ctors'' ctors_type m)))"

definition runtime_protos :: "'i ir_module \<Rightarrow> 'i ir_function list" where
  "runtime_protos m =
     (if get_named_value ''__wasm_call_ctors'' m = None then [prototype ''__wasm_call_ctors'' ctors_type] else []) @
     (if get_named_value ''__cxa_finalize'' m = None then [prototype ''__cxa_finalize'' dtors_type] else [])"

lemma with_runtime_result:
  "function_list (with_runtime m) = function_list m @ runtime_protos m"
  "variables (with_runtime m) = variables m"
  "runtime_missing (with_runtime m) = 0"
  "length (runtime_protos m) = runtime_missing m"
proof -
  obtain k m1 where 1: "get_or_insert_function ''__wasm_call_ctors'' ctors_type m = (k, m1)" by force
  obtain l m2 where 2: "get_or_insert_function ''__cxa_finalize'' dtors_type m1 = (l, m2)" by force
  have w: "with_runtime m = m2" using 1 2 by (simp add: with_runtime_def)
  have n: "get_named_value ''__cxa_finalize'' m1 = None \<longleftrightarrow> get_named_value ''__cxa_finalize'' m = None"
    using get_or_insert_result(4) [OF 1, of "''__cxa_finalize''"] by (simp add: missing_def split: if_splits)
  show "function_list (with_runtime m) = function_list m @ runtime_protos m"
    using get_or_insert_result(1) [OF 1] get_or_insert_result(1) [OF 2] n by (auto simp: w runtime_protos_def)
  show "variables (with_runtime m) = variables m"
    using get_or_insert_result(2) [OF 1] get_or_insert_result(2) [OF 2] by (simp add: w)
  show "runtime_missing (with_runtime m) = 0"
    using get_or_insert_result(3) [OF 1] get_or_insert_result(3) [OF 2]
      get_or_insert_result(4) [OF 2, of "''__wasm_call_ctors''"] by (simp add: w runtime_missing_def)
  show "length (runtime_protos m) = runtime_missing m"
    by (simp add: runtime_protos_def runtime_missing_def missing_def)
qed

text \<open>The function the pass writes back.\<close>

definition wrap_blocks :: "'i instr \<Rightarrow> 'i instr \<Rightarrow> 'i basic_block list \<Rightarrow> 'i basic_block list" where
  "wrap_blocks c d bs = map (before_return d) (insert_front c bs)"

lemma run_on_entry:
  assumes "run_on_function i m = Inr (b, m')" "is_entry (function_list m ! i)" "i < length (function_list m)"
  obtains x y where "b" and
    "function_list m' = (function_list m)[i := (function_list m ! i)\<lparr>fn_blocks :=
         wrap_blocks (Call ''__wasm_call_ctors'' x []) (Call ''__cxa_finalize'' y [0]) (fn_blocks (function_list m ! i))\<rparr>]
       @ runtime_protos m"
    and "variables m' = variables m"
proof -
  obtain k m1 where 1: "get_or_insert_function ''__wasm_call_ctors'' ctors_type m = (k, m1)" by force
  obtain l m2 where 2: "get_or_insert_function ''__cxa_finalize'' dtors_type m1 = (l, m2)" by force
  have w: "with_runtime m = m2" using 1 2 by (simp add: with_runtime_def)
  obtain C D where CD: "as_function k m2 = Inr C" "as_function l m2 = Inr D"
    using assms(1,2) 1 2 by (auto simp: run_on_function_def Let_def rbind_eq_Inr)
  then obtain c d where cd: "k = TheFunction c" "l = TheFunction d" "C = function_list m2 ! c" "D = function_list m2 ! d"
    by (auto simp: as_function_def split: global_constant.splits)
  have "fn_name (function_list m1 ! c) = ''__wasm_call_ctors''" "c < length (function_list m1)"
    using get_or_insert_function_at [of "''__wasm_call_ctors''" ctors_type m c m1] 1 cd by auto
  then have C: "fn_name C = ''__wasm_call_ctors''"
    using get_or_insert_result(1) [OF 2] cd by (simp add: nth_append)
  have D: "fn_name D = ''__cxa_finalize''"
    using get_or_insert_function_at [of "''__cxa_finalize''" dtors_type m1 d m2] 2 cd by auto
  have F: "function_list m2 = function_list m @ runtime_protos m" "variables m2 = variables m"
    using with_runtime_result(1,2) [of m] by (simp_all add: w)
  then have at: "function_list m2 ! i = function_list m ! i" using assms(3) by (simp add: nth_append)
  show thesis
    using assms(1,2) 1 2 CD C D F at assms(3)
    by (intro that [of "calling_conv C" "calling_conv D"])
      (auto simp: run_on_function_def Let_def wrap_blocks_def call_of_def list_update_append)
qed

lemma manager_run_length:
  assumes "manager_run_on_function i m = Inr (b, m')" "i < length (function_list m)"
  shows "length (function_list m') + runtime_missing m' = length (function_list m) + runtime_missing m"
proof (cases "\<not> is_declaration (function_list m ! i) \<and> is_entry (function_list m ! i)")
  case True
  then have "run_on_function i m = Inr (b, m')" using assms(1) by (simp add: manager_run_on_function_def)
  then obtain bs where m': "function_list m' = (function_list m)[i := (function_list m ! i)\<lparr>fn_blocks := bs\<rparr>] @ runtime_protos m"
    "variables m' = variables m"
    using True assms(2) by (elim run_on_entry) auto
  define F where "F = (function_list m ! i)\<lparr>fn_blocks := bs\<rparr>"
  have F: "fn_name F = fn_name (function_list m ! i)" "function_list m' = (function_list m)[i := F] @ runtime_protos m"
      "variables m' = variables m"
    using m' by (simp_all add: F_def)
  have "map fn_name (function_list m') = map fn_name (function_list (with_runtime m))"
    using F(1,2) assms(2) by (simp add: with_runtime_result(1) map_update list_update_same_conv)
  then have "runtime_missing m' = 0"
    using missing_cong [of m' "with_runtime m"] F(3) with_runtime_result(2,3) [of m] by (simp add: runtime_missing_def)
  then show ?thesis using F(2) with_runtime_result(4) [of m] by simp
next
  case False
  then show ?thesis using assms(1)
    by (auto simp: manager_run_on_function_def run_on_function_def split: if_splits)
qed

function run_on_module :: "nat \<Rightarrow> bool \<Rightarrow> 'i ir_module \<Rightarrow> (bool \<times> 'i ir_module) res" where
  "run_on_module i changed m =
     (if i < length (function_list m) then
        rbind (manager_run_on_function i m) (\<lambda>(c, m). run_on_module (i + 1) (changed \<or> c) m)
      else Inr (changed, m))"
  by pat_completeness auto
termination
proof (relation "measure (\<lambda>(i, _, m). length (function_list m) + runtime_missing m - i)")
  show "wf (measure (\<lambda>(i, _, m). length (function_list m) + runtime_missing m - i))" by (rule wf_measure)
next
  fix i changed and m :: "'i ir_module" and x c m'
  assume "i < length (function_list m)" "manager_run_on_function i m = Inr x" "(c, m') = x"
  then have "length (function_list m') + runtime_missing m' = length (function_list m) + runtime_missing m"
    using manager_run_length [of i m c m'] by auto
  then show "((i + 1, changed \<or> c, m'), i, changed, m)
      \<in> measure (\<lambda>(i, _, m). length (function_list m) + runtime_missing m - i)"
    using \<open>i < length (function_list m)\<close> by simp
qed

declare run_on_module.simps [simp del]

end
