(* ===== verification/FixupProperties.thy ===== *)
theory FixupProperties
  imports Fixup
begin

text \<open>
  What the pass \<open>FtlFixup\<close> does to a run of a contract: a step relation on the basic blocks, the
  simulation between a function and the function the pass makes of it, and the pass over a
  whole module.
\<close>

section \<open>Runs of a function\<close>

text \<open>What instructions do to the state of the machine is a parameter; an instruction without a
  result (a trap, or a host function that ends the execution) has no successor state.\<close>

record ('i, 's) machine =
  exec_call :: "string \<Rightarrow> u32 list \<Rightarrow> 's \<Rightarrow> 's option"
  exec_instr :: "'i \<Rightarrow> 's \<Rightarrow> 's option"
  successor :: "'i \<Rightarrow> 's \<Rightarrow> nat"

fun perform :: "('i, 's) machine \<Rightarrow> 'i instr \<Rightarrow> 's \<Rightarrow> 's option" where
  "perform M (Call f cc args) s = exec_call M f args s"
| "perform M (Instr x) s = exec_instr M x s"

type_synonym ('i, 's) point = "nat \<times> 'i instr list \<times> 's"

inductive step :: "('i, 's) machine \<Rightarrow> 'i ir_function \<Rightarrow> ('i, 's) point \<Rightarrow> ('i, 's) point \<Rightarrow> bool"
  for M F where
  step_instr: "perform M c s = Some t \<Longrightarrow> step M F (b, c # cs, s) (b, cs, t)"
| step_branch:
    "b < length (fn_blocks F) \<Longrightarrow> term_inst (fn_blocks F ! b) = Br x succs \<Longrightarrow>
     successor M x s < length succs \<Longrightarrow> succs ! successor M x s = b' \<Longrightarrow> b' < length (fn_blocks F) \<Longrightarrow>
     step M F (b, [], s) (b', body (fn_blocks F ! b'), s)"

inductive_simps step_instr_simps: "step M F (b, c # cs, s) p"
inductive_simps step_end_simps: "step M F (b, [], s) p"

abbreviation steps where "steps M F \<equiv> (step M F)\<^sup>*\<^sup>*"

definition returns :: "('i, 's) machine \<Rightarrow> 'i ir_function \<Rightarrow> 's \<Rightarrow> 's \<Rightarrow> bool" where
  "returns M F s t \<longleftrightarrow> (\<exists>b < length (fn_blocks F). term_inst (fn_blocks F ! b) = Ret \<and>
     steps M F (0, body (fn_blocks F ! 0), s) (b, [], t))"

text \<open>The verifier of LLVM accepts no branch to the entry block.\<close>

definition entry_not_target :: "'i ir_function \<Rightarrow> bool" where
  "entry_not_target F \<longleftrightarrow>
     list_all (\<lambda>b. case term_inst b of Br x succs \<Rightarrow> 0 \<notin> set succs | _ \<Rightarrow> True) (fn_blocks F)"

lemma not_target:
  "entry_not_target F \<Longrightarrow> b < length (fn_blocks F) \<Longrightarrow> term_inst (fn_blocks F ! b) = Br x succs \<Longrightarrow>
   k < length succs \<Longrightarrow> succs ! k \<noteq> 0"
  by (rule notI, drule nth_mem [of k]) (auto simp: entry_not_target_def list_all_length split: terminator.splits)

section \<open>The simulation\<close>

text \<open>Inside of the body the wrapped function has the instructions of the original and, in a block
  that returns, the call of the destructors after them.\<close>

definition wrap :: "'i instr \<Rightarrow> 'i instr \<Rightarrow> 'i ir_function \<Rightarrow> 'i ir_function" where
  "wrap c d F = F\<lparr>fn_blocks := wrap_blocks c d (fn_blocks F)\<rparr>"

definition suffix_at :: "'i instr \<Rightarrow> 'i ir_function \<Rightarrow> nat \<Rightarrow> 'i instr list" where
  "suffix_at d F b = (if b < length (fn_blocks F) \<and> term_inst (fn_blocks F ! b) = Ret then [d] else [])"

fun lift_point :: "'i instr \<Rightarrow> 'i ir_function \<Rightarrow> ('i, 's) point \<Rightarrow> ('i, 's) point" where
  "lift_point d F (b, cs, s) = (b, cs @ suffix_at d F b, s)"

lemma insert_front_nth:
  "b < length bs \<Longrightarrow> insert_front c bs ! b = (if b = 0 then (bs ! 0)\<lparr>body := c # body (bs ! 0)\<rparr> else bs ! b)"
  by (cases bs; cases b) auto

lemma length_insert_front [simp]: "length (insert_front c bs) = length bs"
  by (cases bs) auto

lemma wrap_nth:
  assumes "b < length (fn_blocks F)"
  shows "fn_blocks (wrap c d F) ! b =
    (fn_blocks F ! b)\<lparr>body := (if b = 0 then [c] else []) @ body (fn_blocks F ! b) @ suffix_at d F b\<rparr>"
  using assms by (simp add: wrap_def wrap_blocks_def insert_front_nth before_return_def suffix_at_def)

lemma wrap_length [simp]: "length (fn_blocks (wrap c d F)) = length (fn_blocks F)"
  by (simp add: wrap_def wrap_blocks_def)

lemma wrap_term [simp]: "b < length (fn_blocks F) \<Longrightarrow> term_inst (fn_blocks (wrap c d F) ! b) = term_inst (fn_blocks F ! b)"
  by (simp add: wrap_nth)

lemma lift_step:
  assumes "entry_not_target F" "step M F p q"
  shows "step M (wrap c d F) (lift_point d F p) (lift_point d F q)"
  using assms(2)
proof cases
  case (step_branch b x succs s b')
  moreover have "b' \<noteq> 0" using not_target [OF assms(1)] step_branch by blast
  moreover have "suffix_at d F b = []" using step_branch by (simp add: suffix_at_def)
  ultimately show ?thesis by (auto simp: step_end_simps wrap_nth)
qed (simp add: step_instr_simps)

lemma lift_steps:
  assumes "entry_not_target F" "steps M F p q"
  shows "steps M (wrap c d F) (lift_point d F p) (lift_point d F q)"
  using assms(2) by induction (auto intro: rtranclp.rtrancl_into_rtrancl lift_step [OF assms(1)])

text \<open>A step from a lifted point is a step of the original, or it runs the destructors.\<close>

lemma lift_step_back:
  assumes "entry_not_target F" "step M (wrap c d F) (lift_point d F p) r"
  obtains q where "step M F p q" "r = lift_point d F q"
  | b s u where "p = (b, [], s)" "b < length (fn_blocks F)" "term_inst (fn_blocks F ! b) = Ret"
      "perform M d s = Some u" "r = (b, [], u)"
proof -
  obtain b cs s where p: "p = (b, cs, s)" by (cases p)
  show thesis
  proof (cases cs)
    case (Cons x xs)
    then obtain t where t: "perform M x s = Some t" "r = (b, xs @ suffix_at d F b, t)"
      using assms(2) p by (auto simp: step_instr_simps)
    show thesis using that(1) [of "(b, xs, t)"] t p Cons by (simp add: step_instr_simps)
  next
    case Nil
    show thesis
    proof (cases "suffix_at d F b = []")
      case True
      then obtain x succs b' where br: "b < length (fn_blocks F)" "term_inst (fn_blocks F ! b) = Br x succs"
          "successor M x s < length succs" "succs ! successor M x s = b'" "b' < length (fn_blocks F)"
          "r = (b', body (fn_blocks (wrap c d F) ! b'), s)"
        using assms(2) p Nil by (auto simp: step_end_simps)
      have "b' \<noteq> 0" using not_target [OF assms(1) br(1-3)] br(4) by simp
      then show thesis using that(1) [of "(b', body (fn_blocks F ! b'), s)"] br p Nil
        by (simp add: step_end_simps wrap_nth)
    next
      case False
      then show thesis using that(2) [of b s] assms(2) p Nil
        by (auto simp: suffix_at_def step_instr_simps split: if_splits)
    qed
  qed
qed

text \<open>A point the wrapped function reaches from a lifted point is lifted, or the destructors have
  run and the function is about to return.\<close>

lemma wrapped_reach:
  assumes "entry_not_target F" "steps M (wrap c d F) (lift_point d F p) r"
  shows "(\<exists>q. steps M F p q \<and> r = lift_point d F q) \<or>
    (\<exists>b v u. steps M F p (b, [], v) \<and> b < length (fn_blocks F) \<and> term_inst (fn_blocks F ! b) = Ret \<and>
       perform M d v = Some u \<and> r = (b, [], u))"
  using assms(2)
proof induction
  case (step y z)
  from step.IH show ?case
  proof (elim disjE exE conjE)
    fix q assume q: "steps M F p q" "y = lift_point d F q"
    from assms(1) step.hyps(2) [unfolded q(2)] show ?thesis
    proof (cases rule: lift_step_back)
      case (1 q')
      then show ?thesis using q(1) by (blast intro: rtranclp.rtrancl_into_rtrancl)
    next
      case (2 b v u)
      then show ?thesis using q(1) by blast
    qed
  next
    fix b v u assume "b < length (fn_blocks F)" "term_inst (fn_blocks F ! b) = Ret" "y = (b, [], u)"
    then show ?thesis using step.hyps(2) by (simp add: step_end_simps)
  qed
qed blast

lemma wrapped_returns:
  assumes F: "entry_not_target F" "fn_blocks F \<noteq> []"
  shows "returns M (wrap c d F) s u \<longleftrightarrow>
    (\<exists>t v. perform M c s = Some t \<and> returns M F t v \<and> perform M d v = Some u)"
proof
  let ?p = "\<lambda>t. (0, body (fn_blocks F ! 0), t)"
  have start: "fn_blocks (wrap c d F) ! 0 = (fn_blocks F ! 0)\<lparr>body := c # body (fn_blocks F ! 0) @ suffix_at d F 0\<rparr>"
    using F(2) by (simp add: wrap_nth)
  {
    assume "returns M (wrap c d F) s u"
    then obtain b where b: "b < length (fn_blocks F)" "term_inst (fn_blocks F ! b) = Ret"
      "steps M (wrap c d F) (0, c # body (fn_blocks F ! 0) @ suffix_at d F 0, s) (b, [], u)"
      by (auto simp: returns_def start)
    then obtain t where t: "perform M c s = Some t" "steps M (wrap c d F) (lift_point d F (?p t)) (b, [], u)"
      by (auto elim: converse_rtranclpE simp: step_instr_simps)
    have "suffix_at d F b = [d]" using b by (simp add: suffix_at_def)
    then have "(b, [], u) \<noteq> lift_point d F q" for q by (cases q) auto
    then show "\<exists>t v. perform M c s = Some t \<and> returns M F t v \<and> perform M d v = Some u"
      using wrapped_reach [OF F(1) t(2)] t(1) by (auto simp: returns_def)
  next
    assume "\<exists>t v. perform M c s = Some t \<and> returns M F t v \<and> perform M d v = Some u"
    then obtain t v b where r: "perform M c s = Some t" "perform M d v = Some u" "b < length (fn_blocks F)"
      "term_inst (fn_blocks F ! b) = Ret" "steps M F (?p t) (b, [], v)"
      by (auto simp: returns_def)
    have "step M (wrap c d F) (0, c # body (fn_blocks F ! 0) @ suffix_at d F 0, s) (lift_point d F (?p t))"
      using r(1) by (simp add: step_instr_simps)
    moreover have "step M (wrap c d F) (lift_point d F (b, [], v)) (b, [], u)"
      using r(2-4) by (simp add: suffix_at_def step_instr_simps)
    ultimately have "steps M (wrap c d F) (0, c # body (fn_blocks F ! 0) @ suffix_at d F 0, s) (b, [], u)"
      using lift_steps [OF F(1) r(5), of c d] by (meson converse_rtranclp_into_rtranclp rtranclp.rtrancl_into_rtrancl)
    then show "returns M (wrap c d F) s u" using r(3,4) by (auto simp: returns_def start)
  }
qed


section \<open>The pass over a module\<close>

text \<open>The runtime functions, where the module declares them, have the types the linker gives them.\<close>

definition runtime_declared :: "'i ir_module \<Rightarrow> bool" where
  "runtime_declared m \<longleftrightarrow>
     list_all (\<lambda>F. (fn_name F = ''__wasm_call_ctors'' \<longrightarrow> fn_type F = ctors_type) \<and>
                   (fn_name F = ''__cxa_finalize'' \<longrightarrow> fn_type F = dtors_type)) (function_list m) \<and>
     ''__wasm_call_ctors'' \<notin> set (variables m) \<and> ''__cxa_finalize'' \<notin> set (variables m)"

lemma get_or_insert_ok:
  assumes "nm \<notin> set (variables m)" "list_all (\<lambda>F. fn_name F = nm \<longrightarrow> fn_type F = ty) (function_list m)"
  shows "\<exists>i. fst (get_or_insert_function nm ty m) = TheFunction i"
  using assms find_function_Some [of nm "function_list m" 0]
  by (auto simp: get_or_insert_function_def get_named_value_def list_all_length split: option.splits)

lemma run_on_function_ok:
  assumes "runtime_declared m"
  shows "\<exists>b m'. run_on_function i m = Inr (b, m')"
proof -
  obtain k m1 where 1: "get_or_insert_function ''__wasm_call_ctors'' ctors_type m = (k, m1)" by force
  obtain l m2 where 2: "get_or_insert_function ''__cxa_finalize'' dtors_type m1 = (l, m2)" by force
  have "\<exists>c. k = TheFunction c"
    using get_or_insert_ok [of "''__wasm_call_ctors''" m ctors_type] assms 1
    by (auto simp: runtime_declared_def list_all_iff)
  moreover have "\<exists>d. l = TheFunction d"
    using get_or_insert_ok [of "''__cxa_finalize''" m1 dtors_type] assms 2 get_or_insert_result(1,2) [OF 1]
    by (auto simp: runtime_declared_def list_all_iff prototype_def split: if_splits)
  ultimately show ?thesis by (auto simp: run_on_function_def Let_def 1 2 as_function_def)
qed

text \<open>A function after the pass: the body of an entry function is wrapped, every other function is
  as before.\<close>

definition to_wrap :: "'i ir_function \<Rightarrow> bool" where
  "to_wrap F \<longleftrightarrow> is_entry F \<and> \<not> is_declaration F"

definition passed :: "'i ir_function \<Rightarrow> 'i ir_function \<Rightarrow> bool" where
  "passed F G \<longleftrightarrow>
     (if to_wrap F
      then \<exists>x y. G = wrap (Call ''__wasm_call_ctors'' x []) (Call ''__cxa_finalize'' y [0]) F
      else G = F)"

lemma manager_run_passed:
  assumes "runtime_declared m" "i < length (function_list m)"
  obtains m' G where "manager_run_on_function i m = Inr (to_wrap (function_list m ! i), m')"
    and "passed (function_list m ! i) G"
    and "runtime_declared m'"
    and "function_list m' = (function_list m)[i := G] @ (if to_wrap (function_list m ! i) then runtime_protos m else [])"
proof (cases "to_wrap (function_list m ! i)")
  case True
  obtain b m' where r: "run_on_function i m = Inr (b, m')" using run_on_function_ok [OF assms(1)] by blast
  from True have e: "is_entry (function_list m ! i)" by (simp add: to_wrap_def)
  obtain x y where b: b and m': "variables m' = variables m" "function_list m' = (function_list m)[i :=
       wrap (Call ''__wasm_call_ctors'' x []) (Call ''__cxa_finalize'' y [0]) (function_list m ! i)] @ runtime_protos m"
    using r e assms(2) by (elim run_on_entry) (auto simp: wrap_def)
  let ?G = "wrap (Call ''__wasm_call_ctors'' x []) (Call ''__cxa_finalize'' y [0]) (function_list m ! i)"
  have "fn_name ?G = fn_name (function_list m ! i)" "fn_type ?G = fn_type (function_list m ! i)"
    by (simp_all add: wrap_def)
  then have "list_all (\<lambda>F. (fn_name F = ''__wasm_call_ctors'' \<longrightarrow> fn_type F = ctors_type) \<and>
                   (fn_name F = ''__cxa_finalize'' \<longrightarrow> fn_type F = dtors_type)) ((function_list m)[i := ?G])"
    using assms by (simp add: runtime_declared_def list_all_length nth_list_update)
  then have "runtime_declared m'"
    using assms(1) m' by (auto simp: runtime_declared_def runtime_protos_def prototype_def)
  then show thesis using True r b m' by (intro that) (auto simp: manager_run_on_function_def to_wrap_def passed_def)
next
  case False
  then show thesis using assms
    by (intro that [of m "function_list m ! i"])
      (auto simp: manager_run_on_function_def run_on_function_def to_wrap_def passed_def)
qed

lemma protos_declarations: "list_all is_declaration (runtime_protos m)"
  by (simp add: runtime_protos_def prototype_def is_declaration_def)

lemma passed_declarations: "list_all2 passed ps qs \<Longrightarrow> list_all is_declaration ps \<Longrightarrow> qs = ps"
  by (induction rule: list_all2_induct) (auto simp: passed_def to_wrap_def)

lemma run_on_module_from:
  assumes "runtime_declared m" "i \<le> length (function_list m)"
  shows "\<exists>Gs ps m'. run_on_module i ch m = Inr (ch \<or> list_ex to_wrap (drop i (function_list m)), m') \<and>
     list_all2 passed (drop i (function_list m)) Gs \<and> list_all is_declaration ps \<and>
     function_list m' = take i (function_list m) @ Gs @ ps"
  using assms
proof (induction i ch m rule: run_on_module.induct)
  case (1 i ch m)
  show ?case
  proof (cases "i < length (function_list m)")
    case True
    let ?F = "function_list m ! i"
    obtain m1 G where m1: "manager_run_on_function i m = Inr (to_wrap ?F, m1)" "passed ?F G" "runtime_declared m1"
      "function_list m1 = (function_list m)[i := G] @ (if to_wrap ?F then runtime_protos m else [])"
      using manager_run_passed [OF "1.prems"(1) True] by metis
    let ?ps = "if to_wrap ?F then runtime_protos m else []"
    have ps: "list_all is_declaration ?ps" by (simp add: protos_declarations)
    have d: "drop (i + 1) (function_list m1) = drop (i + 1) (function_list m) @ ?ps"
      "take (i + 1) (function_list m1) = take i (function_list m) @ [G]"
      using True by (simp_all add: m1(4) upd_conv_take_nth_drop)
    obtain Gs qs m' where r: "run_on_module (i + 1) (ch \<or> to_wrap ?F) m1 =
          Inr ((ch \<or> to_wrap ?F) \<or> list_ex to_wrap (drop (i + 1) (function_list m) @ ?ps), m')"
      "list_all2 passed (drop (i + 1) (function_list m) @ ?ps) Gs" "list_all is_declaration qs"
      "function_list m' = (take i (function_list m) @ [G]) @ Gs @ qs"
      using "1.IH" [OF True m1(1) refl m1(3)] True m1(4) d by (metis (no_types, lifting) One_nat_def Suc_leI add.right_neutral add_Suc_right length_append length_list_update trans_le_add1)
    obtain Gs1 ps1 where g: "Gs = Gs1 @ ps1" "list_all2 passed (drop (i + 1) (function_list m)) Gs1"
      "list_all2 passed ?ps ps1"
      using r(2) by (auto simp: list_all2_append1)
    have "ps1 = ?ps" using g(3) ps by (rule passed_declarations)
    have F: "drop i (function_list m) = ?F # drop (i + 1) (function_list m)"
      using True by (simp add: Cons_nth_drop_Suc)
    have "\<not> list_ex to_wrap ?ps" using ps by (simp add: list_ex_iff list_all_iff to_wrap_def)
    then have "run_on_module i ch m = Inr (ch \<or> list_ex to_wrap (drop i (function_list m)), m')"
      using True m1(1) r(1) by (subst run_on_module.simps) (simp add: F disj_assoc)
    then show ?thesis using r(3,4) g(2) m1(2) ps
      by (intro exI [of _ "G # Gs1"] exI [of _ "?ps @ qs"] exI [of _ m']) (simp add: F g(1) \<open>ps1 = ?ps\<close>)
  qed (use "1.prems" in \<open>simp add: run_on_module.simps\<close>)
qed


text \<open>C29: the pass succeeds on a module that declares the runtime functions with their types, or not
  at all. A function with the attribute \<open>ftl_wasm_entry\<close> or the name \<open>apply\<close> then runs exactly as
  before between the constructors of the global objects and their destructors, on every path to a
  return; every other function is unchanged; the module is reported as changed exactly when it has
  such a function with a body.\<close>

theorem fixup_wraps_entries:
  assumes "runtime_declared m" "list_all entry_not_target (function_list m)" "i < length (function_list m)"
  shows "\<exists>m'. run_on_module 0 False m = Inr (list_ex to_wrap (function_list m), m') \<and>
    (let F = function_list m ! i; G = function_list m' ! i in
       if to_wrap F then
         (returns M G s u \<longleftrightarrow> (\<exists>t v. exec_call M ''__wasm_call_ctors'' [] s = Some t \<and> returns M F t v \<and>
                                   exec_call M ''__cxa_finalize'' [0] v = Some u))
       else G = F)"
proof -
  let ?F = "function_list m ! i"
  obtain Gs ps m' where m': "run_on_module 0 False m = Inr (list_ex to_wrap (function_list m), m')"
    "list_all2 passed (function_list m) Gs" "function_list m' = Gs @ ps"
    using run_on_module_from [OF assms(1), of 0 False] by auto
  then have p: "passed ?F (function_list m' ! i)"
    using assms(3) by (auto simp: list_all2_conv_all_nth nth_append)
  have "entry_not_target ?F" using assms(2,3) by (simp add: list_all_length)
  then have "to_wrap ?F \<Longrightarrow> returns M (function_list m' ! i) s u \<longleftrightarrow>
      (\<exists>t v. exec_call M ''__wasm_call_ctors'' [] s = Some t \<and> returns M ?F t v \<and>
             exec_call M ''__cxa_finalize'' [0] v = Some u)"
    using p by (auto simp: passed_def to_wrap_def is_declaration_def wrapped_returns simp del: ex_simps)
  then show ?thesis using m'(1) p by (simp add: passed_def Let_def)
qed

text \<open>An entry function with two blocks, over a machine whose state is the list of what has run.\<close>

definition example_entry :: "string ir_function" where
  "example_entry = \<lparr>fn_name = ''apply'', fn_type = ctors_type, fn_attrs = [], calling_conv = 0,
     fn_blocks = [\<lparr>body = [Instr ''setup''], term_inst = Br ''jump'' [1]\<rparr>, \<lparr>body = [Instr ''action''], term_inst = Ret\<rparr>]\<rparr>"

definition example_machine :: "(string, string list) machine" where
  "example_machine = \<lparr>exec_call = (\<lambda>f args s. Some (s @ [f])), exec_instr = (\<lambda>x s. Some (s @ [x])),
     successor = (\<lambda>x s. 0)\<rparr>"

lemma example_entry_returns:
  "returns example_machine example_entry [''__wasm_call_ctors''] [''__wasm_call_ctors'', ''setup'', ''action'']"
proof -
  have "step example_machine example_entry (0, [Instr ''setup''], s) (0, [], s @ [''setup''])"
    "step example_machine example_entry (0, [], s) (1, [Instr ''action''], s)"
    "step example_machine example_entry (1, [Instr ''action''], s) (1, [], s @ [''action''])" for s
    by (simp_all add: step_instr_simps step_end_simps example_machine_def example_entry_def)
  then have "steps example_machine example_entry (0, [Instr ''setup''], [''__wasm_call_ctors''])
      (1, [], ([''__wasm_call_ctors''] @ [''setup'']) @ [''action''])"
    by (meson converse_rtranclp_into_rtranclp rtranclp.rtrancl_refl)
  then show ?thesis unfolding returns_def by (intro exI [of _ 1]) (simp add: example_entry_def)
qed

theorem fixup_wraps_entries_witness:
  "\<exists>m'. run_on_module 0 False \<lparr>function_list = [example_entry], variables = []\<rparr> = Inr (True, m') \<and>
     returns example_machine (function_list m' ! 0) []
       [''__wasm_call_ctors'', ''setup'', ''action'', ''__cxa_finalize'']"
proof -
  let ?m = "\<lparr>function_list = [example_entry], variables = []\<rparr>"
  have m: "runtime_declared ?m" "list_all entry_not_target (function_list ?m)" "0 < length (function_list ?m)"
    "to_wrap example_entry"
    by (simp_all add: runtime_declared_def example_entry_def entry_not_target_def to_wrap_def is_entry_def is_declaration_def)
  show ?thesis
    using fixup_wraps_entries [OF m(1-3), of example_machine "[]" "[''__wasm_call_ctors'', ''setup'', ''action'', ''__cxa_finalize'']"]
      m(4) example_entry_returns
    by (auto simp: example_machine_def Let_def)
qed

end
