(* ===== verification/Plugin.thy ===== *)
theory Plugin
  imports Abitypes Abigen
begin

text \<open>
  The plugin of clang that the drivers load to check the parameters of methods:
  \<open>tools/llvm/tools/clang/plugins/ftl_plugin/ftl_autogen.cpp\<close>. It looks at every method of the
  translation unit; the nodes clang visits are a list of methods.
\<close>

section \<open>\<open>ftl_autogen.cpp\<close>\<close>

text \<open>The lambda \<open>check\<close>, and the test on a type or what an \<open>ElaboratedType\<close> stands for.\<close>

fun check_ignore :: "decls \<Rightarrow> qtype \<Rightarrow> bool" where
  "check_ignore ds (TemplateT s n args u) =
     (case dyn_record u of Some d \<Rightarrow> rec_ignore (ds d) | None \<Rightarrow> False)"
| "check_ignore ds t = False"

definition validate_is_ignorable :: "decls \<Rightarrow> qtype \<Rightarrow> bool" where
  "validate_is_ignorable ds type =
     (case type_ptr type of
        ElabT s u \<Rightarrow> check_ignore ds (type_ptr u)
      | pt \<Rightarrow> check_ignore ds pt)"

text \<open>The loop of \<open>VisitCXXMethodDecl\<close>: the parameters an error is reported for, by position.\<close>

fun visit_params :: "decls \<Rightarrow> (string \<times> qtype) list \<Rightarrow> nat \<Rightarrow> bool \<Rightarrow> nat list" where
  "visit_params ds [] i invalid_params = []"
| "visit_params ds ((nm, t) # ps) i invalid_params =
     (let ignore = validate_is_ignorable ds (unqualified (non_reference t))
      in (if invalid_params \<and> \<not> ignore then [i] else []) @
         visit_params ds ps (i + 1) (invalid_params \<or> ignore))"

definition visit_method :: "decls \<Rightarrow> cxx_method \<Rightarrow> nat list" where
  "visit_method ds m = visit_params ds (m_params m) 0 False"

text \<open>\<open>HandleTranslationUnit\<close>: all diagnostics, each with the name of its method. Any of them makes the
  compilation fail.\<close>

definition validate_unit :: "decls \<Rightarrow> cxx_method list \<Rightarrow> (string \<times> nat) list" where
  "validate_unit ds ms = concat (map (\<lambda>m. map (Pair (m_name m)) (visit_method ds m)) ms)"

section \<open>Which parameters are reported\<close>

lemma tst_type_ptr: "tst (type_ptr t) = tst t"
  by (induction t rule: type_ptr.induct) simp_all

lemma type_ptr_not_Qual: "type_ptr t \<noteq> Qual s u"
  by (induction t rule: type_ptr.induct) simp_all

text \<open>The plugin and the ABI generator agree on what is ignorable.\<close>

lemma same_is_ignorable: "validate_is_ignorable ds t = is_ignorable ds t"
proof -
  have c: "check_ignore ds u = (case dyn_tst u of
      Some (n, args, u) \<Rightarrow> (case dyn_record u of Some d \<Rightarrow> rec_ignore (ds d) | None \<Rightarrow> False) | None \<Rightarrow> False)" for u
    by (cases u) simp_all
  show ?thesis
    unfolding validate_is_ignorable_def is_ignorable_def tst_type_ptr [of t, symmetric]
    by (cases "type_ptr t") (simp_all add: c type_ptr_not_Qual)
qed

definition param_ignorable :: "decls \<Rightarrow> string \<times> qtype \<Rightarrow> bool" where
  "param_ignorable ds p = is_ignorable ds (unqualified (non_reference (snd p)))"

lemma visit_params_Cons:
  "visit_params ds (p # ps) i b =
     (if b \<and> \<not> param_ignorable ds p then [i] else []) @ visit_params ds ps (i + 1) (b \<or> param_ignorable ds p)"
  by (cases p) (simp add: param_ignorable_def same_is_ignorable Let_def)

lemma visit_params_set:
  "k \<in> set (visit_params ds ps i b) \<longleftrightarrow>
     (\<exists>j < length ps. k = i + j \<and> \<not> param_ignorable ds (ps ! j) \<and> (b \<or> list_ex (param_ignorable ds) (take j ps)))"
proof (induction ps arbitrary: i b)
  case (Cons p ps)
  show ?case unfolding visit_params_Cons set_append Un_iff Cons.IH
    by (auto simp: Ex_less_Suc2)
qed simp

lemma ignorable_last:
  "(\<forall>j < length ps. P (ps ! j) \<or> \<not> list_ex P (take j ps)) \<longleftrightarrow>
     (\<exists>xs ys. ps = xs @ ys \<and> list_all (\<lambda>x. \<not> P x) xs \<and> list_all P ys)"
proof
  assume a: "\<forall>j < length ps. P (ps ! j) \<or> \<not> list_ex P (take j ps)"
  let ?n = "length (takeWhile (\<lambda>x. \<not> P x) ps)"
  have "P (ps ! j)" if "?n \<le> j" "j < length ps" for j
  proof (cases "j = ?n")
    case True
    then show ?thesis using that nth_length_takeWhile [of "\<lambda>x. \<not> P x" ps] by auto
  next
    case False
    then have "?n < j" using that by simp
    then have "P (take j ps ! ?n)" "?n < length (take j ps)"
      using that nth_length_takeWhile [of "\<lambda>x. \<not> P x" ps] by auto
    then have "list_ex P (take j ps)" using list_ex_length by blast
    then show ?thesis using a that by blast
  qed
  then have "list_all P (drop ?n ps)" by (auto simp: list_all_length)
  then have "list_all P (dropWhile (\<lambda>x. \<not> P x) ps)" by (simp add: dropWhile_eq_drop)
  moreover have "list_all (\<lambda>x. \<not> P x) (takeWhile (\<lambda>x. \<not> P x) ps)"
    by (auto simp: list_all_iff dest: set_takeWhileD)
  ultimately show "\<exists>xs ys. ps = xs @ ys \<and> list_all (\<lambda>x. \<not> P x) xs \<and> list_all P ys"
    by (metis takeWhile_dropWhile_id)
next
  assume "\<exists>xs ys. ps = xs @ ys \<and> list_all (\<lambda>x. \<not> P x) xs \<and> list_all P ys"
  then obtain xs ys where ps: "ps = xs @ ys" "list_all (\<lambda>x. \<not> P x) xs" "list_all P ys" by blast
  have "P (ps ! j) \<or> \<not> list_ex P (take j ps)" if "j < length ps" for j
  proof (cases "j < length xs")
    case True
    then show ?thesis using ps(1,2) by (auto simp: list_ex_iff list_all_iff dest: in_set_takeD)
  next
    case False
    then show ?thesis using ps that by (simp add: nth_append list_all_length)
  qed
  then show "\<forall>j < length ps. P (ps ! j) \<or> \<not> list_ex P (take j ps)" by blast
qed

text \<open>C34: the plugin reports a parameter exactly when it is not ignorable and one in front of it is. A
  translation unit compiles, as far as the plugin is concerned, exactly when in every method the
  ignorable parameters, in the sense of the ABI generator, are the last ones.\<close>

theorem validate_unit_accepts:
  "(k \<in> set (visit_method ds m) \<longleftrightarrow>
      k < length (m_params m) \<and> \<not> param_ignorable ds (m_params m ! k) \<and>
      list_ex (param_ignorable ds) (take k (m_params m))) \<and>
   (validate_unit ds ms = [] \<longleftrightarrow>
      list_all (\<lambda>m. \<exists>xs ys. m_params m = xs @ ys \<and>
        list_all (\<lambda>p. \<not> param_ignorable ds p) xs \<and> list_all (param_ignorable ds) ys) ms)"
proof -
  have s: "k \<in> set (visit_method ds m) \<longleftrightarrow>
      k < length (m_params m) \<and> \<not> param_ignorable ds (m_params m ! k) \<and>
      list_ex (param_ignorable ds) (take k (m_params m))" for k m
    by (auto simp: visit_method_def visit_params_set)
  have "visit_method ds m = [] \<longleftrightarrow>
      (\<forall>j < length (m_params m). param_ignorable ds (m_params m ! j) \<or>
         \<not> list_ex (param_ignorable ds) (take j (m_params m)))" for m
    by (auto simp: set_eq_iff s simp flip: set_empty)
  then show ?thesis
    by (simp add: s) (simp add: validate_unit_def list_all_iff ignorable_last)
qed

end
