(* ===== verification/Leb128.thy ===== *)
theory Leb128
  imports Codec
begin

text \<open>
  LEB128 numbers of WebAssembly binaries, as \<open>fractal-pp\<close> reads and writes them:
  \<open>tools/fractal-tools/external/wabt/src/leb128.cc\<close>, and the memory stream of \<open>stream.cc\<close> they
  are written to. The writers fill an array of five or ten bytes; a write past its end would be
  undefined behaviour and is a value of the model. The readers return the number of bytes read,
  0 for none, and the value they store, if any.
\<close>

section \<open>\<open>MemoryStream\<close>\<close>

record mem_out =
  out_offset :: nat
  out_data :: "byte list"

definition mem_out_empty :: mem_out where
  "mem_out_empty = \<lparr>out_offset = 0, out_data = []\<rparr>"

definition write_data_impl :: "nat \<Rightarrow> byte list \<Rightarrow> byte list \<Rightarrow> byte list" where
  "write_data_impl dst_offset src buf =
     (if src = [] then buf
      else let dst_end = dst_offset + length src;
               buf = (if dst_end > length buf then resize dst_end 0 buf else buf)
           in take dst_offset buf @ src @ drop dst_end buf)"

definition write_data_at :: "nat \<Rightarrow> byte list \<Rightarrow> mem_out \<Rightarrow> mem_out" where
  "write_data_at at src st = st\<lparr>out_data := write_data_impl at src (out_data st)\<rparr>"

definition write_data :: "byte list \<Rightarrow> mem_out \<Rightarrow> mem_out" where
  "write_data src st =
     (let st = write_data_at (out_offset st) src st in st\<lparr>out_offset := out_offset st + length src\<rparr>)"

definition move_data :: "nat \<Rightarrow> nat \<Rightarrow> nat \<Rightarrow> mem_out \<Rightarrow> mem_out" where
  "move_data dst_offset src_offset n st =
     (if n = 0 then st
      else let stop = max (src_offset + n) (dst_offset + n);
               buf = (if stop > length (out_data st) then resize stop 0 (out_data st) else out_data st)
           in st\<lparr>out_data := take dst_offset buf @ take n (drop src_offset buf) @ drop (dst_offset + n) buf\<rparr>)"

section \<open>Writers\<close>

definition max_u32_leb128_bytes :: nat where
  "max_u32_leb128_bytes = 5"

definition max_u64_leb128_bytes :: nat where
  "max_u64_leb128_bytes = 10"

function u32_leb128_length_loop :: "u32 \<Rightarrow> u32 \<Rightarrow> u32" where
  "u32_leb128_length_loop v sz =
     (let v = drop_bit 7 v; sz = sz + 1
      in if v \<noteq> 0 then u32_leb128_length_loop v sz else sz)"
  by pat_completeness auto

termination
proof (relation "measure (\<lambda>(v, sz). unat v)")
  fix v sz x xa :: u32
  assume "x = drop_bit 7 v" "x \<noteq> 0"
  then have "unat x = unat v div 128" "0 < unat v div 128"
    by (simp_all add: unat_drop_bit unat_gt_0 flip: unat_eq_zero)
  then show "((x, xa), v, sz) \<in> measure (\<lambda>(v, sz). unat v)" by simp
qed simp

definition u32_leb128_length :: "u32 \<Rightarrow> u32" where
  "u32_leb128_length v = u32_leb128_length_loop v 0"

text \<open>\<open>LEB128_LOOP_UNTIL\<close>: \<open>shr\<close> is \<open>value >>= 7\<close> at the type of \<open>value\<close>, \<open>n\<close> the size of \<open>data\<close>.\<close>

function leb128_loop ::
    "nat \<Rightarrow> ('a::len word \<Rightarrow> 'a word) \<Rightarrow> ('a word \<Rightarrow> byte \<Rightarrow> bool) \<Rightarrow> 'a word \<Rightarrow> byte list \<Rightarrow> byte list res" where
  "leb128_loop n shr end_cond v data =
     (let b = ucast (v AND 0x7f) :: byte; v = shr v
      in if length data < n then
           if end_cond v b then Inr (data @ [b]) else leb128_loop n shr end_cond v (data @ [b OR 0x80])
         else Inl (UB ''data[length]''))"
  by pat_completeness auto

termination
  by (relation "measure (\<lambda>(n, shr, end_cond, v, data). n - length data)") auto

declare u32_leb128_length_loop.simps [simp del] leb128_loop.simps [simp del]

definition u32_leb128_bytes :: "u32 \<Rightarrow> byte list res" where
  "u32_leb128_bytes v = leb128_loop max_u32_leb128_bytes (drop_bit 7) (\<lambda>v b. v = 0) v []"

definition write_u32_leb128 :: "u32 \<Rightarrow> mem_out \<Rightarrow> mem_out res" where
  "write_u32_leb128 v st = rbind (u32_leb128_bytes v) (\<lambda>data. Inr (write_data data st))"

definition write_u32_leb128_at :: "nat \<Rightarrow> u32 \<Rightarrow> mem_out \<Rightarrow> (nat \<times> mem_out) res" where
  "write_u32_leb128_at offset v st =
     rbind (u32_leb128_bytes v) (\<lambda>data. Inr (length data, write_data_at offset data st))"

text \<open>\<open>room\<close> is \<open>end - data\<close>.\<close>

definition write_fixed_u32_leb128_raw :: "nat \<Rightarrow> u32 \<Rightarrow> byte list" where
  "write_fixed_u32_leb128_raw room v =
     (if room < max_u32_leb128_bytes then []
      else [ucast ((v AND 0x7f) OR 0x80), ucast ((drop_bit 7 v AND 0x7f) OR 0x80),
            ucast ((drop_bit 14 v AND 0x7f) OR 0x80), ucast ((drop_bit 21 v AND 0x7f) OR 0x80),
            ucast (drop_bit 28 v AND 0x0f)])"

definition write_fixed_u32_leb128 :: "u32 \<Rightarrow> mem_out \<Rightarrow> mem_out" where
  "write_fixed_u32_leb128 v st = write_data (write_fixed_u32_leb128_raw max_u32_leb128_bytes v) st"

definition write_fixed_u32_leb128_at :: "nat \<Rightarrow> u32 \<Rightarrow> mem_out \<Rightarrow> nat \<times> mem_out" where
  "write_fixed_u32_leb128_at offset v st =
     (let data = write_fixed_u32_leb128_raw max_u32_leb128_bytes v
      in (length data, write_data_at offset data st))"

text \<open>The signed writers at both widths; \<open>n\<close> is the size of their array.\<close>

definition signed_leb128_bytes :: "nat \<Rightarrow> 'a::len word \<Rightarrow> byte list res" where
  "signed_leb128_bytes n v =
     (if v <s 0
      then leb128_loop n (signed_drop_bit 7) (\<lambda>v b. v = - 1 \<and> b AND 0x40 \<noteq> 0) v []
      else leb128_loop n (signed_drop_bit 7) (\<lambda>v b. v = 0 \<and> \<not> b AND 0x40 \<noteq> 0) v [])"

definition write_s32_leb128 :: "u32 \<Rightarrow> mem_out \<Rightarrow> mem_out res" where
  "write_s32_leb128 v st =
     rbind (signed_leb128_bytes max_u32_leb128_bytes v) (\<lambda>data. Inr (write_data data st))"

definition write_s64_leb128 :: "u64 \<Rightarrow> mem_out \<Rightarrow> mem_out res" where
  "write_s64_leb128 v st =
     rbind (signed_leb128_bytes max_u64_leb128_bytes v) (\<lambda>data. Inr (write_data data st))"

section \<open>Readers\<close>

text \<open>\<open>BYTE_AT\<close>, \<open>LEB128_1\<close> to \<open>LEB128_10\<close>, and the test that ends a number at byte \<open>i\<close>.\<close>

definition byte_at :: "byte list \<Rightarrow> nat \<Rightarrow> nat \<Rightarrow> 'a::len word" where
  "byte_at p i shift = push_bit shift (ucast (p ! i) AND 0x7f)"

fun leb128 :: "nat \<Rightarrow> byte list \<Rightarrow> 'a::len word" where
  "leb128 0 p = 0"
| "leb128 (Suc n) p = byte_at p n (7 * n) OR leb128 n p"

definition last_byte :: "byte list \<Rightarrow> nat \<Rightarrow> bool" where
  "last_byte p i \<longleftrightarrow> i < length p \<and> p ! i AND 0x80 = 0"

definition sign_extend :: "'a::len word \<Rightarrow> nat \<Rightarrow> 'a word" where
  "sign_extend v sign_bit =
     (let amount = LENGTH('a) - 1 - sign_bit in signed_drop_bit amount (push_bit amount v))"

definition read_u32_leb128 :: "byte list \<Rightarrow> nat \<times> u32 option" where
  "read_u32_leb128 p =
     (if last_byte p 0 then (1, Some (leb128 1 p))
      else if last_byte p 1 then (2, Some (leb128 2 p))
      else if last_byte p 2 then (3, Some (leb128 3 p))
      else if last_byte p 3 then (4, Some (leb128 4 p))
      else if last_byte p 4 then
        if p ! 4 AND 0xf0 \<noteq> 0 then (0, None) else (5, Some (leb128 5 p))
      else (0, Some 0))"

definition read_s32_leb128 :: "byte list \<Rightarrow> nat \<times> u32 option" where
  "read_s32_leb128 p =
     (if last_byte p 0 then (1, Some (sign_extend (leb128 1 p) 6))
      else if last_byte p 1 then (2, Some (sign_extend (leb128 2 p) 13))
      else if last_byte p 2 then (3, Some (sign_extend (leb128 3 p) 20))
      else if last_byte p 3 then (4, Some (sign_extend (leb128 4 p) 27))
      else if last_byte p 4 then
        let sign_bit_set = p ! 4 AND 0x8 \<noteq> 0; top_bits = p ! 4 AND 0xf0
        in if sign_bit_set \<and> top_bits \<noteq> 0x70 \<or> \<not> sign_bit_set \<and> top_bits \<noteq> 0 then (0, None)
           else (5, Some (leb128 5 p))
      else (0, None))"

definition read_s64_leb128 :: "byte list \<Rightarrow> nat \<times> u64 option" where
  "read_s64_leb128 p =
     (if last_byte p 0 then (1, Some (sign_extend (leb128 1 p) 6))
      else if last_byte p 1 then (2, Some (sign_extend (leb128 2 p) 13))
      else if last_byte p 2 then (3, Some (sign_extend (leb128 3 p) 20))
      else if last_byte p 3 then (4, Some (sign_extend (leb128 4 p) 27))
      else if last_byte p 4 then (5, Some (sign_extend (leb128 5 p) 34))
      else if last_byte p 5 then (6, Some (sign_extend (leb128 6 p) 41))
      else if last_byte p 6 then (7, Some (sign_extend (leb128 7 p) 48))
      else if last_byte p 7 then (8, Some (sign_extend (leb128 8 p) 55))
      else if last_byte p 8 then (9, Some (sign_extend (leb128 9 p) 62))
      else if last_byte p 9 then
        let sign_bit_set = p ! 9 AND 0x1 \<noteq> 0; top_bits = p ! 9 AND 0xfe
        in if sign_bit_set \<and> top_bits \<noteq> 0x7e \<or> \<not> sign_bit_set \<and> top_bits \<noteq> 0 then (0, None)
           else (10, Some (leb128 10 p))
      else (0, None))"

end
