(* ===== verification/Leb128Properties.thy ===== *)
theory Leb128Properties
  imports Leb128
begin

text \<open>
  Round trips of the LEB128 routines. \<open>sevens n i\<close> is the encoding of the integer \<open>i\<close> in \<open>n\<close>
  groups of seven bits; the writers are shown to produce it with the least \<open>n\<close>, the readers to
  invert it, both by comparing bits.
\<close>

section \<open>Groups of seven bits\<close>

definition low7 :: "int \<Rightarrow> byte" where
  "low7 i = word_of_int (take_bit 7 i)"

fun sevens :: "nat \<Rightarrow> int \<Rightarrow> byte list" where
  "sevens 0 i = []"
| "sevens (Suc 0) i = [low7 i]"
| "sevens (Suc (Suc n)) i = (low7 i OR 0x80) # sevens (Suc n) (drop_bit 7 i)"

definition fits_signed :: "nat \<Rightarrow> int \<Rightarrow> bool" where
  "fits_signed n i \<longleftrightarrow> - (2 ^ (7 * n - 1)) \<le> i \<and> i < 2 ^ (7 * n - 1)"

lemma length_sevens [simp]: "length (sevens n i) = n"
  by (induction n i rule: sevens.induct) auto

lemma bit_low7: "bit (low7 i) k \<longleftrightarrow> k < 7 \<and> bit i k"
  by (auto simp: low7_def bit_simps)

lemma bit_80: "bit (0x80 :: byte) k \<longleftrightarrow> k = 7"
proof -
  have "(0x80 :: byte) = push_bit 7 1" by simp
  then have "bit (0x80 :: byte) k \<longleftrightarrow> bit (push_bit 7 1 :: byte) k" by (simp only:)
  also have "\<dots> \<longleftrightarrow> k = 7" by (simp only: bit_push_bit_iff bit_1_iff) auto
  finally show ?thesis .
qed

lemma bit_sevens:
  "j < n \<Longrightarrow> bit (sevens n i ! j) k \<longleftrightarrow> k < 7 \<and> bit i (7 * j + k) \<or> k = 7 \<and> Suc j < n"
proof (induction n i arbitrary: j rule: sevens.induct)
  case (3 n i)
  show ?case
  proof (cases j)
    case 0
    then show ?thesis by (auto simp: bit_or_iff bit_low7 bit_80 simp del: bit_numeral_word_iff)
  next
    case (Suc j')
    with 3 show ?thesis by (auto simp: bit_drop_bit_eq ac_simps)
  qed
qed (auto simp: bit_low7)

lemma and_80_zero: "b AND 0x80 = 0 \<longleftrightarrow> \<not> bit (b :: byte) 7"
proof -
  have "bit (b AND 0x80) k \<longleftrightarrow> k = 7 \<and> bit b 7" for k by (auto simp: bit_and_iff bit_80 simp del: bit_numeral_word_iff)
  then show ?thesis by (metis bit_0_eq bit_eqI bot_apply bot_bool_def)
qed

lemma last_byte_sevens: "j < n \<Longrightarrow> last_byte (sevens n i @ r) j \<longleftrightarrow> n = Suc j"
  by (auto simp: last_byte_def and_80_zero nth_append bit_sevens)

lemma bit_7f: "bit (0x7f :: 'a::len word) k \<longleftrightarrow> k < LENGTH('a) \<and> k < 7"
proof -
  have "(0x7f :: 'a word) = mask 7" by (simp add: mask_eq_exp_minus_1)
  then have "bit (0x7f :: 'a word) k \<longleftrightarrow> bit (mask 7 :: 'a word) k" by (simp only:)
  also have "\<dots> \<longleftrightarrow> k < LENGTH('a) \<and> k < 7" by (simp only: bit_mask_iff) auto
  finally show ?thesis .
qed

lemma bit_leb128:
  "bit (leb128 n p :: 'a::len word) k \<longleftrightarrow> k < LENGTH('a) \<and> k < 7 * n \<and> bit (p ! (k div 7)) (k mod 7)"
proof (induction n)
  case (Suc n)
  have "k div 7 = n \<and> k mod 7 = k - 7 * n" if "7 * n \<le> k" "k < 7 * Suc n"
    using that by (auto simp: div_nat_eqI modulo_nat_def)
  then show ?case using Suc
    by (cases "7 * n \<le> k")
      (auto simp: bit_or_iff bit_push_bit_iff bit_and_iff bit_unsigned_iff byte_at_def bit_7f
        simp del: bit_numeral_word_iff)
qed simp

lemma leb128_sevens: "(leb128 n (sevens n i @ r) :: 'a::len word) = word_of_int (take_bit (7 * n) i)"
proof (rule bit_word_eqI)
  fix k assume k: "k < LENGTH('a)"
  show "bit (leb128 n (sevens n i @ r) :: 'a word) k \<longleftrightarrow> bit (word_of_int (take_bit (7 * n) i) :: 'a word) k"
  proof (cases "k < 7 * n")
    case True
    then have "k div 7 < n" by (simp add: less_mult_imp_div_less mult.commute)
    moreover have "k mod 7 \<noteq> 7" by (metis mod_less_divisor less_irrefl zero_less_numeral)
    ultimately show ?thesis using True k by (simp add: bit_leb128 bit_simps nth_append bit_sevens)
  qed (simp add: bit_leb128 bit_simps)
qed

section \<open>Reading\<close>

lemma bit_fits:
  assumes "fits_signed n i" "1 \<le> n" "7 * n - 1 \<le> k"
  shows "bit i k \<longleftrightarrow> bit i (7 * n - 1)"
proof -
  have "signed_take_bit (7 * n - 1) i = i"
    using assms(1) by (simp add: fits_signed_def signed_take_bit_int_eq_self)
  then have "bit i k \<longleftrightarrow> bit (signed_take_bit (7 * n - 1) i) k" by simp
  with assms(3) show ?thesis by (simp add: bit_signed_take_bit_iff min_def)
qed

lemma sign_extend_sevens:
  assumes "fits_signed n i" "1 \<le> n" "7 * n \<le> LENGTH('a)"
  shows "sign_extend (leb128 n (sevens n i @ r)) (7 * n - 1) = (word_of_int i :: 'a::len word)"
proof (rule bit_word_eqI)
  fix k assume k: "k < LENGTH('a)"
  have a: "LENGTH('a) - 1 - (7 * n - 1) = LENGTH('a) - 7 * n" using assms(2,3) by simp
  show "bit (sign_extend (leb128 n (sevens n i @ r)) (7 * n - 1) :: 'a word) k \<longleftrightarrow> bit (word_of_int i :: 'a word) k"
  proof (cases "k < 7 * n")
    case True
    then have "LENGTH('a) + k - 7 * n < LENGTH('a)" "LENGTH('a) - 7 * n \<le> LENGTH('a) + k - 7 * n"
      using assms(3) by simp_all
    with True k assms(3) show ?thesis
      by (simp add: sign_extend_def Let_def a leb128_sevens bit_simps)
  next
    case False
    moreover have "bit i k \<longleftrightarrow> bit i (7 * n - 1)"
      using False by (intro bit_fits [OF assms(1,2)]) simp
    moreover have "LENGTH('a) - Suc 0 - (LENGTH('a) - 7 * n) = 7 * n - 1" using assms(2,3) by simp
    moreover have "7 * n - 1 < LENGTH('a)" using assms(2,3) by simp
    ultimately show ?thesis using k assms(2,3)
      by (simp add: sign_extend_def Let_def a leb128_sevens bit_simps)
  qed
qed

lemma sint_word_of_drop: "- 8 \<le> x \<Longrightarrow> x < 8 \<Longrightarrow>
    (low7 x AND 0x8 \<noteq> 0 \<longrightarrow> low7 x AND 0xf0 = 0x70) \<and> (low7 x AND 0x8 = 0 \<longrightarrow> low7 x AND 0xf0 = 0)"
proof -
  assume "- 8 \<le> x" "x < (8 :: int)"
  then have "x \<in> {- 8, - 7, - 6, - 5, - 4, - 3, - 2, - 1, 0, 1, 2, 3, 4, 5, 6, 7}"
    unfolding insert_iff empty_iff by arith
  then show ?thesis by (auto simp: low7_def take_bit_eq_mod)
qed

lemma read_s32_sevens:
  assumes "fits_signed n i" "1 \<le> n" "n \<le> 5" "- (2 ^ 31) \<le> i" "i < 2 ^ 31"
  shows "read_s32_leb128 (sevens n i @ r) = (n, Some (word_of_int i))"
proof -
  note se = sign_extend_sevens [OF assms(1,2), of r, where 'a = 32]
  consider "n = 1" | "n = 2" | "n = 3" | "n = 4" | "n = 5" using assms(2,3) by linarith
  then show ?thesis
  proof cases
    case 5
    let ?b = "(sevens 5 i @ r) ! 4"
    have "?b = low7 (drop_bit 28 i)"
      by (simp add: nth_append numeral_eq_Suc)
    moreover have "- 8 \<le> drop_bit 28 i" "drop_bit 28 i < 8"
      using assms(4,5) by (simp_all add: drop_bit_eq_div)
    ultimately have "(?b AND 0x8 \<noteq> 0 \<longrightarrow> ?b AND 0xf0 = 0x70) \<and> (?b AND 0x8 = 0 \<longrightarrow> ?b AND 0xf0 = 0)"
      using sint_word_of_drop by simp
    moreover have "(leb128 5 (sevens 5 i @ r) :: u32) = word_of_int i"
    proof (rule bit_word_eqI)
      fix k assume "k < LENGTH(32)"
      then show "bit (leb128 5 (sevens 5 i @ r) :: u32) k \<longleftrightarrow> bit (word_of_int i :: u32) k"
        using leb128_sevens [of 5 i r, where 'a = 32] by (simp add: bit_simps)
    qed
    ultimately show ?thesis using 5
      by (auto simp: read_s32_leb128_def last_byte_sevens Let_def simp del: leb128.simps)
  qed (use se in \<open>simp_all add: read_s32_leb128_def last_byte_sevens del: sevens.simps leb128.simps\<close>)
qed

lemma low7_unit: "low7 0 = 0" "low7 (- 1) = 0x7f"
  by (simp_all add: low7_def take_bit_eq_mod)

lemma read_s64_sevens:
  assumes "fits_signed n i" "1 \<le> n" "n \<le> 10" "- (2 ^ 63) \<le> i" "i < 2 ^ 63"
  shows "read_s64_leb128 (sevens n i @ r) = (n, Some (word_of_int i))"
proof -
  note se = sign_extend_sevens [OF assms(1,2), of r, where 'a = 64]
  consider "n = 1" | "n = 2" | "n = 3" | "n = 4" | "n = 5" | "n = 6" | "n = 7" | "n = 8" | "n = 9" | "n = 10"
  proof -
    have "n \<in> {1, 2, 3, 4, 5, 6, 7, 8, 9, 10}"
      using assms(2,3) unfolding insert_iff empty_iff by arith
    then show thesis using that by blast
  qed
  then show ?thesis
  proof cases
    case 10
    let ?b = "(sevens 10 i @ r) ! 9"
    have b: "?b = low7 (drop_bit 63 i)" by (simp add: nth_append numeral_eq_Suc)
    have "- 1 \<le> drop_bit 63 i" "drop_bit 63 i < 1"
      using assms(4,5) by (simp_all add: drop_bit_eq_div)
    then have "drop_bit 63 i = 0 \<or> drop_bit 63 i = - 1" by linarith
    then have "?b AND 0x1 \<noteq> 0 \<longrightarrow> ?b AND 0xfe = 0x7e" "?b AND 0x1 = 0 \<longrightarrow> ?b AND 0xfe = 0"
      unfolding b by (auto simp: low7_unit)
    moreover have "(leb128 10 (sevens 10 i @ r) :: u64) = word_of_int i"
    proof (rule bit_word_eqI)
      fix k assume "k < LENGTH(64)"
      then show "bit (leb128 10 (sevens 10 i @ r) :: u64) k \<longleftrightarrow> bit (word_of_int i :: u64) k"
        using leb128_sevens [of 10 i r, where 'a = 64] by (simp add: bit_simps)
    qed
    ultimately show ?thesis using 10
      by (auto simp: read_s64_leb128_def last_byte_sevens Let_def simp del: leb128.simps)
  qed (use se in \<open>simp_all add: read_s64_leb128_def last_byte_sevens del: sevens.simps leb128.simps\<close>)
qed

lemma read_u32_sevens:
  assumes "1 \<le> n" "n \<le> 5" "0 \<le> i" "i < 2 ^ (7 * n)" "i < 2 ^ 32"
  shows "read_u32_leb128 (sevens n i @ r) = (n, Some (word_of_int i))"
proof -
  have leb: "(leb128 n (sevens n i @ r) :: u32) = word_of_int i"
    using assms(3,4) by (simp add: leb128_sevens take_bit_int_eq_self)
  consider "n = 1" | "n = 2" | "n = 3" | "n = 4" | "n = 5" using assms(1,2) by linarith
  then show ?thesis
  proof cases
    case 5
    have "(sevens 5 i @ r) ! 4 = low7 (drop_bit 28 i)"
      by (simp add: nth_append numeral_eq_Suc)
    moreover have "0 \<le> drop_bit 28 i" "drop_bit 28 i < 16"
      using assms(3,5) by (simp_all add: drop_bit_eq_div)
    then have "drop_bit 28 i \<in> {0, 1, 2, 3, 4, 5, 6, 7, 8, 9, 10, 11, 12, 13, 14, 15}"
      unfolding insert_iff empty_iff by arith
    then have "low7 (drop_bit 28 i) AND 0xf0 = 0"
      by (auto simp: low7_def take_bit_eq_mod)
    ultimately show ?thesis using 5 leb
      by (simp add: read_u32_leb128_def last_byte_sevens del: leb128.simps)
  qed (use leb in \<open>simp_all add: read_u32_leb128_def last_byte_sevens del: leb128.simps sevens.simps\<close>)
qed

section \<open>Writing\<close>

lemma leb128_byte:
  fixes w :: "'a::len word"
  assumes "8 \<le> LENGTH('a)"
  shows "(ucast (w AND 0x7f) :: byte) = low7 (sint w)"
proof (rule bit_word_eqI)
  fix k assume "k < LENGTH(8)"
  with assms show "bit (ucast (w AND 0x7f) :: byte) k \<longleftrightarrow> bit (low7 (sint w)) k"
    by (auto simp: bit_low7 bit_unsigned_iff bit_and_iff bit_7f bit_sint_iff simp del: bit_numeral_word_iff)
qed

lemma fits_signed_drop: "1 \<le> n \<Longrightarrow> fits_signed (Suc n) i \<longleftrightarrow> fits_signed n (drop_bit 7 i)"
proof -
  assume "1 \<le> n"
  then obtain m where "n = Suc m" by (cases n) auto
  then have "(2::int) ^ (7 * Suc n - 1) = 2 ^ (7 * n - 1) * 128" by (simp add: power_add)
  moreover have "- (x * 128) \<le> i \<longleftrightarrow> - x \<le> i div 128" "i < x * 128 \<longleftrightarrow> i div 128 < x" for x :: int
    by linarith+
  ultimately show ?thesis by (simp add: fits_signed_def drop_bit_eq_div)
qed

lemma fits_1: "fits_signed 1 i \<longleftrightarrow> - 64 \<le> i \<and> i < 64"
  by (simp add: fits_signed_def)

lemma low7_sign: "low7 i AND 0x40 = 0 \<longleftrightarrow> \<not> bit i 6"
proof -
  have "(0x40 :: byte) = push_bit 6 1" by simp
  then have "bit (0x40 :: byte) k \<longleftrightarrow> k = 6" for k
    by (simp only: bit_push_bit_iff bit_1_iff) auto
  then have "bit (low7 i AND 0x40) k \<longleftrightarrow> k = 6 \<and> bit i 6" for k
    by (auto simp: bit_and_iff bit_low7 simp del: bit_numeral_word_iff)
  then show ?thesis by (metis bit_0_eq bit_eqI bot_apply bot_bool_def)
qed

text \<open>When the loop stops: one group is enough for the rest.\<close>

lemma stop_signed:
  fixes w :: "'a::len word"
  shows "sint w < 0 \<Longrightarrow> (signed_drop_bit 7 w = - 1 \<and> low7 (sint w) AND 0x40 \<noteq> 0) \<longleftrightarrow> fits_signed 1 (sint w)"
    and "0 \<le> sint w \<Longrightarrow> (signed_drop_bit 7 w = 0 \<and> low7 (sint w) AND 0x40 = 0) \<longleftrightarrow> fits_signed 1 (sint w)"
proof -
  let ?i = "sint w"
  have "signed_drop_bit 7 w = u \<longleftrightarrow> ?i div 128 = sint u" for u :: "'a word"
    using sint_signed_drop_bit_eq [of 7 w] by (simp add: signed_word_eqI drop_bit_eq_div) (metis signed_word_eqI)
  then have e: "signed_drop_bit 7 w = - 1 \<longleftrightarrow> ?i div 128 = - 1" "signed_drop_bit 7 w = 0 \<longleftrightarrow> ?i div 128 = 0"
    by simp_all
  have b: "bit ?i 6 \<longleftrightarrow> odd (?i div 64)" by (simp add: bit_iff_odd)
  have q: "?i div 128 = - 1 \<longleftrightarrow> - 128 \<le> ?i \<and> ?i < 0" "?i div 128 = 0 \<longleftrightarrow> 0 \<le> ?i \<and> ?i < 128"
    by linarith+
  show "(signed_drop_bit 7 w = - 1 \<and> low7 ?i AND 0x40 \<noteq> 0) \<longleftrightarrow> fits_signed 1 ?i" if "?i < 0"
  proof -
    have "?i div 64 = (if - 64 \<le> ?i then - 1 else - 2)" if "- 128 \<le> ?i"
      using that \<open>?i < 0\<close> by simp linarith
    then have "odd (?i div 64) \<longleftrightarrow> - 64 \<le> ?i" if "- 128 \<le> ?i" using that by simp
    with \<open>?i < 0\<close> show ?thesis unfolding e low7_sign b fits_1 q by auto
  qed
  show "(signed_drop_bit 7 w = 0 \<and> low7 ?i AND 0x40 = 0) \<longleftrightarrow> fits_signed 1 ?i" if "0 \<le> ?i"
  proof -
    have "?i div 64 = (if ?i < 64 then 0 else 1)" if "?i < 128"
      using that \<open>0 \<le> ?i\<close> by simp linarith
    then have "odd (?i div 64) \<longleftrightarrow> 64 \<le> ?i" if "?i < 128" using that by simp
    with \<open>0 \<le> ?i\<close> show ?thesis unfolding e low7_sign b fits_1 q by auto
  qed
qed

lemma signed_loop:
  fixes w :: "'a::len word"
  assumes "8 \<le> LENGTH('a)"
  shows "fits_signed n (sint w) \<Longrightarrow> 1 \<le> n \<Longrightarrow> n = 1 \<or> \<not> fits_signed (n - 1) (sint w) \<Longrightarrow> length data + n \<le> mx \<Longrightarrow>
    (sint w < 0 \<longrightarrow> leb128_loop mx (signed_drop_bit 7) (\<lambda>v b. v = - 1 \<and> b AND 0x40 \<noteq> 0) w data
       = Inr (data @ sevens n (sint w))) \<and>
    (0 \<le> sint w \<longrightarrow> leb128_loop mx (signed_drop_bit 7) (\<lambda>v b. v = 0 \<and> \<not> b AND 0x40 \<noteq> 0) w data
       = Inr (data @ sevens n (sint w)))"
proof (induction n arbitrary: w data)
  case (Suc n)
  note byte = leb128_byte [OF assms, of w]
  show ?case
  proof (cases "n = 0")
    case True
    then have "fits_signed 1 (sint w)" using Suc.prems(1) by simp
    with True Suc.prems(4) stop_signed [of w] show ?thesis
      by (simp add: leb128_loop.simps [where v = w] Let_def byte)
  next
    case False
    let ?v = "signed_drop_bit 7 w" and ?d = "data @ [low7 (sint w) OR 0x80]"
    have v: "sint ?v = drop_bit 7 (sint w)" by (rule sint_signed_drop_bit_eq)
    have no: "\<not> fits_signed n (sint w)" using False Suc.prems(3) by simp
    have no1: "\<not> fits_signed 1 (sint w)"
    proof
      assume "fits_signed 1 (sint w)"
      moreover have "(2::int) ^ 6 \<le> 2 ^ (7 * n - 1)" using False by (intro power_increasing) auto
      ultimately show False using no by (simp add: fits_signed_def)
    qed
    have "fits_signed n (sint ?v)" using Suc.prems(1) False fits_signed_drop [of n "sint w"] v by simp
    moreover have "n = 1 \<or> \<not> fits_signed (n - 1) (sint ?v)"
      using no False fits_signed_drop [of "n - 1" "sint w"] v by (cases "n = 1") auto
    moreover have "length ?d + n \<le> mx" using Suc.prems(4) by simp
    ultimately have IH: "sint ?v < 0 \<longrightarrow> leb128_loop mx (signed_drop_bit 7)
         (\<lambda>v b. v = - 1 \<and> b AND 0x40 \<noteq> 0) ?v ?d = Inr (?d @ sevens n (sint ?v))"
      "0 \<le> sint ?v \<longrightarrow> leb128_loop mx (signed_drop_bit 7)
         (\<lambda>v b. v = 0 \<and> \<not> b AND 0x40 \<noteq> 0) ?v ?d = Inr (?d @ sevens n (sint ?v))"
      using Suc.IH [of ?v ?d] False by simp_all
    have s: "sint ?v < 0 \<longleftrightarrow> sint w < 0" by (simp add: v)
    have "data @ sevens (Suc n) (sint w) = ?d @ sevens n (sint ?v)" using False v by (cases n) auto
    with IH s no1 stop_signed [of w] Suc.prems(4) show ?thesis
      by (auto simp: leb128_loop.simps [where v = w] Let_def byte not_less)
  qed
qed simp

lemma least_fit:
  assumes "fits_signed m i" "1 \<le> m"
  obtains n where "fits_signed n i" "1 \<le> n" "n \<le> m" "n = 1 \<or> \<not> fits_signed (n - 1) i"
proof -
  let ?n = "LEAST n. 1 \<le> n \<and> fits_signed n i"
  have l: "1 \<le> ?n \<and> fits_signed ?n i" "?n \<le> m"
    using LeastI [of "\<lambda>n. 1 \<le> n \<and> fits_signed n i" m] Least_le [of "\<lambda>n. 1 \<le> n \<and> fits_signed n i" m]
      assms by simp_all
  moreover have "?n = 1 \<or> \<not> fits_signed (?n - 1) i"
    using not_less_Least [of "?n - 1" "\<lambda>n. 1 \<le> n \<and> fits_signed n i"] l by linarith
  ultimately show ?thesis using that by blast
qed

lemma signed_leb128_bytes_sevens:
  fixes w :: "'a::len word"
  assumes "8 \<le> LENGTH('a)" "fits_signed mx (sint w)" "1 \<le> mx"
  obtains n where "signed_leb128_bytes mx w = Inr (sevens n (sint w))" "fits_signed n (sint w)"
    "1 \<le> n" "n \<le> mx" "n = 1 \<or> \<not> fits_signed (n - 1) (sint w)"
proof -
  obtain n where n: "fits_signed n (sint w)" "1 \<le> n" "n \<le> mx" "n = 1 \<or> \<not> fits_signed (n - 1) (sint w)"
    by (rule least_fit [OF assms(2,3)])
  have "signed_leb128_bytes mx w = Inr (sevens n (sint w))"
    using signed_loop [OF assms(1) n(1,2,4), of "[]" mx] n(3)
    by (simp add: signed_leb128_bytes_def word_sless_alt)
  with n that show ?thesis by blast
qed

text \<open>The unsigned writer produces what \<open>varint.hpp\<close> writes for an \<open>unsigned_int\<close>.\<close>

lemma unat_low7_nat: "unat (low7 (int m)) = m mod 128"
proof -
  have "take_bit 7 (int m) = int (m mod 128)" by (simp add: take_bit_eq_mod zmod_int)
  then have "low7 (int m) = of_nat (m mod 128)" by (simp only: low7_def) simp
  then show ?thesis by (simp add: unat_of_nat_mod)
qed

lemma low7_byte_of:
  "m < 128 \<Longrightarrow> low7 (int m) = byte_of m" "low7 (int m) OR 0x80 = byte_of (128 + m mod 128)"
proof -
  show "low7 (int m) = byte_of m" if "m < 128"
    using that by (intro byte_eqI) (simp add: unat_low7_nat)
  have "(m mod 128) OR 128 = 128 + m mod 128"
    using or_shifted_nat [of "m mod 128" 7 1] by (simp add: or.commute)
  then show "low7 (int m) OR 0x80 = byte_of (128 + m mod 128)"
    by (intro byte_eqI) (simp add: unat_or unat_low7_nat)
qed

lemma vbytes_sevens:
  "1 \<le> n \<Longrightarrow> m < 2 ^ (7 * n) \<Longrightarrow> n = 1 \<or> 2 ^ (7 * (n - 1)) \<le> m \<Longrightarrow> vbytes m = sevens n (int m)"
proof (induction n arbitrary: m)
  case (Suc n)
  show ?case
  proof (cases "n = 0")
    case True
    with Suc.prems show ?thesis by (simp add: low7_byte_of)
  next
    case False
    have e: "drop_bit 7 (int m) = int (m div 128)" by (simp add: drop_bit_eq_div zdiv_int)
    have "(2::nat) ^ 7 \<le> 2 ^ (7 * n)" using False by (intro power_increasing) auto
    then have big: "128 \<le> m" using Suc.prems(3) False by simp
    have "m div 128 < 2 ^ (7 * n)" using Suc.prems(2) by (simp add: power_add less_mult_imp_div_less mult.commute)
    moreover have "n = 1 \<or> 2 ^ (7 * (n - 1)) \<le> m div 128"
    proof (cases n)
      case (Suc k)
      have "2 ^ (7 * k) * 128 \<le> m" using Suc.prems(3) Suc by (simp add: power_add mult.commute)
      then show ?thesis using Suc by (simp add: less_eq_div_iff_mult_less_eq)
    qed (use False in simp)
    ultimately have "vbytes (m div 128) = sevens n (int (m div 128))"
      using Suc.IH False by simp
    then show ?thesis using big False e
      by (cases n) (simp_all add: vbytes_big low7_byte_of)
  qed
qed simp

lemma vbytes_groups:
  obtains n where "1 \<le> n" "m < 2 ^ (7 * n)" "vbytes m = sevens n (int m)" "n = length (vbytes m)"
proof -
  let ?P = "\<lambda>n. 1 \<le> n \<and> m < 2 ^ (7 * n)"
  have "m < 2 ^ m" by simp
  also have "(2::nat) ^ m \<le> 2 ^ (7 * Suc m)" by (intro power_increasing) auto
  finally have ex: "?P (Suc m)" by simp
  let ?n = "LEAST n. ?P n"
  have l: "?P ?n" by (rule LeastI [of ?P, OF ex])
  moreover have "?n = 1 \<or> 2 ^ (7 * (?n - 1)) \<le> m"
    using not_less_Least [of "?n - 1" ?P] l by linarith
  ultimately have "vbytes m = sevens ?n (int m)" by (intro vbytes_sevens) simp_all
  with l that show ?thesis by (metis length_sevens)
qed

lemma unsigned_loop:
  "length data + length (vbytes (unat w)) \<le> mx \<Longrightarrow>
     leb128_loop mx (drop_bit 7) (\<lambda>v b. v = 0) (w :: u32) data = Inr (data @ vbytes (unat w))"
proof (induction "unat w" arbitrary: w data rule: less_induct)
  case less
  have nz: "drop_bit 7 w = 0 \<longleftrightarrow> unat w < 128"
    by (simp add: word_unat_eq_iff unat_drop_bit div_eq_0_iff)
  have "unat (w AND 0x7f) = unat w mod 128" using unat_and_low [of w 7] by (simp add: mask_eq_exp_minus_1)
  then have b: "(ucast (w AND 0x7f) :: byte) = low7 (int (unat w))"
    using unat_low7_nat [of "unat w"] by (intro byte_eqI) (simp add: unat_ucast_mod)
  have b1: "unat w < 128 \<Longrightarrow> (ucast (w AND 0x7f) :: byte) = byte_of (unat w)"
    and b2: "(ucast (w AND 0x7f) :: byte) OR 0x80 = byte_of (128 + unat w mod 128)"
    using low7_byte_of [of "unat w"] b by simp_all
  show ?case
  proof (cases "unat w < 128")
    case True
    with nz less.prems show ?thesis
      by (simp add: leb128_loop.simps [where v = w] Let_def b1)
  next
    case False
    have "unat (drop_bit 7 w) < unat w" using False nz by (simp add: drop_bit_7_less)
    from less.hyps [OF this, of "data @ [byte_of (128 + unat w mod 128)]"] less.prems False nz
    show ?thesis
      by (simp add: leb128_loop.simps [where v = w] Let_def b2 vbytes_big unat_drop_bit)
  qed
qed

lemma u32_leb128_bytes_vbytes: "u32_leb128_bytes v = Inr (vbytes (unat v))"
  using unsigned_loop [of "[]" v 5] length_vbytes_u32 [of v]
  by (simp add: u32_leb128_bytes_def max_u32_leb128_bytes_def)

lemma u32_length_loop: "u32_leb128_length_loop v sz = sz + of_nat (length (vbytes (unat v)))"
proof (induction "unat v" arbitrary: v sz rule: less_induct)
  case less
  have nz: "drop_bit 7 v = 0 \<longleftrightarrow> unat v < 128"
    by (simp add: word_unat_eq_iff unat_drop_bit div_eq_0_iff)
  show ?case
  proof (cases "unat v < 128")
    case True
    with nz show ?thesis by (simp add: u32_leb128_length_loop.simps [of v])
  next
    case False
    with nz have "unat (drop_bit 7 v) < unat v" by (simp add: drop_bit_7_less)
    from less [OF this, of "sz + 1"] False nz show ?thesis
      by (simp add: u32_leb128_length_loop.simps [of v] Let_def vbytes_big unat_drop_bit)
  qed
qed

lemma s32_written_read:
  assumes "signed_leb128_bytes 5 (v :: u32) = Inr bs"
  shows "length bs \<le> 5" and "read_s32_leb128 (bs @ r) = (length bs, Some v)"
    and "length bs = 1 \<or> \<not> fits_signed (length bs - 1) (sint v)"
proof -
  have v: "- (2 ^ 31) \<le> sint v" "sint v < 2 ^ 31" using sint_ge [of v] sint_lt [of v] by simp_all
  then have "fits_signed 5 (sint v)" by (simp add: fits_signed_def)
  then obtain n where n: "bs = sevens n (sint v)" "fits_signed n (sint v)"
    "1 \<le> n" "n \<le> 5" "n = 1 \<or> \<not> fits_signed (n - 1) (sint v)"
    using signed_leb128_bytes_sevens [of 5 v] assms by auto
  then show "length bs \<le> 5" "length bs = 1 \<or> \<not> fits_signed (length bs - 1) (sint v)" by simp_all
  show "read_s32_leb128 (bs @ r) = (length bs, Some v)"
    using read_s32_sevens [OF n(2-4) v, of r] n(1) by simp
qed

lemma s32_written: obtains bs where "signed_leb128_bytes 5 (v :: u32) = Inr bs"
proof -
  have "fits_signed 5 (sint v)"
    using sint_ge [of v] sint_lt [of v] by (simp add: fits_signed_def)
  then show thesis using signed_leb128_bytes_sevens [of 5 v] that by auto
qed

section \<open>Properties\<close>

lemma u32_written_read:
  "\<exists>bs. u32_leb128_bytes v = Inr bs \<and> length bs \<le> 5 \<and> u32_leb128_length v = of_nat (length bs) \<and>
     bs = enc (VUnsignedInt (unsigned_int v)) \<and> read_u32_leb128 (bs @ r) = (length bs, Some v)"
proof -
  obtain n where n: "1 \<le> n" "unat v < 2 ^ (7 * n)" "vbytes (unat v) = sevens n (int (unat v))"
    "n = length (vbytes (unat v))"
    by (rule vbytes_groups)
  have "int (unat v) < 2 ^ (7 * n)" using n(2) by (metis of_nat_less_iff of_nat_numeral of_nat_power)
  moreover have "int (unat v) < 2 ^ 32" using unsigned_less [of v, where 'a = int] by simp
  ultimately have "read_u32_leb128 (vbytes (unat v) @ r) = (n, Some (word_of_int (int (unat v))))"
    unfolding n(3) using n(1,4) length_vbytes_u32 [of v] by (intro read_u32_sevens) simp_all
  then show ?thesis using n(4) length_vbytes_u32 [of v]
    by (simp add: u32_leb128_bytes_vbytes u32_leb128_length_def u32_length_loop unsigned_int_def)
qed

text \<open>C20: the unsigned writer fills at most five bytes, as many as \<open>U32Leb128Length\<close> says; they are
  the bytes that \<open>operator<<\<close> of the contract library appends for an \<open>unsigned_int\<close>, and the readers of
  the tools and of the library read them back, whatever follows them.\<close>

theorem u32_leb128_roundtrip:
  "\<exists>bs. u32_leb128_bytes v = Inr bs \<and> length bs \<le> 5 \<and> u32_leb128_length v = of_nat (length bs) \<and>
     put_unsigned_int list_writer (unsigned_int v) s = Inr (s @ bs) \<and>
     read_u32_leb128 (bs @ r) = (length bs, Some v) \<and>
     get_unsigned_int list_stream (bs @ r) = Inr (unsigned_int v, r)"
  using u32_written_read [of v r] by (auto simp: unsigned_int_written)

text \<open>C21: the signed writers of both widths stay within their arrays of five and ten bytes, and the
  signed readers read every value back, whatever follows; no shorter sequence of groups holds it.\<close>

theorem signed_leb128_roundtrip:
  "(\<exists>bs. signed_leb128_bytes 5 (v :: u32) = Inr bs \<and> length bs \<le> 5 \<and>
      read_s32_leb128 (bs @ r) = (length bs, Some v) \<and>
      (length bs = 1 \<or> \<not> fits_signed (length bs - 1) (sint v))) \<and>
   (\<exists>bs. signed_leb128_bytes 10 (w :: u64) = Inr bs \<and> length bs \<le> 10 \<and>
      read_s64_leb128 (bs @ r) = (length bs, Some w) \<and>
      (length bs = 1 \<or> \<not> fits_signed (length bs - 1) (sint w)))"
proof
  obtain bs where "signed_leb128_bytes 5 v = Inr bs" by (rule s32_written)
  with s32_written_read [OF this] show "\<exists>bs. signed_leb128_bytes 5 v = Inr bs \<and> length bs \<le> 5 \<and>
      read_s32_leb128 (bs @ r) = (length bs, Some v) \<and>
      (length bs = 1 \<or> \<not> fits_signed (length bs - 1) (sint v))"
    by blast
next
  have w: "- (2 ^ 63) \<le> sint w" "sint w < 2 ^ 63" using sint_ge [of w] sint_lt [of w] by simp_all
  then have "fits_signed 10 (sint w)" by (simp add: fits_signed_def)
  then obtain n where n: "signed_leb128_bytes 10 w = Inr (sevens n (sint w))" "fits_signed n (sint w)"
    "1 \<le> n" "n \<le> 10" "n = 1 \<or> \<not> fits_signed (n - 1) (sint w)"
    using signed_leb128_bytes_sevens [of 10 w] by auto
  with read_s64_sevens [OF n(2-4) w, of r] show "\<exists>bs. signed_leb128_bytes 10 w = Inr bs \<and> length bs \<le> 10 \<and>
      read_s64_leb128 (bs @ r) = (length bs, Some w) \<and>
      (length bs = 1 \<or> \<not> fits_signed (length bs - 1) (sint w))"
    by simp
qed

theorem signed_leb128_roundtrip_witness:
  "(\<exists>bs. signed_leb128_bytes 5 (- 1 :: u32) = Inr bs \<and> length bs \<le> 5 \<and>
      read_s32_leb128 (bs @ [7]) = (length bs, Some (- 1))) \<and>
   (\<exists>bs. signed_leb128_bytes 10 (- 65 :: u64) = Inr bs \<and> length bs \<le> 10 \<and>
      read_s64_leb128 (bs @ [7]) = (length bs, Some (- 65)))"
  using signed_leb128_roundtrip [of "- 1" "[7]" "- 65"] by blast

end
