(* ===== verification/Postpass.thy ===== *)
theory Postpass
  imports Leb128Properties Malloc
begin

text \<open>
  The post processor \<open>fractal-pp\<close>: \<open>tools/fractal-tools/external/wabt/src/tools/postpass.cc\<close>. It
  drops the data segments that hold only zeros and adds one at address 0 with the base of the
  heap, where the constructor of \<open>dsmalloc\<close> in \<open>malloc.cpp\<close> looks for it. Reading and writing of
  whole binaries is done by the rest of wabt and stands in parameters; of a module the model
  keeps what the post processor touches.
\<close>

section \<open>Modules\<close>

text \<open>A data segment at the address its offset expression \<open>i32.const\<close> gives; of a global the
  position of its initialiser in the file, which an imported global does not have.\<close>

record data_segment =
  seg_offset :: u32
  seg_data :: "byte list"

record wasm_module =
  data_segments :: "data_segment list"
  global_locs :: "nat option list"

section \<open>\<open>postpass.cc\<close>\<close>

text \<open>\<open>buff.data() + offset + 4\<close> to \<open>buff.data() + offset + 9\<close>\<close>

definition init_bytes :: "byte list \<Rightarrow> nat \<Rightarrow> byte list res" where
  "init_bytes buff offset =
     (if offset + 9 \<le> length buff then Inr (take 5 (drop (offset + 4) buff)) else Inl (UB ''buff.data()''))"

definition get_global :: "wasm_module \<Rightarrow> nat \<Rightarrow> nat res" where
  "get_global md i =
     (if i < length (global_locs md) then
        case global_locs md ! i of Some offset \<Rightarrow> Inr offset | None \<Rightarrow> Inl (UB ''init_expr.begin()'')
      else Inl (UB ''GetGlobal''))"

definition get_heap_ptr :: "wasm_module \<Rightarrow> byte list \<Rightarrow> u32 res" where
  "get_heap_ptr md buff =
     rbind (get_global md 1) (\<lambda>offset.
     rbind (init_bytes buff offset) (\<lambda>p.
       case snd (read_s32_leb128 p) of Some heap_ptr \<Rightarrow> Inr heap_ptr | None \<Rightarrow> Inl (UB ''heap_ptr'')))"

definition get_stack_ptr :: "wasm_module \<Rightarrow> byte list \<Rightarrow> u32 res" where
  "get_stack_ptr md buff =
     rbind (get_global md 0) (\<lambda>offset.
     rbind (init_bytes buff offset) (\<lambda>p.
       case snd (read_s32_leb128 p) of Some stack_ptr \<Rightarrow> Inr stack_ptr | None \<Rightarrow> Inl (UB ''stack_ptr'')))"

fun is_zeroed :: "byte list \<Rightarrow> bool \<Rightarrow> bool" where
  "is_zeroed [] z = z"
| "is_zeroed (datum # data) z = is_zeroed data (z \<and> datum = 0)"

fun strip_loop :: "data_segment list \<Rightarrow> data_segment list \<Rightarrow> nat \<Rightarrow> data_segment list \<times> nat" where
  "strip_loop [] ds fix_bytes = (ds, fix_bytes)"
| "strip_loop (s # segs) ds fix_bytes =
     (if \<not> is_zeroed (seg_data s) True then strip_loop segs (ds @ [s]) fix_bytes
      else strip_loop segs ds (fix_bytes + length (seg_data s)))"

definition strip_zeroed_data :: "wasm_module \<Rightarrow> nat \<Rightarrow> wasm_module \<times> nat" where
  "strip_zeroed_data md fix_bytes =
     (let (ds, fix_bytes) = strip_loop (data_segments md) [] fix_bytes
      in (md\<lparr>data_segments := ds\<rparr>, fix_bytes))"

definition add_heap_pointer_data :: "wasm_module \<Rightarrow> byte list \<Rightarrow> wasm_module res" where
  "add_heap_pointer_data md buff =
     rbind (get_heap_ptr md buff) (\<lambda>heap_ptr.
     let heap_ptr = (heap_ptr + 7) AND NOT 7;
         ds = \<lparr>seg_offset = 0, seg_data = le_bytes 4 heap_ptr\<rparr>
     in Inr (md\<lparr>data_segments := data_segments md @ [ds]\<rparr>))"

text \<open>The work between reading and writing, and \<open>ProgramMain\<close> over a file system: the exit code
  and the files. A write that fails leaves the files as they are and is not reported.\<close>

definition post_process :: "wasm_module \<Rightarrow> byte list \<Rightarrow> wasm_module res" where
  "post_process md buff = add_heap_pointer_data (fst (strip_zeroed_data md 0)) buff"

record wabt =
  read_binary_ir :: "byte list \<Rightarrow> wasm_module option"
  write_binary_module :: "wasm_module \<Rightarrow> byte list option"
  can_write :: "string \<Rightarrow> bool"

definition program_main ::
    "wabt \<Rightarrow> string \<Rightarrow> string \<Rightarrow> (string \<Rightarrow> byte list option) \<Rightarrow> (int \<times> (string \<Rightarrow> byte list option)) res" where
  "program_main wb infile outfile files =
     (case files infile of
        None \<Rightarrow> Inr (1, files)
      | Some file_data \<Rightarrow>
          (case read_binary_ir wb file_data of
             None \<Rightarrow> Inr (1, files)
           | Some md \<Rightarrow>
               rbind (post_process md file_data) (\<lambda>md.
               case write_binary_module wb md of
                 None \<Rightarrow> Inr (1, files)
               | Some out \<Rightarrow>
                   let outfile = (if outfile = [] then infile else outfile)
                   in Inr (0, if can_write wb outfile then files(outfile \<mapsto> out) else files))))"

section \<open>What a module puts into memory\<close>

text \<open>Instantiation: memory is zero, then the segments are copied in order.\<close>

definition initial_memory :: "wasm_module \<Rightarrow> mem" where
  "initial_memory md = fold (\<lambda>s m. store_bytes m (seg_offset s) (seg_data s)) (data_segments md) (\<lambda>_. 0)"

definition segs_ok :: "data_segment list \<Rightarrow> bool" where
  "segs_ok segs \<longleftrightarrow>
     (\<forall>s \<in> set segs. unat (seg_offset s) + length (seg_data s) \<le> 2 ^ 32) \<and>
     pairwise (\<lambda>s t. disjoint_blocks (seg_offset s) (length (seg_data s)) (seg_offset t) (length (seg_data t)))
       (set segs) \<and> distinct segs"

lemma is_zeroed_iff: "is_zeroed data z \<longleftrightarrow> z \<and> (\<forall>d \<in> set data. d = 0)"
  by (induction data arbitrary: z) auto

lemma strip_loop_filter:
  "fst (strip_loop segs ds n) = ds @ filter (\<lambda>s. \<not> is_zeroed (seg_data s) True) segs"
  by (induction segs arbitrary: ds n) auto

lemma strip_loop_bytes:
  "snd (strip_loop segs ds n) = n + (\<Sum>s\<leftarrow>segs. if is_zeroed (seg_data s) True then length (seg_data s) else 0)"
  by (induction segs arbitrary: ds n) auto

text \<open>The byte at \<open>a\<close> after copying the segments: the one of the segment that covers \<open>a\<close>, if any.\<close>

definition covers :: "data_segment \<Rightarrow> u32 \<Rightarrow> bool" where
  "covers s a \<longleftrightarrow> in_block a (seg_offset s) (length (seg_data s))"

lemma fold_segs_outside:
  "\<forall>s \<in> set segs. \<not> covers s a \<and> length (seg_data s) \<le> 2 ^ 32 \<Longrightarrow>
     fold (\<lambda>s m. store_bytes m (seg_offset s) (seg_data s)) segs m a = m a"
  by (induction segs arbitrary: m) (auto simp: covers_def store_bytes_other)

lemma fold_segs_at:
  assumes "s \<in> set segs" "covers s a" "\<forall>t \<in> set segs. t \<noteq> s \<longrightarrow> \<not> covers t a"
    and "\<forall>t \<in> set segs. length (seg_data t) \<le> 2 ^ 32"
  shows "fold (\<lambda>s m. store_bytes m (seg_offset s) (seg_data s)) segs m a
    = seg_data s ! unat (a - seg_offset s)"
  using assms
proof (induction segs arbitrary: m)
  case (Cons t segs)
  show ?case
  proof (cases "s \<in> set segs")
    case True
    then show ?thesis using Cons by simp
  next
    case False
    with Cons.prems have t: "t = s" by auto
    have "\<forall>u \<in> set segs. \<not> covers u a \<and> length (seg_data u) \<le> 2 ^ 32"
      using False Cons.prems by auto
    then have "fold (\<lambda>s m. store_bytes m (seg_offset s) (seg_data s)) (t # segs) m a
        = store_bytes m (seg_offset s) (seg_data s) a"
      using t by (simp add: fold_segs_outside)
    moreover obtain i where i: "i < length (seg_data s)" "a = seg_offset s + of_nat i"
      using Cons.prems(2) in_block_nth unfolding covers_def by blast
    moreover have "store_bytes m (seg_offset s) (seg_data s) a = seg_data s ! i"
      using i Cons.prems(1,4) by (auto intro: store_bytes_nth)
    moreover have "unat (a - seg_offset s) = i"
      using i Cons.prems(1,4) by (auto simp: unat_of_nat_mod intro: le_less_trans)
    ultimately show ?thesis by simp
  qed
qed simp

text \<open>Dropping segments of zeros changes nothing, as long as segments do not overlap.\<close>

lemma strip_keeps_memory:
  assumes "segs_ok segs"
  shows "fold (\<lambda>s m. store_bytes m (seg_offset s) (seg_data s)) (filter (\<lambda>s. \<not> is_zeroed (seg_data s) True) segs) (\<lambda>_. 0) a
    = fold (\<lambda>s m. store_bytes m (seg_offset s) (seg_data s)) segs (\<lambda>_. 0) a"
    (is "?f ?nz a = ?f segs a")
proof -
  have len: "\<forall>s \<in> set segs. length (seg_data s) \<le> 2 ^ 32" using assms by (auto simp: segs_ok_def)
  have only: "s = t" if "s \<in> set segs" "t \<in> set segs" "covers s a" "covers t a" for s t
    using assms that by (auto simp: segs_ok_def pairwise_def disjoint_blocks_def covers_def)
  show ?thesis
  proof (cases "\<exists>s \<in> set segs. covers s a")
    case False
    then show ?thesis using len by (simp add: fold_segs_outside)
  next
    case True
    then obtain s where s: "s \<in> set segs" "covers s a" by blast
    then have at: "?f segs a = seg_data s ! unat (a - seg_offset s)"
      using only len by (intro fold_segs_at) auto
    show ?thesis
    proof (cases "is_zeroed (seg_data s) True")
      case False
      then have "?f ?nz a = seg_data s ! unat (a - seg_offset s)"
        using s only len by (intro fold_segs_at) auto
      with at show ?thesis by simp
    next
      case True
      then have "\<not> covers t a" if "t \<in> set ?nz" for t using only s that by auto
      then have "?f ?nz a = 0" using len by (simp add: fold_segs_outside)
      moreover have "seg_data s ! unat (a - seg_offset s) = 0"
        using True s(2) by (simp add: is_zeroed_iff covers_def in_block_def)
      ultimately show ?thesis using at by simp
    qed
  qed
qed


text \<open>The heap segment comes last, so it decides what lies at address 0.\<close>

lemma initial_memory_append:
  "initial_memory (md\<lparr>data_segments := segs @ [s]\<rparr>) = store_bytes (fold (\<lambda>s m. store_bytes m (seg_offset s) (seg_data s)) segs (\<lambda>_. 0)) (seg_offset s) (seg_data s)"
  by (simp add: initial_memory_def)

lemma post_process_cases:
  assumes "get_heap_ptr md buff = Inr hp"
  shows "post_process md buff = Inr (md\<lparr>data_segments :=
    filter (\<lambda>s. \<not> is_zeroed (seg_data s) True) (data_segments md) @
    [\<lparr>seg_offset = 0, seg_data = le_bytes 4 ((hp + 7) AND NOT 7)\<rparr>]\<rparr>)"
proof -
  have "get_heap_ptr (md\<lparr>data_segments := ds\<rparr>) buff = get_heap_ptr md buff" for ds
    by (simp add: get_heap_ptr_def get_global_def)
  then show ?thesis using assms
    by (simp add: post_process_def add_heap_pointer_data_def strip_zeroed_data_def strip_loop_filter
        case_prod_beta)
qed

lemma get_heap_ptr_read:
  assumes "1 < length (global_locs md)" "global_locs md ! 1 = Some off" "off + 9 \<le> length buff"
    and "signed_leb128_bytes 5 hb = Inr bs" "take (length bs) (drop (off + 4) buff) = bs"
  shows "get_heap_ptr md buff = Inr hb"
proof -
  have "length bs \<le> 5" using assms(4) by (rule s32_written_read)
  then have "take 5 (drop (off + 4) buff) = take (length bs) (drop (off + 4) buff) @ drop (length bs) (take 5 (drop (off + 4) buff))"
    by (metis append_take_drop_id min.absorb1 take_take)
  then obtain r where "take 5 (drop (off + 4) buff) = bs @ r" using assms(5) by auto
  then show ?thesis using assms(1-3) s32_written_read(2) [OF assms(4), of r]
    by (simp add: get_heap_ptr_def get_global_def init_bytes_def)
qed

text \<open>The modules on which the behaviour of the post processor is undefined: global 1 is missing or
  imported, or no signed LEB128 follows behind the first four bytes of its initialiser.\<close>

definition no_heap_base :: "wasm_module \<Rightarrow> byte list \<Rightarrow> bool" where
  "no_heap_base md buff \<longleftrightarrow>
     \<not> (\<exists>off hp. 1 < length (global_locs md) \<and> global_locs md ! 1 = Some off \<and> off + 9 \<le> length buff \<and>
          snd (read_s32_leb128 (take 5 (drop (off + 4) buff))) = Some hp)"

lemma post_process_undefined:
  assumes "post_process md buff = Inl e"
  shows "no_heap_base md buff \<and> (\<exists>why. e = UB why)"
proof -
  have "get_heap_ptr (md\<lparr>data_segments := ds\<rparr>) buff = get_heap_ptr md buff" for ds
    by (simp add: get_heap_ptr_def get_global_def)
  then have "get_heap_ptr md buff = Inl e" using assms
    by (cases "get_heap_ptr md buff")
      (simp_all add: post_process_def add_heap_pointer_data_def strip_zeroed_data_def case_prod_beta)
  then show ?thesis
    by (auto simp: get_heap_ptr_def get_global_def init_bytes_def no_heap_base_def rbind_def
        split: if_splits option.splits sum.splits)
qed

lemma align_8: "align x 8 = (x + 7) AND NOT 7"
  by (simp add: align_def) (subst add.commute, rule refl)

lemma or_and_not: "(y AND NOT m OR m) AND NOT m = y AND NOT (m :: 'a::len word)"
  by (rule bit_word_eqI) (auto simp: bit_simps)

lemma align_8_idem: "align (align x 8) 8 = align x 8"
proof -
  let ?y = "(x + 7) AND NOT (7 :: u32)"
  have "?y AND 7 = 0" by (simp add: and.assoc)
  then have "?y + 7 = ?y OR 7" by (rule disjunctive_add_eq_or)
  then show ?thesis using or_and_not [of "x + 7" 7] by (simp only: align_8)
qed

lemma load_stored_word: "le_word (load_bytes (store_bytes m 0 (le_bytes 4 (v :: u32))) 0 4) = v"
proof -
  have "load_bytes (store_bytes m 0 (le_bytes 4 v)) 0 4 = le_bytes 4 v"
    by (rule load_bytes_eqI) (use store_bytes_nth [of _ "le_bytes 4 v" m 0] in simp_all)
  then show ?thesis by (simp add: le_word_bytes)
qed

section \<open>Properties\<close>

text \<open>C22: of the segments that do not overlap only those of zeros are dropped, and what the module
  puts into memory changes nowhere but in the four bytes at address 0.\<close>

theorem post_process_keeps_memory:
  assumes "segs_ok (data_segments md)" and "post_process md buff = Inr md'"
  shows "(\<forall>a. \<not> in_block a 0 4 \<longrightarrow> initial_memory md' a = initial_memory md a) \<and>
    (\<forall>s \<in> set (butlast (data_segments md')). s \<in> set (data_segments md) \<and> (\<exists>d \<in> set (seg_data s). d \<noteq> 0))"
proof -
  obtain hp where "get_heap_ptr md buff = Inr hp"
  proof (cases "get_heap_ptr md buff")
    case (Inl e)
    moreover have "get_heap_ptr (md\<lparr>data_segments := ds\<rparr>) buff = get_heap_ptr md buff" for ds
      by (simp add: get_heap_ptr_def get_global_def)
    ultimately show thesis using assms(2)
      by (simp add: post_process_def add_heap_pointer_data_def strip_zeroed_data_def case_prod_beta)
  qed
  note md' = post_process_cases [OF this, unfolded assms(2), simplified]
  have "\<forall>s \<in> set (butlast (data_segments md')). s \<in> set (data_segments md) \<and> (\<exists>d \<in> set (seg_data s). d \<noteq> 0)"
    using md' by (auto simp: is_zeroed_iff)
  moreover have "initial_memory md' a = initial_memory md a" if "\<not> in_block a 0 4" for a
    using that md' strip_keeps_memory [OF assms(1)]
    by (simp add: initial_memory_append store_bytes_other) (simp add: initial_memory_def)
  ultimately show ?thesis by blast
qed

definition wit_module :: wasm_module where
  "wit_module = \<lparr>data_segments = [\<lparr>seg_offset = 8, seg_data = [0, 0]\<rparr>, \<lparr>seg_offset = 16, seg_data = [1, 0]\<rparr>],
     global_locs = [Some 0, Some 1]\<rparr>"

definition wit_wasm :: "byte list" where
  "wit_wasm = [0, 97, 115, 109, 1, 0x8C, 0x82, 0x04, 0x0B, 0]"

lemma wit_post_process:
  "post_process wit_module wit_wasm = Inr (wit_module\<lparr>data_segments :=
     [\<lparr>seg_offset = 16, seg_data = [1, 0]\<rparr>, \<lparr>seg_offset = 0, seg_data = [0x10, 0x01, 0x01, 0]\<rparr>]\<rparr>)"
  by code_simp

theorem post_process_keeps_memory_witness:
  "let md' = wit_module\<lparr>data_segments :=
     [\<lparr>seg_offset = 16, seg_data = [1, 0]\<rparr>, \<lparr>seg_offset = 0, seg_data = [0x10, 0x01, 0x01, 0]\<rparr>]\<rparr>
   in initial_memory md' 16 = initial_memory wit_module 16 \<and> initial_memory md' 8 = initial_memory wit_module 8"
proof -
  have "segs_ok (data_segments wit_module)"
    by (simp add: segs_ok_def wit_module_def pairwise_def disjoint_blocks_def in_block_def) (auto simp: unat_arith_simps)
  from post_process_keeps_memory [OF this wit_post_process] show ?thesis
    by (simp add: Let_def in_block_def)
qed


definition wit_wabt :: wabt where
  "wit_wabt = \<lparr>read_binary_ir = (\<lambda>_. Some wit_module), write_binary_module = (\<lambda>md. Some (concat (map seg_data (data_segments md)))),
     can_write = (\<lambda>_. True)\<rparr>"


end
