(* ===== verification/OptionParser.thy ===== *)
theory OptionParser
  imports Names "HOL-Library.Sublist"
begin

text \<open>
  The command line parser of the tools of wabt: \<open>option-parser.cc\<close> in
  \<open>tools/fractal-tools/external/wabt/src\<close>. The callbacks act on a state \<open>'s\<close>, the static variables
  of the tool, and may end the process; an error ends it with code 1 (\<open>DefaultError\<close>, the only
  handler there is). Strings are C strings without their terminator.
\<close>

section \<open>Parsers\<close>

text \<open>The end of the process: its code, what it has printed and its message on the error stream.\<close>

datatype exit = Exit int string string

datatype argument_count = One | OneOrMore

text \<open>What an option does: a function of the tool, or the lambda of \<open>AddHelpOption\<close>, which prints the
  help of the parser and exits.\<close>

datatype 's action = Do "string option \<Rightarrow> 's \<Rightarrow> exit + 's" | HelpAndExit

record 's cl_option =
  short_name :: char
  long_name :: string
  metavar :: string
  has_argument :: bool
  help_text :: string
  callback :: "'s action"

record 's cl_argument =
  arg_name :: string
  arg_count :: argument_count
  arg_callback :: "string \<Rightarrow> 's \<Rightarrow> exit + 's"

record 's parser =
  program_name :: string
  description :: string
  options :: "'s cl_option list"
  arguments :: "'s cl_argument list"

definition new_parser :: "string \<Rightarrow> string \<Rightarrow> 's parser" where
  "new_parser nm descr = \<lparr>program_name = nm, description = descr, options = [], arguments = []\<rparr>"

definition add_option :: "'s cl_option \<Rightarrow> 's parser \<Rightarrow> 's parser" where
  "add_option opt p = p\<lparr>options := options p @ [opt]\<rparr>"

definition add_argument :: "string \<Rightarrow> argument_count \<Rightarrow> (string \<Rightarrow> 's \<Rightarrow> exit + 's) \<Rightarrow> 's parser \<Rightarrow> 's parser" where
  "add_argument nm n cb p = p\<lparr>arguments := arguments p @ [\<lparr>arg_name = nm, arg_count = n, arg_callback = cb\<rparr>]\<rparr>"

text \<open>The three overloads of \<open>AddOption\<close>.\<close>

definition add_flag :: "char \<Rightarrow> string \<Rightarrow> string \<Rightarrow> ('s \<Rightarrow> exit + 's) \<Rightarrow> 's parser \<Rightarrow> 's parser" where
  "add_flag c nm hlp cb =
     add_option \<lparr>short_name = c, long_name = nm, metavar = [], has_argument = False, help_text = hlp, callback = Do (\<lambda>_. cb)\<rparr>"

definition add_long_flag :: "string \<Rightarrow> string \<Rightarrow> ('s \<Rightarrow> exit + 's) \<Rightarrow> 's parser \<Rightarrow> 's parser" where
  "add_long_flag nm hlp cb =
     add_option \<lparr>short_name = CHR 0x00, long_name = nm, metavar = [], has_argument = False, help_text = hlp, callback = Do (\<lambda>_. cb)\<rparr>"

definition add_value :: "char \<Rightarrow> string \<Rightarrow> string \<Rightarrow> string \<Rightarrow> (string option \<Rightarrow> 's \<Rightarrow> exit + 's) \<Rightarrow> 's parser \<Rightarrow> 's parser" where
  "add_value c nm meta hlp cb =
     add_option \<lparr>short_name = c, long_name = nm, metavar = meta, has_argument = True, help_text = hlp, callback = Do cb\<rparr>"

section \<open>\<open>PrintHelp\<close>\<close>

definition name_width :: "'s cl_option \<Rightarrow> nat" where
  "name_width opt = length (long_name opt) + (if metavar opt \<noteq> [] then length (metavar opt) + 1 else 0)"

fun longest_name_length :: "'s cl_option list \<Rightarrow> nat \<Rightarrow> nat" where
  "longest_name_length [] longest = longest"
| "longest_name_length (opt # opts) longest =
     (if long_name opt = [] then longest_name_length opts longest
      else longest_name_length opts (if name_width opt > longest then name_width opt else longest))"

definition flag_text :: "'s cl_option \<Rightarrow> string" where
  "flag_text opt =
     (if long_name opt = [] then []
      else ''--'' @ (if metavar opt \<noteq> [] then long_name opt @ ''='' @ metavar opt else long_name opt))"

definition help_line :: "nat \<Rightarrow> 's cl_option \<Rightarrow> string" where
  "help_line longest opt =
     (if short_name opt = CHR 0x00 \<and> long_name opt = [] then []
      else
        let flag = flag_text opt;
            remaining = longest + 8 + 2 - length flag
        in (if short_name opt \<noteq> CHR 0x00 then ''  -'' @ [short_name opt] @ '', '' else ''      '') @
           flag @ replicate remaining (CHR 0x20) @ help_text opt @ [CHR 0x0A])"

definition print_help :: "'s parser \<Rightarrow> string" where
  "print_help p =
     ''usage: '' @ program_name p @ '' [options]'' @
     concat (map (\<lambda>a. '' '' @ arg_name a @ (case arg_count a of One \<Rightarrow> [] | OneOrMore \<Rightarrow> ''+'')) (arguments p)) @
     [CHR 0x0A, CHR 0x0A] @ description p @ [CHR 0x0A] @ ''options:'' @ [CHR 0x0A] @
     concat (map (help_line (longest_name_length (options p) 0)) (options p))"

definition add_help_option :: "'s parser \<Rightarrow> 's parser" where
  "add_help_option =
     add_option \<lparr>short_name = CHR ''h'', long_name = ''help'', metavar = [], has_argument = False,
       help_text = ''Print this help message'', callback = HelpAndExit\<rparr>"

definition run_callback :: "'s parser \<Rightarrow> 's cl_option \<Rightarrow> string option \<Rightarrow> 's \<Rightarrow> exit + 's" where
  "run_callback p opt arg s =
     (case callback opt of Do f \<Rightarrow> f arg s | HelpAndExit \<Rightarrow> Inl (Exit 0 (print_help p) []))"

text \<open>\<open>Errorf\<close> with the default handler; the formats put their argument into single quotes.\<close>

definition default_error :: "string \<Rightarrow> exit" where
  "default_error msg = Exit 1 [] (msg @ [CHR 0x0A])"

definition quoted :: "string \<Rightarrow> string" where
  "quoted s = CHR 0x27 # s @ [CHR 0x27]"

definition requires_argument :: "string \<Rightarrow> exit" where
  "requires_argument opt = default_error (''option '' @ quoted opt @ '' requires argument'')"

section \<open>\<open>Match\<close>\<close>

text \<open>The loop of \<open>Match\<close> at the position \<open>i\<close>, with what is left of both strings.\<close>

fun match_loop :: "string \<Rightarrow> string \<Rightarrow> bool \<Rightarrow> int \<Rightarrow> int" where
  "match_loop [] [] has_arg i = i + 1"
| "match_loop (c # s) [] has_arg i = (if \<not> (has_arg \<and> c = CHR ''='') then -1 else i)"
| "match_loop [] (d # full) has_arg i = i"
| "match_loop (c # s) (d # full) has_arg i = (if c \<noteq> d then -1 else match_loop s full has_arg (i + 1))"

definition match_option :: "string \<Rightarrow> string \<Rightarrow> bool \<Rightarrow> int" where
  "match_option s full has_arg = match_loop s full has_arg 0"

section \<open>\<open>Parse\<close>\<close>

text \<open>The state of \<open>Parse\<close>: \<open>arg_index\<close>, how often every argument was handled, and the state of the
  tool.\<close>

record 's parse_state =
  arg_index :: nat
  handled_count :: "nat list"
  tool :: 's

definition handle_argument :: "'s parser \<Rightarrow> string \<Rightarrow> 's parse_state \<Rightarrow> exit + 's parse_state" where
  "handle_argument p arg_value st =
     (if arg_index st \<ge> length (arguments p)
      then Inl (default_error (''unexpected argument '' @ quoted arg_value))
      else
        let argument = arguments p ! arg_index st in
        case arg_callback argument arg_value (tool st) of
          Inl e \<Rightarrow> Inl e
        | Inr t \<Rightarrow> Inr (st\<lparr>tool := t,
                         handled_count := (handled_count st)[arg_index st := handled_count st ! arg_index st + 1],
                         arg_index := (if arg_count argument = One then arg_index st + 1 else arg_index st)\<rparr>))"

text \<open>The loop over the options that finds the best match of a long option.\<close>

fun best_match :: "string \<Rightarrow> 's cl_option list \<Rightarrow> nat \<Rightarrow> int \<times> int \<times> nat \<Rightarrow> int \<times> int \<times> nat" where
  "best_match s [] j best = best"
| "best_match s (opt # opts) j (best_index, best_length, best_count) =
     best_match s opts (j + 1)
       (if long_name opt \<noteq> [] then
          let match_length = match_option s (long_name opt) (has_argument opt)
          in if match_length > best_length then (int j, match_length, 1)
             else if match_length = best_length \<and> best_length > 0 then (best_index, best_length, best_count + 1)
             else (best_index, best_length, best_count)
        else (best_index, best_length, best_count))"

text \<open>What a callback returns becomes the state of the tool; the arguments that are left.\<close>

definition set_tool :: "'s parse_state \<Rightarrow> exit + 's \<Rightarrow> exit + 's parse_state" where
  "set_tool st r = (case r of Inl e \<Rightarrow> Inl e | Inr t \<Rightarrow> Inr (st\<lparr>tool := t\<rparr>))"

definition with_args :: "string list \<Rightarrow> exit + 'a \<Rightarrow> exit + string list \<times> 'a" where
  "with_args args r = (case r of Inl e \<Rightarrow> Inl e | Inr x \<Rightarrow> Inr (args, x))"

definition long_option ::
    "'s parser \<Rightarrow> string \<Rightarrow> string list \<Rightarrow> 's parse_state \<Rightarrow> exit + string list \<times> 's parse_state" where
  "long_option p arg args st =
     (let (best_index, best_length, best_count) = best_match (drop 2 arg) (options p) 0 (-1, 0, 0) in
      if best_count > 1 then Inl (default_error (''ambiguous option '' @ quoted arg))
      else if best_count = 0 then Inl (default_error (''unknown option '' @ quoted arg))
      else
        let best_option = options p ! nat best_index in
        if has_argument best_option then
          if c_at arg (nat best_length) = CHR ''=''
          then with_args args (set_tool st (run_callback p best_option (Some (drop (nat best_length + 1) arg)) (tool st)))
          else case args of
                 [] \<Rightarrow> Inl (requires_argument (''--'' @ long_name best_option))
               | a # rest \<Rightarrow>
                   if c_at a 0 = CHR ''-'' then Inl (requires_argument (''--'' @ long_name best_option))
                   else with_args rest (set_tool st (run_callback p best_option (Some a) (tool st)))
        else with_args args (set_tool st (run_callback p best_option None (tool st))))"

text \<open>The characters of a group of short options; the first option of that name is taken.\<close>

definition short_option :: "'s parser \<Rightarrow> char \<Rightarrow> 's cl_option option" where
  "short_option p c = find (\<lambda>opt. short_name opt \<noteq> CHR 0x00 \<and> c = short_name opt) (options p)"

fun short_options ::
    "'s parser \<Rightarrow> string \<Rightarrow> string list \<Rightarrow> 's parse_state \<Rightarrow> exit + string list \<times> 's parse_state" where
  "short_options p [] args st = Inr (args, st)"
| "short_options p (c # cs) args st =
     (case short_option p c of
        None \<Rightarrow> Inl (default_error (''unknown option '' @ quoted [CHR ''-'', c]))
      | Some opt \<Rightarrow>
          if has_argument opt then
            (if cs \<noteq> [] then Inl (requires_argument [CHR ''-'', short_name opt])
             else case args of
                    [] \<Rightarrow> Inl (requires_argument [CHR ''-'', short_name opt])
                  | a # rest \<Rightarrow>
                      if c_at a 0 = CHR ''-'' then Inl (requires_argument [CHR ''-'', short_name opt])
                      else with_args rest (set_tool st (run_callback p opt (Some a) (tool st))))
          else case set_tool st (run_callback p opt None (tool st)) of
                 Inl e \<Rightarrow> Inl e
               | Inr st \<Rightarrow> short_options p cs args st)"

definition parse_one ::
    "'s parser \<Rightarrow> string \<Rightarrow> string list \<Rightarrow> 's parse_state \<Rightarrow> exit + string list \<times> 's parse_state" where
  "parse_one p arg args st =
     (if c_at arg 0 = CHR ''-'' then
        if c_at arg 1 = CHR ''-'' then long_option p arg args st
        else if c_at arg 1 = CHR 0x00 then with_args args (handle_argument p arg st)
        else short_options p (drop 1 arg) args st
      else with_args args (handle_argument p arg st))"

lemma with_args_shorter: "with_args as r = Inr (args', x) \<Longrightarrow> args' = as"
  by (auto simp: with_args_def split: sum.splits)

lemma short_options_shorter: "short_options p cs args st = Inr (args', st') \<Longrightarrow> length args' \<le> length args"
  by (induction p cs args st rule: short_options.induct)
    (auto split: option.splits if_splits list.splits sum.splits dest: with_args_shorter)

lemma parse_one_shorter: "parse_one p arg args st = Inr (args', st') \<Longrightarrow> length args' \<le> length args"
  by (auto simp: parse_one_def long_option_def Let_def split: if_splits prod.splits list.splits
      dest!: with_args_shorter short_options_shorter)

text \<open>The loop over \<open>argv\<close> from 1 on.\<close>

function parse_loop :: "'s parser \<Rightarrow> string list \<Rightarrow> 's parse_state \<Rightarrow> exit + 's parse_state" where
  "parse_loop p [] st = Inr st"
| "parse_loop p (arg # args) st =
     (case parse_one p arg args st of
        Inl e \<Rightarrow> Inl e
      | Inr (args, st) \<Rightarrow> parse_loop p args st)"
  by pat_completeness auto
termination
  by (relation "measure (\<lambda>(p, args, st). length args)") (auto dest: parse_one_shorter)

text \<open>Every argument must be given: the first error after the loop ends the process, with the help on
  the output.\<close>

definition parse :: "'s parser \<Rightarrow> string list \<Rightarrow> 's \<Rightarrow> exit + 's" where
  "parse p argv s =
     (case parse_loop p argv \<lparr>arg_index = 0, handled_count = replicate (length (arguments p)) 0, tool = s\<rparr> of
        Inl e \<Rightarrow> Inl e
      | Inr st \<Rightarrow>
          if arguments p \<noteq> [] \<and> last (handled_count st) = 0 \<and> arg_index st < length (arguments p)
          then Inl (Exit 1 (print_help p)
                 (''expected '' @ arg_name (arguments p ! arg_index st) @ '' argument.'' @ [CHR 0x0A, CHR 0x0A]))
          else Inr (tool st))"

section \<open>Which long option is taken\<close>

lemma match_loop_eq:
  "match_loop s full ha i =
     (if s = full then i + int (length s) + 1
      else if prefix s full then i + int (length s)
      else if ha \<and> prefix (full @ ''='') s then i + int (length full) else -1)"
  by (induction s full ha i rule: match_loop.induct) auto

lemma match_option_eq:
  "match_option s full ha =
     (if s = full then int (length s) + 1 else if prefix s full then int (length s)
      else if ha \<and> prefix (full @ ''='') s then int (length full) else -1)"
  by (simp add: match_option_def match_loop_eq)

definition score :: "string \<Rightarrow> 's cl_option \<Rightarrow> int" where
  "score s opt = (if long_name opt \<noteq> [] then match_option s (long_name opt) (has_argument opt) else 0)"

definition top :: "('a \<Rightarrow> int) \<Rightarrow> 'a list \<Rightarrow> int \<Rightarrow> int" where
  "top f xs b = fold (\<lambda>x b. max b (f x)) xs b"

lemma top_Cons [simp]: "top f (x # xs) b = top f xs (max b (f x))" "top f [] b = b"
  by (simp_all add: top_def)

lemma top_ge: "b \<le> top f xs b"
proof (induction xs arbitrary: b)
  case (Cons x xs)
  show ?case using Cons [of "max b (f x)"] by simp
qed simp

lemma top_eqI:
  "\<forall>x \<in> set xs. f x \<le> t \<Longrightarrow> b \<le> t \<Longrightarrow> b = t \<or> (\<exists>x \<in> set xs. f x = t) \<Longrightarrow> top f xs b = t"
proof (induction xs arbitrary: b)
  case (Cons x xs)
  have "top f xs (max b (f x)) = t" by (rule Cons.IH) (use Cons.prems in \<open>auto simp: max_def\<close>)
  then show ?case by simp
qed auto

definition first_at :: "('a \<Rightarrow> bool) \<Rightarrow> 'a list \<Rightarrow> nat" where
  "first_at P xs = length (takeWhile (\<lambda>x. \<not> P x) xs)"

lemma best_match_general:
  "0 \<le> bl \<Longrightarrow> best_match s opts j (bi, bl, bc) =
     (if top (score s) opts bl > bl
      then (int (j + first_at (\<lambda>x. score s x = top (score s) opts bl) opts), top (score s) opts bl,
            length (filter (\<lambda>x. score s x = top (score s) opts bl) opts))
      else (bi, bl, bc + (if bl > 0 then length (filter (\<lambda>x. score s x = bl) opts) else 0)))"
proof (induction opts arbitrary: j bi bl bc)
  case (Cons opt opts)
  let ?m = "score s opt"
  have step: "best_match s (opt # opts) j (bi, bl, bc) = best_match s opts (j + 1)
      (if ?m > bl then (int j, ?m, 1) else if ?m = bl \<and> bl > 0 then (bi, bl, bc + 1) else (bi, bl, bc))"
    using Cons.prems by (auto simp: score_def Let_def)
  have ge: "max bl ?m \<le> top (score s) opts (max bl ?m)" by (rule top_ge)
  consider "?m > bl" | "?m = bl" | "?m < bl" by linarith
  then show ?case
  proof cases
    case 1
    then show ?thesis using Cons.prems Cons.IH [of ?m] ge unfolding step
      by (auto simp: max_def first_at_def)
  next
    case 2
    then show ?thesis using Cons.prems Cons.IH [of bl] ge unfolding step
      by (auto simp: first_at_def)
  next
    case 3
    then show ?thesis using Cons.prems Cons.IH [of bl] ge unfolding step
      by (auto simp: first_at_def max_def)
  qed
qed simp

text \<open>C35: for a long option that is written without a value, an option of exactly that name is preferred
  to one whose name only begins so; within the preferred ones the first is taken, and the number
  counted, on which the errors \<open>unknown\<close> and \<open>ambiguous\<close> depend, is the number of them.\<close>

theorem long_option_selected:
  assumes "CHR ''='' \<notin> set s" "s \<noteq> []" "best_match s opts 0 (-1, 0, 0) = (index, len, cnt)"
    and "pick = (if list_ex (\<lambda>x. long_name x = s) opts then (\<lambda>x. long_name x = s) else (\<lambda>x. prefix s (long_name x)))"
  shows "cnt = length (filter pick opts) \<and> (cnt > 0 \<longrightarrow> index = int (first_at pick opts))"
proof -
  have sc: "score s x = (if long_name x = s then int (length s) + 1
      else if prefix s (long_name x) then int (length s) else if long_name x = [] then 0 else -1)" for x :: "'a cl_option"
  proof -
    have "\<not> prefix (long_name x @ ''='') s" using assms(1) by (auto dest: set_mono_prefix)
    then show ?thesis using assms(2) by (auto simp: score_def match_option_eq)
  qed
  have pos: "int (length s) > 0" using assms(2) by simp
  consider (exact) "list_ex (\<lambda>x. long_name x = s) opts"
    | (pre) "\<not> list_ex (\<lambda>x. long_name x = s) opts" "list_ex (\<lambda>x. prefix s (long_name x)) opts"
    | (none) "\<not> list_ex (\<lambda>x. long_name x = s) opts" "\<not> list_ex (\<lambda>x. prefix s (long_name x)) opts"
    by blast
  then show ?thesis
  proof cases
    case exact
    then have t: "top (score s) opts 0 = int (length s) + 1"
      by (intro top_eqI) (auto simp: sc list_ex_iff)
    have p: "(\<lambda>x. score s x = int (length s) + 1) = pick"
      using pos exact by (auto simp: sc assms(4) fun_eq_iff)
    show ?thesis using assms(3) t by (simp add: best_match_general p)
  next
    case pre
    then obtain y where y: "y \<in> set opts" "score s y = int (length s)" by (auto simp: sc list_ex_iff)
    have t: "top (score s) opts 0 = int (length s)"
    proof (rule top_eqI)
      show "\<forall>x \<in> set opts. score s x \<le> int (length s)" using pre(1) by (auto simp: sc list_ex_iff)
    qed (use y in auto)
    have "\<And>x. x \<in> set opts \<Longrightarrow> score s x = int (length s) \<longleftrightarrow> pick x"
      using pos pre(1) by (auto simp: sc assms(4) list_ex_iff)
    then have "filter (\<lambda>x. score s x = int (length s)) opts = filter pick opts"
      "takeWhile (\<lambda>x. score s x \<noteq> int (length s)) opts = takeWhile (\<lambda>x. \<not> pick x) opts"
      by (auto intro: filter_cong takeWhile_cong)
    then show ?thesis using assms(3) t pos by (simp add: best_match_general first_at_def)
  next
    case none
    then have t: "top (score s) opts 0 = 0"
      by (intro top_eqI) (auto simp: sc list_ex_iff)
    have "filter pick opts = []" using none by (auto simp: assms(4) list_ex_iff)
    then show ?thesis using assms(3) t by (simp add: best_match_general)
  qed
qed

definition example_options :: "unit cl_option list" where
  "example_options = options (add_value (CHR ''o'') ''output'' ''FILE'' [] (\<lambda>a s. Inr s)
     (add_long_flag ''outline'' [] Inr (add_flag (CHR ''v'') ''verbose'' [] Inr (new_parser [] []))))"

theorem long_option_selected_witness:
  "(case best_match ''outp'' example_options 0 (-1, 0, 0) of (index, len, cnt) \<Rightarrow> cnt = 1 \<and> index = 2) \<and>
   (case best_match ''out'' example_options 0 (-1, 0, 0) of (index, len, cnt) \<Rightarrow> cnt = 2)"
proof -
  have o: "example_options = [\<lparr>short_name = CHR ''v'', long_name = ''verbose'', metavar = [], has_argument = False, help_text = [], callback = Do (\<lambda>_. Inr)\<rparr>,
     \<lparr>short_name = CHR 0x00, long_name = ''outline'', metavar = [], has_argument = False, help_text = [], callback = Do (\<lambda>_. Inr)\<rparr>,
     \<lparr>short_name = CHR ''o'', long_name = ''output'', metavar = ''FILE'', has_argument = True, help_text = [], callback = Do (\<lambda>a s. Inr s)\<rparr>]"
    by (simp add: example_options_def add_value_def add_long_flag_def add_flag_def add_option_def new_parser_def)
  obtain i l c where 1: "best_match ''outp'' example_options 0 (-1, 0, 0) = (i, l, c)" by (rule prod_cases3)
  obtain j k d where 2: "best_match ''out'' example_options 0 (-1, 0, 0) = (j, k, d)" by (rule prod_cases3)
  show ?thesis
    using long_option_selected [OF _ _ 1 refl] long_option_selected [OF _ _ 2 refl]
    by (simp add: 1 2) (simp add: o first_at_def)
qed

end
