(* ===== verification/PostpassMain.thy ===== *)
theory PostpassMain
  imports Postpass OptionParser
begin

text \<open>
  The command line of \<open>fractal-pp\<close>, \<open>postpass.cc\<close>: its options, and the whole program from the
  arguments to the exit code and the files. The linker driver runs it as \<open>fractal-pp FILE\<close>.
\<close>

section \<open>\<open>ParseOptions\<close>\<close>

record pp_vars =
  s_verbose :: nat
  s_infile :: string
  s_outfile :: string

definition initial_vars :: pp_vars where
  "initial_vars = \<lparr>s_verbose = 0, s_infile = [], s_outfile = []\<rparr>"

definition convert_backslash :: "string \<Rightarrow> string" where
  "convert_backslash = map (\<lambda>c. if c = CHR 0x5C then CHR ''/'' else c)"

text \<open>A value option always gets an argument; \<open>s_outfile = nullptr\<close> would be undefined.\<close>

definition set_output :: "string option \<Rightarrow> pp_vars \<Rightarrow> exit + pp_vars" where
  "set_output argument v = Inr (v\<lparr>s_outfile := convert_backslash (the argument)\<rparr>)"

definition pp_description :: string where
  "pp_description =
     ''  Read a file in the WebAssembly binary format, strip bss or any data segment that is only initialized to zeros, and other post processing.'' @
     [CHR 0x0A, CHR 0x0A] @ ''  $ fractal-pp test.wasm -o test.stripped.wasm'' @
     [CHR 0x0A, CHR 0x0A] @ ''  # or original replacement'' @ [CHR 0x0A] @ ''  $ wasm2wat test.wasm '' @ [CHR 0x0A]"

definition pp_parser :: "pp_vars parser" where
  "pp_parser =
     add_argument ''filename'' One (\<lambda>argument v. Inr (v\<lparr>s_infile := convert_backslash argument\<rparr>))
       (add_value (CHR ''o'') ''output'' ''FILENAME''
          ''Output file for the generated wast file, by default use stdout'' set_output
       (add_help_option
       (add_flag (CHR ''v'') ''verbose'' ''Use multiple times for more info'' (\<lambda>v. Inr (v\<lparr>s_verbose := s_verbose v + 1\<rparr>))
       (new_parser ''postprocess'' pp_description))))"

text \<open>The program: an exit of the parser ends it and leaves the files alone.\<close>

type_synonym filesystem = "string \<Rightarrow> byte list option"

definition fractal_pp :: "wabt \<Rightarrow> string list \<Rightarrow> filesystem \<Rightarrow> (int \<times> filesystem) res" where
  "fractal_pp wb argv files =
     (case parse pp_parser argv initial_vars of
        Inl (Exit code out msg) \<Rightarrow> Inr (code, files)
      | Inr v \<Rightarrow> program_main wb (s_infile v) (s_outfile v) files)"

section \<open>What the arguments do\<close>

lemmas pp_parser_simps = pp_parser_def add_argument_def add_value_def add_help_option_def add_flag_def
  add_option_def new_parser_def

lemmas parsing = parse_def parse_one_def with_args_def set_tool_def handle_argument_def Let_def
  initial_vars_def short_option_def run_callback_def set_output_def
  long_option_def match_option_def requires_argument_def default_error_def

lemma convert_backslash_id: "CHR 0x5C \<notin> set f \<Longrightarrow> convert_backslash f = f"
  by (induction f) (auto simp: convert_backslash_def)

text \<open>C39: \<open>fractal-pp FILE\<close> and \<open>fractal-pp FILE -o OUT\<close>, in either order of the arguments, process the
  file into itself and into the other file; without an output the input is replaced.\<close>

theorem fractal_pp_arguments:
  assumes "c_at f 0 \<noteq> CHR ''-''" "c_at g 0 \<noteq> CHR ''-''" "CHR 0x5C \<notin> set f" "CHR 0x5C \<notin> set g"
  shows "fractal_pp wb [f] files = program_main wb f [] files \<and>
    fractal_pp wb [f, ''-o'', g] files = program_main wb f g files \<and>
    fractal_pp wb [''-o'', g, f] files = program_main wb f g files \<and>
    fractal_pp wb [''--output'', g, f] files = program_main wb f g files"
  using assms
  by (simp add: fractal_pp_def pp_parser_simps parsing c_at_def convert_backslash_id)

theorem fractal_pp_arguments_witness:
  "\<forall>wb files. fractal_pp wb [''a.wasm''] files = program_main wb ''a.wasm'' [] files \<and>
     fractal_pp wb [''a.wasm'', ''-o'', ''b.wasm''] files = program_main wb ''a.wasm'' ''b.wasm'' files"
  using fractal_pp_arguments [of "''a.wasm''" "''b.wasm''"] by (simp add: c_at_def)

text \<open>C36: an output given as \<open>--output=VALUE\<close> is never used. The parser looks for the \<open>=\<close> two
  characters too early, does not find it and takes the next argument for the output; without one
  it asks for an argument.\<close>

theorem output_value_ignored:
  assumes "c_at f 0 \<noteq> CHR ''-''" "c_at g 0 \<noteq> CHR ''-''" "CHR 0x5C \<notin> set f" "CHR 0x5C \<notin> set g"
  shows "fractal_pp wb [f, ''--output='' @ v] files = Inr (1, files) \<and>
    fractal_pp wb [''--output='' @ v, f] files = Inr (1, files) \<and>
    fractal_pp wb [''--output='' @ v, g, f] files = program_main wb f g files"
  using assms
  by (simp add: fractal_pp_def pp_parser_simps parsing c_at_def convert_backslash_id)

theorem output_value_ignored_witness:
  "\<forall>wb files. fractal_pp wb [''a.wasm'', ''--output=b.wasm''] files = Inr (1, files) \<and>
     fractal_pp wb [''--output=b.wasm'', ''a.wasm''] files = Inr (1, files)"
  using output_value_ignored [of "''a.wasm''" "''c.wasm''" _ "''b.wasm''"] by (simp add: c_at_def)

end
