(* ===== verification/Paths.thy ===== *)
theory Paths
  imports Names
begin

text \<open>
  What the drivers use of LLVM's path library, \<open>tools/llvm/lib/Support/Path.cpp\<close>, with the POSIX
  style of paths.
\<close>

section \<open>Searching in strings\<close>

fun find_first :: "char \<Rightarrow> string \<Rightarrow> nat \<Rightarrow> nat option" where
  "find_first c [] i = None"
| "find_first c (x # xs) i = (if x = c then Some i else find_first c xs (i + 1))"

definition find_first_of :: "char \<Rightarrow> string \<Rightarrow> nat \<Rightarrow> nat option" where
  "find_first_of c s from = find_first c (drop from s) from"

fun find_last_of :: "char \<Rightarrow> string \<Rightarrow> nat option" where
  "find_last_of c [] = None"
| "find_last_of c (x # xs) =
     (case find_last_of c xs of Some i \<Rightarrow> Some (i + 1) | None \<Rightarrow> if x = c then Some 0 else None)"

definition is_separator :: "char \<Rightarrow> bool" where
  "is_separator c \<longleftrightarrow> c = CHR ''/''"

section \<open>\<open>Path.cpp\<close>\<close>

definition filename_pos :: "string \<Rightarrow> nat" where
  "filename_pos str =
     (if str \<noteq> [] \<and> is_separator (last str) then length str - 1
      else case find_last_of (CHR ''/'') str of
             None \<Rightarrow> 0
           | Some pos \<Rightarrow> if pos = 1 \<and> is_separator (hd str) then 0 else pos + 1)"

definition root_dir_start :: "string \<Rightarrow> nat option" where
  "root_dir_start str =
     (if length str > 3 \<and> is_separator (str ! 0) \<and> str ! 0 = str ! 1 \<and> \<not> is_separator (str ! 2)
      then find_first_of (CHR ''/'') str 2
      else if str \<noteq> [] \<and> is_separator (str ! 0) then Some 0 else None)"

text \<open>The loop of \<open>reverse_iterator::operator++\<close> that skips separators.\<close>

fun skip_separators :: "string \<Rightarrow> nat option \<Rightarrow> nat \<Rightarrow> nat" where
  "skip_separators path root_dir_pos 0 = 0"
| "skip_separators path root_dir_pos (Suc n) =
     (if Some n \<noteq> root_dir_pos \<and> is_separator (path ! n) then skip_separators path root_dir_pos n else Suc n)"

text \<open>\<open>filename\<close> is the component \<open>*rbegin(path)\<close>.\<close>

definition filename :: "string \<Rightarrow> string" where
  "filename path =
     (let root_dir_pos = root_dir_start path;
          end_pos = skip_separators path root_dir_pos (length path)
      in if path \<noteq> [] \<and> is_separator (last path) \<and>
            (case root_dir_pos of None \<Rightarrow> True | Some r \<Rightarrow> end_pos = 0 \<or> end_pos - 1 > r)
         then ''.''
         else drop (filename_pos (take end_pos path)) (take end_pos path))"

definition path_replace_extension :: "string \<Rightarrow> string \<Rightarrow> string" where
  "path_replace_extension p ext =
     (let p = (case find_last_of (CHR ''.'') p of
                 Some pos \<Rightarrow> if pos \<ge> filename_pos p then take pos p else p
               | None \<Rightarrow> p)
      in p @ (if ext \<noteq> [] \<and> hd ext \<noteq> CHR ''.'' then ''.'' else []) @ ext)"

text \<open>\<open>append\<close> of one component that has no separator in it.\<close>

definition path_append :: "string \<Rightarrow> string \<Rightarrow> string" where
  "path_append path a =
     (if path = [] \<or> is_separator (last path) then path @ a else path @ ''/'' @ a)"

section \<open>Their values\<close>

lemma find_last_of_None [simp]: "find_last_of c s = None \<longleftrightarrow> c \<notin> set s"
  by (induction s) (auto split: option.splits)

lemma find_last_of_append:
  "c \<notin> set t \<Longrightarrow> find_last_of c (s @ c # t) = Some (length s)"
  by (induction s) (simp_all flip: find_last_of_None)

lemma skip_separators_none:
  "n > 0 \<Longrightarrow> \<not> is_separator (path ! (n - 1)) \<Longrightarrow> skip_separators path r n = n"
  by (cases n) auto

lemma last_not: "c \<notin> set f \<Longrightarrow> f \<noteq> [] \<Longrightarrow> last f \<noteq> c"
  by (metis last_in_set)

lemma filename_pos_plain: "CHR ''/'' \<notin> set f \<Longrightarrow> filename_pos f = 0"
  using last_not [of "CHR ''/''" f] by (auto simp: filename_pos_def is_separator_def simp flip: find_last_of_None)

text \<open>The file name of a path is what follows the last separator.\<close>

lemma filename_directory:
  assumes "f \<noteq> []" "CHR ''/'' \<notin> set f" "d \<noteq> ''/''"
  shows "filename (d @ ''/'' @ f) = f"
proof -
  let ?p = "d @ ''/'' @ f"
  have l: "\<not> is_separator (last ?p)" "\<not> is_separator (?p ! (length ?p - 1))"
    using assms(1,2) last_not [of _ f] last_conv_nth [of ?p] by (auto simp: is_separator_def)
  have e: "skip_separators ?p r (length ?p) = length ?p" for r using l(2) by (simp add: skip_separators_none)
  have "find_last_of (CHR ''/'') ?p = Some (length d)" using assms(2) by (simp add: find_last_of_append)
  moreover have "\<not> (length d = 1 \<and> is_separator (hd ?p))"
    using assms(3) by (cases d) (auto simp: is_separator_def)
  ultimately have "filename_pos ?p = length d + 1" using l(1) by (auto simp: filename_pos_def)
  then show ?thesis using l(1) e by (simp add: filename_def Let_def)
qed

lemma filename_plain:
  assumes "CHR ''/'' \<notin> set f"
  shows "filename f = f"
proof (cases "f = []")
  case False
  have l: "\<not> is_separator (last f)" "\<not> is_separator (f ! (length f - 1))"
    using assms last_not [of _ f] last_conv_nth [of f] False by (auto simp: is_separator_def)
  then show ?thesis using filename_pos_plain [OF assms] False
    by (simp add: filename_def Let_def skip_separators_none)
qed (simp add: filename_def Let_def root_dir_start_def filename_pos_def)

lemma replace_extension_file:
  assumes "CHR ''/'' \<notin> set f" "CHR ''/'' \<notin> set e" "CHR ''.'' \<notin> set e"
  shows "path_replace_extension (f @ ''.'' @ e) (CHR ''.'' # x) = f @ ''.'' @ x"
    and "path_replace_extension (f @ ''.'' @ e) [] = f"
proof -
  have "CHR ''/'' \<notin> set (f @ ''.'' @ e)" using assms by auto
  then have "filename_pos (f @ ''.'' @ e) = 0"
    by (rule filename_pos_plain)
  then show "path_replace_extension (f @ ''.'' @ e) (CHR ''.'' # x) = f @ ''.'' @ x"
    "path_replace_extension (f @ ''.'' @ e) [] = f"
    using assms(3) by (simp_all add: path_replace_extension_def find_last_of_append Let_def)
qed

end
