(* ===== verification/Driver.thy ===== *)
theory Driver
  imports Paths Abigen PostpassMain
begin

text \<open>
  The drivers \<open>fractal-cc\<close>, \<open>fractal-cpp\<close> and \<open>fractal-ld\<close>: \<open>compiler_options.hpp\<close>, the class
  \<open>environment\<close> of \<open>utils.hpp\<close> and the functions \<open>main\<close> under \<open>tools/fractal-tools\<close>, as they are
  built for POSIX systems. The parser of LLVM for command lines, the shell, the front end of clang
  and the printer of JSON are parameters. A file system maps the paths of files to their contents;
  two spellings of one path are two files, and directories are not files.
\<close>

section \<open>The outside world\<close>

datatype driver = CC | CPP | LD

record host =
  where_dir :: string
  temp_directory :: string
  boost_include_dirs :: string
  can_execute :: "string \<Rightarrow> bool"
  can_create :: "string \<Rightarrow> bool"
  shell :: "string \<Rightarrow> filesystem \<Rightarrow> filesystem"
  front_end :: "string list \<Rightarrow> string \<Rightarrow> filesystem \<Rightarrow> decls \<times> bool \<times> ast_node list"
  pretty_print :: "json \<Rightarrow> byte list"

text \<open>The files, and the commands that were given to the shell.\<close>

record world =
  files :: filesystem
  commands :: "string list"

definition exists_file :: "string \<Rightarrow> world \<Rightarrow> bool" where
  "exists_file f w \<longleftrightarrow> files w f \<noteq> None"

definition remove_file :: "string \<Rightarrow> world \<Rightarrow> world" where
  "remove_file f w = w\<lparr>files := (files w)(f := None)\<rparr>"

text \<open>\<open>findProgramByName\<close> in one directory, for names without a slash.\<close>

definition find_program :: "host \<Rightarrow> string \<Rightarrow> string \<Rightarrow> string option" where
  "find_program h dir prog =
     (if dir = [] then None
      else let path = path_append dir prog in if can_execute h path then Some path else None)"

text \<open>\<open>exec_subprogram\<close>: the result of \<open>std::system\<close> is not looked at.\<close>

definition exec_subprogram :: "host \<Rightarrow> string \<Rightarrow> string list \<Rightarrow> bool \<Rightarrow> world \<Rightarrow> bool \<times> world" where
  "exec_subprogram h prog opts root w =
     (let args = concat (map (\<lambda>s. s @ '' '') opts);
          find_path = (if root then ''/usr/bin'' else where_dir h)
      in case find_program h find_path prog of
           Some path \<Rightarrow>
             (let cmd = path @ '' '' @ args
              in (True, w\<lparr>files := shell h cmd (files w), commands := commands w @ [cmd]\<rparr>))
         | None \<Rightarrow> (False, w))"

text \<open>\<open>environment::get\<close>: the table is a static variable, and every call appends the variables of the
  process to it.\<close>

fun environment_get :: "string list \<Rightarrow> string list \<Rightarrow> string list" where
  "environment_get env_table [] = env_table"
| "environment_get env_table (var # envp) = environment_get (env_table @ [var]) envp"

section \<open>\<open>compiler_options.hpp\<close>\<close>

text \<open>The values LLVM's parser has given to the options.\<close>

record cl_values =
  L_opt :: "string list"
  l_opt :: "string list"
  o_opt :: string
  input_filename_opt :: "string list"
  c_opt :: bool
  D_opt :: "string list"
  include_opt :: "string list"
  I_opt :: "string list"
  O_opt :: string
  sysroot_opt :: string
  U_opt :: string
  v_opt :: bool
  w_opt :: bool
  W_opt :: "string list"
  contract_name :: string
  std_opt :: string

record driver_options =
  output_fn :: string
  inputs :: "string list"
  link :: bool
  pp_dir :: string
  abigen_contract :: string
  comp_options :: "string list"
  ld_options :: "string list"

definition first_existing :: "world \<Rightarrow> string \<Rightarrow> string \<Rightarrow> string \<Rightarrow> string list" where
  "first_existing w pre a b =
     (if exists_file a w then [pre @ a] else if exists_file b w then [pre @ b] else [])"

text \<open>Only the files \<open>*.cpp.in\<close> go through \<open>configure_file\<close>; in this header the names of variables of
  CMake stay as they are written. In a command the shell replaces them.\<close>

definition ftl_fixup_suff :: string where
  "ftl_fixup_suff = ''${CMAKE_SHARED_LIBRARY_SUFFIX}''"

definition get_comp_defaults :: "driver \<Rightarrow> host \<Rightarrow> world \<Rightarrow> string list" where
  "get_comp_defaults d h w =
     [''--target=wasm32'', ''-ffreestanding'', ''-nostdlib'', ''-fno-builtin'', ''-fno-threadsafe-statics''] @
     (if d = CPP then [''-fno-exceptions'', ''-fno-rtti'', ''-fmodules-ts''] else []) @
     [''-DBOOST_DISABLE_ASSERTS'', ''-DBOOST_EXCEPTION_DISABLE'', ''-Xclang'', ''-load'', ''-Xclang''] @
     first_existing w [] (where_dir h @ ''/LLVMFtlFixup'' @ ftl_fixup_suff)
       (where_dir h @ ''/../lib/LLVMFtlFixup'' @ ftl_fixup_suff) @
     first_existing w ''-fplugin='' (where_dir h @ ''/ftl_plugin'' @ ftl_fixup_suff)
       (where_dir h @ ''/../lib/ftl_plugin'' @ ftl_fixup_suff)"

definition get_ld_defaults :: "string list" where
  "get_ld_defaults =
     [''--gc-sections'', ''--strip-all'', ''-zstack-size=${FTL_STACK_SIZE}'', ''--merge-data-segments'',
      ''-e apply'', ''-lc++ -lc -lftl_malloc'']"

definition cfl_options :: "string list" where
  "cfl_options = [''-mllvm'', ''-use-cfl-aa-in-codegen=both'']"

text \<open>The compiler options that the option values give, from the include directories on.\<close>

definition given_comp_options :: "host \<Rightarrow> cl_values \<Rightarrow> string list" where
  "given_comp_options h v =
     [''-I'' @ where_dir h @ ''/../include/libcxx'', ''-I'' @ where_dir h @ ''/../include/libc'',
      ''-I'' @ where_dir h @ ''/../include'', ''-c''] @
     map (\<lambda>x. ''-D'' @ x) (D_opt v) @ map (\<lambda>x. ''-include='' @ x) (include_opt v) @
     map (\<lambda>x. ''-I'' @ x) (I_opt v) @
     [if O_opt v = [] then ''-O3'' else ''-O'' @ O_opt v] @
     (if v_opt v then [''-v''] else []) @ (if w_opt v then [''-w''] else []) @
     map (\<lambda>x. ''-W'' @ x) (W_opt v)"

text \<open>The output: its name, and what is added to the options of the linker.\<close>

definition output_options :: "driver \<Rightarrow> host \<Rightarrow> cl_values \<Rightarrow> string list \<Rightarrow> string \<times> string list" where
  "output_options d h v ins =
     (if o_opt v = [] then
        let wasm = path_replace_extension (filename (hd ins)) ''.wasm'';
            (output_fn, extra) =
              (if d = LD then ([], [])
               else if length ins = 1 then (wasm, [temp_directory h @ ''/'' @ filename (hd ins) @ ''.o''])
               else ([], [''a.out'']))
        in if length ins = 1 then (wasm, extra @ [''-o '' @ output_fn])
           else (''a.out'', extra @ [''-o a.out''])
      else (o_opt v, [''-o '' @ o_opt v]))"

definition create_options :: "driver \<Rightarrow> host \<Rightarrow> cl_values \<Rightarrow> world \<Rightarrow> driver_options" where
  "create_options d h v w =
     (let ins = (if d = LD then [] else input_filename_opt v);
          (output_fn, out_ldopts) = output_options d h v ins;
          copts = get_comp_defaults d h w @ cfl_options @
            (if d = LD then [] else given_comp_options h v) @
            (if d = CPP then [if std_opt v \<noteq> [] then ''--std='' @ std_opt v else ''--std=c++17''] else []);
          ldopts = (if d = LD then get_ld_defaults @ cfl_options @ input_filename_opt v else []) @
            [''-L'' @ where_dir h @ ''/../lib''] @ (if d = LD then [''-stack-first''] else []) @
            map (\<lambda>x. ''-L'' @ x) (L_opt v) @ map (\<lambda>x. ''-l'' @ x) (l_opt v) @ out_ldopts @
            (if d = LD then [''--allow-undefined-file='' @ where_dir h @ ''/../lib/ftl.imports''] else [])
      in \<lparr>output_fn = output_fn, inputs = ins, link = (d = LD \<or> \<not> c_opt v), pp_dir = where_dir h,
          abigen_contract =
            (if d = LD then [] else if contract_name v \<noteq> [] then contract_name v
             else path_replace_extension (filename output_fn) []),
          comp_options = copts, ld_options = ldopts\<rparr>)"

section \<open>Compiling the inputs\<close>

text \<open>\<open>argv[i] == std::string("-v")\<close> for any argument\<close>

definition wants_version :: "string list \<Rightarrow> bool" where
  "wants_version argv = list_ex (\<lambda>a. a = ''-v'') argv"

text \<open>Where the object of an input goes.\<close>

definition object_name :: "driver_options \<Rightarrow> string \<Rightarrow> string" where
  "object_name opts tmp_file =
     (if \<not> link opts then (if output_fn opts = [] then ''a.out'' else output_fn opts) else tmp_file @ ''.o'')"

text \<open>The loop of \<open>fractal-cc\<close>: the early return, or the objects.\<close>

fun compile_c :: "host \<Rightarrow> driver_options \<Rightarrow> string list \<Rightarrow> string list \<Rightarrow> world \<Rightarrow> int \<times> world + string list \<times> world" where
  "compile_c h opts [] outputs w = Inr (outputs, w)"
| "compile_c h opts (input # ins) outputs w =
     (let tmp_file = temp_directory h @ ''/'' @ input @ ''-tmp.c'';
          output = object_name opts tmp_file;
          (ok, w) = exec_subprogram h ''clang-7'' ((''-o '' @ output) # input # comp_options opts) False w
      in if \<not> ok then Inl (-1, remove_file tmp_file w)
         else compile_c h opts ins (outputs @ [output]) (remove_file tmp_file w))"

text \<open>The options \<open>generate\<close> gives to the front end.\<close>

definition abigen_options :: "host \<Rightarrow> string list \<Rightarrow> string \<Rightarrow> string list" where
  "abigen_options h base_options input =
     [''fractal-cpp'', input, input, ''--''] @ base_options @
     [''--target=wasm32'', ''-nostdlib'', ''-ffreestanding'', ''-fno-builtin'', ''-fno-rtti'', ''-fno-exceptions'',
      ''-I'' @ boost_include_dirs h, ''-DBOOST_DISABLE_ASSERTS'', ''-DBOOST_EXCEPTION_DISABLE'', ''-Wno-everything'',
      ''-std=c++17'', ''-I'' @ where_dir h @ ''/../include/libcxx'', ''-I'' @ where_dir h @ ''/../include/libc'',
      ''-I'' @ where_dir h @ ''/../include'']"

definition generate_abi ::
    "nat \<Rightarrow> host \<Rightarrow> string list \<Rightarrow> string \<Rightarrow> string \<Rightarrow> abi \<Rightarrow> world \<Rightarrow> (abi \<times> world) res option" where
  "generate_abi n h base_options input cn ag w =
     (case front_end h (abigen_options h base_options input) input (files w) of
        (ds, parsed, nodes) \<Rightarrow>
          obind (generate n ds parsed nodes input cn ag) (\<lambda>(ag, out).
            case out of
              None \<Rightarrow> Some (Inr (ag, w))
            | Some (abi_file, j) \<Rightarrow>
                Some (Inr (ag,
                  if can_create h abi_file then w\<lparr>files := (files w)(abi_file \<mapsto> pretty_print h j)\<rparr> else w))))"

text \<open>The loop of \<open>fractal-cpp\<close>. Only a \<open>runtime_error\<close>, the failure of the front end, is caught;
  an \<open>abigen_exception\<close> is none and ends the process.\<close>

definition abigen_error :: err where
  "abigen_error = Abort ''abigen error''"

fun compile_cpp ::
    "nat \<Rightarrow> host \<Rightarrow> driver_options \<Rightarrow> string list \<Rightarrow> string list \<Rightarrow> abi \<Rightarrow> world \<Rightarrow>
     (int \<times> world + string list \<times> world) res option" where
  "compile_cpp n h opts [] outputs ag w = Some (Inr (Inr (outputs, w)))"
| "compile_cpp n h opts (input # ins) outputs ag w =
     (let tmp_file = temp_directory h @ ''/'' @ filename input in
      case generate_abi n h (comp_options opts) input (abigen_contract opts) ag w of
        None \<Rightarrow> None
      | Some (Inl e) \<Rightarrow> if e = abigen_error then Some (Inr (Inl (-1, w))) else Some (Inl e)
      | Some (Inr (ag, w)) \<Rightarrow>
          let src = (if exists_file tmp_file w then tmp_file else input);
              output = object_name opts tmp_file;
              (ok, w) = exec_subprogram h ''clang-7'' ((''-o '' @ output) # src # comp_options opts) False w
          in if \<not> ok then Some (Inr (Inl (-1, remove_file tmp_file w)))
             else compile_cpp n h opts ins (outputs @ [output]) ag (remove_file tmp_file w))"

section \<open>Linking\<close>

definition remove_files :: "string list \<Rightarrow> world \<Rightarrow> world" where
  "remove_files outputs w = fold remove_file outputs w"

text \<open>Every object is put in front of the options.\<close>

definition link_arguments :: "driver_options \<Rightarrow> string list \<Rightarrow> string list" where
  "link_arguments opts outputs = fold (\<lambda>input new_opts. ('' '' @ input @ '' '') # new_opts) outputs (ld_options opts)"

definition link_outputs :: "host \<Rightarrow> driver_options \<Rightarrow> string list \<Rightarrow> world \<Rightarrow> int \<times> world" where
  "link_outputs h opts outputs w =
     (if link opts then
        let (ok, w) = exec_subprogram h ''fractal-ld'' (link_arguments opts outputs) False w;
            w = remove_files outputs w
        in if \<not> ok then (-1, w) else if \<not> exists_file (output_fn opts) w then (-1, w) else (0, w)
      else (0, w))"

section \<open>The programs\<close>

text \<open>LLVM's parser gives the option values or ends the process.\<close>

definition fractal_cc ::
    "host \<Rightarrow> (string list \<Rightarrow> int + cl_values) \<Rightarrow> string list \<Rightarrow> world \<Rightarrow> int \<times> world" where
  "fractal_cc h parse_command_line argv w =
     (if wants_version argv then (0, snd (exec_subprogram h ''clang-7'' [''-v''] False w))
      else case parse_command_line argv of
        Inl code \<Rightarrow> (code, w)
      | Inr v \<Rightarrow>
          let opts = create_options CC h v w in
          case compile_c h opts (inputs opts) [] w of
            Inl r \<Rightarrow> r
          | Inr (outputs, w) \<Rightarrow> link_outputs h opts outputs w)"

definition fractal_cpp ::
    "nat \<Rightarrow> host \<Rightarrow> (string list \<Rightarrow> int + cl_values) \<Rightarrow> string list \<Rightarrow> world \<Rightarrow> (int \<times> world) res option" where
  "fractal_cpp n h parse_command_line argv w =
     (if wants_version argv then Some (Inr (0, w))
      else case parse_command_line argv of
        Inl code \<Rightarrow> Some (Inr (code, w))
      | Inr v \<Rightarrow>
          let opts = create_options CPP h v w in
          obind (compile_cpp n h opts (inputs opts) [] empty_abi w) (\<lambda>r.
            case r of
              Inl r \<Rightarrow> Some (Inr r)
            | Inr (outputs, w) \<Rightarrow> Some (Inr (link_outputs h opts outputs w))))"

definition fractal_ld ::
    "host \<Rightarrow> (string list \<Rightarrow> int + cl_values) \<Rightarrow> string list \<Rightarrow> world \<Rightarrow> int \<times> world" where
  "fractal_ld h parse_command_line argv w =
     (case parse_command_line argv of
        Inl code \<Rightarrow> (code, w)
      | Inr v \<Rightarrow>
          let opts = create_options LD h v w;
              (ok, w) = exec_subprogram h ''wasm-ld'' (ld_options opts) False w
          in if \<not> ok then (-1, w)
             else if \<not> exists_file (output_fn opts) w then (-1, w)
             else if \<not> exists_file (pp_dir opts @ ''/fractal-pp'') w then (-1, w)
             else
               let (ok, w) = exec_subprogram h ''fractal-pp'' [output_fn opts] False w
               in if \<not> ok then (-1, w) else if \<not> exists_file (output_fn opts) w then (-1, w) else (0, w))"

end
