(* ===== verification/DriverProperties.thy ===== *)
theory DriverProperties
  imports Driver AbigenLoop
begin

text \<open>
  Properties of the drivers: what an exit code of 0 says about the output and about the programs
  that were run, the names of the files, and what happens to files in the temporary directory.
\<close>

section \<open>Running programs\<close>

text \<open>The command a driver runs for a program beside it.\<close>

definition command_of :: "host \<Rightarrow> string \<Rightarrow> string list \<Rightarrow> string" where
  "command_of h prog opts = path_append (where_dir h) prog @ '' '' @ concat (map (\<lambda>s. s @ '' '') opts)"

definition available :: "host \<Rightarrow> string \<Rightarrow> bool" where
  "available h prog \<longleftrightarrow> where_dir h \<noteq> [] \<and> can_execute h (path_append (where_dir h) prog)"

definition run_command :: "host \<Rightarrow> string \<Rightarrow> world \<Rightarrow> world" where
  "run_command h cmd w = w\<lparr>files := shell h cmd (files w), commands := commands w @ [cmd]\<rparr>"

lemma exec_subprogram_eq:
  "exec_subprogram h prog opts False w =
     (if available h prog then (True, run_command h (command_of h prog opts) w) else (False, w))"
  by (simp add: exec_subprogram_def find_program_def available_def command_of_def run_command_def Let_def)

lemma run_command_simps [simp]:
  "files (run_command h cmd w) = shell h cmd (files w)"
  "commands (run_command h cmd w) = commands w @ [cmd]"
  by (simp_all add: run_command_def)

lemma remove_file_simps [simp]:
  "files (remove_file f w) = (files w)(f := None)" "commands (remove_file f w) = commands w"
  by (simp_all add: remove_file_def)

lemma remove_files_commands [simp]: "commands (remove_files fs w) = commands w"
  unfolding remove_files_def by (induction fs arbitrary: w) simp_all

section \<open>\<open>fractal-ld\<close>\<close>

lemma fractal_ld_zero:
  assumes "parse_cl argv = Inr v" "fractal_ld h parse_cl argv w = (0, w')"
  shows "(let opts = create_options LD h v w; linked = shell h (command_of h ''wasm-ld'' (ld_options opts)) (files w);
            post = command_of h ''fractal-pp'' [output_fn opts]
          in commands w' = commands w @ [command_of h ''wasm-ld'' (ld_options opts), post] \<and>
             linked (output_fn opts) \<noteq> None \<and> files w' = shell h post linked \<and> files w' (output_fn opts) \<noteq> None)"
  using assms by (auto simp: fractal_ld_def exec_subprogram_eq exists_file_def Let_def split: if_splits)

text \<open>The shell runs the post processor on the file, when it ends normally.\<close>

definition shell_runs_fractal_pp :: "host \<Rightarrow> wabt \<Rightarrow> string \<Rightarrow> bool" where
  "shell_runs_fractal_pp h wb out \<longleftrightarrow>
     (\<forall>fs code fs'. fractal_pp wb [out] fs = Inr (code, fs') \<longrightarrow> shell h (command_of h ''fractal-pp'' [out]) fs = fs')"

text \<open>C30: when \<open>fractal-ld\<close> ends with 0 it has run \<open>wasm-ld\<close> and then \<open>fractal-pp\<close>, and nothing else, and
  the output exists. The output is the post processed module if the post processor could read,
  process and write it; a failure of the post processor is not noticed, and the exit code 0 then
  comes with the output as \<open>wasm-ld\<close> has left it. Only for a module without the base of the heap, on
  which the behaviour of the post processor is undefined, the contents of the output are open.
  The options of \<open>wasm-ld\<close> begin with the defaults, in which the size of the stack is the name of a
  variable and no number.\<close>

theorem fractal_ld_processes_output:
  assumes "parse_cl argv = Inr v" "fractal_ld h parse_cl argv w = (0, w')"
    and "out = output_fn (create_options LD h v w)" "c_at out 0 \<noteq> CHR ''-''" "CHR 0x5C \<notin> set out"
    and "shell_runs_fractal_pp h wb out"
    and "linked = shell h (command_of h ''wasm-ld'' (ld_options (create_options LD h v w))) (files w)"
  shows "commands w' = commands w @ [command_of h ''wasm-ld'' (ld_options (create_options LD h v w)),
                                     command_of h ''fractal-pp'' [out]] \<and>
    take 6 (ld_options (create_options LD h v w)) =
      [''--gc-sections'', ''--strip-all'', ''-zstack-size=${FTL_STACK_SIZE}'', ''--merge-data-segments'',
       ''-e apply'', ''-lc++ -lc -lftl_malloc''] \<and>
    files w' out \<noteq> None \<and>
    (\<exists>raw. linked out = Some raw \<and>
      (case read_binary_ir wb raw of
         None \<Rightarrow> files w' = linked
       | Some md \<Rightarrow>
           (case post_process md raw of
              Inl e \<Rightarrow> no_heap_base md raw
            | Inr md' \<Rightarrow>
                (case write_binary_module wb md' of
                   None \<Rightarrow> files w' = linked
                 | Some bytes \<Rightarrow> files w' = (if can_write wb out then linked(out \<mapsto> bytes) else linked)))))"
proof -
  have z: "commands w' = commands w @ [command_of h ''wasm-ld'' (ld_options (create_options LD h v w)),
       command_of h ''fractal-pp'' [out]]"
    "linked out \<noteq> None" "files w' = shell h (command_of h ''fractal-pp'' [out]) linked"
    using fractal_ld_zero [OF assms(1,2)] by (simp_all add: Let_def assms(3,7))
  have there: "files w' out \<noteq> None" using fractal_ld_zero [OF assms(1,2)] assms(3) by (auto simp: Let_def)
  obtain raw where raw: "linked out = Some raw" using z(2) by blast
  have pp: "fractal_pp wb [out] linked = program_main wb out [] linked"
    using assms(4,5) by (simp add: fractal_pp_def pp_parser_simps parsing c_at_def convert_backslash_id)
  have "files w' = fs'" if "program_main wb out [] linked = Inr (code, fs')" for code fs'
    using that assms(6) pp z(3) by (simp add: shell_runs_fractal_pp_def)
  moreover have "take 6 (ld_options (create_options LD h v w)) = get_ld_defaults"
    by (simp add: create_options_def get_ld_defaults_def Let_def split: prod.split)
  ultimately show ?thesis using z(1) there raw post_process_undefined
    by (auto simp: program_main_def Let_def rbind_def get_ld_defaults_def split: option.splits sum.splits)
qed

section \<open>\<open>fractal-cc\<close> and \<open>fractal-cpp\<close>\<close>

lemma create_options_simps:
  "output_fn (create_options d h v w) = fst (output_options d h v (if d = LD then [] else input_filename_opt v))"
  "inputs (create_options d h v w) = (if d = LD then [] else input_filename_opt v)"
  "link (create_options d h v w) \<longleftrightarrow> d = LD \<or> \<not> c_opt v"
  by (simp_all add: create_options_def Let_def split: prod.splits)

text \<open>Where the drivers look for a file to compile instead of an input, and the command that compiles
  the file \<open>src\<close> to \<open>obj\<close>.\<close>

definition cc_temporary :: "host \<Rightarrow> string \<Rightarrow> string" where
  "cc_temporary h input = temp_directory h @ ''/'' @ input @ ''-tmp.c''"

definition cpp_temporary :: "host \<Rightarrow> string \<Rightarrow> string" where
  "cpp_temporary h input = temp_directory h @ ''/'' @ filename input"

definition compile_command :: "host \<Rightarrow> driver_options \<Rightarrow> string \<Rightarrow> string \<Rightarrow> string" where
  "compile_command h opts src obj = command_of h ''clang-7'' ((''-o '' @ obj) # src # comp_options opts)"

lemma compile_c_ran:
  "compile_c h opts ins outputs w = Inr (outputs', w') \<Longrightarrow>
     outputs' = outputs @ map (\<lambda>input. object_name opts (cc_temporary h input)) ins \<and>
     commands w' = commands w @ map (\<lambda>input. compile_command h opts input (object_name opts (cc_temporary h input))) ins"
proof (induction ins arbitrary: outputs w)
  case (Cons input ins)
  let ?tmp = "cc_temporary h input"
  have "compile_c h opts ins (outputs @ [object_name opts ?tmp])
      (remove_file ?tmp (run_command h (compile_command h opts input (object_name opts ?tmp)) w)) = Inr (outputs', w')"
    using Cons.prems by (simp add: Let_def exec_subprogram_eq cc_temporary_def compile_command_def split: if_splits)
  from Cons.IH [OF this] show ?case by simp
qed simp

text \<open>The generator runs no program and writes at most the ABI file.\<close>

lemma generate_abi_effect:
  assumes "generate_abi n h base input cn ag w = Some (Inr (ag', w'))"
  shows "commands w' = commands w" and "f \<noteq> replace_extension input ''.abi'' \<Longrightarrow> files w' f = files w f"
    and "files w f \<noteq> None \<Longrightarrow> files w' f \<noteq> None"
proof -
  obtain ds parsed nodes where fe: "front_end h (abigen_options h base input) input (files w) = (ds, parsed, nodes)"
    by (cases "front_end h (abigen_options h base input) input (files w)")
  obtain out where g: "generate n ds parsed nodes input cn ag = Some (Inr (ag', out))"
    "w' = (case out of None \<Rightarrow> w | Some (abi_file, j) \<Rightarrow>
       if can_create h abi_file then w\<lparr>files := (files w)(abi_file \<mapsto> pretty_print h j)\<rparr> else w)"
    using assms by (auto simp: generate_abi_def fe obind_eq_Inr split: option.splits)
  have "out = None \<or> (\<exists>j. out = Some (replace_extension input ''.abi'', j))"
    using g(1) by (auto simp: generate_def obind_eq_Inr split: if_splits)
  then show "commands w' = commands w" and "f \<noteq> replace_extension input ''.abi'' \<Longrightarrow> files w' f = files w f"
    and "files w f \<noteq> None \<Longrightarrow> files w' f \<noteq> None"
    using g(2) by auto
qed

lemma fractal_cpp_result:
  assumes "\<not> wants_version argv" "parse_cl argv = Inr v" "fractal_cpp n h parse_cl argv w = Some (Inr (c, w'))"
  obtains (early) "compile_cpp n h (create_options CPP h v w) (inputs (create_options CPP h v w)) [] empty_abi w =
      Some (Inr (Inl (c, w')))"
  | (compiled) outputs w1 where
      "compile_cpp n h (create_options CPP h v w) (inputs (create_options CPP h v w)) [] empty_abi w =
         Some (Inr (Inr (outputs, w1)))"
      "link_outputs h (create_options CPP h v w) outputs w1 = (c, w')"
proof -
  obtain r where r: "compile_cpp n h (create_options CPP h v w) (inputs (create_options CPP h v w)) [] empty_abi w = Some (Inr r)"
    "(case r of Inl r \<Rightarrow> Some (Inr r)
      | Inr (outputs, w1) \<Rightarrow> Some (Inr (link_outputs h (create_options CPP h v w) outputs w1))) = (Some (Inr (c, w')) :: (int \<times> world) res option)"
    using assms by (auto simp: fractal_cpp_def Let_def obind_eq_Inr)
  show thesis
  proof (cases r)
    case (Inr q)
    then show thesis using r that(2) by (cases q) simp
  qed (use r that(1) in simp)
qed

text \<open>One round of the loop of \<open>fractal-cpp\<close> that does not end the program.\<close>

lemma compile_cpp_step:
  assumes "generate_abi n h (comp_options opts) input (abigen_contract opts) ag w = Some (Inr (ag1, w1))"
    and "available h ''clang-7''" "tmp = cpp_temporary h input"
  shows "compile_cpp n h opts (input # ins) outputs ag w = compile_cpp n h opts ins (outputs @ [object_name opts tmp]) ag1
       (remove_file tmp (run_command h (compile_command h opts (if exists_file tmp w1 then tmp else input)
          (object_name opts tmp)) w1))"
  using assms by (simp add: Let_def exec_subprogram_eq cpp_temporary_def compile_command_def)

lemma compile_cpp_round:
  assumes "compile_cpp n h opts (input # ins) outputs ag w = Some (Inr (Inr (outputs', w')))"
    and "tmp = cpp_temporary h input"
  obtains ag1 w1 where "available h ''clang-7''"
    "generate_abi n h (comp_options opts) input (abigen_contract opts) ag w = Some (Inr (ag1, w1))"
    "compile_cpp n h opts ins (outputs @ [object_name opts tmp]) ag1
       (remove_file tmp (run_command h (compile_command h opts (if exists_file tmp w1 then tmp else input)
          (object_name opts tmp)) w1)) = Some (Inr (Inr (outputs', w')))"
  using assms
  by (auto simp: Let_def exec_subprogram_eq cpp_temporary_def compile_command_def
      split: option.splits sum.splits if_splits)

text \<open>The commands of the loop over the inputs, with the files \<open>srcs\<close> that are compiled.\<close>

definition cpp_commands :: "host \<Rightarrow> driver_options \<Rightarrow> string list \<Rightarrow> string list \<Rightarrow> string list" where
  "cpp_commands h opts ins srcs =
     map (\<lambda>(input, src). compile_command h opts src (object_name opts (cpp_temporary h input))) (zip ins srcs)"

definition cpp_sources :: "host \<Rightarrow> string list \<Rightarrow> string list \<Rightarrow> bool" where
  "cpp_sources h ins srcs \<longleftrightarrow> list_all2 (\<lambda>input src. src = input \<or> src = cpp_temporary h input) ins srcs"

lemma compile_cpp_ran:
  "compile_cpp n h opts ins outputs ag w = Some (Inr (Inr (outputs', w'))) \<Longrightarrow>
     outputs' = outputs @ map (\<lambda>input. object_name opts (cpp_temporary h input)) ins \<and>
     (\<exists>srcs. cpp_sources h ins srcs \<and> commands w' = commands w @ cpp_commands h opts ins srcs)"
proof (induction ins arbitrary: outputs ag w)
  case (Cons input ins)
  let ?tmp = "cpp_temporary h input"
  obtain ag1 w1 where g: "generate_abi n h (comp_options opts) input (abigen_contract opts) ag w = Some (Inr (ag1, w1))"
    "compile_cpp n h opts ins (outputs @ [object_name opts ?tmp]) ag1
       (remove_file ?tmp (run_command h (compile_command h opts (if exists_file ?tmp w1 then ?tmp else input)
          (object_name opts ?tmp)) w1)) = Some (Inr (Inr (outputs', w')))"
    using compile_cpp_round [OF Cons.prems refl] by blast
  obtain srcs where "cpp_sources h ins srcs"
    "commands w' = commands w @ compile_command h opts (if exists_file ?tmp w1 then ?tmp else input)
       (object_name opts ?tmp) # cpp_commands h opts ins srcs"
    using Cons.IH [OF g(2)] generate_abi_effect(1) [OF g(1)] by auto
  then have "cpp_sources h (input # ins) ((if exists_file ?tmp w1 then ?tmp else input) # srcs) \<and>
    commands w' = commands w @ cpp_commands h opts (input # ins) ((if exists_file ?tmp w1 then ?tmp else input) # srcs)"
    by (simp add: cpp_sources_def cpp_commands_def)
  then show ?case using Cons.IH [OF g(2)] by (intro conjI exI) simp_all
qed (simp add: cpp_sources_def cpp_commands_def)

lemma compile_cpp_append:
  "compile_cpp n h opts (pre @ post) outs ag w = Some (Inr (Inr (outs', w'))) \<Longrightarrow>
     \<exists>outs0 ag0 w0. compile_cpp n h opts pre outs ag w = Some (Inr (Inr (outs0, w0))) \<and>
       compile_cpp n h opts post outs0 ag0 w0 = Some (Inr (Inr (outs', w')))"
proof (induction pre arbitrary: outs ag w)
  case (Cons input pre)
  note round = compile_cpp_round [OF Cons.prems [unfolded append_Cons] refl]
  show ?case by (rule round) (use Cons.IH compile_cpp_step in fastforce)
qed auto

lemma remove_files_keep: "files w f = None \<Longrightarrow> files (remove_files fs w) f = None"
  unfolding remove_files_def by (induction fs arbitrary: w) simp_all

lemma remove_files_gone: "f \<in> set fs \<Longrightarrow> files (remove_files fs w) f = None"
proof (induction fs arbitrary: w)
  case (Cons g fs)
  then show ?case using remove_files_keep [of "remove_file g w" g fs]
    by (cases "f = g") (simp_all add: remove_files_def)
qed simp

text \<open>A file that is not there and that no later command makes is not there in the end, unless it is
  an ABI file.\<close>

definition never_made :: "host \<Rightarrow> string \<Rightarrow> string list \<Rightarrow> bool" where
  "never_made h f cmds \<longleftrightarrow> (\<forall>cmd \<in> set cmds. \<forall>fs. fs f = None \<longrightarrow> shell h cmd fs f = None)"

lemma compile_cpp_keeps_away:
  "compile_cpp n h opts ins outs ag w = Some (Inr (Inr (outs', w'))) \<Longrightarrow> files w f = None \<Longrightarrow>
     commands w' = commands w @ rest \<Longrightarrow> never_made h f rest \<Longrightarrow>
     \<forall>i \<in> set ins. replace_extension i ''.abi'' \<noteq> f \<Longrightarrow> files w' f = None"
proof (induction ins arbitrary: outs ag w rest)
  case (Cons input ins)
  let ?tmp = "cpp_temporary h input"
  obtain ag1 w1 where g: "generate_abi n h (comp_options opts) input (abigen_contract opts) ag w = Some (Inr (ag1, w1))"
    and c: "compile_cpp n h opts ins (outs @ [object_name opts ?tmp]) ag1
       (remove_file ?tmp (run_command h (compile_command h opts (if exists_file ?tmp w1 then ?tmp else input)
          (object_name opts ?tmp)) w1)) = Some (Inr (Inr (outs', w')))"
    using compile_cpp_round [OF Cons.prems(1) refl] by blast
  obtain rest' where r: "rest = compile_command h opts (if exists_file ?tmp w1 then ?tmp else input) (object_name opts ?tmp) # rest'"
    "commands w' = (commands w @ [compile_command h opts (if exists_file ?tmp w1 then ?tmp else input) (object_name opts ?tmp)]) @ rest'"
    using compile_cpp_ran [OF c] generate_abi_effect(1) [OF g] Cons.prems(3) by auto
  have "files w1 f = None" using generate_abi_effect(2) [OF g, of f] Cons.prems(2,5) by auto
  then show ?case using Cons.IH [OF c _ _, of rest'] r Cons.prems(4,5) generate_abi_effect(1) [OF g]
    by (simp add: never_made_def)
qed simp

lemma link_outputs_zero:
  assumes "link_outputs h opts outputs w = (0, w')" "link opts"
  shows "commands w' = commands w @ [command_of h ''fractal-ld'' (link_arguments opts outputs)]"
    and "files w' (output_fn opts) \<noteq> None"
    and "\<And>f. f \<in> set outputs \<Longrightarrow> files w' f = None"
  using assms remove_files_gone
  by (auto simp: link_outputs_def exec_subprogram_eq exists_file_def Let_def split: if_splits)

text \<open>The link: its command names all objects, the last one first, and then the options; afterwards
  the output is there and no object is.\<close>

definition link_command :: "host \<Rightarrow> driver_options \<Rightarrow> string list \<Rightarrow> string" where
  "link_command h opts objs =
     command_of h ''fractal-ld'' (rev (map (\<lambda>obj. '' '' @ obj @ '' '') objs) @ ld_options opts)"

definition has_linked :: "driver_options \<Rightarrow> string list \<Rightarrow> world \<Rightarrow> bool" where
  "has_linked opts objs w' \<longleftrightarrow> (\<forall>obj \<in> set objs. files w' obj = None) \<and> files w' (output_fn opts) \<noteq> None"

lemma link_arguments_eq: "link_arguments opts objs = rev (map (\<lambda>obj. '' '' @ obj @ '' '') objs) @ ld_options opts"
proof -
  have "fold (\<lambda>input new_opts. ('' '' @ input @ '' '') # new_opts) objs ls =
      rev (map (\<lambda>obj. '' '' @ obj @ '' '') objs) @ ls" for ls
    by (induction objs arbitrary: ls) simp_all
  then show ?thesis by (simp add: link_arguments_def)
qed

lemma link_outputs_linked:
  assumes "link_outputs h opts objs w1 = (0, w')" "link opts"
  shows "commands w' = commands w1 @ [link_command h opts objs] \<and> has_linked opts objs w'"
  using link_outputs_zero [OF assms] by (simp add: link_command_def link_arguments_eq has_linked_def)

text \<open>C31: \<open>fractal-cc\<close> and \<open>fractal-cpp\<close> end with 0 without \<open>-c\<close> only when they have run these commands and
  no other, in this order: one compilation of each input to an object in the temporary directory, in
  the order of the inputs, and then \<open>fractal-ld\<close> on all these objects. Then the output exists, and the
  objects are removed. \<open>fractal-cc\<close> compiles the inputs; \<open>fractal-cpp\<close> compiles for each input that file
  or the one of its name in the temporary directory.\<close>

theorem driver_success_links:
  assumes "\<not> wants_version argv" "parse_cl argv = Inr v" "\<not> c_opt v" "ins = input_filename_opt v"
    and "cc = create_options CC h v w" "cpp = create_options CPP h v w"
    and "cc_objs = map (\<lambda>input. temp_directory h @ ''/'' @ input @ ''-tmp.c.o'') ins"
    and "cpp_objs = map (\<lambda>input. temp_directory h @ ''/'' @ filename input @ ''.o'') ins"
  shows "(fractal_cc h parse_cl argv w = (0, w') \<longrightarrow>
      commands w' = commands w @ map (\<lambda>(src, obj). compile_command h cc src obj) (zip ins cc_objs)
        @ [link_command h cc cc_objs] \<and> has_linked cc cc_objs w') \<and>
    (fractal_cpp n h parse_cl argv w = Some (Inr (0, w')) \<longrightarrow>
      (\<exists>srcs. list_all2 (\<lambda>input src. src = input \<or> src = temp_directory h @ ''/'' @ filename input) ins srcs \<and>
        commands w' = commands w @ map (\<lambda>(src, obj). compile_command h cpp src obj) (zip srcs cpp_objs)
          @ [link_command h cpp cpp_objs]) \<and> has_linked cpp cpp_objs w')"
proof (intro conjI impI)
  have o: "link cc" "link cpp" "inputs cc = ins" "inputs cpp = ins"
    using assms(3-6) by (simp_all add: create_options_simps)
  {
    assume "fractal_cc h parse_cl argv w = (0, w')"
    then have "(case compile_c h cc ins [] w of Inl r \<Rightarrow> r
        | Inr (outputs, w1) \<Rightarrow> link_outputs h cc outputs w1) = (0, w')"
      using assms(1,2) o unfolding assms(5) by (simp add: fractal_cc_def Let_def)
    moreover have "compile_c h opts ins outs w \<noteq> Inl (0, w')" for opts ins outs w
      by (induction ins arbitrary: outs w) (auto simp: Let_def exec_subprogram_eq)
    ultimately obtain outputs w1 where c: "compile_c h cc ins [] w = Inr (outputs, w1)"
      "link_outputs h cc outputs w1 = (0, w')"
      by (auto split: sum.splits)
    have outs: "outputs = cc_objs" "commands w1 = commands w @ map (\<lambda>(src, obj). compile_command h cc src obj) (zip ins cc_objs)"
      using compile_c_ran [OF c(1)] o assms(7)
      by (simp_all add: object_name_def cc_temporary_def zip_map2 zip_same_conv_map o_def)
    then show "commands w' = commands w @ map (\<lambda>(src, obj). compile_command h cc src obj) (zip ins cc_objs)
        @ [link_command h cc cc_objs]" "has_linked cc cc_objs w'"
      using link_outputs_linked [OF c(2) o(1)] by simp_all
  next
    assume "fractal_cpp n h parse_cl argv w = Some (Inr (0, w'))"
    moreover have "compile_cpp n h opts ins outs ag w \<noteq> Some (Inr (Inl (0, w')))" for opts ins outs ag w
      by (induction ins arbitrary: outs ag w)
        (auto simp: Let_def exec_subprogram_eq split: option.splits sum.splits)
    ultimately obtain outputs w1 where c:
      "compile_cpp n h cpp ins [] empty_abi w = Some (Inr (Inr (outputs, w1)))"
      "link_outputs h cpp outputs w1 = (0, w')"
      using assms(1,2,6) o by (elim fractal_cpp_result) auto
    obtain srcs where srcs: "cpp_sources h ins srcs" "commands w1 = commands w @ cpp_commands h cpp ins srcs"
      and outs: "outputs = cpp_objs"
      using compile_cpp_ran [OF c(1)] o assms(8) by (auto simp: object_name_def cpp_temporary_def)
    have "cpp_commands h cpp ins srcs = map (\<lambda>(src, obj). compile_command h cpp src obj) (zip srcs cpp_objs)"
      using o unfolding assms(8)
      by (subst zip_commute) (simp add: cpp_commands_def object_name_def cpp_temporary_def zip_map1 case_prod_beta)
    with srcs show "\<exists>srcs. list_all2 (\<lambda>input src. src = input \<or> src = temp_directory h @ ''/'' @ filename input) ins srcs \<and>
        commands w' = commands w @ map (\<lambda>(src, obj). compile_command h cpp src obj) (zip srcs cpp_objs)
          @ [link_command h cpp cpp_objs]" "has_linked cpp cpp_objs w'"
      using link_outputs_linked [OF c(2) o(2)] outs by (auto simp: cpp_sources_def cpp_temporary_def)
  }
qed

text \<open>C1: with \<open>-c\<close>, \<open>fractal-cc\<close> ends with 0 whatever the compiler does, as long as there is one: the
  result of \<open>std::system\<close> is lost.\<close>

theorem cc_compile_only_zero:
  assumes "\<not> wants_version argv" "parse_cl argv = Inr v" "c_opt v" "available h ''clang-7''"
  shows "fst (fractal_cc h parse_cl argv w) = 0"
proof -
  have "\<exists>outs' w'. compile_c h opts ins outs w = Inr (outs', w')" for opts ins outs w
    by (induction ins arbitrary: outs w) (auto simp: Let_def exec_subprogram_eq assms(4))
  then show ?thesis
    using assms by (auto simp: fractal_cc_def Let_def link_outputs_def create_options_simps split: sum.splits)
      (metis Inl_Inr_False)
qed

text \<open>C33: \<open>fractal-cpp\<close> does not compile an input when its temporary directory has a file of the same
  name: it compiles that file. This holds for every input, whether the program links or not, whenever
  it ends with 0; the name is looked up after the ABI is generated, in the world in which the inputs
  before have left it. The file of that name is then removed: it is not there when the program ends,
  unless a later command or the ABI file of a later input makes it again. When the input lies in the
  temporary directory, that file is the source itself.\<close>

theorem cpp_compiles_temporary:
  assumes "\<not> wants_version argv" "parse_cl argv = Inr v" "input_filename_opt v = pre @ input # post"
    and "tmp = temp_directory h @ ''/'' @ filename input" "opts = create_options CPP h v w"
    and "fractal_cpp n h parse_cl argv w = Some (Inr (0, w'))"
  shows "\<exists>objs w0 ag0 ag1 w1 rest.
    compile_cpp n h opts pre [] empty_abi w = Some (Inr (Inr (objs, w0))) \<and>
    generate_abi n h (comp_options opts) input (abigen_contract opts) ag0 w0 = Some (Inr (ag1, w1)) \<and>
    (\<forall>f. files w0 f \<noteq> None \<longrightarrow> files w1 f \<noteq> None) \<and>
    commands w' = commands w0 @
      compile_command h opts (if exists_file tmp w1 then tmp else input) (object_name opts tmp) # rest \<and>
    length rest = length post + (if c_opt v then 0 else 1) \<and>
    (never_made h tmp rest \<and> (\<forall>i \<in> set post. replace_extension i ''.abi'' \<noteq> tmp) \<longrightarrow> files w' tmp = None)"
proof -
  have o: "inputs opts = pre @ input # post" "link opts \<longleftrightarrow> \<not> c_opt v" and tmp: "tmp = cpp_temporary h input"
    using assms(3-5) by (simp_all add: create_options_simps cpp_temporary_def)
  have "compile_cpp n h opts ins outs ag w \<noteq> Some (Inr (Inl (0, w')))" for opts ins outs ag w
    by (induction ins arbitrary: outs ag w)
      (auto simp: Let_def exec_subprogram_eq split: option.splits sum.splits)
  then obtain outs w3 where c: "compile_cpp n h opts (pre @ input # post) [] empty_abi w = Some (Inr (Inr (outs, w3)))"
    and l: "link_outputs h opts outs w3 = (0, w')"
    using assms(1,2,5,6) o by (elim fractal_cpp_result) auto
  from compile_cpp_append [OF c] obtain objs ag0 w0 where
    p: "compile_cpp n h opts pre [] empty_abi w = Some (Inr (Inr (objs, w0)))"
    and q: "compile_cpp n h opts (input # post) objs ag0 w0 = Some (Inr (Inr (outs, w3)))" by blast
  obtain ag1 w1 where g: "generate_abi n h (comp_options opts) input (abigen_contract opts) ag0 w0 = Some (Inr (ag1, w1))"
    and r: "compile_cpp n h opts post (objs @ [object_name opts tmp]) ag1
       (remove_file tmp (run_command h (compile_command h opts (if exists_file tmp w1 then tmp else input)
          (object_name opts tmp)) w1)) = Some (Inr (Inr (outs, w3)))"
    using compile_cpp_round [OF q tmp] by blast
  let ?cmd = "compile_command h opts (if exists_file tmp w1 then tmp else input) (object_name opts tmp)"
  obtain srcs where srcs: "cpp_sources h post srcs"
    "commands w3 = (commands w0 @ [?cmd]) @ cpp_commands h opts post srcs"
    using compile_cpp_ran [OF r] generate_abi_effect(1) [OF g] by auto
  let ?rest = "cpp_commands h opts post srcs @ (if c_opt v then [] else [link_command h opts outs])"
  have "length (cpp_commands h opts post srcs) = length post"
    using srcs(1) by (simp add: cpp_sources_def cpp_commands_def list_all2_lengthD)
  moreover have w': "commands w' = commands w0 @ ?cmd # ?rest"
    using srcs(2) link_outputs_linked [OF l] l o(2) by (cases "c_opt v") (simp_all add: link_outputs_def)
  moreover have "files w' tmp = None" if "never_made h tmp ?rest" "\<forall>i \<in> set post. replace_extension i ''.abi'' \<noteq> tmp"
  proof -
    have "files w3 tmp = None"
      using compile_cpp_keeps_away [OF r _ _ _ that(2), of "cpp_commands h opts post srcs"] that(1) srcs(2)
        generate_abi_effect(1) [OF g] by (simp add: never_made_def)
    then show ?thesis using l o(2) that(1) w' srcs(2) remove_files_keep
      by (auto simp: link_outputs_def exec_subprogram_eq link_command_def link_arguments_eq never_made_def Let_def
          split: if_splits)
  qed
  ultimately show ?thesis using p g generate_abi_effect(3) [OF g]
    by (intro exI [of _ objs] exI [of _ w0] exI [of _ ag0] exI [of _ ag1] exI [of _ w1] exI [of _ ?rest] conjI) auto
qed

section \<open>The names of the files\<close>

lemma replace_extension_dot:
  assumes "CHR ''.'' \<notin> set e"
  shows "replace_extension (s @ ''.'' @ e) x = s @ x"
proof -
  have "find_last_dot (s @ CHR ''.'' # e) (Suc (length s) + k) = Some (length s)" if "k \<le> length e" for k
    using that
  proof (induction k)
    case (Suc k)
    then have "(s @ CHR ''.'' # e) ! (Suc (length s) + k) \<noteq> CHR ''.''"
      using assms by (auto simp: nth_append in_set_conv_nth)
    then show ?case using Suc by simp
  qed simp
  from this [of "length e"] show ?thesis by (simp add: replace_extension_def)
qed

text \<open>C32: without an output and a contract name, the output of \<open>dir/f.ext\<close> is \<open>f.wasm\<close> in the current
  directory, the contract is \<open>f\<close>, and the ABI file is \<open>dir/f.abi\<close>, beside the source. The drivers
  then name one object to the linker by themselves: \<open>fractal-cpp\<close> so names its object twice, and
  \<open>fractal-cc\<close> names an object that it has not made.\<close>

theorem default_names:
  assumes "o_opt v = []" "contract_name v = []" "input_filename_opt v = [input]" "input = dir @ ''/'' @ f @ ''.'' @ e"
    and "dir \<noteq> ''/''" "CHR ''/'' \<notin> set f" "CHR ''/'' \<notin> set e" "CHR ''.'' \<notin> set e" "d \<in> {CC, CPP}" "\<not> c_opt v"
  shows "output_fn (create_options d h v w) = f @ ''.wasm'' \<and>
    abigen_contract (create_options d h v w) = f \<and>
    replace_extension input ''.abi'' = dir @ ''/'' @ f @ ''.abi'' \<and>
    temp_directory h @ ''/'' @ filename input @ ''.o'' \<in> set (ld_options (create_options d h v w)) \<and>
    object_name (create_options CPP h v w) (temp_directory h @ ''/'' @ filename input)
      = temp_directory h @ ''/'' @ filename input @ ''.o'' \<and>
    object_name (create_options CC h v w) (temp_directory h @ ''/'' @ input @ ''-tmp.c'')
      \<noteq> temp_directory h @ ''/'' @ filename input @ ''.o''"
proof -
  have fn: "filename input = f @ ''.'' @ e"
    using filename_directory [of "f @ ''.'' @ e" dir] assms(4-7) by auto
  have wasm: "path_replace_extension (f @ ''.'' @ e) ''.wasm'' = f @ ''.wasm''"
    using replace_extension_file(1) [OF assms(6-8), of "''wasm''"] by simp
  have "filename (f @ ''.wasm'') = f @ ''.wasm''" using assms(6) by (intro filename_plain) auto
  then have contract: "path_replace_extension (filename (f @ ''.wasm'')) [] = f"
    using replace_extension_file(2) [OF assms(6), of "''wasm''"] by simp
  have out: "output_options d h v [input] =
      (f @ ''.wasm'', [temp_directory h @ ''/'' @ filename input @ ''.o'', ''-o '' @ f @ ''.wasm''])"
    using assms(1,9) wasm by (auto simp: output_options_def fn Let_def)
  have abi: "replace_extension input ''.abi'' = dir @ ''/'' @ f @ ''.abi''"
    using replace_extension_dot [OF assms(8), of "dir @ ''/'' @ f" "''.abi''"] assms(4) by simp
  have "length (input @ ''-tmp.c.o'') \<noteq> length (filename input @ ''.o'')"
    unfolding fn unfolding assms(4) by simp
  then have "input @ ''-tmp.c.o'' \<noteq> filename input @ ''.o''" by metis
  moreover have "object_name (create_options d' h v w) t = t @ ''.o''" for d' t
    using assms(10) by (simp add: object_name_def create_options_simps)
  moreover have "d \<noteq> LD" using assms(9) by auto
  then have "output_fn (create_options d h v w) = f @ ''.wasm''" "abigen_contract (create_options d h v w) = f"
    "temp_directory h @ ''/'' @ filename input @ ''.o'' \<in> set (ld_options (create_options d h v w))"
    using assms(2,3) out contract by (simp_all add: create_options_def Let_def)
  ultimately show ?thesis using abi by simp
qed

section \<open>Examples\<close>

text \<open>A host with all programs in \<open>/opt\<close>. The compilers write nothing, the linker of wasm writes a
  module, and the post processor runs as in \<open>PostpassMain\<close>.\<close>

definition example_wabt :: wabt where
  "example_wabt = \<lparr>read_binary_ir = (\<lambda>bs. None), write_binary_module = (\<lambda>md. None), can_write = (\<lambda>f. True)\<rparr>"

definition example_shell :: "string \<Rightarrow> filesystem \<Rightarrow> filesystem" where
  "example_shell cmd fs =
     (if take 12 cmd = ''/opt/wasm-ld'' then fs(''c.wasm'' \<mapsto> [0])
      else if take 15 cmd = ''/opt/fractal-ld'' then fs(''c.wasm'' \<mapsto> [0]) else fs)"

definition example_decls :: decls where
  "example_decls d = \<lparr>rec_name = ''c'', rec_ignore = False, rec_bases = [], rec_fields = [], rec_action = None,
     rec_table = False, rec_contract = None, rec_parent = None\<rparr>"

definition example_host :: host where
  "example_host = \<lparr>where_dir = ''/opt'', temp_directory = ''/tmp'', boost_include_dirs = ''/boost'',
     can_execute = (\<lambda>f. True), can_create = (\<lambda>f. True), shell = example_shell,
     front_end = (\<lambda>opts input fs. (example_decls, True, [])), pretty_print = (\<lambda>j. [])\<rparr>"

definition example_values :: "bool \<Rightarrow> string \<Rightarrow> cl_values" where
  "example_values compile_only input = \<lparr>L_opt = [], l_opt = [], o_opt = ''c.wasm'', input_filename_opt = [input], c_opt = compile_only,
     D_opt = [], include_opt = [], I_opt = [], O_opt = [], sysroot_opt = [], U_opt = [], v_opt = False, w_opt = False,
     W_opt = [], contract_name = [], std_opt = []\<rparr>"

definition example_world :: world where
  "example_world = \<lparr>files = [''/opt/fractal-pp'' \<mapsto> [], ''/tmp/c.cpp'' \<mapsto> [1]], commands = []\<rparr>"

lemmas example_simps = example_host_def example_values_def example_world_def example_shell_def
  exec_subprogram_eq available_def command_of_def path_append_def is_separator_def exists_file_def Let_def
  run_command_def remove_file_def


lemma example_fractal_pp: "fractal_pp example_wabt [''c.wasm''] fs = Inr (1, fs)"
proof -
  have "fractal_pp example_wabt [''c.wasm''] fs = program_main example_wabt ''c.wasm'' [] fs"
    by (simp add: fractal_pp_def pp_parser_simps parsing c_at_def convert_backslash_def)
  then show ?thesis by (simp add: program_main_def example_wabt_def split: option.split)
qed

lemma example_fractal_ld:
  "fractal_ld example_host (\<lambda>argv. Inr (example_values False ''c.o'')) [] example_world =
     (0, \<lparr>files = [''/opt/fractal-pp'' \<mapsto> [], ''/tmp/c.cpp'' \<mapsto> [1], ''c.wasm'' \<mapsto> [0]],
          commands = [command_of example_host ''wasm-ld'' (ld_options (create_options LD example_host (example_values False ''c.o'') example_world)),
                      command_of example_host ''fractal-pp'' [''c.wasm'']]\<rparr>)"
  by (simp add: fractal_ld_def create_options_def output_options_def get_ld_defaults_def cfl_options_def
      example_simps fun_upd_twist)

theorem fractal_ld_processes_output_witness:
  "\<exists>w'. fractal_ld example_host (\<lambda>argv. Inr (example_values False ''c.o'')) [] example_world = (0, w') \<and>
     files w' ''c.wasm'' = Some [0]"
proof -
  have out: "output_fn (create_options LD example_host (example_values False ''c.o'') example_world) = ''c.wasm''"
    by (simp add: create_options_simps output_options_def example_values_def)
  have pp: "shell_runs_fractal_pp example_host example_wabt ''c.wasm''"
    by (simp add: shell_runs_fractal_pp_def example_fractal_pp example_host_def example_shell_def command_of_def
        path_append_def is_separator_def)
  let ?linked = "shell example_host (command_of example_host ''wasm-ld''
     (ld_options (create_options LD example_host (example_values False ''c.o'') example_world))) (files example_world)"
  have linked: "?linked = (files example_world)(''c.wasm'' \<mapsto> [0])"
    by (simp add: example_host_def example_shell_def command_of_def path_append_def is_separator_def)
  show ?thesis
    using fractal_ld_processes_output [OF refl example_fractal_ld out [symmetric] _ _ pp refl]
      example_fractal_ld linked
    by (simp add: c_at_def example_wabt_def)
qed

theorem driver_success_links_witness:
  "\<exists>w'. fractal_cc example_host (\<lambda>argv. Inr (example_values False ''c.c'')) [] example_world = (0, w') \<and>
     (let opts = create_options CC example_host (example_values False ''c.c'') example_world in
        commands w' = [compile_command example_host opts ''c.c'' ''/tmp/c.c-tmp.c.o'',
                       link_command example_host opts [''/tmp/c.c-tmp.c.o'']] \<and>
        has_linked opts [''/tmp/c.c-tmp.c.o''] w')"
proof -
  have "\<exists>w'. fractal_cc example_host (\<lambda>argv. Inr (example_values False ''c.c'')) [] example_world = (0, w')"
    by (simp add: fractal_cc_def wants_version_def create_options_simps output_options_def link_outputs_def
        remove_files_def object_name_def example_simps)
  then obtain w' where w': "fractal_cc example_host (\<lambda>argv. Inr (example_values False ''c.c'')) [] example_world = (0, w')" ..
  show ?thesis
    using driver_success_links [OF _ _ _ refl refl refl refl refl, of "[]" "\<lambda>argv. Inr (example_values False ''c.c'')"
        "example_values False ''c.c''" example_host example_world w' 0] w'
    by (simp add: wants_version_def example_values_def example_host_def example_world_def Let_def)
qed

theorem cc_compile_only_zero_witness:
  "fst (fractal_cc example_host (\<lambda>argv. Inr (example_values True ''c.c'')) [''fractal-cc'', ''-c'', ''c.c''] example_world) = 0"
  using cc_compile_only_zero [of "[''fractal-cc'', ''-c'', ''c.c'']" "\<lambda>argv. Inr (example_values True ''c.c'')"
      "example_values True ''c.c''" example_host example_world]
  by (simp add: wants_version_def example_values_def available_def example_host_def)

text \<open>The source \<open>/tmp/c.cpp\<close> is gone after it is compiled.\<close>

theorem cpp_compiles_temporary_witness:
  "\<exists>w'. fractal_cpp 1 example_host (\<lambda>argv. Inr (example_values False ''/tmp/c.cpp'')) [] example_world = Some (Inr (0, w')) \<and>
     files example_world ''/tmp/c.cpp'' = Some [1] \<and> files w' ''/tmp/c.cpp'' = None"
proof -
  have f: "filename ''/tmp/c.cpp'' = ''c.cpp''" using filename_directory [of "''c.cpp''" "''/tmp''"] by simp
  have "\<exists>w'. fractal_cpp 1 example_host (\<lambda>argv. Inr (example_values False ''/tmp/c.cpp'')) [] example_world = Some (Inr (0, w'))"
    by (simp add: fractal_cpp_def wants_version_def create_options_simps output_options_def link_outputs_def
        remove_files_def object_name_def generate_abi_def generate_def obind_def abi_is_empty_def empty_abi_def f example_simps)
  then obtain w' where
    w': "fractal_cpp 1 example_host (\<lambda>argv. Inr (example_values False ''/tmp/c.cpp'')) [] example_world = Some (Inr (0, w'))" ..
  have "never_made example_host ''/tmp/c.cpp'' cmds" for cmds
    by (simp add: never_made_def example_host_def example_shell_def)
  then show ?thesis
    using cpp_compiles_temporary [of "[]" "\<lambda>argv. Inr (example_values False ''/tmp/c.cpp'')" "example_values False ''/tmp/c.cpp''"
        "[]" "''/tmp/c.cpp''" "[]" "''/tmp/c.cpp''" example_host _ example_world 1 w', OF _ _ _ _ refl] w'
    by (auto simp: wants_version_def example_values_def example_host_def f example_world_def)
qed

definition example_default :: cl_values where
  "example_default = (example_values False ''src/shop.cpp'')\<lparr>o_opt := []\<rparr>"

theorem default_names_witness:
  "output_fn (create_options CPP example_host example_default example_world) = ''shop.wasm'' \<and>
   abigen_contract (create_options CPP example_host example_default example_world) = ''shop'' \<and>
   replace_extension ''src/shop.cpp'' ''.abi'' = ''src/shop.abi''"
proof -
  have v: "o_opt example_default = []" "contract_name example_default = []"
    "input_filename_opt example_default = [''src/shop.cpp'']" "\<not> c_opt example_default"
    by (simp_all add: example_default_def example_values_def)
  have p: "''src/shop.cpp'' = ''src'' @ ''/'' @ ''shop'' @ ''.'' @ ''cpp''" "''src'' \<noteq> ''/''"
    "CHR ''/'' \<notin> set ''shop''" "CHR ''/'' \<notin> set ''cpp''" "CHR ''.'' \<notin> set ''cpp''" "CPP \<in> {CC, CPP}"
    by simp_all
  show ?thesis using default_names [OF v(1-3) p v(4), of example_host example_world] by (elim conjE) simp
qed

end
