(* ===== verification/WasmOpcode.thy ===== *)
theory WasmOpcode
  imports Prelude
begin

text \<open>
  The opcodes of WebAssembly as wabt knows them: the table \<open>opcode.def\<close>, \<open>opcode.h\<close>, \<open>opcode.cc\<close> and the
  features of \<open>feature.h\<close>, under \<open>tools/fractal-tools/external/wabt/src\<close>. An opcode is its prefix (0 for
  none) and code, a name of the table or not; rows of the table that follow each other are given as
  runs of codes. The types and texts of the table serve the validator and the text format only.
\<close>

section \<open>\<open>Features\<close>\<close>

record features =
  exceptions_enabled :: bool
  mutable_globals_enabled :: bool
  sat_float_to_int_enabled :: bool
  sign_extension_enabled :: bool
  simd_enabled :: bool
  threads_enabled :: bool
  multi_value_enabled :: bool

definition features_default :: features where
  "features_default = \<lparr>exceptions_enabled = False, mutable_globals_enabled = False,
     sat_float_to_int_enabled = False, sign_extension_enabled = False, simd_enabled = False,
     threads_enabled = False, multi_value_enabled = False\<rparr>"

section \<open>The table\<close>

datatype opcode = Opc nat nat | InvalidOpc nat nat

record info =
  info_prefix :: nat
  info_code :: nat
  info_memory_size :: nat

definition rows :: "nat \<Rightarrow> (nat \<times> nat list) list \<Rightarrow> info list" where
  "rows prefix runs = concat (map (\<lambda>(m, codes).
     map (\<lambda>c. \<lparr>info_prefix = prefix, info_code = c, info_memory_size = m\<rparr>) codes) runs)"

text \<open>From \<open>Unreachable\<close> to \<open>I64Store32\<close>, from \<open>MemorySize\<close> to \<open>I32Rotr\<close>, from \<open>I64Clz\<close> to
  \<open>InterpDropKeep\<close>, then the opcodes with the prefixes for arithmetic, vectors and threads.\<close>

definition control_rows :: "info list" where
  "control_rows = rows 0 [(0, [0x00..<0x12]), (0, [0x1a, 0x1b]), (0, [0x20..<0x25]),
     (4, [0x28]), (8, [0x29]), (4, [0x2a]), (8, [0x2b]), (1, [0x2c, 0x2d]), (2, [0x2e, 0x2f]),
     (1, [0x30, 0x31]), (2, [0x32, 0x33]), (4, [0x34..<0x37]), (8, [0x37]), (4, [0x38]), (8, [0x39]),
     (1, [0x3a]), (2, [0x3b]), (1, [0x3c]), (2, [0x3d]), (4, [0x3e])]"

definition numeric_rows_32 :: "info list" where
  "numeric_rows_32 = rows 0 [(0, [0x3f..<0x79])]"

definition numeric_rows_64 :: "info list" where
  "numeric_rows_64 = rows 0 [(0, [0x79..<0xc5]), (0, [0xe0..<0xe5])]"

definition math_rows :: "info list" where
  "math_rows = rows 0xfc [(0, [0x00..<0x08])]"

definition simd_rows :: "info list" where
  "simd_rows = rows 0xfd [(0, [0x00]), (16, [0x01, 0x02]), (0, [0x03..<0x8c])]"

definition thread_rows :: "info list" where
  "thread_rows = rows 0xfe ([(4, [0x00, 0x01]), (8, [0x02])] @
     map (\<lambda>(m, c). (m, [c])) (zip (concat (replicate 9 [4, 8, 1, 2, 1, 2, 4])) [0x10..<0x4f]))"

definition infos :: "info list" where
  "infos = control_rows @ numeric_rows_32 @ numeric_rows_64 @ math_rows @ simd_rows @ thread_rows"

section \<open>\<open>opcode.cc\<close>\<close>

text \<open>The assertion of \<open>PrefixCode\<close> is a point of undefined behaviour.\<close>

definition prefix_code :: "nat \<Rightarrow> nat \<Rightarrow> nat res" where
  "prefix_code prefix code = (if code < 0x100 then Inr (prefix * 0x100 + code) else Inl (UB ''code < 0x100''))"

definition info_key :: "info \<Rightarrow> nat" where
  "info_key i = info_prefix i * 0x100 + info_code i"

text \<open>\<open>std::lower_bound\<close>: the first element of the sorted table that is not less.\<close>

definition from_code :: "nat \<Rightarrow> nat \<Rightarrow> opcode res" where
  "from_code prefix code =
     rbind (prefix_code prefix code) (\<lambda>key.
     case dropWhile (\<lambda>i. info_key i < key) infos of
       [] \<Rightarrow> Inr (InvalidOpc prefix code)
     | i # _ \<Rightarrow> if info_key i \<noteq> key then Inr (InvalidOpc prefix code)
                else Inr (Opc (info_prefix i) (info_code i)))"

fun get_prefix :: "opcode \<Rightarrow> nat" where
  "get_prefix (Opc p c) = p"
| "get_prefix (InvalidOpc p c) = p"

fun get_code :: "opcode \<Rightarrow> nat" where
  "get_code (Opc p c) = c"
| "get_code (InvalidOpc p c) = c"

definition has_prefix :: "opcode \<Rightarrow> bool" where
  "has_prefix op \<longleftrightarrow> get_prefix op \<noteq> 0"

fun get_memory_size :: "opcode \<Rightarrow> u32" where
  "get_memory_size (Opc p c) =
     (case filter (\<lambda>i. info_prefix i = p \<and> info_code i = c) infos of
        [] \<Rightarrow> 0 | i # _ \<Rightarrow> of_nat (info_memory_size i))"
| "get_memory_size (InvalidOpc p c) = 0"

definition natural_alignment :: u32 where
  "natural_alignment = 0xFFFFFFFF"

definition get_alignment :: "opcode \<Rightarrow> u32 \<Rightarrow> u32" where
  "get_alignment op alignment = (if alignment = natural_alignment then get_memory_size op else alignment)"

definition is_prefix_byte :: "nat \<Rightarrow> bool" where
  "is_prefix_byte b \<longleftrightarrow> b = 0xfc \<or> b = 0xfe \<or> b = 0xfd"

text \<open>Whether an opcode lies in a run of codes.\<close>

fun in_run :: "opcode \<Rightarrow> nat \<Rightarrow> nat \<Rightarrow> nat \<Rightarrow> bool" where
  "in_run (Opc p c) q a b \<longleftrightarrow> p = q \<and> a \<le> c \<and> c \<le> b"
| "in_run (InvalidOpc p c) q a b \<longleftrightarrow> False"

text \<open>The cases of \<open>IsEnabled\<close>: exceptions, saturating conversions, sign extension, threads, vectors
  and the opcodes of the interpreter.\<close>

definition is_enabled :: "features \<Rightarrow> opcode \<Rightarrow> bool" where
  "is_enabled fs op =
     (if in_run op 0 0x06 0x0a then exceptions_enabled fs
      else if in_run op 0xfc 0x00 0x07 then sat_float_to_int_enabled fs
      else if in_run op 0 0xc0 0xc4 then sign_extension_enabled fs
      else if in_run op 0xfe 0x00 0x02 \<or> in_run op 0xfe 0x10 0x4e then threads_enabled fs
      else if in_run op 0xfd 0x00 0x8b then simd_enabled fs
      else if in_run op 0 0xe0 0xe4 then False
      else True)"

section \<open>The opcodes by name\<close>

abbreviation "Op_Unreachable \<equiv> Opc 0 0x00"
abbreviation "Op_Nop \<equiv> Opc 0 0x01"
abbreviation "Op_Block \<equiv> Opc 0 0x02"
abbreviation "Op_Loop \<equiv> Opc 0 0x03"
abbreviation "Op_If \<equiv> Opc 0 0x04"
abbreviation "Op_Else \<equiv> Opc 0 0x05"
abbreviation "Op_Try \<equiv> Opc 0 0x06"
abbreviation "Op_Catch \<equiv> Opc 0 0x07"
abbreviation "Op_Throw \<equiv> Opc 0 0x08"
abbreviation "Op_Rethrow \<equiv> Opc 0 0x09"
abbreviation "Op_IfExcept \<equiv> Opc 0 0x0a"
abbreviation "Op_End \<equiv> Opc 0 0x0b"
abbreviation "Op_Br \<equiv> Opc 0 0x0c"
abbreviation "Op_BrIf \<equiv> Opc 0 0x0d"
abbreviation "Op_BrTable \<equiv> Opc 0 0x0e"
abbreviation "Op_Return \<equiv> Opc 0 0x0f"
abbreviation "Op_Call \<equiv> Opc 0 0x10"
abbreviation "Op_CallIndirect \<equiv> Opc 0 0x11"
abbreviation "Op_Drop \<equiv> Opc 0 0x1a"
abbreviation "Op_Select \<equiv> Opc 0 0x1b"
abbreviation "Op_GetLocal \<equiv> Opc 0 0x20"
abbreviation "Op_SetLocal \<equiv> Opc 0 0x21"
abbreviation "Op_TeeLocal \<equiv> Opc 0 0x22"
abbreviation "Op_GetGlobal \<equiv> Opc 0 0x23"
abbreviation "Op_SetGlobal \<equiv> Opc 0 0x24"
abbreviation "Op_MemorySize \<equiv> Opc 0 0x3f"
abbreviation "Op_MemoryGrow \<equiv> Opc 0 0x40"
abbreviation "Op_I32Const \<equiv> Opc 0 0x41"
abbreviation "Op_I64Const \<equiv> Opc 0 0x42"
abbreviation "Op_F32Const \<equiv> Opc 0 0x43"
abbreviation "Op_F64Const \<equiv> Opc 0 0x44"
abbreviation "Op_V128Const \<equiv> Opc 0xfd 0x00"
abbreviation "Op_V8X16Shuffle \<equiv> Opc 0xfd 0x17"

section \<open>What is looked up\<close>

definition valid_code :: "nat \<Rightarrow> nat \<Rightarrow> bool" where
  "valid_code p c \<longleftrightarrow>
     p = 0 \<and> (c \<le> 0x11 \<or> c = 0x1a \<or> c = 0x1b \<or> 0x20 \<le> c \<and> c \<le> 0x24 \<or> 0x28 \<le> c \<and> c \<le> 0xc4 \<or> 0xe0 \<le> c \<and> c \<le> 0xe4) \<or>
     p = 0xfc \<and> c \<le> 0x07 \<or> p = 0xfd \<and> c \<le> 0x8b \<or> p = 0xfe \<and> (c \<le> 0x02 \<or> 0x10 \<le> c \<and> c \<le> 0x4e)"

definition codes :: "info list \<Rightarrow> (nat \<times> nat) list" where
  "codes is = map (\<lambda>i. (info_prefix i, info_code i)) is"

lemma codes_append: "codes (is @ js) = codes is @ codes js"
  by (simp add: codes_def)

lemma codes_rows: "codes (rows p runs) = map (Pair p) (concat (map snd runs))"
  by (induction runs) (auto simp: codes_def rows_def)

lemma single_runs: "length ms = length cs \<Longrightarrow> concat (map snd (map (\<lambda>(m, c). (m, [c])) (zip ms cs))) = cs"
  by (induction ms cs rule: list_induct2) auto

text \<open>The codes of the blocks as intervals.\<close>

lemma block_codes:
  "codes control_rows = map (Pair 0) ([0..<0x12] @ [0x1a..<0x1c] @ [0x20..<0x25] @ [0x28..<0x3f])"
  "codes numeric_rows_32 = map (Pair 0) [0x3f..<0x79]"
  "codes numeric_rows_64 = map (Pair 0) ([0x79..<0xc5] @ [0xe0..<0xe5])"
  "codes math_rows = map (Pair 0xfc) [0..<0x08]"
  "codes simd_rows = map (Pair 0xfd) [0..<0x8c]"
  "codes thread_rows = map (Pair 0xfe) ([0..<0x03] @ [0x10..<0x4f])"
proof -
  show "codes control_rows = map (Pair 0) ([0..<0x12] @ [0x1a..<0x1c] @ [0x20..<0x25] @ [0x28..<0x3f])"
    unfolding control_rows_def codes_rows by (simp add: upt_rec)
  show "codes simd_rows = map (Pair 0xfd) [0..<0x8c]"
    unfolding simd_rows_def codes_rows by (simp add: upt_rec)
  have "codes thread_rows = map (Pair 0xfe) ([0, 1, 2] @
      concat (map snd (map (\<lambda>(m, c). (m, [c])) (zip (concat (replicate 9 [4, 8, 1, 2, 1, 2, 4 :: nat])) [0x10..<0x4f]))))"
    unfolding thread_rows_def codes_rows map_append concat_append by simp
  also have "\<dots> = map (Pair 0xfe) ([0..<0x03] @ [0x10..<0x4f])"
    by (subst single_runs) (simp_all add: length_concat upt_rec eval_nat_numeral)
  finally show "codes thread_rows = map (Pair 0xfe) ([0..<0x03] @ [0x10..<0x4f])" .
qed (simp_all add: numeric_rows_32_def numeric_rows_64_def math_rows_def codes_rows)

lemma upt_split: "i \<le> j \<Longrightarrow> j \<le> k \<Longrightarrow> [i..<k] = [i..<j] @ [j..<k]"
  by (metis le_add_diff_inverse upt_add_eq_append)

lemma codes_infos:
  "codes infos = map (Pair 0) ([0..<0x12] @ [0x1a..<0x1c] @ [0x20..<0x25] @ [0x28..<0xc5] @ [0xe0..<0xe5]) @
     map (Pair 0xfc) [0..<0x08] @ map (Pair 0xfd) [0..<0x8c] @ map (Pair 0xfe) ([0..<0x03] @ [0x10..<0x4f])"
  unfolding infos_def codes_append block_codes
  using upt_split [of "0x28" "0x3f" "0xc5"] upt_split [of "0x3f" "0x79" "0xc5"] by (simp del: upt_rec_numeral)

lemma infos_sorted: "sorted_wrt (<) (map info_key infos)"
proof -
  have "map info_key infos = map (\<lambda>(p, c). p * 0x100 + c) (codes infos)"
    by (simp add: codes_def info_key_def)
  also have "\<dots> = ([0..<0x12] @ [0x1a..<0x1c] @ [0x20..<0x25] @ [0x28..<0xc5] @ [0xe0..<0xe5]) @
      map ((+) 0xfc00) [0..<0x08] @ map ((+) 0xfd00) [0..<0x8c] @ map ((+) 0xfe00) ([0..<0x03] @ [0x10..<0x4f])"
    unfolding codes_infos by (simp add: comp_def del: upt_rec_numeral)
  finally show ?thesis
    by (simp add: sorted_wrt_append sorted_wrt_map strict_sorted_iff del: upt_rec_numeral) auto
qed

text \<open>The table holds exactly the codes that are assigned.\<close>

lemma infos_codes: "(p, c) \<in> set (codes infos) \<longleftrightarrow> valid_code p c"
proof -
  have m: "(p, c) \<in> set (map (Pair q) cs) \<longleftrightarrow> p = q \<and> c \<in> set cs" for q :: nat and cs :: "nat list" by auto
  show ?thesis
    unfolding codes_infos set_append Un_iff m set_upt valid_code_def atLeastLessThan_iff by presburger
qed

lemma sorted_lower_bound:
  "sorted_wrt (<) (map f xs) \<Longrightarrow> x \<in> set xs \<Longrightarrow> f x = k \<Longrightarrow> \<exists>ys. dropWhile (\<lambda>y. f y < (k :: nat)) xs = x # ys"
  by (induction xs) auto

text \<open>The binary search of \<open>FromCode\<close> finds exactly the codes that are assigned.\<close>

lemma from_code_valid:
  assumes "c < 0x100"
  shows "from_code p c = Inr (if valid_code p c then Opc p c else InvalidOpc p c)"
proof (cases "valid_code p c")
  case True
  then obtain i where i: "i \<in> set infos" "info_prefix i = p" "info_code i = c"
    using infos_codes [of p c] by (auto simp: codes_def)
  then have "info_key i = p * 0x100 + c" by (simp add: info_key_def)
  with i sorted_lower_bound [OF infos_sorted i(1)] True assms show ?thesis
    by (auto simp: from_code_def prefix_code_def)
next
  case False
  have "(\<exists>i. dropWhile (\<lambda>i. info_key i < p * 0x100 + c) infos = i # is \<and> info_key i = p * 0x100 + c) \<Longrightarrow> False" for "is"
  proof -
    assume "\<exists>i. dropWhile (\<lambda>i. info_key i < p * 0x100 + c) infos = i # is \<and> info_key i = p * 0x100 + c"
    then obtain i where i: "i \<in> set infos" "info_key i = p * 0x100 + c"
      by (metis list.set_intros(1) set_dropWhileD)
    then have "(info_prefix i, info_code i) \<in> set (codes infos)" by (auto simp: codes_def)
    then have small: "info_code i < 0x100" by (auto simp: infos_codes valid_code_def)
    have eq: "info_prefix i * 0x100 + info_code i = p * 0x100 + c" using i(2) by (simp add: info_key_def)
    have "info_code i mod 0x100 = c mod 0x100" using arg_cong [OF eq, of "\<lambda>n. n mod 0x100"] by simp
    then have "info_code i = c" using small assms by simp
    with eq have "info_prefix i = p" by simp
    with i(1) False infos_codes [of p c] \<open>info_code i = c\<close> show False by (auto simp: codes_def)
  qed
  then show ?thesis using assms False
    by (auto simp: from_code_def prefix_code_def split: list.split)
qed

lemma from_code_code [code]:
  "from_code p c = (if c < 0x100 then Inr (if valid_code p c then Opc p c else InvalidOpc p c)
     else Inl (UB ''code < 0x100''))"
  by (simp add: from_code_valid) (simp add: from_code_def prefix_code_def)

text \<open>The lookup of an opcode by its prefix and code, a binary search for the two packed into one
  number, finds a row of the table exactly when the table has one with this prefix and this code; a
  code that does not fit the packing (the reader takes any 32-bit number for one behind a prefix)
  fails the assertion of \<open>PrefixCode\<close>.\<close>

theorem opcode_lookup:
  "from_code p c =
     (if c \<ge> 0x100 then Inl (UB ''code < 0x100'')
      else if \<exists>i \<in> set infos. info_prefix i = p \<and> info_code i = c then Inr (Opc p c)
      else Inr (InvalidOpc p c))"
proof -
  have "(\<exists>i \<in> set infos. info_prefix i = p \<and> info_code i = c) \<longleftrightarrow> valid_code p c"
    unfolding infos_codes [symmetric] by (auto simp: codes_def)
  then show ?thesis by (subst from_code_code) simp
qed

end
