(* ===== verification/WasmIr.thy ===== *)
theory WasmIr
  imports WasmOpcode
begin

text \<open>
  Modules as wabt holds them: parts of \<open>common.h\<close>, and \<open>ir.h\<close> with \<open>ir.cc\<close>, under
  \<open>tools/fractal-tools/external/wabt/src\<close>. Names other than those of imports and exports come from the
  name section, which \<open>fractal-pp\<close> does not read, so \<open>Var\<close>s are indices and the maps from names to
  indices are empty. Of the positions of expressions in the file only those of initialisers of
  globals are kept. Class templates of the source are constructors with the template argument as
  their first argument.
\<close>

section \<open>\<open>common.h\<close>\<close>

type_synonym v128 = "128 word"

text \<open>The enumeration \<open>Type\<close> over \<open>int32_t\<close>: the reader casts any 32-bit number to it.\<close>

type_synonym wtype = u32

definition ty_i32 :: wtype where "ty_i32 = - 0x01"
definition ty_i64 :: wtype where "ty_i64 = - 0x02"
definition ty_f32 :: wtype where "ty_f32 = - 0x03"
definition ty_f64 :: wtype where "ty_f64 = - 0x04"
definition ty_v128 :: wtype where "ty_v128 = - 0x05"
definition ty_anyfunc :: wtype where "ty_anyfunc = - 0x10"
definition ty_func :: wtype where "ty_func = - 0x20"
definition ty_void :: wtype where "ty_void = - 0x40"

lemmas ty_defs = ty_i32_def ty_i64_def ty_f32_def ty_f64_def ty_v128_def ty_anyfunc_def ty_func_def ty_void_def

definition is_type_index :: "wtype \<Rightarrow> bool" where
  "is_type_index t \<longleftrightarrow> 0 \<le>s t"

definition get_inline_type_vector :: "wtype \<Rightarrow> wtype list res" where
  "get_inline_type_vector t =
     (if is_type_index t then Inl (UB ''GetInlineTypeVector'')
      else if t = ty_void then Inr []
      else if t \<in> {ty_i32, ty_i64, ty_f32, ty_f64, ty_v128} then Inr [t]
      else Inl (UB ''GetInlineTypeVector''))"

record limits =
  initial :: u64
  max_limit :: u64
  has_max :: bool
  is_shared :: bool

datatype external_kind = KFunc | KTable | KMemory | KGlobal | KExcept

datatype label_type = LFunc | LBlock | LLoop | LIf | LElse | LIfExcept | LIfExceptElse | LTry | LCatch

definition max_pages :: u32 where
  "max_pages = 65536"

section \<open>\<open>ir.h\<close>\<close>

record func_signature =
  param_types :: "wtype list"
  result_types :: "wtype list"

record func_declaration =
  has_func_type :: bool
  type_var :: u32
  sig :: func_signature

datatype const = CI32 u32 | CI64 u64 | CF32 u32 | CF64 u64 | CV128 v128

text \<open>\<open>ExprMixin\<close>, \<open>OpcodeExpr\<close>, \<open>VarExpr\<close> and \<open>LoadStoreExpr\<close>.\<close>

datatype mixin_type = Drop | MemoryGrow | MemorySize | Nop | Rethrow | Return | Select | Unreachable

datatype opcode_type = Binary | Compare | Convert | Unary | Ternary

datatype var_type = Br | BrIf | Call | GetGlobal | GetLocal | SetGlobal | SetLocal | TeeLocal | Throw

datatype load_store_type =
  Load | Store | AtomicLoad | AtomicStore | AtomicRmw | AtomicRmwCmpxchg | AtomicWait | AtomicWake

datatype expr =
    Mixin mixin_type
  | OpcodeExpr opcode_type opcode
  | VarExpr var_type u32
  | LoadStoreExpr load_store_type opcode u32 u32  \<comment> \<open>alignment and offset\<close>
  | CallIndirectExpr func_declaration
  | BlockExpr func_declaration "expr list"
  | LoopExpr func_declaration "expr list"
  | IfExpr func_declaration "expr list" "expr list"
  | IfExceptExpr func_declaration u32 "expr list" "expr list"
  | TryExpr func_declaration "expr list" "expr list"
  | BrTableExpr "u32 list" u32
  | ConstExpr const
  | SimdLaneOpExpr opcode u64
  | SimdShuffleOpExpr opcode v128

text \<open>\<open>LocalTypes\<close> by its declarations; \<open>size\<close> adds up the counts.\<close>

type_synonym local_types = "(wtype \<times> u32) list"

definition local_types_size :: "local_types \<Rightarrow> u32" where
  "local_types_size decls = foldl (\<lambda>sum d. sum + snd d) 0 decls"

record func =
  func_decl :: func_declaration
  func_locals :: local_types
  func_exprs :: "expr list"

text \<open>Each expression of the initialiser with its \<open>loc.offset\<close>.\<close>

record global =
  global_type :: wtype
  global_mutable :: bool
  init_expr :: "(expr \<times> nat) list"

record elem_segment =
  table_var :: u32
  elem_offset :: "expr list"
  elem_vars :: "u32 list"

record ir_data_segment =
  memory_var :: u32
  data_offset :: "expr list"
  data_bytes :: "byte list"

datatype import_desc =
    FuncImport func_declaration
  | TableImport limits
  | MemoryImport limits
  | GlobalImport wtype bool
  | ExceptionImport "wtype list"

record import_entry =
  import_module_name :: "byte list"
  import_field_name :: "byte list"
  import_desc :: import_desc

record export_entry =
  export_name :: "byte list"
  export_kind :: external_kind
  export_var :: u32

record wmodule =
  num_except_imports :: u32
  num_func_imports :: u32
  num_table_imports :: u32
  num_memory_imports :: u32
  num_global_imports :: u32
  excepts :: "wtype list list"
  funcs :: "func list"
  globals :: "global list"
  import_list :: "import_entry list"
  export_list :: "export_entry list"
  func_types :: "func_signature list"
  tables :: "limits list"
  elem_segments :: "elem_segment list"
  memories :: "limits list"
  ir_data_segments :: "ir_data_segment list"
  starts :: "u32 list"

definition empty_module :: wmodule where
  "empty_module = \<lparr>num_except_imports = 0, num_func_imports = 0, num_table_imports = 0,
     num_memory_imports = 0, num_global_imports = 0, excepts = [], funcs = [], globals = [], import_list = [],
     export_list = [], func_types = [], tables = [], elem_segments = [], memories = [], ir_data_segments = [],
     starts = []\<rparr>"

section \<open>\<open>ir.cc\<close>\<close>

definition invalid_index :: u32 where
  "invalid_index = 0xFFFFFFFF"

fun find_sig :: "func_signature list \<Rightarrow> nat \<Rightarrow> func_signature \<Rightarrow> u32" where
  "find_sig [] i s = invalid_index"
| "find_sig (t # types) i s = (if t = s then of_nat i else find_sig types (Suc i) s)"

definition get_func_type_index_sig :: "wmodule \<Rightarrow> func_signature \<Rightarrow> u32" where
  "get_func_type_index_sig md s = find_sig (func_types md) 0 s"

definition get_func_type_index :: "wmodule \<Rightarrow> func_declaration \<Rightarrow> u32" where
  "get_func_type_index md decl =
     (if has_func_type decl then type_var decl else get_func_type_index_sig md (sig decl))"

text \<open>The overloads of \<open>AppendField\<close>.\<close>

definition append_data_segment :: "ir_data_segment \<Rightarrow> wmodule \<Rightarrow> wmodule" where
  "append_data_segment s md = md\<lparr>ir_data_segments := ir_data_segments md @ [s]\<rparr>"

definition append_elem_segment :: "elem_segment \<Rightarrow> wmodule \<Rightarrow> wmodule" where
  "append_elem_segment s md = md\<lparr>elem_segments := elem_segments md @ [s]\<rparr>"

definition append_except :: "wtype list \<Rightarrow> wmodule \<Rightarrow> wmodule" where
  "append_except s md = md\<lparr>excepts := excepts md @ [s]\<rparr>"

definition append_export :: "export_entry \<Rightarrow> wmodule \<Rightarrow> wmodule" where
  "append_export e md = md\<lparr>export_list := export_list md @ [e]\<rparr>"

definition append_func :: "func \<Rightarrow> wmodule \<Rightarrow> wmodule" where
  "append_func f md = md\<lparr>funcs := funcs md @ [f]\<rparr>"

definition append_func_type :: "func_signature \<Rightarrow> wmodule \<Rightarrow> wmodule" where
  "append_func_type t md = md\<lparr>func_types := func_types md @ [t]\<rparr>"

definition append_global :: "global \<Rightarrow> wmodule \<Rightarrow> wmodule" where
  "append_global g md = md\<lparr>globals := globals md @ [g]\<rparr>"

definition append_memory :: "limits \<Rightarrow> wmodule \<Rightarrow> wmodule" where
  "append_memory l md = md\<lparr>memories := memories md @ [l]\<rparr>"

definition append_start :: "u32 \<Rightarrow> wmodule \<Rightarrow> wmodule" where
  "append_start v md = md\<lparr>starts := starts md @ [v]\<rparr>"

definition append_table :: "limits \<Rightarrow> wmodule \<Rightarrow> wmodule" where
  "append_table l md = md\<lparr>tables := tables md @ [l]\<rparr>"

text \<open>What is imported is also an element of its index space; the function, table, memory, global and
  exception of an \<open>Import\<close> are shared with it.\<close>

definition imported_func :: "func_declaration \<Rightarrow> func" where
  "imported_func d = \<lparr>func_decl = d, func_locals = [], func_exprs = []\<rparr>"

definition imported_global :: "wtype \<Rightarrow> bool \<Rightarrow> global" where
  "imported_global t mut = \<lparr>global_type = t, global_mutable = mut, init_expr = []\<rparr>"

definition append_import :: "import_entry \<Rightarrow> wmodule \<Rightarrow> wmodule" where
  "append_import i md =
     (let md = (case import_desc i of
          FuncImport d \<Rightarrow> md\<lparr>funcs := funcs md @ [imported_func d], num_func_imports := num_func_imports md + 1\<rparr>
        | TableImport l \<Rightarrow> md\<lparr>tables := tables md @ [l], num_table_imports := num_table_imports md + 1\<rparr>
        | MemoryImport l \<Rightarrow> md\<lparr>memories := memories md @ [l], num_memory_imports := num_memory_imports md + 1\<rparr>
        | GlobalImport t mut \<Rightarrow>
            md\<lparr>globals := globals md @ [imported_global t mut], num_global_imports := num_global_imports md + 1\<rparr>
        | ExceptionImport s \<Rightarrow> md\<lparr>excepts := excepts md @ [s], num_except_imports := num_except_imports md + 1\<rparr>)
      in md\<lparr>import_list := import_list md @ [i]\<rparr>)"

definition get_global_at :: "wmodule \<Rightarrow> u32 \<Rightarrow> global option" where
  "get_global_at md i = (if unat i \<ge> length (globals md) then None else Some (globals md ! unat i))"

end
