(* ===== verification/Utf8.thy ===== *)
theory Utf8
  imports Prelude
begin

text \<open>
  The check of names in WebAssembly binaries: \<open>tools/fractal-tools/external/wabt/src/utf8.cc\<close>, and what
  it means: the bytes are the UTF-8 encoding of a sequence of Unicode scalar values.
\<close>

section \<open>\<open>utf8.cc\<close>\<close>

text \<open>\<open>s_utf8_length\<close>, by its runs of equal entries.\<close>

definition s_utf8_length :: "nat list" where
  "s_utf8_length = replicate 0x80 1 @ replicate 0x40 0 @ replicate 2 0 @ replicate 0x1E 2 @
     replicate 0x10 3 @ replicate 5 4 @ replicate 0xB 0"

definition is_cont :: "byte \<Rightarrow> bool" where
  "is_cont c \<longleftrightarrow> c AND 0xc0 = 0x80"

text \<open>The bytes from \<open>p\<close> to \<open>end\<close>.\<close>

function is_valid_utf8 :: "byte list \<Rightarrow> bool" where
  "is_valid_utf8 p =
     (case p of
        [] \<Rightarrow> True
      | cu0 # _ \<Rightarrow>
          let len = s_utf8_length ! unat cu0 in
          if len > length p then False
          else if len = 0 then False
          else if len = 1 then is_valid_utf8 (drop 1 p)
          else if len = 2 then
            if \<not> is_cont (p ! 1) then False else is_valid_utf8 (drop 2 p)
          else if len = 3 then
            let cu1 = p ! 1; cu2 = p ! 2 in
            if \<not> (is_cont cu1 \<and> is_cont cu2) \<or> cu0 = 0xe0 \<and> cu1 < 0xa0 \<or> cu0 = 0xed \<and> cu1 \<ge> 0xa0
            then False else is_valid_utf8 (drop 3 p)
          else
            let cu1 = p ! 1; cu2 = p ! 2; cu3 = p ! 3 in
            if \<not> (is_cont cu1 \<and> is_cont cu2 \<and> is_cont cu3) \<or> cu0 = 0xf0 \<and> cu1 < 0x90 \<or> cu0 = 0xf4 \<and> cu1 \<ge> 0x90
            then False else is_valid_utf8 (drop 4 p))"
  by pat_completeness auto
termination
  by (relation "measure length") auto

declare is_valid_utf8.simps [simp del]

section \<open>Unicode\<close>

definition scalar_value :: "nat \<Rightarrow> bool" where
  "scalar_value c \<longleftrightarrow> c < 0xD800 \<or> 0xE000 \<le> c \<and> c < 0x110000"

text \<open>The encoding form of the Unicode standard.\<close>

definition utf8 :: "nat \<Rightarrow> byte list" where
  "utf8 c =
     (if c < 0x80 then [of_nat c]
      else if c < 0x800 then [of_nat (0xC0 + c div 0x40), of_nat (0x80 + c mod 0x40)]
      else if c < 0x10000 then
        [of_nat (0xE0 + c div 0x1000), of_nat (0x80 + c div 0x40 mod 0x40), of_nat (0x80 + c mod 0x40)]
      else [of_nat (0xF0 + c div 0x40000), of_nat (0x80 + c div 0x1000 mod 0x40),
            of_nat (0x80 + c div 0x40 mod 0x40), of_nat (0x80 + c mod 0x40)])"

section \<open>The table and the tests as comparisons\<close>

lemma utf8_length_eq:
  fixes c :: byte
  shows "s_utf8_length ! unat c =
     (if unat c < 0x80 then 1 else if unat c < 0xC2 then 0 else if unat c < 0xE0 then 2
      else if unat c < 0xF0 then 3 else if unat c < 0xF5 then 4 else 0)"
proof -
  have "list_all (\<lambda>n. s_utf8_length ! n = (if n < 0x80 then 1 else if n < 0xC2 then 0 else if n < 0xE0 then 2
      else if n < 0xF0 then 3 else if n < 0xF5 then 4 else 0)) [0..<256]"
    by code_simp
  moreover have "unat c \<in> set [0..<256]" using unsigned_less [of c] by simp
  ultimately show ?thesis unfolding list_all_iff by blast
qed

lemma is_cont_nat: "is_cont c \<longleftrightarrow> 0x80 \<le> unat c \<and> unat c < 0xC0"
proof -
  have "list_all (\<lambda>n. ((of_nat n :: byte) AND 0xc0 = 0x80) = (0x80 \<le> n \<and> n < 0xC0)) [0..<256]"
    by code_simp
  moreover have "unat c \<in> set [0..<256]" using unsigned_less [of c] by simp
  ultimately have "((of_nat (unat c) :: byte) AND 0xc0 = 0x80) = (0x80 \<le> unat c \<and> unat c < 0xC0)"
    unfolding list_all_iff by blast
  then show ?thesis by (simp add: is_cont_def)
qed

lemma unat_byte: "n < 0x100 \<Longrightarrow> unat (of_nat n :: byte) = n"
  by (simp add: unat_of_nat)

lemma byte_from_unat: "unat c = n \<Longrightarrow> (of_nat n :: byte) = c"
  by (metis of_nat_unat ucast_id)

lemma byte_tests:
  "c = (0xe0 :: byte) \<longleftrightarrow> unat c = 0xE0" "c = (0xed :: byte) \<longleftrightarrow> unat c = 0xED"
  "c = (0xf0 :: byte) \<longleftrightarrow> unat c = 0xF0" "c = (0xf4 :: byte) \<longleftrightarrow> unat c = 0xF4"
  "c < (0xa0 :: byte) \<longleftrightarrow> unat c < 0xA0" "c < (0x90 :: byte) \<longleftrightarrow> unat c < 0x90"
  "(0xa0 :: byte) \<le> c \<longleftrightarrow> 0xA0 \<le> unat c" "(0x90 :: byte) \<le> c \<longleftrightarrow> 0x90 \<le> unat c"
  by (simp_all add: word_unat_eq_iff word_less_nat_alt word_le_nat_alt)

text \<open>The four kinds of characters, with the tests on the natural numbers of the bytes.\<close>

lemma valid_Nil: "is_valid_utf8 []"
  by (simp add: is_valid_utf8.simps)

lemma valid_1: "unat c < 0x80 \<Longrightarrow> is_valid_utf8 (c # bs) \<longleftrightarrow> is_valid_utf8 bs"
  by (subst is_valid_utf8.simps) (simp add: utf8_length_eq)

lemma valid_2:
  "0xC2 \<le> unat c \<Longrightarrow> unat c < 0xE0 \<Longrightarrow> is_valid_utf8 (c # c1 # bs) \<longleftrightarrow> is_cont c1 \<and> is_valid_utf8 bs"
  by (subst is_valid_utf8.simps) (simp add: utf8_length_eq)

lemma valid_3:
  "0xE0 \<le> unat c \<Longrightarrow> unat c < 0xF0 \<Longrightarrow> is_valid_utf8 (c # c1 # c2 # bs) \<longleftrightarrow>
     is_cont c1 \<and> is_cont c2 \<and> \<not> (unat c = 0xE0 \<and> unat c1 < 0xA0) \<and> \<not> (unat c = 0xED \<and> unat c1 \<ge> 0xA0) \<and>
     is_valid_utf8 bs"
  by (subst is_valid_utf8.simps)
    (simp add: utf8_length_eq Let_def byte_tests, blast)

lemma valid_4:
  "0xF0 \<le> unat c \<Longrightarrow> unat c < 0xF5 \<Longrightarrow> is_valid_utf8 (c # c1 # c2 # c3 # bs) \<longleftrightarrow>
     is_cont c1 \<and> is_cont c2 \<and> is_cont c3 \<and> \<not> (unat c = 0xF0 \<and> unat c1 < 0x90) \<and>
     \<not> (unat c = 0xF4 \<and> unat c1 \<ge> 0x90) \<and> is_valid_utf8 bs"
  by (subst is_valid_utf8.simps)
    (simp add: utf8_length_eq Let_def byte_tests, blast)

text \<open>A byte sequence that is valid starts with one of the four kinds.\<close>

lemma valid_cases:
  assumes "is_valid_utf8 (c # p)"
  obtains "unat c < 0x80"
  | c1 bs where "0xC2 \<le> unat c" "unat c < 0xE0" "p = c1 # bs"
  | c1 c2 bs where "0xE0 \<le> unat c" "unat c < 0xF0" "p = c1 # c2 # bs"
  | c1 c2 c3 bs where "0xF0 \<le> unat c" "unat c < 0xF5" "p = c1 # c2 # c3 # bs"
proof -
  have l: "s_utf8_length ! unat c \<noteq> 0" "s_utf8_length ! unat c \<le> Suc (length p)"
    using assms by (auto simp: is_valid_utf8.simps [of "c # p"] Let_def split: if_splits)
  consider "unat c < 0x80" | "0xC2 \<le> unat c" "unat c < 0xE0" | "0xE0 \<le> unat c" "unat c < 0xF0"
    | "0xF0 \<le> unat c" "unat c < 0xF5"
    using l(1) by (auto simp: utf8_length_eq split: if_splits)
  then show thesis
  proof cases
    case 2
    then have "1 \<le> length p" using l(2) by (simp add: utf8_length_eq)
    then show thesis using 2 that(2) by (cases p) auto
  next
    case 3
    then have "2 \<le> length p" using l(2) by (simp add: utf8_length_eq)
    then show thesis using 3 that(3) by (cases p rule: list.exhaust [OF _ list.exhaust]) (auto simp: Suc_le_length_iff numeral_2_eq_2)
  next
    case 4
    then have "3 \<le> length p" using l(2) by (simp add: utf8_length_eq)
    then show thesis using 4 that(4) by (auto simp: Suc_le_length_iff numeral_3_eq_3)
  qed (rule that(1))
qed


section \<open>The encoding by digits\<close>

lemma div_digit: "d < (64::nat) \<Longrightarrow> (a * 64 + d) div 64 = a" "d < (64::nat) \<Longrightarrow> (a * 64 + d) mod 64 = d"
  by simp_all

lemma div_4096: "c div 4096 = c div 64 div (64::nat)" and div_262144: "c div 262144 = c div 64 div 64 div (64::nat)"
  by (simp_all flip: div_mult2_eq)

lemma utf8_2: "d < 64 \<Longrightarrow> 2 \<le> a \<Longrightarrow> a < 32 \<Longrightarrow> utf8 (a * 64 + d) = [of_nat (0xC0 + a), of_nat (0x80 + d)]"
  by (simp add: utf8_def div_digit)

lemma utf8_3:
  assumes "d < 64" "b < 64" "a < 16" "0x800 \<le> (a * 64 + b) * 64 + d"
  shows "utf8 ((a * 64 + b) * 64 + d) = [of_nat (0xE0 + a), of_nat (0x80 + b), of_nat (0x80 + d)]"
proof -
  have "utf8 (x * 64 + d) = [of_nat (0xE0 + x div 64), of_nat (0x80 + x mod 64), of_nat (0x80 + d)]"
    if "0x800 \<le> x * 64 + d" "x * 64 + d < 0x10000" for x
    using that assms(1) by (simp add: utf8_def div_4096 div_digit)
  from this [of "a * 64 + b"] show ?thesis using assms by (simp add: div_digit)
qed

lemma utf8_4:
  assumes "e < 64" "d < 64" "b < 64" "0x10000 \<le> ((a * 64 + b) * 64 + d) * 64 + e"
  shows "utf8 (((a * 64 + b) * 64 + d) * 64 + e) =
    [of_nat (0xF0 + a), of_nat (0x80 + b), of_nat (0x80 + d), of_nat (0x80 + e)]"
proof -
  have 1: "utf8 (x * 64 + e) =
      [of_nat (0xF0 + x div 64 div 64), of_nat (0x80 + x div 64 mod 64), of_nat (0x80 + x mod 64), of_nat (0x80 + e)]"
    if "0x10000 \<le> x * 64 + e" for x
    using that assms(1) by (simp add: utf8_def div_4096 div_262144 div_digit)
  have 2: "(y * 64 + d) div 64 = y" "(y * 64 + d) mod 64 = d" for y using assms(2) by simp_all
  have 3: "(a * 64 + b) div 64 = a" "(a * 64 + b) mod 64 = b" using assms(3) by simp_all
  show ?thesis using 1 [OF assms(4)] unfolding 2 3 .
qed

lemma digits: "\<exists>a d. c = a * 64 + d \<and> d < (64::nat)"
  by (intro exI [of _ "c div 64"] exI [of _ "c mod 64"]) simp

text \<open>A scalar value, by the length of its encoding.\<close>

lemma scalar_cases:
  assumes "scalar_value c"
  obtains (one) "c < 0x80"
  | (two) a d where "c = a * 64 + d" "d < 64" "2 \<le> a" "a < 32"
  | (three) a b d where "c = (a * 64 + b) * 64 + d" "d < 64" "b < 64" "a < 16" "a = 0 \<Longrightarrow> 32 \<le> b" "a = 13 \<Longrightarrow> b < 32"
  | (four) a b d e where "c = ((a * 64 + b) * 64 + d) * 64 + e" "e < 64" "d < 64" "b < 64" "a < 5"
      "a = 0 \<Longrightarrow> 16 \<le> b" "a = 4 \<Longrightarrow> b < 16"
proof -
  obtain x e where x: "c = x * 64 + e" "e < 64" using digits by blast
  obtain y d where y: "x = y * 64 + d" "d < 64" using digits by blast
  obtain a b where a: "y = a * 64 + b" "b < 64" using digits by blast
  have c: "c = ((a * 64 + b) * 64 + d) * 64 + e" using x y a by simp
  consider "c < 0x80" | "0x80 \<le> c" "c < 0x800" | "0x800 \<le> c" "c < 0x10000" | "0x10000 \<le> c" by linarith
  then show thesis
  proof cases
    case 2
    then show thesis using x by (intro that(2) [of x e]) simp_all
  next
    case 3
    then show thesis using x y assms unfolding scalar_value_def by (intro that(3) [of y d e]) auto
  next
    case 4
    then show thesis using x(2) y(2) a(2) c assms unfolding scalar_value_def by (intro that(4) [of a b d e]) auto
  qed (rule that(1))
qed

lemma valid_utf8_char:
  assumes "scalar_value c"
  shows "is_valid_utf8 (utf8 c @ bs) \<longleftrightarrow> is_valid_utf8 bs"
  using assms
proof (cases rule: scalar_cases)
  case one
  then show ?thesis by (simp add: utf8_def valid_1 unat_byte)
next
  case (two a d)
  then show ?thesis by (simp add: utf8_2 valid_2 unat_byte is_cont_nat del: of_nat_add of_nat_numeral)
next
  case (three a b d)
  then have "0x800 \<le> (a * 64 + b) * 64 + d" by (cases "a = 0") auto
  from utf8_3 [OF three(2-4) this, folded three(1)] three(2-6) show ?thesis
    by (auto simp: valid_3 unat_byte is_cont_nat simp del: of_nat_add)
next
  case (four a b d e)
  then have "0x10000 \<le> ((a * 64 + b) * 64 + d) * 64 + e" by (cases "a = 0") auto
  from utf8_4 [OF four(2-4) this, folded four(1)] four(2-7) show ?thesis
    by (auto simp: valid_4 unat_byte is_cont_nat simp del: of_nat_add)
qed

text \<open>The other way: what is accepted starts with the encoding of a scalar value.\<close>

lemma valid_starts:
  assumes "is_valid_utf8 (c # p)"
  obtains k bs where "scalar_value k" "c # p = utf8 k @ bs" "is_valid_utf8 bs"
  using assms
proof (cases rule: valid_cases)
  case 1
  then show thesis using assms that [of "unat c" p]
    by (simp add: scalar_value_def utf8_def valid_1)
next
  case (2 c1 bs)
  define a d where "a = unat c - 0xC0" and "d = unat c1 - 0x80"
  have v: "is_cont c1" "is_valid_utf8 bs" using assms 2 by (simp_all add: valid_2)
  then have n: "unat c = 0xC0 + a" "unat c1 = 0x80 + d" "2 \<le> a" "a < 32" "d < 64"
    using 2 by (auto simp: a_def d_def is_cont_nat)
  have "utf8 (a * 64 + d) = [c, c1]"
    using utf8_2 [OF n(5,3,4)] byte_from_unat [OF n(1)] byte_from_unat [OF n(2)] by simp
  moreover have "scalar_value (a * 64 + d)" using n by (simp add: scalar_value_def)
  ultimately show thesis using that [of "a * 64 + d" bs] v 2 by simp
next
  case (3 c1 c2 bs)
  define a b d where "a = unat c - 0xE0" and "b = unat c1 - 0x80" and "d = unat c2 - 0x80"
  have v: "is_cont c1" "is_cont c2" "\<not> (unat c = 0xE0 \<and> unat c1 < 0xA0)" "\<not> (unat c = 0xED \<and> unat c1 \<ge> 0xA0)"
    "is_valid_utf8 bs"
    using assms 3 by (simp_all add: valid_3)
  then have n: "unat c = 0xE0 + a" "unat c1 = 0x80 + b" "unat c2 = 0x80 + d" "a < 16" "b < 64" "d < 64"
    using 3 by (auto simp: a_def b_def d_def is_cont_nat)
  have r: "a = 0 \<longrightarrow> 32 \<le> b" "a = 13 \<longrightarrow> b < 32" using v(3,4) n by auto
  then have "0x800 \<le> (a * 64 + b) * 64 + d" by (cases "a = 0") auto
  from utf8_3 [OF n(6,5,4) this] have "utf8 ((a * 64 + b) * 64 + d) = [c, c1, c2]"
    using byte_from_unat [OF n(1)] byte_from_unat [OF n(2)] byte_from_unat [OF n(3)] by simp
  moreover have "scalar_value ((a * 64 + b) * 64 + d)"
    using n r unfolding scalar_value_def by (cases "a < 13"; cases "a = 13") auto
  ultimately show thesis using that [of "(a * 64 + b) * 64 + d" bs] v(5) 3 by simp
next
  case (4 c1 c2 c3 bs)
  define a b d e where "a = unat c - 0xF0" and "b = unat c1 - 0x80" and "d = unat c2 - 0x80" and "e = unat c3 - 0x80"
  have v: "is_cont c1" "is_cont c2" "is_cont c3" "\<not> (unat c = 0xF0 \<and> unat c1 < 0x90)"
    "\<not> (unat c = 0xF4 \<and> unat c1 \<ge> 0x90)" "is_valid_utf8 bs"
    using assms 4 by (simp_all add: valid_4)
  then have n: "unat c = 0xF0 + a" "unat c1 = 0x80 + b" "unat c2 = 0x80 + d" "unat c3 = 0x80 + e"
    "a < 5" "b < 64" "d < 64" "e < 64"
    using 4 by (auto simp: a_def b_def d_def e_def is_cont_nat)
  have r: "a = 0 \<longrightarrow> 16 \<le> b" "a = 4 \<longrightarrow> b < 16" using v(4,5) n by auto
  then have g: "0x10000 \<le> ((a * 64 + b) * 64 + d) * 64 + e" by (cases "a = 0") auto
  from utf8_4 [OF n(8,7,6) g] have "utf8 (((a * 64 + b) * 64 + d) * 64 + e) = [c, c1, c2, c3]"
    using byte_from_unat [OF n(1)] byte_from_unat [OF n(2)] byte_from_unat [OF n(3)] byte_from_unat [OF n(4)] by simp
  moreover have "scalar_value (((a * 64 + b) * 64 + d) * 64 + e)"
    using n r g unfolding scalar_value_def by (cases "a = 4") auto
  ultimately show thesis using that [of "((a * 64 + b) * 64 + d) * 64 + e" bs] v(6) 4 by simp
qed

text \<open>C37: \<open>IsValidUtf8\<close> accepts exactly the encodings of sequences of Unicode scalar values: no
  surrogates, nothing above \<open>10FFFF\<close>, no overlong forms, no truncated character.\<close>

theorem is_valid_utf8_iff:
  "is_valid_utf8 bs \<longleftrightarrow> (\<exists>cs. list_all scalar_value cs \<and> bs = concat (map utf8 cs))"
proof
  assume "is_valid_utf8 bs"
  then show "\<exists>cs. list_all scalar_value cs \<and> bs = concat (map utf8 cs)"
  proof (induction "length bs" arbitrary: bs rule: less_induct)
    case less
    show ?case
    proof (cases bs)
      case (Cons c p)
      from less.prems [unfolded Cons] obtain k r where k: "scalar_value k" "c # p = utf8 k @ r" "is_valid_utf8 r"
        by (rule valid_starts)
      have "utf8 k \<noteq> []" by (simp add: utf8_def)
      then have "length r < length bs" using k(2) Cons by (metis length_append length_greater_0_conv less_add_same_cancel2)
      from less.hyps [OF this k(3)] obtain cs where "list_all scalar_value cs" "r = concat (map utf8 cs)" by blast
      then show ?thesis using k(1,2) Cons by (intro exI [of _ "k # cs"]) simp
    qed (auto intro: exI [of _ "[]"])
  qed
next
  assume "\<exists>cs. list_all scalar_value cs \<and> bs = concat (map utf8 cs)"
  then obtain cs where "list_all scalar_value cs" "bs = concat (map utf8 cs)" by blast
  then show "is_valid_utf8 bs"
    by (induction cs arbitrary: bs) (simp_all add: valid_Nil valid_utf8_char)
qed

end
