(* ===== verification/WasmString.thy ===== *)
theory WasmString
  imports Leb128Properties Utf8
begin

text \<open>
  Names and byte vectors in WebAssembly binaries: the primitives of \<open>binary-reader.cc\<close> and
  \<open>WriteStr\<close> of \<open>binary-writer.cc\<close>, both under \<open>tools/fractal-tools/external/wabt/src\<close>. Sizes are 64
  bits wide where the tools run, so \<open>offset + length\<close> does not wrap around.
\<close>

section \<open>\<open>BinaryReader\<close>\<close>

record reader_state =
  data :: "byte list"
  offset :: nat
  read_end :: nat

type_synonym ('a, 'z) read = "'z reader_state_scheme \<Rightarrow> string + 'a \<times> 'z reader_state_scheme"

text \<open>The bytes from the position to the end of the section.\<close>

definition left_of :: "'z reader_state_scheme \<Rightarrow> byte list" where
  "left_of st = drop (offset st) (take (read_end st) (data st))"

text \<open>The error has the format string; the reader reports it and stops.\<close>

definition reader_read_u32_leb128 :: "string \<Rightarrow> (u32, 'z) read" where
  "reader_read_u32_leb128 desc st =
     (case read_u32_leb128 (left_of st) of
        (bytes_read, v) \<Rightarrow>
          if bytes_read > 0
          then (case v of Some v \<Rightarrow> Inr (v, st\<lparr>offset := offset st + bytes_read\<rparr>)
                | None \<Rightarrow> Inl (''unable to read u32 leb128: '' @ desc))
          else Inl (''unable to read u32 leb128: '' @ desc))"

definition read_block :: "string \<Rightarrow> string \<Rightarrow> string \<Rightarrow> (byte list, 'z) read" where
  "read_block length_desc message desc st =
     (case reader_read_u32_leb128 length_desc st of
        Inl e \<Rightarrow> Inl e
      | Inr (len, st) \<Rightarrow>
          if offset st + unat len \<le> read_end st
          then Inr (take (unat len) (drop (offset st) (data st)), st\<lparr>offset := offset st + unat len\<rparr>)
          else Inl (message @ desc))"

definition read_str :: "string \<Rightarrow> (byte list, 'z) read" where
  "read_str desc st =
     (case read_block ''string length'' ''unable to read string: '' desc st of
        Inl e \<Rightarrow> Inl e
      | Inr (out_str, st) \<Rightarrow>
          if is_valid_utf8 out_str then Inr (out_str, st) else Inl (''invalid utf-8 encoding: '' @ desc))"

definition read_bytes :: "string \<Rightarrow> (byte list, 'z) read" where
  "read_bytes desc = read_block ''data size'' ''unable to read data: '' desc"

definition read_index :: "string \<Rightarrow> (u32, 'z) read" where
  "read_index desc = reader_read_u32_leb128 desc"

definition read_offset :: "string \<Rightarrow> (u32, 'z) read" where
  "read_offset desc = reader_read_u32_leb128 desc"

definition read_count :: "string \<Rightarrow> (u32, 'z) read" where
  "read_count desc st =
     (case read_index desc st of
        Inl e \<Rightarrow> Inl e
      | Inr (count, st) \<Rightarrow>
          let section_remaining = read_end st - offset st
          in if unat count > section_remaining then Inl (''invalid '' @ desc @ '' '' @ decimal (unat count) @ '', only '' @ decimal section_remaining @
                   '' bytes left in section'')
             else Inr (count, st))"

section \<open>\<open>WriteStr\<close>\<close>

definition write_str :: "byte list \<Rightarrow> mem_out \<Rightarrow> mem_out res" where
  "write_str s st =
     rbind (write_u32_leb128 (of_nat (length s)) st) (\<lambda>st. Inr (write_data s st))"

section \<open>What is written is read\<close>

lemma write_data_end:
  "out_offset st = length (out_data st) \<Longrightarrow>
     write_data bs st = \<lparr>out_offset = length (out_data st) + length bs, out_data = out_data st @ bs\<rparr>"
  by (cases st) (auto simp: write_data_def write_data_at_def write_data_impl_def resize_def Let_def)

lemma write_str_bytes:
  assumes "out_offset st = length (out_data st)"
  obtains pre where "u32_leb128_bytes (of_nat (length s)) = Inr pre"
    "write_str s st = Inr \<lparr>out_offset = length (out_data st @ pre @ s), out_data = out_data st @ pre @ s\<rparr>"
    "\<And>r. read_u32_leb128 (pre @ r) = (length pre, Some (of_nat (length s)))" "pre \<noteq> []"
proof -
  obtain pre where pre: "u32_leb128_bytes (of_nat (length s)) = Inr pre" using u32_written_read [of "of_nat (length s)"] by blast
  have rd: "read_u32_leb128 (pre @ r) = (length pre, Some (of_nat (length s)))" for r
    using u32_written_read [of "of_nat (length s)" r] pre by auto
  have "vbytes n \<noteq> []" for n by (subst vbytes.simps) simp
  then have "pre \<noteq> []" using pre by (auto simp: u32_leb128_bytes_vbytes)
  then show thesis using pre rd assms
    by (intro that [of pre]) (auto simp: write_str_def write_u32_leb128_def write_data_end)
qed

text \<open>C38: a name that \<open>WriteStr\<close> appends to a binary is read back by \<open>ReadStr\<close>, which stops right behind
  it, exactly when it is UTF-8; any other name is refused as such, and so is a name of which the end
  of the section cuts off a byte.\<close>

theorem write_read_str:
  assumes "write_str s st = Inr st'" "out_offset st = length (out_data st)" "length s < 2 ^ 32"
    and "r = \<lparr>data = out_data st' @ rest, offset = length (out_data st), read_end = stop\<rparr>"
  shows "(length (out_data st') \<le> stop \<longrightarrow>
      read_str desc r = (if is_valid_utf8 s then Inr (s, r\<lparr>offset := length (out_data st')\<rparr>)
                         else Inl (''invalid utf-8 encoding: '' @ desc))) \<and>
    (length (out_data st') - length s \<le> stop \<and> stop < length (out_data st') \<longrightarrow>
      read_str desc r = Inl (''unable to read string: '' @ desc))"
proof -
  obtain pre where pre: "out_data st' = out_data st @ pre @ s" "pre \<noteq> []"
    "\<And>q. read_u32_leb128 (pre @ q) = (length pre, Some (of_nat (length s)))"
    using write_str_bytes [OF assms(2), of s] assms(1) by (metis Inr_inject mem_out.select_convs(2))
  have n: "unat (of_nat (length s) :: u32) = length s" using assms(3) by (simp add: unat_of_nat)
  have rd: "reader_read_u32_leb128 d r = Inr (of_nat (length s), r\<lparr>offset := length (out_data st) + length pre\<rparr>)"
    if "length (out_data st) + length pre \<le> stop" for d
  proof -
    have "left_of r = pre @ take (stop - length (out_data st) - length pre) (s @ rest)"
      using that by (simp add: left_of_def assms(4) pre(1))
    then show ?thesis using pre(2,3) by (simp add: reader_read_u32_leb128_def assms(4))
  qed
  show ?thesis
    using rd by (auto simp: read_str_def read_block_def pre(1) assms(4) n split: if_splits)
qed

theorem write_read_str_witness:
  "\<exists>st'. write_str [0x68, 0xc3, 0xa9] mem_out_empty = Inr st' \<and>
     (\<exists>r. read_str ''name'' \<lparr>data = out_data st' @ [7], offset = 0, read_end = length (out_data st')\<rparr> = Inr ([0x68, 0xc3, 0xa9], r))"
proof -
  have st: "out_offset mem_out_empty = length (out_data mem_out_empty)" by (simp add: mem_out_empty_def)
  obtain st' where w: "write_str [0x68, 0xc3, 0xa9] mem_out_empty = Inr st'" using write_str_bytes [OF st] by blast
  have "is_valid_utf8 [0x68, 0xc3, 0xa9]" by (simp add: valid_1 valid_2 valid_Nil is_cont_nat)
  then show ?thesis using write_read_str [OF w st _ refl, where rest = "[7]" and stop = "length (out_data st')" and desc = "''name''"] w
    by (simp add: mem_out_empty_def)
qed

end
