(* ===== verification/WasmReaderIr.thy ===== *)
theory WasmReaderIr
  imports WasmIr WasmString
begin

text \<open>
  What the reader of WebAssembly binaries builds: the class \<open>BinaryReaderIR\<close> of
  \<open>tools/fractal-tools/external/wabt/src/binary-reader-ir.cc\<close>, whose functions the reader calls for
  what it has read. The functions it does not override return at once. An operation is a function
  from the state of the reader to a failure or a result, each with the state it leaves behind.

  The source keeps pointers to lists of expressions. Lists only grow at their end, so a pointer is
  the function the list belongs to and the path to it: at each step the position of the expression
  that owns the list, and whether the list is its second one (\<open>else\<close> and \<open>catch\<close>).
\<close>

section \<open>State\<close>

type_synonym path = "(nat \<times> bool) list"

record label =
  label_type :: label_type
  label_func :: nat
  label_path :: path

datatype init_target = InitGlobal nat | InitElem nat | InitData nat

text \<open>The fields of \<open>BinaryReader\<close> and of \<open>BinaryReaderIR\<close>. The top of \<open>label_stack\<close> is its head.\<close>

record reader = reader_state +
  r_num_signatures :: u32
  r_num_func_imports :: u32
  r_num_table_imports :: u32
  r_num_memory_imports :: u32
  r_num_global_imports :: u32
  r_num_exception_imports :: u32
  r_num_function_signatures :: u32
  r_num_tables :: u32
  r_num_memories :: u32
  r_num_globals :: u32
  r_num_function_bodies :: u32
  last_known_section :: "nat option"
  out_module :: wmodule
  current_func :: "nat option"
  label_stack :: "label list"
  current_init_expr :: "init_target option"

text \<open>\<open>Result::Error\<close> with its message, or a point of undefined behaviour.\<close>

datatype failure = ReadError string | ReadUB string

type_synonym 'a rd = "reader \<Rightarrow> failure \<times> reader + 'a \<times> reader"

definition rd_return :: "'a \<Rightarrow> 'a rd" where
  "rd_return x st = Inr (x, st)"

definition rd_bind :: "'a rd \<Rightarrow> ('a \<Rightarrow> 'b rd) \<Rightarrow> 'b rd" where
  "rd_bind m k st = (case m st of Inl e \<Rightarrow> Inl e | Inr (x, st) \<Rightarrow> k x st)"

definition rd_fail :: "failure \<Rightarrow> 'a rd" where
  "rd_fail e st = Inl (e, st)"

definition rd_get :: "(reader \<Rightarrow> 'a) \<Rightarrow> 'a rd" where
  "rd_get f st = Inr (f st, st)"

definition rd_modify :: "(reader \<Rightarrow> reader) \<Rightarrow> unit rd" where
  "rd_modify f st = Inr ((), f st)"

definition error_unless :: "bool \<Rightarrow> string \<Rightarrow> unit rd" where
  "error_unless c message = (if c then rd_return () else rd_fail (ReadError message))"

definition rd_assert :: "bool \<Rightarrow> string \<Rightarrow> unit rd" where
  "rd_assert c text = (if c then rd_return () else rd_fail (ReadUB text))"

definition rd_module :: "(wmodule \<Rightarrow> wmodule) \<Rightarrow> unit rd" where
  "rd_module f = rd_modify (\<lambda>st. st\<lparr>out_module := f (out_module st)\<rparr>)"

section \<open>Lists of expressions inside expressions\<close>

fun branch :: "bool \<Rightarrow> expr \<Rightarrow> expr list" where
  "branch False (BlockExpr d es) = es"
| "branch False (LoopExpr d es) = es"
| "branch s (IfExpr d ts fs) = (if s then fs else ts)"
| "branch s (IfExceptExpr d v ts fs) = (if s then fs else ts)"
| "branch s (TryExpr d es cs) = (if s then cs else es)"
| "branch s e = []"

fun upd_branch :: "bool \<Rightarrow> (expr list \<Rightarrow> expr list) \<Rightarrow> expr \<Rightarrow> expr" where
  "upd_branch False f (BlockExpr d es) = BlockExpr d (f es)"
| "upd_branch False f (LoopExpr d es) = LoopExpr d (f es)"
| "upd_branch s f (IfExpr d ts fs) = (if s then IfExpr d ts (f fs) else IfExpr d (f ts) fs)"
| "upd_branch s f (IfExceptExpr d v ts fs) = (if s then IfExceptExpr d v ts (f fs) else IfExceptExpr d v (f ts) fs)"
| "upd_branch s f (TryExpr d es cs) = (if s then TryExpr d es (f cs) else TryExpr d (f es) cs)"
| "upd_branch s f e = e"

fun list_at :: "path \<Rightarrow> expr list \<Rightarrow> expr list" where
  "list_at [] es = es"
| "list_at ((i, s) # p) es = list_at p (branch s (es ! i))"

fun upd_list_at :: "path \<Rightarrow> (expr list \<Rightarrow> expr list) \<Rightarrow> expr list \<Rightarrow> expr list" where
  "upd_list_at [] f es = f es"
| "upd_list_at ((i, s) # p) f es = es[i := upd_branch s (upd_list_at p f) (es ! i)]"

definition label_exprs :: "wmodule \<Rightarrow> label \<Rightarrow> expr list" where
  "label_exprs md l = list_at (label_path l) (func_exprs (funcs md ! label_func l))"

definition upd_label_exprs :: "label \<Rightarrow> (expr list \<Rightarrow> expr list) \<Rightarrow> wmodule \<Rightarrow> wmodule" where
  "upd_label_exprs l f md =
     (let fn = funcs md ! label_func l
      in md\<lparr>funcs := (funcs md)[label_func l := fn\<lparr>func_exprs := upd_list_at (label_path l) f (func_exprs fn)\<rparr>]\<rparr>)"

section \<open>Labels\<close>

definition push_label :: "label \<Rightarrow> unit rd" where
  "push_label l = rd_modify (\<lambda>st. st\<lparr>label_stack := l # label_stack st\<rparr>)"

definition pop_label :: "unit rd" where
  "pop_label st =
     (if label_stack st = [] then Inl (ReadError ''popping empty label stack'', st)
      else Inr ((), st\<lparr>label_stack := tl (label_stack st)\<rparr>))"

definition get_label_at :: "nat \<Rightarrow> label rd" where
  "get_label_at depth st =
     (if depth \<ge> length (label_stack st) then Inl (ReadError ''accessing stack depth'', st)
      else Inr (label_stack st ! depth, st))"

definition top_label :: "label rd" where
  "top_label = get_label_at 0"

text \<open>The parent label and the position of its last expression, \<open>&parent_label->exprs->back()\<close>.\<close>

definition top_label_expr :: "(label \<times> label \<times> nat) rd" where
  "top_label_expr =
     rd_bind top_label (\<lambda>l.
     rd_bind (get_label_at 1) (\<lambda>parent.
     rd_bind (rd_get (\<lambda>st. label_exprs (out_module st) parent)) (\<lambda>es.
     if es = [] then rd_fail (ReadUB ''back()'') else rd_return (l, parent, length es - 1))))"

definition append_expr :: "expr \<Rightarrow> unit rd" where
  "append_expr e = rd_bind top_label (\<lambda>l. rd_module (upd_label_exprs l (\<lambda>es. es @ [e])))"

text \<open>The list \<open>s\<close> of the expression at position \<open>i\<close> of the list of a label.\<close>

definition label_into :: "label_type \<Rightarrow> label \<Rightarrow> nat \<Rightarrow> bool \<Rightarrow> label" where
  "label_into t l i s = \<lparr>label_type = t, label_func = label_func l, label_path = label_path l @ [(i, s)]\<rparr>"

definition set_block_declaration :: "wtype \<Rightarrow> func_declaration rd" where
  "set_block_declaration sig_type =
     (if is_type_index sig_type then
        rd_bind (rd_get (\<lambda>st. func_types (out_module st))) (\<lambda>types.
        if unat sig_type < length types
        then rd_return \<lparr>has_func_type = True, type_var = sig_type, sig = types ! unat sig_type\<rparr>
        else rd_fail (ReadUB ''func_types[type_index]''))
      else case get_inline_type_vector sig_type of
        Inl e \<Rightarrow> rd_fail (ReadUB ''GetInlineTypeVector'')
      | Inr ts \<Rightarrow> rd_return \<lparr>has_func_type = False, type_var = invalid_index,
                    sig = \<lparr>param_types = [], result_types = ts\<rparr>\<rparr>)"

text \<open>An expression with a list of its own: it is appended, and its first list is the new label.\<close>

definition open_block :: "label_type \<Rightarrow> (func_declaration \<Rightarrow> expr) \<Rightarrow> wtype \<Rightarrow> unit rd" where
  "open_block t mk sig_type =
     rd_bind (set_block_declaration sig_type) (\<lambda>decl.
     rd_bind top_label (\<lambda>l.
     rd_bind (rd_get (\<lambda>st. length (label_exprs (out_module st) l))) (\<lambda>i.
     rd_bind (append_expr (mk decl)) (\<lambda>_.
     push_label (label_into t l i False)))))"

section \<open>Types, imports and definitions\<close>

definition on_type :: "wtype list \<Rightarrow> wtype list \<Rightarrow> unit rd" where
  "on_type params results = rd_module (append_func_type \<lparr>param_types = params, result_types = results\<rparr>)"

definition func_type_at :: "u32 \<Rightarrow> func_declaration rd" where
  "func_type_at sig_index =
     rd_bind (rd_get (\<lambda>st. func_types (out_module st))) (\<lambda>types.
     if unat sig_index < length types
     then rd_return \<lparr>has_func_type = True, type_var = sig_index, sig = types ! unat sig_index\<rparr>
     else rd_fail (ReadUB ''func_types[sig_index]''))"

definition on_import :: "byte list \<Rightarrow> byte list \<Rightarrow> import_desc \<Rightarrow> unit rd" where
  "on_import module_name field_name desc =
     rd_module (append_import \<lparr>import_module_name = module_name, import_field_name = field_name, import_desc = desc\<rparr>)"

definition on_import_func :: "byte list \<Rightarrow> byte list \<Rightarrow> u32 \<Rightarrow> unit rd" where
  "on_import_func module_name field_name sig_index =
     rd_bind (func_type_at sig_index) (\<lambda>d. on_import module_name field_name (FuncImport d))"

definition on_function :: "u32 \<Rightarrow> unit rd" where
  "on_function sig_index =
     rd_bind (func_type_at sig_index) (\<lambda>d.
     rd_module (append_func \<lparr>func_decl = d, func_locals = [], func_exprs = []\<rparr>))"

definition on_table :: "limits \<Rightarrow> unit rd" where
  "on_table l = rd_module (append_table l)"

definition on_memory :: "limits \<Rightarrow> unit rd" where
  "on_memory l = rd_module (append_memory l)"

definition begin_global :: "wtype \<Rightarrow> bool \<Rightarrow> unit rd" where
  "begin_global t mut = rd_module (append_global \<lparr>global_type = t, global_mutable = mut, init_expr = []\<rparr>)"

text \<open>\<open>index == size() - 1\<close>\<close>

definition is_last :: "u32 \<Rightarrow> 'a list \<Rightarrow> bool" where
  "is_last index xs \<longleftrightarrow> Suc (unat index) = length xs"

definition begin_global_init_expr :: "u32 \<Rightarrow> unit rd" where
  "begin_global_init_expr index =
     rd_bind (rd_get (\<lambda>st. is_last index (globals (out_module st)))) (\<lambda>ok.
     rd_bind (rd_assert ok ''index == globals.size() - 1'') (\<lambda>_.
     rd_modify (\<lambda>st. st\<lparr>current_init_expr := Some (InitGlobal (unat index))\<rparr>)))"

definition end_init_expr :: "unit rd" where
  "end_init_expr = rd_modify (\<lambda>st. st\<lparr>current_init_expr := None\<rparr>)"

text \<open>\<open>OnInitExpr...\<close>: the expression with the current position.\<close>

definition on_init_expr :: "expr \<Rightarrow> unit rd" where
  "on_init_expr e =
     rd_bind (rd_get current_init_expr) (\<lambda>target.
     rd_bind (rd_get offset) (\<lambda>loc.
     case target of
       None \<Rightarrow> rd_fail (ReadUB ''current_init_expr_'')
     | Some (InitGlobal i) \<Rightarrow>
         rd_module (\<lambda>md. md\<lparr>globals := (globals md)[i := (globals md ! i)\<lparr>init_expr := init_expr (globals md ! i) @ [(e, loc)]\<rparr>]\<rparr>)
     | Some (InitElem i) \<Rightarrow>
         rd_module (\<lambda>md. md\<lparr>elem_segments := (elem_segments md)[i := (elem_segments md ! i)\<lparr>elem_offset := elem_offset (elem_segments md ! i) @ [e]\<rparr>]\<rparr>)
     | Some (InitData i) \<Rightarrow>
         rd_module (\<lambda>md. md\<lparr>ir_data_segments := (ir_data_segments md)[i := (ir_data_segments md ! i)\<lparr>data_offset := data_offset (ir_data_segments md ! i) @ [e]\<rparr>]\<rparr>)))"

definition on_export :: "external_kind \<Rightarrow> u32 \<Rightarrow> byte list \<Rightarrow> unit rd" where
  "on_export kind item_index name =
     rd_bind (rd_get (\<lambda>st. case kind of
         KFunc \<Rightarrow> unat item_index < length (funcs (out_module st))
       | KTable \<Rightarrow> unat item_index < length (tables (out_module st))
       | KMemory \<Rightarrow> unat item_index < length (memories (out_module st))
       | KGlobal \<Rightarrow> unat item_index < length (globals (out_module st))
       | KExcept \<Rightarrow> True)) (\<lambda>ok.
     rd_bind (rd_assert ok ''item_index < size()'') (\<lambda>_.
     rd_module (append_export \<lparr>export_name = name, export_kind = kind, export_var = item_index\<rparr>)))"

definition on_start_function :: "u32 \<Rightarrow> unit rd" where
  "on_start_function func_index =
     rd_bind (rd_get (\<lambda>st. unat func_index < length (funcs (out_module st)))) (\<lambda>ok.
     rd_bind (rd_assert ok ''func_index < funcs.size()'') (\<lambda>_.
     rd_module (append_start func_index)))"

section \<open>Function bodies\<close>

definition on_function_body_count :: "u32 \<Rightarrow> unit rd" where
  "on_function_body_count count =
     rd_bind (rd_get (\<lambda>st. unat (num_func_imports (out_module st) + count) = length (funcs (out_module st)))) (\<lambda>ok.
     rd_assert ok ''num_func_imports + count == funcs.size()'')"

definition begin_function_body :: "u32 \<Rightarrow> unit rd" where
  "begin_function_body index =
     rd_bind (rd_get (\<lambda>st. unat index < length (funcs (out_module st)))) (\<lambda>ok.
     rd_bind (rd_assert ok ''funcs[index]'') (\<lambda>_.
     rd_bind (rd_modify (\<lambda>st. st\<lparr>current_func := Some (unat index)\<rparr>)) (\<lambda>_.
     push_label \<lparr>label_type = LFunc, label_func = unat index, label_path = []\<rparr>)))"

definition on_local_decl :: "u32 \<Rightarrow> wtype \<Rightarrow> unit rd" where
  "on_local_decl count t =
     rd_bind (rd_get current_func) (\<lambda>f.
     case f of
       None \<Rightarrow> rd_fail (ReadUB ''current_func_'')
     | Some i \<Rightarrow>
         rd_bind (rd_assert (count > 0) ''count > 0'') (\<lambda>_.
         rd_module (\<lambda>md. md\<lparr>funcs := (funcs md)[i := (funcs md ! i)\<lparr>func_locals := func_locals (funcs md ! i) @ [(t, count)]\<rparr>]\<rparr>)))"

definition end_function_body :: "unit rd" where
  "end_function_body = rd_bind pop_label (\<lambda>_. rd_modify (\<lambda>st. st\<lparr>current_func := None\<rparr>))"

text \<open>\<open>1 << alignment_log2\<close>\<close>

definition on_load_store_expr :: "load_store_type \<Rightarrow> opcode \<Rightarrow> u32 \<Rightarrow> u32 \<Rightarrow> unit rd" where
  "on_load_store_expr t op alignment_log2 off =
     rd_bind (rd_assert (alignment_log2 < 32) ''1 << alignment_log2'') (\<lambda>_.
     append_expr (LoadStoreExpr t op (push_bit (unat alignment_log2) 1) off))"

definition on_call_expr :: "u32 \<Rightarrow> unit rd" where
  "on_call_expr func_index =
     rd_bind (rd_get (\<lambda>st. unat func_index < length (funcs (out_module st)))) (\<lambda>ok.
     rd_bind (rd_assert ok ''func_index < funcs.size()'') (\<lambda>_.
     append_expr (VarExpr Call func_index)))"

definition on_call_indirect_expr :: "u32 \<Rightarrow> unit rd" where
  "on_call_indirect_expr sig_index = rd_bind (func_type_at sig_index) (\<lambda>d. append_expr (CallIndirectExpr d))"

definition on_block_expr :: "wtype \<Rightarrow> unit rd" where
  "on_block_expr = open_block LBlock (\<lambda>d. BlockExpr d [])"

definition on_loop_expr :: "wtype \<Rightarrow> unit rd" where
  "on_loop_expr = open_block LLoop (\<lambda>d. LoopExpr d [])"

definition on_if_expr :: "wtype \<Rightarrow> unit rd" where
  "on_if_expr = open_block LIf (\<lambda>d. IfExpr d [] [])"

definition on_if_except_expr :: "wtype \<Rightarrow> u32 \<Rightarrow> unit rd" where
  "on_if_except_expr sig_type except_index = open_block LIfExcept (\<lambda>d. IfExceptExpr d except_index [] []) sig_type"

definition on_try_expr :: "wtype \<Rightarrow> unit rd" where
  "on_try_expr = open_block LTry (\<lambda>d. TryExpr d [] [])"

fun is_if :: "expr \<Rightarrow> bool" where
  "is_if (IfExpr d ts fs) = True"
| "is_if e = False"

fun is_if_except :: "expr \<Rightarrow> bool" where
  "is_if_except (IfExceptExpr d v ts fs) = True"
| "is_if_except e = False"

fun is_try :: "expr \<Rightarrow> bool" where
  "is_try (TryExpr d es cs) = True"
| "is_try e = False"

fun is_block :: "expr \<Rightarrow> bool" where
  "is_block (BlockExpr d es) = True"
| "is_block e = False"

fun is_loop :: "expr \<Rightarrow> bool" where
  "is_loop (LoopExpr d es) = True"
| "is_loop e = False"

text \<open>\<open>cast\<close> of the last expression of the parent asserts its type.\<close>

definition cast_back :: "(expr \<Rightarrow> bool) \<Rightarrow> label \<Rightarrow> nat \<Rightarrow> unit rd" where
  "cast_back p parent i =
     rd_bind (rd_get (\<lambda>st. p (label_exprs (out_module st) parent ! i))) (\<lambda>ok. rd_assert ok ''cast'')"

definition replace_top :: "label \<Rightarrow> unit rd" where
  "replace_top l = rd_modify (\<lambda>st. st\<lparr>label_stack := l # tl (label_stack st)\<rparr>)"

definition on_else_expr :: "unit rd" where
  "on_else_expr =
     rd_bind top_label_expr (\<lambda>(l, parent, i).
     if label_type l = LIf then
       rd_bind (cast_back is_if parent i) (\<lambda>_. replace_top (label_into LElse parent i True))
     else if label_type l = LIfExcept then
       rd_bind (cast_back is_if_except parent i) (\<lambda>_. replace_top (label_into LIfExceptElse parent i True))
     else rd_fail (ReadError ''else expression without matching if''))"

definition on_catch_expr :: "unit rd" where
  "on_catch_expr =
     rd_bind top_label (\<lambda>l.
     if label_type l \<noteq> LTry then rd_fail (ReadError ''catch expression without matching try'')
     else
       rd_bind (get_label_at 1) (\<lambda>parent.
       rd_bind (rd_get (\<lambda>st. label_exprs (out_module st) parent)) (\<lambda>es.
       if es = [] then rd_fail (ReadUB ''back()'')
       else rd_bind (cast_back is_try parent (length es - 1)) (\<lambda>_.
            replace_top (label_into LCatch parent (length es - 1) True)))))"

fun label_expr_ok :: "label_type \<Rightarrow> expr \<Rightarrow> bool" where
  "label_expr_ok LBlock e = is_block e"
| "label_expr_ok LLoop e = is_loop e"
| "label_expr_ok LIf e = is_if e"
| "label_expr_ok LElse e = is_if e"
| "label_expr_ok LIfExcept e = is_if_except e"
| "label_expr_ok LIfExceptElse e = is_if_except e"
| "label_expr_ok LTry e = is_try e"
| "label_expr_ok LFunc e = True"
| "label_expr_ok LCatch e = True"

definition on_end_expr :: "unit rd" where
  "on_end_expr =
     rd_bind top_label_expr (\<lambda>(l, parent, i).
     rd_bind (cast_back (label_expr_ok (label_type l)) parent i) (\<lambda>_. pop_label))"

section \<open>Segments and exceptions\<close>

definition begin_elem_segment :: "u32 \<Rightarrow> unit rd" where
  "begin_elem_segment table_index =
     rd_module (append_elem_segment \<lparr>table_var = table_index, elem_offset = [], elem_vars = []\<rparr>)"

definition begin_elem_segment_init_expr :: "u32 \<Rightarrow> unit rd" where
  "begin_elem_segment_init_expr index =
     rd_bind (rd_get (\<lambda>st. is_last index (elem_segments (out_module st)))) (\<lambda>ok.
     rd_bind (rd_assert ok ''index == elem_segments.size() - 1'') (\<lambda>_.
     rd_modify (\<lambda>st. st\<lparr>current_init_expr := Some (InitElem (unat index))\<rparr>)))"

definition on_elem_segment_function_index :: "u32 \<Rightarrow> u32 \<Rightarrow> unit rd" where
  "on_elem_segment_function_index segment_index func_index =
     rd_bind (rd_get (\<lambda>st. is_last segment_index (elem_segments (out_module st)))) (\<lambda>ok.
     rd_bind (rd_assert ok ''segment_index == elem_segments.size() - 1'') (\<lambda>_.
     rd_module (\<lambda>md. let i = unat segment_index
       in md\<lparr>elem_segments := (elem_segments md)[i := (elem_segments md ! i)\<lparr>elem_vars := elem_vars (elem_segments md ! i) @ [func_index]\<rparr>]\<rparr>)))"

definition begin_data_segment :: "u32 \<Rightarrow> unit rd" where
  "begin_data_segment memory_index =
     rd_module (append_data_segment \<lparr>memory_var = memory_index, data_offset = [], data_bytes = []\<rparr>)"

definition begin_data_segment_init_expr :: "u32 \<Rightarrow> unit rd" where
  "begin_data_segment_init_expr index =
     rd_bind (rd_get (\<lambda>st. is_last index (ir_data_segments (out_module st)))) (\<lambda>ok.
     rd_bind (rd_assert ok ''index == data_segments.size() - 1'') (\<lambda>_.
     rd_modify (\<lambda>st. st\<lparr>current_init_expr := Some (InitData (unat index))\<rparr>)))"

definition on_data_segment_data :: "u32 \<Rightarrow> byte list \<Rightarrow> unit rd" where
  "on_data_segment_data index bytes =
     rd_bind (rd_get (\<lambda>st. is_last index (ir_data_segments (out_module st)))) (\<lambda>ok.
     rd_bind (rd_assert ok ''index == data_segments.size() - 1'') (\<lambda>_.
     rd_module (\<lambda>md. let i = unat index
       in md\<lparr>ir_data_segments := (ir_data_segments md)[i := (ir_data_segments md ! i)\<lparr>data_bytes := bytes\<rparr>]\<rparr>)))"

definition on_exception_type :: "wtype list \<Rightarrow> unit rd" where
  "on_exception_type s = rd_module (append_except s)"

end
