(* ===== verification/WasmReader.thy ===== *)
theory WasmReader
  imports WasmReaderIr
begin

text \<open>
  The reader of WebAssembly binaries: \<open>BinaryReader\<close> of
  \<open>tools/fractal-tools/external/wabt/src/binary-reader.cc\<close> with \<open>BinaryReaderIR\<close> as its delegate. The
  option \<open>read_debug_names\<close> is off, as in \<open>fractal-pp\<close>, so the name section is skipped like any other
  custom section it does not know. Functions of the delegate that only reserve memory or do nothing
  are left out, and so is the number of exceptions, which nothing reads.
\<close>

section \<open>Numbers, opcodes, types\<close>

text \<open>The position after an error is not used.\<close>

definition lift_read :: "(reader \<Rightarrow> string + 'a \<times> reader) \<Rightarrow> 'a rd" where
  "lift_read m st = (case m st of Inl e \<Rightarrow> Inl (ReadError e, st) | Inr r \<Rightarrow> Inr r)"

definition read_t :: "nat \<Rightarrow> string \<Rightarrow> string \<Rightarrow> 'a::len word rd" where
  "read_t n type_name desc st =
     (if offset st + n > read_end st then Inl (ReadError (''unable to read '' @ type_name @ '': '' @ desc), st)
      else Inr (le_word (take n (drop (offset st) (data st))), st\<lparr>offset := offset st + n\<rparr>))"

definition read_u8 :: "string \<Rightarrow> byte rd" where
  "read_u8 desc = read_t 1 ''uint8_t'' desc"

definition read_u32 :: "string \<Rightarrow> u32 rd" where
  "read_u32 desc = read_t 4 ''uint32_t'' desc"

definition read_f32 :: "string \<Rightarrow> u32 rd" where
  "read_f32 desc = read_t 4 ''float'' desc"

definition read_f64 :: "string \<Rightarrow> u64 rd" where
  "read_f64 desc = read_t 8 ''double'' desc"

definition read_v128 :: "string \<Rightarrow> v128 rd" where
  "read_v128 desc = read_t 16 ''v128'' desc"

definition u32_leb :: "string \<Rightarrow> u32 rd" where
  "u32_leb desc = lift_read (reader_read_u32_leb128 desc)"

definition signed_leb :: "(byte list \<Rightarrow> nat \<times> 'a option) \<Rightarrow> string \<Rightarrow> string \<Rightarrow> 'a rd" where
  "signed_leb reading message desc st =
     (case reading (left_of st) of
        (bytes_read, Some v) \<Rightarrow>
          if bytes_read > 0 then Inr (v, st\<lparr>offset := offset st + bytes_read\<rparr>)
          else Inl (ReadError (message @ desc), st)
      | (bytes_read, None) \<Rightarrow> Inl (ReadError (message @ desc), st))"

definition s32_leb :: "string \<Rightarrow> u32 rd" where
  "s32_leb desc = signed_leb read_s32_leb128 ''unable to read i32 leb128: '' desc"

definition s64_leb :: "string \<Rightarrow> u64 rd" where
  "s64_leb desc = signed_leb read_s64_leb128 ''unable to read i64 leb128: '' desc"

definition index_leb :: "string \<Rightarrow> u32 rd" where
  "index_leb desc = lift_read (read_index desc)"

definition offset_leb :: "string \<Rightarrow> u32 rd" where
  "offset_leb desc = lift_read (read_offset desc)"

definition count_leb :: "string \<Rightarrow> u32 rd" where
  "count_leb desc = lift_read (read_count desc)"

definition name_str :: "string \<Rightarrow> byte list rd" where
  "name_str desc = lift_read (read_str desc)"

definition block_bytes :: "string \<Rightarrow> byte list rd" where
  "block_bytes desc = lift_read (read_bytes desc)"

definition lift_res :: "'a res \<Rightarrow> 'a rd" where
  "lift_res r = (case r of Inl e \<Rightarrow> rd_fail (ReadUB ''assert'') | Inr x \<Rightarrow> rd_return x)"

definition read_opcode :: "string \<Rightarrow> opcode rd" where
  "read_opcode desc =
     rd_bind (read_u8 desc) (\<lambda>value.
     if is_prefix_byte (unat value) then
       rd_bind (u32_leb desc) (\<lambda>code. lift_res (from_code (unat value) (unat code)))
     else lift_res (from_code 0 (unat value)))"

definition read_type :: "string \<Rightarrow> wtype rd" where
  "read_type desc = s32_leb desc"

definition is_concrete_type :: "features \<Rightarrow> wtype \<Rightarrow> bool" where
  "is_concrete_type fs t \<longleftrightarrow> t \<in> {ty_i32, ty_i64, ty_f32, ty_f64} \<or> t = ty_v128 \<and> simd_enabled fs"

definition is_block_type :: "features \<Rightarrow> u32 \<Rightarrow> wtype \<Rightarrow> bool" where
  "is_block_type fs num_signatures t \<longleftrightarrow>
     is_concrete_type fs t \<or> t = ty_void \<or>
     multi_value_enabled fs \<and> is_type_index t \<and> t < num_signatures"

definition num_total_funcs :: "reader \<Rightarrow> u32" where
  "num_total_funcs st = r_num_func_imports st + r_num_function_signatures st"

definition num_total_tables :: "reader \<Rightarrow> u32" where
  "num_total_tables st = r_num_table_imports st + r_num_tables st"

definition num_total_memories :: "reader \<Rightarrow> u32" where
  "num_total_memories st = r_num_memory_imports st + r_num_memories st"

definition num_total_globals :: "reader \<Rightarrow> u32" where
  "num_total_globals st = r_num_global_imports st + r_num_globals st"

text \<open>The loops over a count, and the cases of a \<open>switch\<close> in their order.\<close>

primrec rd_times :: "nat \<Rightarrow> u32 \<Rightarrow> (u32 \<Rightarrow> 'a rd) \<Rightarrow> 'a list rd" where
  "rd_times 0 i body = rd_return []"
| "rd_times (Suc n) i body =
     rd_bind (body i) (\<lambda>x. rd_bind (rd_times n (i + 1) body) (\<lambda>xs. rd_return (x # xs)))"

definition rd_for :: "u32 \<Rightarrow> (u32 \<Rightarrow> 'a rd) \<Rightarrow> 'a list rd" where
  "rd_for count body = rd_times (unat count) 0 body"

fun switch :: "(bool \<times> 'a) list \<Rightarrow> 'a \<Rightarrow> 'a" where
  "switch [] d = d"
| "switch ((c, a) # cs) d = (if c then a else switch cs d)"

section \<open>Initialisers, limits, headers\<close>

definition enabled_or_unexpected :: "features \<Rightarrow> opcode \<Rightarrow> unit rd" where
  "enabled_or_unexpected fs op = error_unless (is_enabled fs op) ''unexpected opcode''"

definition expect_end :: "unit rd" where
  "expect_end =
     rd_bind (read_opcode ''opcode'') (\<lambda>op.
     error_unless (op = Op_End) ''expected END opcode after initializer expression'')"

definition read_init_expr :: "features \<Rightarrow> bool \<Rightarrow> unit rd" where
  "read_init_expr fs require_i32 =
     rd_bind (read_opcode ''opcode'') (\<lambda>op.
     let finish = \<lambda>_. rd_bind (error_unless (\<not> require_i32 \<or> op = Op_I32Const \<or> op = Op_GetGlobal) ''expected i32 init_expr'')
           (\<lambda>_. expect_end)
     in switch
       [(op = Op_I32Const, rd_bind (s32_leb ''init_expr i32.const value'') (\<lambda>v.
           rd_bind (on_init_expr (ConstExpr (CI32 v))) finish)),
        (op = Op_I64Const, rd_bind (s64_leb ''init_expr i64.const value'') (\<lambda>v.
           rd_bind (on_init_expr (ConstExpr (CI64 v))) finish)),
        (op = Op_F32Const, rd_bind (read_f32 ''init_expr f32.const value'') (\<lambda>v.
           rd_bind (on_init_expr (ConstExpr (CF32 v))) finish)),
        (op = Op_F64Const, rd_bind (read_f64 ''init_expr f64.const value'') (\<lambda>v.
           rd_bind (on_init_expr (ConstExpr (CF64 v))) finish)),
        (op = Op_V128Const, rd_bind (enabled_or_unexpected fs op) (\<lambda>_.
           rd_bind (read_v128 ''init_expr v128.const value'') (\<lambda>v.
           rd_bind (on_init_expr (ConstExpr (CV128 v))) finish))),
        (op = Op_GetGlobal, rd_bind (index_leb ''init_expr get_global index'') (\<lambda>i.
           rd_bind (on_init_expr (VarExpr GetGlobal i)) finish)),
        (op = Op_End, rd_return ())]
       (rd_fail (ReadError ''unexpected opcode in initializer expression'')))"

definition read_table :: "limits rd" where
  "read_table =
     rd_bind (read_type ''table elem type'') (\<lambda>t.
     rd_bind (error_unless (t = ty_anyfunc) ''table elem type must by anyfunc'') (\<lambda>_.
     rd_bind (u32_leb ''table flags'') (\<lambda>flags.
     rd_bind (u32_leb ''table initial elem count'') (\<lambda>init.
     let max = flags AND 1 \<noteq> 0; shared = flags AND 2 \<noteq> 0 in
     rd_bind (error_unless (\<not> shared) ''tables may not be shared'') (\<lambda>_.
     if max then
       rd_bind (u32_leb ''table max elem count'') (\<lambda>m.
       rd_bind (error_unless (init \<le> m) ''table initial elem count must be <= max elem count'') (\<lambda>_.
       rd_return \<lparr>initial = ucast init, max_limit = ucast m, has_max = True, is_shared = False\<rparr>))
     else rd_return \<lparr>initial = ucast init, max_limit = 0, has_max = False, is_shared = False\<rparr>)))))"

definition read_memory :: "limits rd" where
  "read_memory =
     rd_bind (u32_leb ''memory flags'') (\<lambda>flags.
     rd_bind (u32_leb ''memory initial page count'') (\<lambda>init.
     rd_bind (error_unless (init \<le> max_pages) ''invalid memory initial size'') (\<lambda>_.
     let max = flags AND 1 \<noteq> 0; shared = flags AND 2 \<noteq> 0 in
     rd_bind (error_unless (\<not> shared \<or> max) ''shared memory must have a max size'') (\<lambda>_.
     if max then
       rd_bind (u32_leb ''memory max page count'') (\<lambda>m.
       rd_bind (error_unless (m \<le> max_pages) ''invalid memory max size'') (\<lambda>_.
       rd_bind (error_unless (init \<le> m) ''memory initial size must be <= max size'') (\<lambda>_.
       rd_return \<lparr>initial = ucast init, max_limit = ucast m, has_max = True, is_shared = shared\<rparr>)))
     else rd_return \<lparr>initial = ucast init, max_limit = 0, has_max = False, is_shared = shared\<rparr>))))"

definition read_global_header :: "features \<Rightarrow> (wtype \<times> bool) rd" where
  "read_global_header fs =
     rd_bind (read_type ''global type'') (\<lambda>t.
     rd_bind (error_unless (is_concrete_type fs t) ''invalid global type'') (\<lambda>_.
     rd_bind (read_u8 ''global mutability'') (\<lambda>mut.
     rd_bind (error_unless (mut \<le> 1) ''global mutability must be 0 or 1'') (\<lambda>_.
     rd_return (t, mut \<noteq> 0)))))"

definition read_concrete_types :: "features \<Rightarrow> string \<Rightarrow> string \<Rightarrow> u32 \<Rightarrow> wtype list rd" where
  "read_concrete_types fs desc message count =
     rd_for count (\<lambda>_.
       rd_bind (read_type desc) (\<lambda>t.
       rd_bind (error_unless (is_concrete_type fs t) message) (\<lambda>_. rd_return t)))"

definition read_exception_type :: "features \<Rightarrow> wtype list rd" where
  "read_exception_type fs =
     rd_bind (count_leb ''exception type count'')
       (read_concrete_types fs ''exception value type'' ''excepted valid exception value type'')"

section \<open>Function bodies\<close>

definition read_block_type :: "features \<Rightarrow> string \<Rightarrow> wtype rd" where
  "read_block_type fs desc =
     rd_bind (read_type desc) (\<lambda>t.
     rd_bind (rd_get r_num_signatures) (\<lambda>n.
     rd_bind (error_unless (is_block_type fs n t) ''expected valid block signature type'') (\<lambda>_.
     rd_return t)))"

definition read_br_table :: "unit rd" where
  "read_br_table =
     rd_bind (index_leb ''br_table target count'') (\<lambda>num_targets.
     rd_bind (rd_for num_targets (\<lambda>_. index_leb ''br_table target depth'')) (\<lambda>targets.
     rd_bind (index_leb ''br_table default target depth'') (\<lambda>default_target.
     append_expr (BrTableExpr targets default_target))))"

definition read_var :: "string \<Rightarrow> var_type \<Rightarrow> unit rd" where
  "read_var desc t = rd_bind (index_leb desc) (\<lambda>i. append_expr (VarExpr t i))"

definition control_cases :: "features \<Rightarrow> opcode \<Rightarrow> (bool \<times> unit rd) list" where
  "control_cases fs op =
     [(op = Op_Unreachable, append_expr (Mixin Unreachable)),
      (op = Op_Block, rd_bind (read_block_type fs ''block signature type'') on_block_expr),
      (op = Op_Loop, rd_bind (read_block_type fs ''loop signature type'') on_loop_expr),
      (op = Op_If, rd_bind (read_block_type fs ''if signature type'') on_if_expr),
      (op = Op_Else, on_else_expr),
      (op = Op_Select, append_expr (Mixin Select)),
      (op = Op_Br, read_var ''br depth'' Br),
      (op = Op_BrIf, read_var ''br_if depth'' BrIf),
      (op = Op_BrTable, read_br_table),
      (op = Op_Return, append_expr (Mixin Return)),
      (op = Op_Nop, append_expr (Mixin Nop)),
      (op = Op_Drop, append_expr (Mixin Drop))]"

definition const_cases :: "features \<Rightarrow> opcode \<Rightarrow> (bool \<times> unit rd) list" where
  "const_cases fs op =
     [(op = Op_I32Const, rd_bind (s32_leb ''i32.const value'') (\<lambda>v. append_expr (ConstExpr (CI32 v)))),
      (op = Op_I64Const, rd_bind (s64_leb ''i64.const value'') (\<lambda>v. append_expr (ConstExpr (CI64 v)))),
      (op = Op_F32Const, rd_bind (read_f32 ''f32.const value'') (\<lambda>v. append_expr (ConstExpr (CF32 v)))),
      (op = Op_F64Const, rd_bind (read_f64 ''f64.const value'') (\<lambda>v. append_expr (ConstExpr (CF64 v)))),
      (op = Op_V128Const, rd_bind (enabled_or_unexpected fs op) (\<lambda>_.
         rd_bind (read_v128 ''v128.const value'') (\<lambda>v. append_expr (ConstExpr (CV128 v)))))]"

definition read_call :: "unit rd" where
  "read_call =
     rd_bind (index_leb ''call function index'') (\<lambda>i.
     rd_bind (rd_get num_total_funcs) (\<lambda>n.
     rd_bind (error_unless (i < n) ''invalid call function index'') (\<lambda>_. on_call_expr i)))"

definition read_call_indirect :: "unit rd" where
  "read_call_indirect =
     rd_bind (index_leb ''call_indirect signature index'') (\<lambda>i.
     rd_bind (rd_get r_num_signatures) (\<lambda>n.
     rd_bind (error_unless (i < n) ''invalid call_indirect signature index'') (\<lambda>_.
     rd_bind (u32_leb ''call_indirect reserved'') (\<lambda>reserved.
     rd_bind (error_unless (reserved = 0) ''call_indirect reserved value must be 0'') (\<lambda>_.
     on_call_indirect_expr i)))))"

definition variable_cases :: "opcode \<Rightarrow> (bool \<times> unit rd) list" where
  "variable_cases op =
     [(op = Op_GetGlobal, read_var ''get_global global index'' GetGlobal),
      (op = Op_GetLocal, read_var ''get_local local index'' GetLocal),
      (op = Op_SetGlobal, read_var ''set_global global index'' SetGlobal),
      (op = Op_SetLocal, read_var ''set_local local index'' SetLocal),
      (op = Op_Call, read_call),
      (op = Op_CallIndirect, read_call_indirect),
      (op = Op_TeeLocal, read_var ''tee_local local index'' TeeLocal)]"

definition read_load_store :: "load_store_type \<Rightarrow> opcode \<Rightarrow> string \<Rightarrow> unit rd" where
  "read_load_store t op what =
     rd_bind (u32_leb (what @ '' alignment'')) (\<lambda>alignment_log2.
     rd_bind (u32_leb (what @ '' offset'')) (\<lambda>off. on_load_store_expr t op alignment_log2 off))"

definition read_reserved :: "string \<Rightarrow> mixin_type \<Rightarrow> unit rd" where
  "read_reserved desc m =
     rd_bind (u32_leb desc) (\<lambda>reserved.
     rd_bind (error_unless (reserved = 0) (desc @ '' value must be 0'')) (\<lambda>_. append_expr (Mixin m)))"

definition is_load :: "opcode \<Rightarrow> bool" where
  "is_load op \<longleftrightarrow> in_run op 0 0x28 0x35 \<or> in_run op 0xfd 0x01 0x01"

definition is_store :: "opcode \<Rightarrow> bool" where
  "is_store op \<longleftrightarrow> in_run op 0 0x36 0x3e \<or> in_run op 0xfd 0x02 0x02"

definition memory_cases :: "opcode \<Rightarrow> (bool \<times> unit rd) list" where
  "memory_cases op =
     [(is_load op, read_load_store Load op ''load''),
      (is_store op, read_load_store Store op ''store''),
      (op = Op_MemorySize, read_reserved ''memory.size reserved'' MemorySize),
      (op = Op_MemoryGrow, read_reserved ''memory.grow reserved'' MemoryGrow)]"

text \<open>The opcodes of the cases with one body, as runs of the table.\<close>

definition is_binary :: "opcode \<Rightarrow> bool" where
  "is_binary op \<longleftrightarrow> in_run op 0 0x6a 0x78 \<or> in_run op 0 0x7c 0x8a \<or> in_run op 0 0x92 0x98 \<or>
     in_run op 0 0xa0 0xa6 \<or> in_run op 0xfd 0x18 0x22 \<or> in_run op 0xfd 0x27 0x3d \<or> in_run op 0xfd 0x76 0x81"

definition is_compare :: "opcode \<Rightarrow> bool" where
  "is_compare op \<longleftrightarrow> in_run op 0 0x46 0x4f \<or> in_run op 0 0x51 0x66 \<or> in_run op 0xfd 0x48 0x71"

definition is_unary :: "opcode \<Rightarrow> bool" where
  "is_unary op \<longleftrightarrow> in_run op 0 0x67 0x69 \<or> in_run op 0 0x79 0x7b \<or> in_run op 0 0x8b 0x91 \<or>
     in_run op 0 0x99 0x9f \<or> in_run op 0xfd 0x03 0x08 \<or> in_run op 0xfd 0x23 0x26 \<or> in_run op 0xfd 0x3e 0x3e \<or>
     in_run op 0xfd 0x40 0x47 \<or> in_run op 0xfd 0x72 0x75 \<or> in_run op 0xfd 0x82 0x83"

definition is_ternary :: "opcode \<Rightarrow> bool" where
  "is_ternary op \<longleftrightarrow> in_run op 0xfd 0x3f 0x3f"

definition is_lane_op :: "opcode \<Rightarrow> bool" where
  "is_lane_op op \<longleftrightarrow> in_run op 0xfd 0x09 0x16"

definition is_convert :: "opcode \<Rightarrow> bool" where
  "is_convert op \<longleftrightarrow> in_run op 0 0x45 0x45 \<or> in_run op 0 0x50 0x50 \<or> in_run op 0 0xa7 0xbf \<or> in_run op 0xfd 0x84 0x8b"

definition is_extend :: "opcode \<Rightarrow> bool" where
  "is_extend op \<longleftrightarrow> in_run op 0 0xc0 0xc4"

definition is_saturating :: "opcode \<Rightarrow> bool" where
  "is_saturating op \<longleftrightarrow> in_run op 0xfc 0x00 0x07"

definition read_plain :: "features \<Rightarrow> opcode_type \<Rightarrow> opcode \<Rightarrow> unit rd" where
  "read_plain fs t op = rd_bind (enabled_or_unexpected fs op) (\<lambda>_. append_expr (OpcodeExpr t op))"

definition numeric_cases :: "features \<Rightarrow> opcode \<Rightarrow> (bool \<times> unit rd) list" where
  "numeric_cases fs op =
     [(is_binary op, read_plain fs Binary op),
      (is_compare op, read_plain fs Compare op),
      (is_unary op, read_plain fs Unary op),
      (is_ternary op, read_plain fs Ternary op),
      (is_lane_op op, rd_bind (enabled_or_unexpected fs op) (\<lambda>_.
         rd_bind (read_u8 ''Lane idx'') (\<lambda>v. append_expr (SimdLaneOpExpr op (ucast v))))),
      (op = Op_V8X16Shuffle, rd_bind (enabled_or_unexpected fs op) (\<lambda>_.
         rd_bind (read_v128 ''Lane idx [16]'') (\<lambda>v. append_expr (SimdShuffleOpExpr op v)))),
      (is_convert op, read_plain fs Convert op)]"

definition exception_cases :: "features \<Rightarrow> opcode \<Rightarrow> (bool \<times> unit rd) list" where
  "exception_cases fs op =
     [(op = Op_Try, rd_bind (enabled_or_unexpected fs op) (\<lambda>_.
         rd_bind (read_block_type fs ''try signature type'') on_try_expr)),
      (op = Op_Catch, rd_bind (enabled_or_unexpected fs op) (\<lambda>_. on_catch_expr)),
      (op = Op_Rethrow, rd_bind (enabled_or_unexpected fs op) (\<lambda>_. append_expr (Mixin Rethrow))),
      (op = Op_Throw, rd_bind (enabled_or_unexpected fs op) (\<lambda>_. read_var ''exception index'' Throw)),
      (op = Op_IfExcept, rd_bind (enabled_or_unexpected fs op) (\<lambda>_.
         rd_bind (read_block_type fs ''if signature type'') (\<lambda>t.
         rd_bind (index_leb ''exception index'') (\<lambda>i. on_if_except_expr t i)))),
      (is_extend op, read_plain fs Unary op),
      (is_saturating op, read_plain fs Convert op)]"

definition thread_cases :: "opcode \<Rightarrow> (bool \<times> unit rd) list" where
  "thread_cases op =
     [(in_run op 0xfe 0x00 0x00, read_load_store AtomicWake op ''load''),
      (in_run op 0xfe 0x01 0x02, read_load_store AtomicWait op ''load''),
      (in_run op 0xfe 0x10 0x16, read_load_store AtomicLoad op ''load''),
      (in_run op 0xfe 0x17 0x1d, read_load_store AtomicStore op ''store''),
      (in_run op 0xfe 0x1e 0x47, read_load_store AtomicRmw op ''memory''),
      (in_run op 0xfe 0x48 0x4e, read_load_store AtomicRmwCmpxchg op ''memory'')]"

definition read_operands :: "features \<Rightarrow> opcode \<Rightarrow> unit rd" where
  "read_operands fs op =
     switch (control_cases fs op @ const_cases fs op @ variable_cases op @ memory_cases op @
         numeric_cases fs op @ exception_cases fs op @ thread_cases op)
       (rd_fail (ReadError ''unexpected opcode''))"

text \<open>One round of the loop over a body; the result says whether the last \<open>end\<close> was seen.\<close>

definition read_instruction :: "features \<Rightarrow> nat \<Rightarrow> bool rd" where
  "read_instruction fs end_offset =
     rd_bind (read_opcode ''opcode'') (\<lambda>op.
     if op = Op_End then
       rd_bind (rd_get offset) (\<lambda>off.
       if off = end_offset then rd_return True
       else rd_bind on_end_expr (\<lambda>_. rd_return False))
     else rd_bind (read_operands fs op) (\<lambda>_. rd_return False))"

section \<open>Reading goes forward\<close>

text \<open>What the loops need to end: an operation moves the position forward and touches neither the
  bytes nor the end of the section.\<close>

named_theorems forth_intros \<open>operations that only move forward\<close>

definition forth :: "'a rd \<Rightarrow> bool" where
  "forth m \<longleftrightarrow> (\<forall>st x st'. m st = Inr (x, st') \<longrightarrow>
     offset st \<le> offset st' \<and> data st' = data st \<and> read_end st' = read_end st)"

definition advances :: "'a rd \<Rightarrow> bool" where
  "advances m \<longleftrightarrow> forth m \<and> (\<forall>st x st'. m st = Inr (x, st') \<longrightarrow> offset st < offset st')"

lemma forthI: "advances m \<Longrightarrow> forth m"
  by (simp add: advances_def)

lemma forth_return [forth_intros]: "forth (rd_return x)"
  by (simp add: forth_def rd_return_def)

lemma forth_fail [forth_intros]: "forth (rd_fail e)"
  by (simp add: forth_def rd_fail_def)

lemma forth_get [forth_intros]: "forth (rd_get f)"
  by (simp add: forth_def rd_get_def)

lemma forth_bind [forth_intros]: "forth m \<Longrightarrow> (\<And>x. forth (k x)) \<Longrightarrow> forth (rd_bind m k)"
  by (fastforce simp: forth_def rd_bind_def split: sum.splits)

lemma advances_bind: "advances m \<Longrightarrow> (\<And>x. forth (k x)) \<Longrightarrow> advances (rd_bind m k)"
  by (fastforce simp: advances_def forth_def rd_bind_def split: sum.splits)

lemma advances_bind2: "forth m \<Longrightarrow> (\<And>x. advances (k x)) \<Longrightarrow> advances (rd_bind m k)"
  by (fastforce simp: advances_def forth_def rd_bind_def split: sum.splits)

lemma forth_if [forth_intros]: "(c \<Longrightarrow> forth m) \<Longrightarrow> (\<not> c \<Longrightarrow> forth n) \<Longrightarrow> forth (if c then m else n)"
  by simp

lemma forth_error_unless [forth_intros]: "forth (error_unless c e)"
  by (simp add: error_unless_def forth_return forth_fail)

lemma forth_rd_assert [forth_intros]: "forth (rd_assert c e)"
  by (simp add: rd_assert_def forth_return forth_fail)

lemma forth_rd_module [forth_intros]: "forth (rd_module f)"
  by (simp add: forth_def rd_module_def rd_modify_def)

lemma forth_switch [forth_intros]:
  "forth d \<Longrightarrow> forth (switch [] d)"
  "forth a \<Longrightarrow> forth (switch cs d) \<Longrightarrow> forth (switch ((c, a) # cs) d)"
  by simp_all

lemma forth_rd_times [forth_intros]: "(\<And>i. forth (body i)) \<Longrightarrow> forth (rd_times n i body)"
  by (induction n arbitrary: i) (auto intro!: forth_intros)

lemma forth_rd_for [forth_intros]: "(\<And>i. forth (body i)) \<Longrightarrow> forth (rd_for n body)"
  by (simp add: rd_for_def forth_rd_times)

lemma forth_lift_res [forth_intros]: "forth (lift_res r)"
  by (simp add: lift_res_def forth_return forth_fail split: sum.split)

lemma advances_read_t: "0 < n \<Longrightarrow> advances (read_t n a b)"
  by (auto simp: advances_def forth_def read_t_def split: if_splits)

lemma advances_prims:
  "advances (read_u8 d)" "advances (read_u32 d)" "advances (read_f32 d)" "advances (read_f64 d)" "advances (read_v128 d)"
  by (simp_all add: read_u8_def read_u32_def read_f32_def read_f64_def read_v128_def advances_read_t)

lemmas forth_prims [forth_intros] = advances_prims [THEN forthI]

lemma reader_read_u32_forth:
  "reader_read_u32_leb128 d st = Inr (v, st') \<Longrightarrow> offset st < offset st' \<and> data st' = data st \<and> read_end st' = read_end st"
  by (auto simp: reader_read_u32_leb128_def split: prod.splits if_splits option.splits)

lemma read_block_forth:
  "read_block a b c st = Inr (v, st') \<Longrightarrow> offset st < offset st' \<and> data st' = data st \<and> read_end st' = read_end st"
  using reader_read_u32_forth [of a st] by (fastforce simp: read_block_def split: sum.splits if_splits)

lemma advances_lift: "(\<And>st v st'. m st = Inr (v, st') \<Longrightarrow> offset st < offset st' \<and> data st' = data st \<and> read_end st' = read_end st) \<Longrightarrow>
   advances (lift_read m)"
  by (fastforce simp: advances_def forth_def lift_read_def split: sum.splits)

lemma advances_lebs:
  "advances (u32_leb d)" "advances (index_leb d)" "advances (offset_leb d)" "advances (count_leb d)"
  "advances (name_str d)" "advances (block_bytes d)"
proof -
  show "advances (u32_leb d)" "advances (index_leb d)" "advances (offset_leb d)"
    unfolding u32_leb_def index_leb_def offset_leb_def read_index_def read_offset_def
    by (rule advances_lift, erule reader_read_u32_forth)+
  show "advances (count_leb d)" unfolding count_leb_def
    by (rule advances_lift) (auto simp: read_count_def read_index_def Let_def dest: reader_read_u32_forth split: sum.splits if_splits)
  show "advances (name_str d)" unfolding name_str_def
    by (rule advances_lift) (auto simp: read_str_def dest: read_block_forth split: sum.splits if_splits)
  show "advances (block_bytes d)" unfolding block_bytes_def read_bytes_def
    by (rule advances_lift) (rule read_block_forth)
qed

lemmas forth_lebs [forth_intros] = advances_lebs [THEN forthI]

lemma advances_signed: "advances (s32_leb d)" "advances (s64_leb d)" "advances (read_type d)"
  by (auto simp: s32_leb_def s64_leb_def read_type_def signed_leb_def advances_def forth_def
      split: prod.splits option.splits if_splits)

lemmas forth_signed [forth_intros] = advances_signed [THEN forthI]

lemma advances_read_opcode: "advances (read_opcode d)"
  unfolding read_opcode_def by (rule advances_bind [OF advances_prims(1)]) (intro forth_intros)

lemmas forth_read_opcode [forth_intros] = advances_read_opcode [THEN forthI]

text \<open>Functions of the delegate do not move at all.\<close>

lemma forth_labels [forth_intros]:
  "forth (push_label l)" "forth pop_label" "forth (get_label_at n)" "forth (replace_top l)" "forth end_init_expr"
  by (auto simp: forth_def push_label_def pop_label_def get_label_at_def replace_top_def rd_modify_def end_init_expr_def)

lemma forth_modify: "(\<And>st. offset (f st) = offset st \<and> data (f st) = data st \<and> read_end (f st) = read_end st) \<Longrightarrow> forth (rd_modify f)"
  by (auto simp: forth_def rd_modify_def)

lemmas delegate_defs = append_expr_def top_label_def top_label_expr_def open_block_def set_block_declaration_def
  func_type_at_def on_call_expr_def on_call_indirect_expr_def on_load_store_expr_def on_block_expr_def
  on_loop_expr_def on_if_expr_def on_if_except_expr_def on_try_expr_def cast_back_def on_else_expr_def
  on_catch_expr_def on_end_expr_def

lemma forth_append_expr [forth_intros]: "forth (append_expr e)"
  unfolding append_expr_def top_label_def by (intro forth_intros)

lemma forth_set_block [forth_intros]: "forth (set_block_declaration t)"
  unfolding set_block_declaration_def by (auto intro!: forth_intros split: sum.split)

lemma forth_open_block [forth_intros]: "forth (open_block t mk s)"
  unfolding open_block_def top_label_def by (intro forth_intros)

lemma forth_top_label_expr [forth_intros]: "forth top_label_expr"
  unfolding top_label_expr_def top_label_def by (intro forth_intros)

lemma forth_cast_back [forth_intros]: "forth (cast_back p l i)"
  unfolding cast_back_def by (intro forth_intros)

lemma forth_split [forth_intros]: "(\<And>a b c. forth (f a b c)) \<Longrightarrow> forth (case x of (a, b, c) \<Rightarrow> f a b c)"
  by (cases x) simp

lemma forth_blocks [forth_intros]:
  "forth (on_block_expr t)" "forth (on_loop_expr t)" "forth (on_if_expr t)" "forth (on_if_except_expr t v)"
  "forth (on_try_expr t)"
  unfolding on_block_expr_def on_loop_expr_def on_if_expr_def on_if_except_expr_def on_try_expr_def
  by (intro forth_intros)+

lemma forth_ends [forth_intros]: "forth on_else_expr" "forth on_catch_expr" "forth on_end_expr"
  unfolding on_else_expr_def on_catch_expr_def on_end_expr_def top_label_def
  by (intro forth_intros)+

lemma forth_func_type_at [forth_intros]: "forth (func_type_at i)"
  unfolding func_type_at_def by (intro forth_intros)

lemma forth_calls [forth_intros]:
  "forth (on_call_expr i)" "forth (on_call_indirect_expr i)" "forth (on_load_store_expr t op a i)"
  unfolding on_call_expr_def on_call_indirect_expr_def on_load_store_expr_def by (intro forth_intros)+

lemma forth_operands [forth_intros]: "forth (read_operands fs op)"
  unfolding read_operands_def control_cases_def const_cases_def variable_cases_def memory_cases_def
    numeric_cases_def exception_cases_def thread_cases_def read_block_type_def read_br_table_def read_var_def
    read_call_def read_call_indirect_def read_load_store_def read_reserved_def read_plain_def
    enabled_or_unexpected_def append_Cons append_Nil
  by (intro forth_intros)

lemma advances_read_instruction: "advances (read_instruction fs stop)"
  unfolding read_instruction_def by (rule advances_bind [OF advances_read_opcode]) (intro forth_intros)

lemmas forth_read_instruction [forth_intros] = advances_read_instruction [THEN forthI]

section \<open>The loop over a function body\<close>

function read_body_loop :: "features \<Rightarrow> nat \<Rightarrow> bool \<Rightarrow> bool rd" where
  "read_body_loop fs end_offset seen_end st =
     (if offset st < end_offset then
        case read_instruction fs end_offset st of
          Inl e \<Rightarrow> Inl e
        | Inr (seen, st) \<Rightarrow> read_body_loop fs end_offset (seen_end \<or> seen) st
      else Inr (seen_end, st))"
  by pat_completeness auto

termination
proof (relation "measure (\<lambda>(fs, stop, s, st). stop - offset st)")
  fix fs stop s st y x st'
  assume "offset st < stop" "read_instruction fs stop st = Inr y" "(x, st') = y"
  then have "offset st < offset st'"
    using advances_read_instruction [of fs stop] by (auto simp: advances_def)
  then show "((fs, stop, s \<or> x, st'), fs, stop, s, st) \<in> measure (\<lambda>(fs, stop, s, st). stop - offset st)"
    using \<open>offset st < stop\<close> by simp
qed simp

declare read_body_loop.simps [simp del]

definition read_function_body :: "features \<Rightarrow> nat \<Rightarrow> unit rd" where
  "read_function_body fs end_offset =
     rd_bind (read_body_loop fs end_offset False) (\<lambda>seen_end.
     rd_bind (rd_get offset) (\<lambda>off.
     rd_bind (error_unless (off = end_offset) ''function body longer than given size'') (\<lambda>_.
     error_unless seen_end ''function body must end with END opcode'')))"

end
