(* ===== verification/WasmSections.thy ===== *)
theory WasmSections
  imports WasmReader
begin

text \<open>
  The sections of a WebAssembly binary and the reader as a whole: the second half of
  \<open>tools/fractal-tools/external/wabt/src/binary-reader.cc\<close>, and \<open>ReadBinaryIr\<close>.
\<close>

section \<open>Custom sections\<close>

definition rd_skip :: "'a rd \<Rightarrow> unit rd" where
  "rd_skip m = rd_bind m (\<lambda>_. rd_return ())"

text \<open>Relocations with these types have an addend.\<close>

definition has_addend :: "u32 \<Rightarrow> bool" where
  "has_addend reloc_type \<longleftrightarrow> reloc_type \<in> {3, 4, 5, 8, 9}"

definition read_reloc_section :: "unit rd" where
  "read_reloc_section =
     rd_bind (u32_leb ''section index'') (\<lambda>section_index.
     rd_bind (count_leb ''relocation count'') (\<lambda>num_relocs.
     rd_skip (rd_for num_relocs (\<lambda>i.
       rd_bind (u32_leb ''relocation type'') (\<lambda>reloc_type.
       rd_bind (offset_leb ''offset'') (\<lambda>off.
       rd_bind (index_leb ''index'') (\<lambda>index.
       if has_addend reloc_type then rd_skip (s32_leb ''addend'') else rd_return ())))))))"

text \<open>\<open>SymbolType\<close> is 0 for functions, 1 for data, 2 for globals and 3 for sections; the flag
  \<open>WABT_SYMBOL_FLAG_UNDEFINED\<close> is 0x10.\<close>

definition read_symbol :: "unit rd" where
  "read_symbol =
     rd_bind (u32_leb ''sym type'') (\<lambda>kind.
     rd_bind (u32_leb ''sym flags'') (\<lambda>flags.
     let is_defined = flags AND 0x10 = 0 in
     if kind = 0 \<or> kind = 2 then
       rd_bind (u32_leb ''index'') (\<lambda>index.
       if is_defined then rd_skip (name_str ''symbol name'') else rd_return ())
     else if kind = 1 then
       rd_bind (name_str ''symbol name'') (\<lambda>name.
       if is_defined then
         rd_bind (u32_leb ''segment'') (\<lambda>segment.
         rd_bind (u32_leb ''offset'') (\<lambda>off. rd_skip (u32_leb ''size'')))
       else rd_return ())
     else if kind = 3 then rd_skip (u32_leb ''index'')
     else rd_return ()))"

definition read_segment_info :: "unit rd" where
  "read_segment_info =
     rd_bind (name_str ''segment name'') (\<lambda>name.
     rd_bind (u32_leb ''segment alignment'') (\<lambda>alignment. rd_skip (u32_leb ''segment flags'')))"

definition read_init_function :: "unit rd" where
  "read_init_function = rd_bind (u32_leb ''priority'') (\<lambda>priority. rd_skip (u32_leb ''function index''))"

definition skip_to :: "nat \<Rightarrow> unit rd" where
  "skip_to off = rd_modify (\<lambda>st. st\<lparr>offset := off\<rparr>)"

text \<open>A part of a section with its own end, at which it has to stop.\<close>

definition within :: "nat \<Rightarrow> unit rd \<Rightarrow> unit rd" where
  "within subsection_end m st =
     (let saved = read_end st in
      case m (st\<lparr>read_end := subsection_end\<rparr>) of
        Inl e \<Rightarrow> Inl e
      | Inr (x, st) \<Rightarrow>
          if offset st = subsection_end then Inr ((), st\<lparr>read_end := saved\<rparr>)
          else Inl (ReadError ''unfinished sub-section'', st\<lparr>read_end := saved\<rparr>))"

definition linking_subsection :: "u32 \<Rightarrow> nat \<Rightarrow> unit rd" where
  "linking_subsection linking_type subsection_end =
     (if linking_type = 8 then rd_bind (u32_leb ''sym count'') (\<lambda>count. rd_skip (rd_for count (\<lambda>i. read_symbol)))
      else if linking_type = 5 then rd_bind (u32_leb ''info count'') (\<lambda>count. rd_skip (rd_for count (\<lambda>i. read_segment_info)))
      else if linking_type = 6 then rd_bind (u32_leb ''info count'') (\<lambda>count. rd_skip (rd_for count (\<lambda>i. read_init_function)))
      else skip_to subsection_end)"

definition read_linking_subsection :: "unit rd" where
  "read_linking_subsection =
     rd_bind (u32_leb ''type'') (\<lambda>linking_type.
     rd_bind (offset_leb ''subsection size'') (\<lambda>subsection_size.
     rd_bind (rd_get (\<lambda>st. offset st + unat subsection_size)) (\<lambda>subsection_end.
     rd_bind (rd_get read_end) (\<lambda>stop.
     rd_bind (error_unless (subsection_end \<le> stop) ''invalid sub-section size: extends past end'') (\<lambda>_.
     within subsection_end (linking_subsection linking_type subsection_end))))))"

text \<open>A round of the loop ends behind where it began.\<close>

lemma within_end: "within n m st = Inr (x, st') \<Longrightarrow> offset st' = n \<and> read_end st' = read_end st"
  by (auto simp: within_def Let_def split: sum.splits if_splits)

lemma linking_subsection_advances:
  assumes "read_linking_subsection st = Inr (x, st')"
  shows "offset st < offset st' \<and> read_end st' = read_end st"
proof -
  obtain t st1 where 1: "u32_leb ''type'' st = Inr (t, st1)"
    using assms by (auto simp: read_linking_subsection_def rd_bind_def split: sum.splits)
  then obtain n st2 where 2: "offset_leb ''subsection size'' st1 = Inr (n, st2)"
    using assms by (auto simp: read_linking_subsection_def rd_bind_def split: sum.splits)
  have "offset st < offset st1" "read_end st1 = read_end st" "offset st1 < offset st2" "read_end st2 = read_end st1"
    using 1 2 advances_lebs(1) [of "''type''"] advances_lebs(3) [of "''subsection size''"]
    by (auto simp: advances_def forth_def)
  moreover have "within (offset st2 + unat n) (linking_subsection t (offset st2 + unat n)) st2 = Inr (x, st')"
    using assms 1 2 by (auto simp: read_linking_subsection_def rd_bind_def rd_get_def error_unless_def rd_return_def rd_fail_def
        split: if_splits)
  ultimately show ?thesis using within_end by fastforce
qed

function linking_loop :: "unit rd" where
  "linking_loop st =
     (if offset st < read_end st then
        case read_linking_subsection st of Inl e \<Rightarrow> Inl e | Inr (x, st) \<Rightarrow> linking_loop st
      else Inr ((), st))"
  by pat_completeness auto

termination
proof (relation "measure (\<lambda>st. read_end st - offset st)")
  fix st :: reader and y x st'
  assume "offset st < read_end st" "read_linking_subsection st = Inr y" "(x, st') = y"
  then show "(st', st) \<in> measure (\<lambda>st. read_end st - offset st)"
    using linking_subsection_advances [of st x st'] by auto
qed simp

declare linking_loop.simps [simp del]

definition read_linking_section :: "unit rd" where
  "read_linking_section =
     rd_bind (u32_leb ''version'') (\<lambda>version.
     rd_bind (error_unless (version = 1) ''invalid linking metadata version'') (\<lambda>_. linking_loop))"

definition read_exception_section :: "features \<Rightarrow> unit rd" where
  "read_exception_section fs =
     rd_bind (count_leb ''exception count'') (\<lambda>num_exceptions.
     rd_skip (rd_for num_exceptions (\<lambda>i. rd_bind (read_exception_type fs) on_exception_type)))"

definition custom_name :: "string \<Rightarrow> byte list" where
  "custom_name s = map of_char s"

definition read_custom_section :: "features \<Rightarrow> unit rd" where
  "read_custom_section fs =
     rd_bind (name_str ''section name'') (\<lambda>section_name.
     if take 5 section_name = custom_name ''reloc'' then read_reloc_section
     else if section_name = custom_name ''linking'' then read_linking_section
     else if exceptions_enabled fs \<and> section_name = custom_name ''exception'' then read_exception_section fs
     else rd_bind (rd_get read_end) skip_to)"

section \<open>Known sections\<close>

definition read_signature :: "features \<Rightarrow> unit rd" where
  "read_signature fs =
     rd_bind (read_type ''type form'') (\<lambda>form.
     rd_bind (error_unless (form = ty_func) ''unexpected type form'') (\<lambda>_.
     rd_bind (count_leb ''function param count'') (\<lambda>num_params.
     rd_bind (read_concrete_types fs ''function param type'' ''expected valid param type'' num_params) (\<lambda>params.
     rd_bind (count_leb ''function result count'') (\<lambda>num_results.
     rd_bind (error_unless (num_results \<le> 1 \<or> multi_value_enabled fs) ''result count must be 0 or 1'') (\<lambda>_.
     rd_bind (read_concrete_types fs ''function result type'' ''expected valid result type'' num_results) (\<lambda>results.
     on_type params results)))))))"

definition read_type_section :: "features \<Rightarrow> unit rd" where
  "read_type_section fs =
     rd_bind (count_leb ''type count'') (\<lambda>n.
     rd_bind (rd_modify (\<lambda>st. st\<lparr>r_num_signatures := n\<rparr>)) (\<lambda>_.
     rd_skip (rd_for n (\<lambda>i. read_signature fs))))"

text \<open>A kind that is none of the five has no case in the \<open>switch\<close>.\<close>

definition import_cases :: "features \<Rightarrow> byte list \<Rightarrow> byte list \<Rightarrow> byte \<Rightarrow> (bool \<times> unit rd) list" where
  "import_cases fs module_name field_name kind =
       [(kind = 0,
           rd_bind (index_leb ''import signature index'') (\<lambda>sig_index.
           rd_bind (rd_get r_num_signatures) (\<lambda>n.
           rd_bind (error_unless (sig_index < n) ''invalid import signature index'') (\<lambda>_.
           rd_bind (on_import_func module_name field_name sig_index) (\<lambda>_.
           rd_modify (\<lambda>st. st\<lparr>r_num_func_imports := r_num_func_imports st + 1\<rparr>)))))),
        (kind = 1,
           rd_bind read_table (\<lambda>l.
           rd_bind (on_import module_name field_name (TableImport l)) (\<lambda>_.
           rd_modify (\<lambda>st. st\<lparr>r_num_table_imports := r_num_table_imports st + 1\<rparr>)))),
        (kind = 2,
           rd_bind read_memory (\<lambda>l.
           rd_bind (on_import module_name field_name (MemoryImport l)) (\<lambda>_.
           rd_modify (\<lambda>st. st\<lparr>r_num_memory_imports := r_num_memory_imports st + 1\<rparr>)))),
        (kind = 3,
           rd_bind (read_global_header fs) (\<lambda>(t, mut).
           rd_bind (on_import module_name field_name (GlobalImport t mut)) (\<lambda>_.
           rd_modify (\<lambda>st. st\<lparr>r_num_global_imports := r_num_global_imports st + 1\<rparr>)))),
        (kind = 4,
           rd_bind (error_unless (exceptions_enabled fs) ''invalid import exception kind: exceptions not allowed'') (\<lambda>_.
           rd_bind (read_exception_type fs) (\<lambda>s.
           rd_bind (on_import module_name field_name (ExceptionImport s)) (\<lambda>_.
           rd_modify (\<lambda>st. st\<lparr>r_num_exception_imports := r_num_exception_imports st + 1\<rparr>)))))]"

definition read_import :: "features \<Rightarrow> unit rd" where
  "read_import fs =
     rd_bind (name_str ''import module name'') (\<lambda>module_name.
     rd_bind (name_str ''import field name'') (\<lambda>field_name.
     rd_bind (read_u8 ''import kind'') (\<lambda>kind.
     switch (import_cases fs module_name field_name kind) (rd_return ()))))"

definition read_import_section :: "features \<Rightarrow> unit rd" where
  "read_import_section fs =
     rd_bind (count_leb ''import count'') (\<lambda>n. rd_skip (rd_for n (\<lambda>i. read_import fs)))"

definition read_function_section :: "unit rd" where
  "read_function_section =
     rd_bind (count_leb ''function signature count'') (\<lambda>n.
     rd_bind (rd_modify (\<lambda>st. st\<lparr>r_num_function_signatures := n\<rparr>)) (\<lambda>_.
     rd_skip (rd_for n (\<lambda>i.
       rd_bind (index_leb ''function signature index'') (\<lambda>sig_index.
       rd_bind (rd_get r_num_signatures) (\<lambda>m.
       rd_bind (error_unless (sig_index < m) ''invalid function signature index'') (\<lambda>_.
       on_function sig_index)))))))"

definition read_table_section :: "unit rd" where
  "read_table_section =
     rd_bind (count_leb ''table count'') (\<lambda>n.
     rd_bind (rd_modify (\<lambda>st. st\<lparr>r_num_tables := n\<rparr>)) (\<lambda>_.
     rd_bind (error_unless (n \<le> 1) ''table count must be 0 or 1'') (\<lambda>_.
     rd_skip (rd_for n (\<lambda>i. rd_bind read_table on_table)))))"

definition read_memory_section :: "unit rd" where
  "read_memory_section =
     rd_bind (count_leb ''memory count'') (\<lambda>n.
     rd_bind (rd_modify (\<lambda>st. st\<lparr>r_num_memories := n\<rparr>)) (\<lambda>_.
     rd_bind (error_unless (n \<le> 1) ''memory count must be 0 or 1'') (\<lambda>_.
     rd_skip (rd_for n (\<lambda>i. rd_bind read_memory on_memory)))))"

definition read_global :: "features \<Rightarrow> u32 \<Rightarrow> unit rd" where
  "read_global fs i =
     rd_bind (rd_get (\<lambda>st. r_num_global_imports st + i)) (\<lambda>global_index.
     rd_bind (read_global_header fs) (\<lambda>(t, mut).
     rd_bind (begin_global t mut) (\<lambda>_.
     rd_bind (begin_global_init_expr global_index) (\<lambda>_.
     rd_bind (read_init_expr fs False) (\<lambda>_. end_init_expr)))))"

definition read_global_section :: "features \<Rightarrow> unit rd" where
  "read_global_section fs =
     rd_bind (count_leb ''global count'') (\<lambda>n.
     rd_bind (rd_modify (\<lambda>st. st\<lparr>r_num_globals := n\<rparr>)) (\<lambda>_.
     rd_skip (rd_for n (read_global fs))))"

definition check_export :: "features \<Rightarrow> external_kind \<Rightarrow> u32 \<Rightarrow> unit rd" where
  "check_export fs kind item_index =
     rd_bind (rd_get (\<lambda>st. case kind of
         KFunc \<Rightarrow> item_index < num_total_funcs st
       | KTable \<Rightarrow> item_index < num_total_tables st
       | KMemory \<Rightarrow> item_index < num_total_memories st
       | KGlobal \<Rightarrow> item_index < num_total_globals st
       | KExcept \<Rightarrow> exceptions_enabled fs)) (\<lambda>ok.
     error_unless ok ''invalid export'')"

definition kind_of_code :: "byte \<Rightarrow> external_kind" where
  "kind_of_code k = (if k = 0 then KFunc else if k = 1 then KTable else if k = 2 then KMemory
     else if k = 3 then KGlobal else KExcept)"

definition read_export :: "features \<Rightarrow> unit rd" where
  "read_export fs =
     rd_bind (name_str ''export item name'') (\<lambda>name.
     rd_bind (read_u8 ''export kind'') (\<lambda>kind.
     rd_bind (error_unless (kind < 5) ''invalid export external kind'') (\<lambda>_.
     rd_bind (index_leb ''export item index'') (\<lambda>item_index.
     rd_bind (check_export fs (kind_of_code kind) item_index) (\<lambda>_.
     on_export (kind_of_code kind) item_index name)))))"

definition read_export_section :: "features \<Rightarrow> unit rd" where
  "read_export_section fs =
     rd_bind (count_leb ''export count'') (\<lambda>n. rd_skip (rd_for n (\<lambda>i. read_export fs)))"

definition read_start_section :: "unit rd" where
  "read_start_section =
     rd_bind (index_leb ''start function index'') (\<lambda>func_index.
     rd_bind (rd_get num_total_funcs) (\<lambda>n.
     rd_bind (error_unless (func_index < n) ''invalid start function index'') (\<lambda>_.
     on_start_function func_index)))"

definition read_elem_segment :: "features \<Rightarrow> u32 \<Rightarrow> unit rd" where
  "read_elem_segment fs i =
     rd_bind (index_leb ''elem segment table index'') (\<lambda>table_index.
     rd_bind (begin_elem_segment table_index) (\<lambda>_.
     rd_bind (begin_elem_segment_init_expr i) (\<lambda>_.
     rd_bind (read_init_expr fs True) (\<lambda>_.
     rd_bind end_init_expr (\<lambda>_.
     rd_bind (count_leb ''elem segment function index count'') (\<lambda>n.
     rd_skip (rd_for n (\<lambda>j.
       rd_bind (index_leb ''elem segment function index'') (on_elem_segment_function_index i)))))))))"

definition read_elem_section :: "features \<Rightarrow> unit rd" where
  "read_elem_section fs =
     rd_bind (count_leb ''elem segment count'') (\<lambda>n.
     rd_bind (rd_get num_total_tables) (\<lambda>m.
     rd_bind (error_unless (n = 0 \<or> m > 0) ''elem section without table section'') (\<lambda>_.
     rd_skip (rd_for n (read_elem_segment fs)))))"

primrec read_local_decls :: "features \<Rightarrow> nat \<Rightarrow> u64 \<Rightarrow> unit rd" where
  "read_local_decls fs 0 total_locals = rd_return ()"
| "read_local_decls fs (Suc n) total_locals =
     rd_bind (index_leb ''local type count'') (\<lambda>num_local_types.
     rd_bind (error_unless (num_local_types > 0) ''local count must be > 0'') (\<lambda>_.
     let total_locals = total_locals + ucast num_local_types in
     rd_bind (error_unless (total_locals < 0xFFFFFFFF) ''local count must be < 0x10000000'') (\<lambda>_.
     rd_bind (read_type ''local type'') (\<lambda>local_type.
     rd_bind (error_unless (is_concrete_type fs local_type) ''expected valid local type'') (\<lambda>_.
     rd_bind (on_local_decl num_local_types local_type) (\<lambda>_.
     read_local_decls fs n total_locals))))))"

definition read_body :: "features \<Rightarrow> u32 \<Rightarrow> unit rd" where
  "read_body fs i =
     rd_bind (rd_get (\<lambda>st. r_num_func_imports st + i)) (\<lambda>func_index.
     rd_bind (begin_function_body func_index) (\<lambda>_.
     rd_bind (u32_leb ''function body size'') (\<lambda>body_size.
     rd_bind (rd_get (\<lambda>st. offset st + unat body_size)) (\<lambda>end_offset.
     rd_bind (count_leb ''local declaration count'') (\<lambda>num_local_decls.
     rd_bind (read_local_decls fs (unat num_local_decls) 0) (\<lambda>_.
     rd_bind (read_function_body fs end_offset) (\<lambda>_. end_function_body)))))))"

definition read_code_section :: "features \<Rightarrow> unit rd" where
  "read_code_section fs =
     rd_bind (count_leb ''function body count'') (\<lambda>n.
     rd_bind (rd_modify (\<lambda>st. st\<lparr>r_num_function_bodies := n\<rparr>)) (\<lambda>_.
     rd_bind (rd_get r_num_function_signatures) (\<lambda>m.
     rd_bind (error_unless (m = n) ''function signature count != function body count'') (\<lambda>_.
     rd_bind (on_function_body_count n) (\<lambda>_.
     rd_skip (rd_for n (read_body fs)))))))"

definition read_data_segment :: "features \<Rightarrow> u32 \<Rightarrow> unit rd" where
  "read_data_segment fs i =
     rd_bind (index_leb ''data segment memory index'') (\<lambda>memory_index.
     rd_bind (begin_data_segment memory_index) (\<lambda>_.
     rd_bind (begin_data_segment_init_expr i) (\<lambda>_.
     rd_bind (read_init_expr fs True) (\<lambda>_.
     rd_bind end_init_expr (\<lambda>_.
     rd_bind (block_bytes ''data segment data'') (on_data_segment_data i))))))"

definition read_data_section :: "features \<Rightarrow> unit rd" where
  "read_data_section fs =
     rd_bind (count_leb ''data segment count'') (\<lambda>n.
     rd_bind (rd_get num_total_memories) (\<lambda>m.
     rd_bind (error_unless (n = 0 \<or> m > 0) ''data section without memory section'') (\<lambda>_.
     rd_skip (rd_for n (read_data_segment fs)))))"

section \<open>\<open>ReadSections\<close>\<close>

record read_options =
  opt_features :: features
  stop_on_first_error :: bool
  fail_on_custom_section_error :: bool

definition section_reader :: "features \<Rightarrow> u32 \<Rightarrow> unit rd" where
  "section_reader fs section_code =
     (if section_code = 0 then read_custom_section fs
      else if section_code = 1 then read_type_section fs
      else if section_code = 2 then read_import_section fs
      else if section_code = 3 then read_function_section
      else if section_code = 4 then read_table_section
      else if section_code = 5 then read_memory_section
      else if section_code = 6 then read_global_section fs
      else if section_code = 7 then read_export_section fs
      else if section_code = 8 then read_start_section
      else if section_code = 9 then read_elem_section fs
      else if section_code = 10 then read_code_section fs
      else read_data_section fs)"

text \<open>A section that fails is skipped when the options say so; the result says whether the binary
  is still good.\<close>

definition section_result :: "read_options \<Rightarrow> u32 \<Rightarrow> nat \<Rightarrow> bool rd" where
  "section_result opts section_code section_end st =
     (let tolerant = section_code = 0 \<and> \<not> fail_on_custom_section_error opts in
      case section_reader (opt_features opts) section_code st of
        Inr (x, st) \<Rightarrow> Inr (True, st)
      | Inl (ReadUB e, st) \<Rightarrow> Inl (ReadUB e, st)
      | Inl (ReadError e, st) \<Rightarrow>
          if stop_on_first_error opts \<and> \<not> tolerant then Inl (ReadError e, st)
          else Inr (tolerant, st\<lparr>offset := section_end, read_end := section_end\<rparr>))"

definition run_section :: "read_options \<Rightarrow> nat \<Rightarrow> u32 \<Rightarrow> u32 \<Rightarrow> bool rd" where
  "run_section opts file_size section_code section_size st =
     (let section_end = offset st + unat section_size; saved = read_end st; st = st\<lparr>read_end := section_end\<rparr> in
      if section_code \<ge> 12 then Inl (ReadError ''invalid section code'', st)
      else if section_end > file_size then Inl (ReadError ''invalid section size: extends past end'', st)
      else if \<not> (case last_known_section st of None \<Rightarrow> True | Some k \<Rightarrow> section_code = 0 \<or> unat section_code > k)
        then Inl (ReadError ''section out of order'', st)
      else case section_result opts section_code section_end st of
          Inl e \<Rightarrow> Inl e
        | Inr (ok, st) \<Rightarrow>
            if offset st \<noteq> section_end then Inl (ReadError ''unfinished section'', st)
            else Inr (ok, st\<lparr>read_end := saved,
              last_known_section := (if section_code \<noteq> 0 then Some (unat section_code) else last_known_section st)\<rparr>))"

definition read_section :: "read_options \<Rightarrow> nat \<Rightarrow> bool rd" where
  "read_section opts file_size =
     rd_bind (u32_leb ''section code'') (\<lambda>section_code.
     rd_bind (offset_leb ''section size'') (run_section opts file_size section_code))"

lemma read_section_advances:
  assumes "read_section opts file_size st = Inr (x, st')"
  shows "offset st < offset st'"
proof -
  obtain c st1 where 1: "u32_leb ''section code'' st = Inr (c, st1)"
    using assms by (auto simp: read_section_def rd_bind_def split: sum.splits)
  then obtain n st2 where 2: "offset_leb ''section size'' st1 = Inr (n, st2)"
    using assms by (auto simp: read_section_def rd_bind_def split: sum.splits)
  have "offset st < offset st1" "offset st1 < offset st2"
    using 1 2 advances_lebs(1) [of "''section code''"] advances_lebs(3) [of "''section size''"]
    by (auto simp: advances_def forth_def)
  moreover have "run_section opts file_size c n st2 = Inr (x, st')"
    using assms 1 2 by (auto simp: read_section_def rd_bind_def)
  then have "offset st' = offset st2 + unat n"
    by (auto simp: run_section_def Let_def split: if_splits sum.splits option.splits)
  ultimately show ?thesis by simp
qed

function read_sections :: "read_options \<Rightarrow> nat \<Rightarrow> bool \<Rightarrow> bool rd" where
  "read_sections opts file_size result st =
     (if offset st < file_size then
        case read_section opts file_size st of Inl e \<Rightarrow> Inl e | Inr (ok, st) \<Rightarrow> read_sections opts file_size (result \<and> ok) st
      else Inr (result, st))"
  by pat_completeness auto

termination
proof (relation "measure (\<lambda>(opts, file_size, r, st). file_size - offset st)")
  fix opts file_size result st y ok st'
  assume "offset st < file_size" "read_section opts file_size st = Inr y" "(ok, st') = y"
  then show "((opts, file_size, result \<and> ok, st'), opts, file_size, result, st) \<in> measure (\<lambda>(opts, file_size, r, st). file_size - offset st)"
    using read_section_advances [of opts file_size st ok st'] by auto
qed simp

declare read_sections.simps [simp del]

definition read_module :: "read_options \<Rightarrow> unit rd" where
  "read_module opts =
     rd_bind (read_u32 ''magic'') (\<lambda>magic.
     rd_bind (error_unless (magic = 0x6d736100) ''bad magic value'') (\<lambda>_.
     rd_bind (read_u32 ''version'') (\<lambda>version.
     rd_bind (error_unless (version = 1) ''bad wasm file version'') (\<lambda>_.
     rd_bind (rd_get (\<lambda>st. length (data st))) (\<lambda>file_size.
     rd_bind (read_sections opts file_size True) (\<lambda>ok. error_unless ok ''section''))))))"

definition new_reader :: "byte list \<Rightarrow> reader" where
  "new_reader bytes = \<lparr>data = bytes, offset = 0, read_end = length bytes, r_num_signatures = 0,
     r_num_func_imports = 0, r_num_table_imports = 0, r_num_memory_imports = 0, r_num_global_imports = 0,
     r_num_exception_imports = 0, r_num_function_signatures = 0, r_num_tables = 0, r_num_memories = 0,
     r_num_globals = 0, r_num_function_bodies = 0, last_known_section = None, out_module = empty_module,
     current_func = None, label_stack = [], current_init_expr = None\<rparr>"

definition read_binary_to_ir :: "read_options \<Rightarrow> byte list \<Rightarrow> failure + wmodule" where
  "read_binary_to_ir opts bytes =
     (case read_module opts (new_reader bytes) of
        Inl (e, st) \<Rightarrow> Inl e
      | Inr (x, st) \<Rightarrow> Inr (out_module st))"

end
