(* ===== verification/WasmWriter.thy ===== *)
theory WasmWriter
  imports WasmIr WasmString
begin

text \<open>
  The writer of WebAssembly binaries: \<open>tools/fractal-tools/external/wabt/src/binary-writer.cc\<close>, to a
  memory stream without a log. \<open>canon\<close> is the option \<open>canonicalize_lebs\<close>; \<open>relocatable\<close> and
  \<open>write_debug_names\<close> are off, as they are by default and in \<open>fractal-pp\<close>. An assertion that fails
  is a point of undefined behaviour.
\<close>

section \<open>Numbers, opcodes, types\<close>

type_synonym 'w writing = "'w \<Rightarrow> 'w res"

primrec write_seq :: "'w writing list \<Rightarrow> 'w writing" where
  "write_seq [] st = Inr st"
| "write_seq (w # ws) st = rbind (w st) (write_seq ws)"

definition write_u8 :: "nat \<Rightarrow> mem_out writing" where
  "write_u8 v st = (if v \<le> 255 then Inr (write_data [of_nat v] st) else Inl (UB ''value <= UINT8_MAX''))"

definition write_u32 :: "u32 \<Rightarrow> mem_out writing" where
  "write_u32 v st = Inr (write_data (le_bytes 4 v) st)"

definition write_u64 :: "u64 \<Rightarrow> mem_out writing" where
  "write_u64 v st = Inr (write_data (le_bytes 8 v) st)"

definition write_u128 :: "v128 \<Rightarrow> mem_out writing" where
  "write_u128 v st = Inr (write_data (le_bytes 16 v) st)"

definition write_opcode :: "opcode \<Rightarrow> mem_out writing" where
  "write_opcode op =
     (if has_prefix op then write_seq [write_u8 (get_prefix op), write_u32_leb128 (of_nat (get_code op))]
      else write_u8 (get_code op))"

definition write_type :: "wtype \<Rightarrow> mem_out writing" where
  "write_type t = write_s32_leb128 t"

definition write_limits :: "limits \<Rightarrow> mem_out writing" where
  "write_limits l =
     (let flags = (if has_max l then 1 else 0) OR (if is_shared l then 2 else 0) :: u32
      in write_seq ([write_u32_leb128 flags, write_u32_leb128 (ucast (initial l))] @
           (if has_max l then [write_u32_leb128 (ucast (max_limit l))] else [])))"

function log2_loop :: "u32 \<Rightarrow> nat \<Rightarrow> nat" where
  "log2_loop x result = (if x > 1 then log2_loop (drop_bit 1 x) (result + 1) else result)"
  by pat_completeness auto
termination
  by (relation "measure (\<lambda>(x, r). unat x)") (auto simp: unat_drop_bit word_less_nat_alt)

declare log2_loop.simps [simp del]

text \<open>\<open>result\<close> is a \<open>uint8_t\<close> of at most 31.\<close>

definition log2_u32 :: "u32 \<Rightarrow> nat" where
  "log2_u32 x = log2_loop x 0"

section \<open>Expressions\<close>

definition write_block_decl :: "wmodule \<Rightarrow> func_declaration \<Rightarrow> mem_out writing" where
  "write_block_decl md decl =
     (if param_types (sig decl) = [] \<and> length (result_types (sig decl)) \<le> 1
      then (case result_types (sig decl) of [] \<Rightarrow> write_type ty_void | t # _ \<Rightarrow> write_type t)
      else let index = (if has_func_type decl then type_var decl else get_func_type_index_sig md (sig decl))
           in if index \<noteq> invalid_index then write_s32_leb128 index else (\<lambda>st. Inl (UB ''index != kInvalidIndex'')))"

definition write_load_store_expr :: "opcode \<Rightarrow> u32 \<Rightarrow> u32 \<Rightarrow> mem_out writing" where
  "write_load_store_expr op align off =
     write_seq [write_opcode op, write_u8 (log2_u32 (get_alignment op align)), write_u32_leb128 off]"

fun mixin_opcode :: "mixin_type \<Rightarrow> opcode" where
  "mixin_opcode Drop = Op_Drop"
| "mixin_opcode MemoryGrow = Op_MemoryGrow"
| "mixin_opcode MemorySize = Op_MemorySize"
| "mixin_opcode Nop = Op_Nop"
| "mixin_opcode Rethrow = Op_Rethrow"
| "mixin_opcode Return = Op_Return"
| "mixin_opcode Select = Op_Select"
| "mixin_opcode Unreachable = Op_Unreachable"

fun var_opcode :: "var_type \<Rightarrow> opcode" where
  "var_opcode Br = Op_Br"
| "var_opcode BrIf = Op_BrIf"
| "var_opcode Call = Op_Call"
| "var_opcode GetGlobal = Op_GetGlobal"
| "var_opcode GetLocal = Op_GetLocal"
| "var_opcode SetGlobal = Op_SetGlobal"
| "var_opcode SetLocal = Op_SetLocal"
| "var_opcode TeeLocal = Op_TeeLocal"
| "var_opcode Throw = Op_Throw"

fun write_const :: "const \<Rightarrow> mem_out writing" where
  "write_const (CI32 v) = write_seq [write_opcode Op_I32Const, write_s32_leb128 v]"
| "write_const (CI64 v) = write_seq [write_opcode Op_I64Const, write_s64_leb128 v]"
| "write_const (CF32 v) = write_seq [write_opcode Op_F32Const, write_u32 v]"
| "write_const (CF64 v) = write_seq [write_opcode Op_F64Const, write_u64 v]"
| "write_const (CV128 v) = write_seq [write_opcode Op_V128Const, write_u128 v]"

text \<open>\<open>memory.grow\<close> and \<open>memory.size\<close> have a reserved byte; a variable that is an index is that index.\<close>

fun write_expr :: "wmodule \<Rightarrow> expr \<Rightarrow> mem_out writing" where
  "write_expr md (Mixin m) =
     write_seq ([write_opcode (mixin_opcode m)] @
       (if m = MemoryGrow \<or> m = MemorySize then [write_u32_leb128 0] else []))"
| "write_expr md (OpcodeExpr t op) = write_opcode op"
| "write_expr md (VarExpr t var) = write_seq [write_opcode (var_opcode t), write_u32_leb128 var]"
| "write_expr md (LoadStoreExpr t op align off) = write_load_store_expr op align off"
| "write_expr md (CallIndirectExpr decl) =
     write_seq [write_opcode Op_CallIndirect, write_u32_leb128 (get_func_type_index md decl), write_u32_leb128 0]"
| "write_expr md (BlockExpr decl exprs) =
     write_seq ([write_opcode Op_Block, write_block_decl md decl] @ map (write_expr md) exprs @ [write_opcode Op_End])"
| "write_expr md (LoopExpr decl exprs) =
     write_seq ([write_opcode Op_Loop, write_block_decl md decl] @ map (write_expr md) exprs @ [write_opcode Op_End])"
| "write_expr md (IfExpr decl true_exprs false_exprs) =
     write_seq ([write_opcode Op_If, write_block_decl md decl] @ map (write_expr md) true_exprs @
       (if false_exprs \<noteq> [] then [write_opcode Op_Else] @ map (write_expr md) false_exprs else []) @ [write_opcode Op_End])"
| "write_expr md (IfExceptExpr decl except_var true_exprs false_exprs) =
     write_seq ([write_opcode Op_IfExcept, write_block_decl md decl, write_u32_leb128 except_var] @
       map (write_expr md) true_exprs @
       (if false_exprs \<noteq> [] then [write_opcode Op_Else] @ map (write_expr md) false_exprs else []) @ [write_opcode Op_End])"
| "write_expr md (TryExpr decl exprs catch_exprs) =
     write_seq ([write_opcode Op_Try, write_block_decl md decl] @ map (write_expr md) exprs @
       [write_opcode Op_Catch] @ map (write_expr md) catch_exprs @ [write_opcode Op_End])"
| "write_expr md (BrTableExpr targets default_target) =
     write_seq ([write_opcode Op_BrTable, write_u32_leb128 (of_nat (length targets))] @
       map write_u32_leb128 targets @ [write_u32_leb128 default_target])"
| "write_expr md (ConstExpr c) = write_const c"
| "write_expr md (SimdLaneOpExpr op val) = write_seq [write_opcode op, write_u8 (unat (ucast val :: byte))]"
| "write_expr md (SimdShuffleOpExpr op val) = write_seq [write_opcode op, write_u128 val]"

definition write_expr_list :: "wmodule \<Rightarrow> expr list \<Rightarrow> mem_out writing" where
  "write_expr_list md exprs = write_seq (map (write_expr md) exprs)"

definition write_init_expr :: "wmodule \<Rightarrow> expr list \<Rightarrow> mem_out writing" where
  "write_init_expr md exprs = write_seq [write_expr_list md exprs, write_opcode Op_End]"

definition write_func_locals :: "local_types \<Rightarrow> mem_out writing" where
  "write_func_locals decls =
     (if local_types_size decls = 0 then write_u32_leb128 0
      else write_seq (write_u32_leb128 (of_nat (length decls)) #
             map (\<lambda>(t, count). write_seq [write_u32_leb128 count, write_type t]) decls))"

definition write_func :: "wmodule \<Rightarrow> func \<Rightarrow> mem_out writing" where
  "write_func md f = write_seq [write_func_locals (func_locals f), write_expr_list md (func_exprs f), write_opcode Op_End]"

definition write_table :: "limits \<Rightarrow> mem_out writing" where
  "write_table l = write_seq [write_type ty_anyfunc, write_limits l]"

definition write_memory :: "limits \<Rightarrow> mem_out writing" where
  "write_memory l = write_limits l"

definition write_global_header :: "wtype \<Rightarrow> bool \<Rightarrow> mem_out writing" where
  "write_global_header t mut = write_seq [write_type t, write_u8 (if mut then 1 else 0)]"

definition write_except_type :: "wtype list \<Rightarrow> mem_out writing" where
  "write_except_type s = write_seq (write_u32_leb128 (of_nat (length s)) # map write_type s)"

section \<open>Sections\<close>

text \<open>Space for a size, and the size once it is known: the content moves when the size takes more room
  than was left for it.\<close>

definition write_u32_leb128_space :: "bool \<Rightarrow> nat \<Rightarrow> mem_out \<Rightarrow> (nat \<times> mem_out) res" where
  "write_u32_leb128_space canon leb_size_guess st =
     (if leb_size_guess \<le> max_u32_leb128_bytes
      then let bytes_to_write = (if canon then leb_size_guess else max_u32_leb128_bytes)
           in Inr (out_offset st, write_data (replicate bytes_to_write 0) st)
      else Inl (UB ''leb_size_guess <= MAX_U32_LEB128_BYTES''))"

definition add_offset :: "nat \<Rightarrow> mem_out \<Rightarrow> mem_out" where
  "add_offset delta st = st\<lparr>out_offset := out_offset st + delta\<rparr>"

definition write_fixup_u32_leb128_size :: "bool \<Rightarrow> nat \<Rightarrow> nat \<Rightarrow> mem_out writing" where
  "write_fixup_u32_leb128_size canon off leb_size_guess st =
     (if canon then
        let sz = out_offset st - off - leb_size_guess;
            leb_size = unat (u32_leb128_length (of_nat sz));
            delta = leb_size - leb_size_guess;
            st = (if delta \<noteq> 0 then move_data (off + leb_size) (off + leb_size_guess) sz st else st)
        in rbind (write_u32_leb128_at off (of_nat sz) st) (\<lambda>(n, st). Inr (add_offset delta st))
      else
        let sz = out_offset st - off - max_u32_leb128_bytes
        in Inr (snd (write_fixed_u32_leb128_at off (of_nat sz) st)))"

definition leb_section_size_guess :: nat where
  "leb_section_size_guess = 1"

record bin_writer =
  bw_stream :: mem_out
  section_count :: nat
  last_section_offset :: nat
  last_section_leb_size_guess :: nat
  last_section_payload_offset :: nat

definition on_stream :: "mem_out writing \<Rightarrow> bin_writer writing" where
  "on_stream w bw = rbind (w (bw_stream bw)) (\<lambda>st. Inr (bw\<lparr>bw_stream := st\<rparr>))"

definition write_section_header :: "bool \<Rightarrow> nat \<Rightarrow> bin_writer writing" where
  "write_section_header canon section_code bw =
     (if last_section_leb_size_guess bw = 0 then
        rbind (write_u8 section_code (bw_stream bw)) (\<lambda>st.
        rbind (write_u32_leb128_space canon leb_section_size_guess st) (\<lambda>(off, st).
        Inr (bw\<lparr>bw_stream := st, last_section_leb_size_guess := leb_section_size_guess,
          last_section_offset := off, last_section_payload_offset := out_offset st\<rparr>)))
      else Inl (UB ''last_section_leb_size_guess_ == 0''))"

definition begin_known_section :: "bool \<Rightarrow> nat \<Rightarrow> bin_writer writing" where
  "begin_known_section canon section_code = write_section_header canon section_code"

definition begin_custom_section :: "bool \<Rightarrow> byte list \<Rightarrow> bin_writer writing" where
  "begin_custom_section canon name = write_seq [write_section_header canon 0, on_stream (write_str name)]"

definition end_section :: "bool \<Rightarrow> bin_writer writing" where
  "end_section canon bw =
     (if last_section_leb_size_guess bw \<noteq> 0 then
        rbind (write_fixup_u32_leb128_size canon (last_section_offset bw) (last_section_leb_size_guess bw) (bw_stream bw)) (\<lambda>st.
        Inr (bw\<lparr>bw_stream := st, last_section_leb_size_guess := 0, section_count := section_count bw + 1\<rparr>))
      else Inl (UB ''last_section_leb_size_guess_ != 0''))"

section \<open>\<open>WriteModule\<close>\<close>

definition write_count :: "'a list \<Rightarrow> mem_out writing" where
  "write_count xs = write_u32_leb128 (of_nat (length xs))"

definition write_section :: "bool \<Rightarrow> nat \<Rightarrow> mem_out writing list \<Rightarrow> bin_writer writing" where
  "write_section canon section_code ws =
     write_seq ([begin_known_section canon section_code] @ map on_stream ws @ [end_section canon])"

text \<open>A section that is left out when its list is empty.\<close>

definition section_unless_empty :: "bool \<Rightarrow> nat \<Rightarrow> 'a list \<Rightarrow> ('a \<Rightarrow> mem_out writing) \<Rightarrow> bin_writer writing" where
  "section_unless_empty canon section_code xs w =
     (if xs \<noteq> [] then write_section canon section_code (write_count xs # map w xs) else Inr)"

definition write_func_type :: "func_signature \<Rightarrow> mem_out writing" where
  "write_func_type s =
     write_seq ([write_type ty_func, write_count (param_types s)] @ map write_type (param_types s) @
       [write_count (result_types s)] @ map write_type (result_types s))"

fun kind_code :: "external_kind \<Rightarrow> nat" where
  "kind_code KFunc = 0"
| "kind_code KTable = 1"
| "kind_code KMemory = 2"
| "kind_code KGlobal = 3"
| "kind_code KExcept = 4"

fun import_kind :: "import_desc \<Rightarrow> external_kind" where
  "import_kind (FuncImport d) = KFunc"
| "import_kind (TableImport l) = KTable"
| "import_kind (MemoryImport l) = KMemory"
| "import_kind (GlobalImport t mut) = KGlobal"
| "import_kind (ExceptionImport s) = KExcept"

fun write_import_desc :: "wmodule \<Rightarrow> import_desc \<Rightarrow> mem_out writing" where
  "write_import_desc md (FuncImport d) = write_u32_leb128 (get_func_type_index md d)"
| "write_import_desc md (TableImport l) = write_table l"
| "write_import_desc md (MemoryImport l) = write_memory l"
| "write_import_desc md (GlobalImport t mut) = write_global_header t mut"
| "write_import_desc md (ExceptionImport s) = write_except_type s"

definition write_import :: "wmodule \<Rightarrow> import_entry \<Rightarrow> mem_out writing" where
  "write_import md i =
     write_seq [write_str (import_module_name i), write_str (import_field_name i),
       write_u8 (kind_code (import_kind (import_desc i))), write_import_desc md (import_desc i)]"

definition write_global :: "wmodule \<Rightarrow> global \<Rightarrow> mem_out writing" where
  "write_global md g =
     write_seq [write_global_header (global_type g) (global_mutable g), write_init_expr md (map fst (init_expr g))]"

definition write_export :: "export_entry \<Rightarrow> mem_out writing" where
  "write_export e =
     write_seq [write_str (export_name e), write_u8 (kind_code (export_kind e)), write_u32_leb128 (export_var e)]"

definition write_elem_segment :: "wmodule \<Rightarrow> elem_segment \<Rightarrow> mem_out writing" where
  "write_elem_segment md s =
     write_seq ([write_u32_leb128 (table_var s), write_init_expr md (elem_offset s), write_count (elem_vars s)] @
       map write_u32_leb128 (elem_vars s))"

definition write_func_body :: "bool \<Rightarrow> wmodule \<Rightarrow> func \<Rightarrow> mem_out writing" where
  "write_func_body canon md f st =
     (let leb_size_guess = 1 in
      rbind (write_u32_leb128_space canon leb_size_guess st) (\<lambda>(body_size_offset, st).
      rbind (write_func md f st) (write_fixup_u32_leb128_size canon body_size_offset leb_size_guess)))"

definition write_data_segment :: "wmodule \<Rightarrow> ir_data_segment \<Rightarrow> mem_out writing" where
  "write_data_segment md s =
     write_seq [write_u32_leb128 (memory_var s), write_init_expr md (data_offset s), write_count (data_bytes s),
       \<lambda>st. Inr (write_data (data_bytes s) st)]"

text \<open>The functions, tables, memories and globals of the module itself follow those it imports.\<close>

definition defined :: "'a list \<Rightarrow> u32 \<Rightarrow> 'a list res" where
  "defined xs num_imports =
     (if length xs \<ge> unat num_imports then Inr (drop (unat num_imports) xs) else Inl (UB ''size() >= num_imports''))"

definition write_start_section :: "bool \<Rightarrow> wmodule \<Rightarrow> bin_writer writing" where
  "write_start_section canon md =
     (case starts md of
        [] \<Rightarrow> Inr
      | v # _ \<Rightarrow> if v \<noteq> invalid_index then write_section canon 8 [write_u32_leb128 v] else Inr)"

text \<open>The loop runs from the number of imported exceptions up to the number of the others.\<close>

definition write_exception_section :: "bool \<Rightarrow> wmodule \<Rightarrow> bin_writer writing" where
  "write_exception_section canon md bw =
     rbind (defined (excepts md) (num_except_imports md)) (\<lambda>defs.
     let num_exceptions = length defs
     in if num_exceptions \<noteq> 0 then
          write_seq ([begin_custom_section canon (map of_char ''exception''),
              on_stream (write_u32_leb128 (of_nat num_exceptions))] @
            map (\<lambda>i. on_stream (write_except_type (excepts md ! i))) [unat (num_except_imports md)..<num_exceptions] @
            [end_section canon]) bw
        else Inr bw)"

definition new_writer :: bin_writer where
  "new_writer = \<lparr>bw_stream = mem_out_empty, section_count = 0, last_section_offset = 0,
     last_section_leb_size_guess = 0, last_section_payload_offset = 0\<rparr>"

definition write_module :: "bool \<Rightarrow> wmodule \<Rightarrow> bin_writer writing" where
  "write_module canon md bw =
     rbind (defined (funcs md) (num_func_imports md)) (\<lambda>fs.
     rbind (defined (tables md) (num_table_imports md)) (\<lambda>ts.
     rbind (defined (memories md) (num_memory_imports md)) (\<lambda>ms.
     rbind (defined (globals md) (num_global_imports md)) (\<lambda>gs.
     write_seq
       [on_stream (write_u32 0x6d736100),
        on_stream (write_u32 1),
        section_unless_empty canon 1 (func_types md) write_func_type,
        section_unless_empty canon 2 (import_list md) (write_import md),
        section_unless_empty canon 3 fs (\<lambda>f. write_u32_leb128 (get_func_type_index md (func_decl f))),
        section_unless_empty canon 4 ts write_table,
        section_unless_empty canon 5 ms write_memory,
        section_unless_empty canon 6 gs (write_global md),
        section_unless_empty canon 7 (export_list md) write_export,
        write_start_section canon md,
        section_unless_empty canon 9 (elem_segments md) (write_elem_segment md),
        write_exception_section canon md,
        section_unless_empty canon 10 fs (write_func_body canon md),
        section_unless_empty canon 11 (ir_data_segments md) (write_data_segment md)] bw))))"

definition write_binary_module_to :: "bool \<Rightarrow> wmodule \<Rightarrow> mem_out res" where
  "write_binary_module_to canon md = rbind (write_module canon md new_writer) (\<lambda>bw. Inr (bw_stream bw))"

end
