(* ===== verification/WasmEncode.thy ===== *)
theory WasmEncode
  imports WasmWriter
begin

text \<open>
  The binary format as the writer of wabt means it: each part of a module is the concatenation of
  its parts, and a section is its code, its size and its content. \<open>binary-writer.cc\<close> gets there by
  leaving room for sizes, moving what it has written and filling them in; here it is shown to
  append exactly these bytes.
\<close>

section \<open>The format\<close>

definition enc_u32 :: "u32 \<Rightarrow> byte list" where
  "enc_u32 v = vbytes (unat v)"

definition enc_s32 :: "u32 \<Rightarrow> byte list" where
  "enc_s32 v = projr (signed_leb128_bytes 5 v)"

definition enc_s64 :: "u64 \<Rightarrow> byte list" where
  "enc_s64 v = projr (signed_leb128_bytes 10 v)"

definition enc_count :: "'a list \<Rightarrow> byte list" where
  "enc_count xs = enc_u32 (of_nat (length xs))"

definition enc_list :: "('a \<Rightarrow> byte list) \<Rightarrow> 'a list \<Rightarrow> byte list" where
  "enc_list e xs = concat (map e xs)"

definition enc_vec :: "('a \<Rightarrow> byte list) \<Rightarrow> 'a list \<Rightarrow> byte list" where
  "enc_vec e xs = enc_count xs @ enc_list e xs"

definition enc_str :: "byte list \<Rightarrow> byte list" where
  "enc_str s = enc_count s @ s"

definition enc_opcode :: "opcode \<Rightarrow> byte list" where
  "enc_opcode op =
     (if has_prefix op then of_nat (get_prefix op) # enc_u32 (of_nat (get_code op)) else [of_nat (get_code op)])"

definition enc_limits :: "limits \<Rightarrow> byte list" where
  "enc_limits l =
     enc_u32 ((if has_max l then 1 else 0) OR (if is_shared l then 2 else 0)) @ enc_u32 (ucast (initial l)) @
     (if has_max l then enc_u32 (ucast (max_limit l)) else [])"

definition enc_block_decl :: "wmodule \<Rightarrow> func_declaration \<Rightarrow> byte list" where
  "enc_block_decl md d =
     (if param_types (sig d) = [] \<and> length (result_types (sig d)) \<le> 1
      then (case result_types (sig d) of [] \<Rightarrow> enc_s32 ty_void | t # _ \<Rightarrow> enc_s32 t)
      else enc_s32 (get_func_type_index md d))"

fun enc_const :: "const \<Rightarrow> byte list" where
  "enc_const (CI32 v) = enc_opcode Op_I32Const @ enc_s32 v"
| "enc_const (CI64 v) = enc_opcode Op_I64Const @ enc_s64 v"
| "enc_const (CF32 v) = enc_opcode Op_F32Const @ le_bytes 4 v"
| "enc_const (CF64 v) = enc_opcode Op_F64Const @ le_bytes 8 v"
| "enc_const (CV128 v) = enc_opcode Op_V128Const @ le_bytes 16 v"

fun enc_expr :: "wmodule \<Rightarrow> expr \<Rightarrow> byte list" where
  "enc_expr md (Mixin m) = enc_opcode (mixin_opcode m) @ (if m = MemoryGrow \<or> m = MemorySize then enc_u32 0 else [])"
| "enc_expr md (OpcodeExpr t op) = enc_opcode op"
| "enc_expr md (VarExpr t var) = enc_opcode (var_opcode t) @ enc_u32 var"
| "enc_expr md (LoadStoreExpr t op align off) =
     enc_opcode op @ [of_nat (log2_u32 (get_alignment op align))] @ enc_u32 off"
| "enc_expr md (CallIndirectExpr d) = enc_opcode Op_CallIndirect @ enc_u32 (get_func_type_index md d) @ enc_u32 0"
| "enc_expr md (BlockExpr d es) =
     enc_opcode Op_Block @ enc_block_decl md d @ concat (map (enc_expr md) es) @ enc_opcode Op_End"
| "enc_expr md (LoopExpr d es) =
     enc_opcode Op_Loop @ enc_block_decl md d @ concat (map (enc_expr md) es) @ enc_opcode Op_End"
| "enc_expr md (IfExpr d ts fs) =
     enc_opcode Op_If @ enc_block_decl md d @ concat (map (enc_expr md) ts) @
     (if fs \<noteq> [] then enc_opcode Op_Else @ concat (map (enc_expr md) fs) else []) @ enc_opcode Op_End"
| "enc_expr md (IfExceptExpr d v ts fs) =
     enc_opcode Op_IfExcept @ enc_block_decl md d @ enc_u32 v @ concat (map (enc_expr md) ts) @
     (if fs \<noteq> [] then enc_opcode Op_Else @ concat (map (enc_expr md) fs) else []) @ enc_opcode Op_End"
| "enc_expr md (TryExpr d es cs) =
     enc_opcode Op_Try @ enc_block_decl md d @ concat (map (enc_expr md) es) @ enc_opcode Op_Catch @
     concat (map (enc_expr md) cs) @ enc_opcode Op_End"
| "enc_expr md (BrTableExpr targets default_target) =
     enc_opcode Op_BrTable @ enc_vec enc_u32 targets @ enc_u32 default_target"
| "enc_expr md (ConstExpr c) = enc_const c"
| "enc_expr md (SimdLaneOpExpr op v) = enc_opcode op @ [ucast v]"
| "enc_expr md (SimdShuffleOpExpr op v) = enc_opcode op @ le_bytes 16 v"

definition enc_exprs :: "wmodule \<Rightarrow> expr list \<Rightarrow> byte list" where
  "enc_exprs md es = concat (map (enc_expr md) es)"

definition enc_init_expr :: "wmodule \<Rightarrow> expr list \<Rightarrow> byte list" where
  "enc_init_expr md es = enc_exprs md es @ enc_opcode Op_End"

definition enc_locals :: "local_types \<Rightarrow> byte list" where
  "enc_locals ds = (if local_types_size ds = 0 then enc_u32 0 else enc_vec (\<lambda>(t, n). enc_u32 n @ enc_s32 t) ds)"

definition enc_func :: "wmodule \<Rightarrow> func \<Rightarrow> byte list" where
  "enc_func md f = enc_locals (func_locals f) @ enc_exprs md (func_exprs f) @ enc_opcode Op_End"

text \<open>A size: minimal, or in five bytes.\<close>

definition enc_size :: "bool \<Rightarrow> nat \<Rightarrow> byte list" where
  "enc_size canon n = (if canon then vbytes n else write_fixed_u32_leb128_raw 5 (of_nat n))"

definition enc_sized :: "bool \<Rightarrow> byte list \<Rightarrow> byte list" where
  "enc_sized canon bs = enc_size canon (length bs) @ bs"

definition enc_section :: "bool \<Rightarrow> nat \<Rightarrow> byte list \<Rightarrow> byte list" where
  "enc_section canon code bs = of_nat code # enc_sized canon bs"

definition enc_table :: "limits \<Rightarrow> byte list" where
  "enc_table l = enc_s32 ty_anyfunc @ enc_limits l"

definition enc_global_header :: "wtype \<Rightarrow> bool \<Rightarrow> byte list" where
  "enc_global_header t mut = enc_s32 t @ [if mut then 1 else 0]"

definition enc_func_type :: "func_signature \<Rightarrow> byte list" where
  "enc_func_type s = enc_s32 ty_func @ enc_vec enc_s32 (param_types s) @ enc_vec enc_s32 (result_types s)"

fun enc_import_desc :: "wmodule \<Rightarrow> import_desc \<Rightarrow> byte list" where
  "enc_import_desc md (FuncImport d) = enc_u32 (get_func_type_index md d)"
| "enc_import_desc md (TableImport l) = enc_table l"
| "enc_import_desc md (MemoryImport l) = enc_limits l"
| "enc_import_desc md (GlobalImport t mut) = enc_global_header t mut"
| "enc_import_desc md (ExceptionImport s) = enc_vec enc_s32 s"

definition enc_import :: "wmodule \<Rightarrow> import_entry \<Rightarrow> byte list" where
  "enc_import md i = enc_str (import_module_name i) @ enc_str (import_field_name i) @
     [of_nat (kind_code (import_kind (import_desc i)))] @ enc_import_desc md (import_desc i)"

definition enc_global :: "wmodule \<Rightarrow> global \<Rightarrow> byte list" where
  "enc_global md g = enc_global_header (global_type g) (global_mutable g) @ enc_init_expr md (map fst (init_expr g))"

definition enc_export :: "export_entry \<Rightarrow> byte list" where
  "enc_export e = enc_str (export_name e) @ [of_nat (kind_code (export_kind e))] @ enc_u32 (export_var e)"

definition enc_elem_segment :: "wmodule \<Rightarrow> elem_segment \<Rightarrow> byte list" where
  "enc_elem_segment md s = enc_u32 (table_var s) @ enc_init_expr md (elem_offset s) @ enc_vec enc_u32 (elem_vars s)"

definition enc_data_segment :: "wmodule \<Rightarrow> ir_data_segment \<Rightarrow> byte list" where
  "enc_data_segment md s = enc_u32 (memory_var s) @ enc_init_expr md (data_offset s) @ enc_str (data_bytes s)"

definition enc_vec_section :: "bool \<Rightarrow> nat \<Rightarrow> ('a \<Rightarrow> byte list) \<Rightarrow> 'a list \<Rightarrow> byte list" where
  "enc_vec_section canon code e xs = (if xs \<noteq> [] then enc_section canon code (enc_vec e xs) else [])"

definition defined_funcs :: "wmodule \<Rightarrow> func list" where
  "defined_funcs md = drop (unat (num_func_imports md)) (funcs md)"

definition defined_tables :: "wmodule \<Rightarrow> limits list" where
  "defined_tables md = drop (unat (num_table_imports md)) (tables md)"

definition defined_memories :: "wmodule \<Rightarrow> limits list" where
  "defined_memories md = drop (unat (num_memory_imports md)) (memories md)"

definition defined_globals :: "wmodule \<Rightarrow> global list" where
  "defined_globals md = drop (unat (num_global_imports md)) (globals md)"

text \<open>The sections of a module without exceptions.\<close>

definition enc_sections :: "bool \<Rightarrow> wmodule \<Rightarrow> byte list list" where
  "enc_sections canon md =
     [enc_vec_section canon 1 enc_func_type (func_types md),
      enc_vec_section canon 2 (enc_import md) (import_list md),
      enc_vec_section canon 3 (\<lambda>f. enc_u32 (get_func_type_index md (func_decl f))) (defined_funcs md),
      enc_vec_section canon 4 enc_table (defined_tables md),
      enc_vec_section canon 5 enc_limits (defined_memories md),
      enc_vec_section canon 6 (enc_global md) (defined_globals md),
      enc_vec_section canon 7 enc_export (export_list md),
      (case starts md of [] \<Rightarrow> [] | v # _ \<Rightarrow> if v \<noteq> invalid_index then enc_section canon 8 (enc_u32 v) else []),
      enc_vec_section canon 9 (enc_elem_segment md) (elem_segments md),
      enc_vec_section canon 10 (\<lambda>f. enc_sized canon (enc_func md f)) (defined_funcs md),
      enc_vec_section canon 11 (enc_data_segment md) (ir_data_segments md)]"

definition enc_module :: "bool \<Rightarrow> wmodule \<Rightarrow> byte list" where
  "enc_module canon md = le_bytes 4 (0x6d736100 :: u32) @ le_bytes 4 (1 :: u32) @ concat (enc_sections canon md)"

section \<open>Writers that append\<close>

definition at_end :: "mem_out \<Rightarrow> bool" where
  "at_end st \<longleftrightarrow> out_offset st = length (out_data st)"

definition put :: "byte list \<Rightarrow> mem_out \<Rightarrow> mem_out" where
  "put bs st = \<lparr>out_offset = length (out_data st) + length bs, out_data = out_data st @ bs\<rparr>"

lemma at_end_put [simp]: "at_end (put bs st)"
  by (simp add: at_end_def put_def)

lemma put_put [simp]: "put cs (put bs st) = put (bs @ cs) st"
  by (simp add: put_def)

lemma out_data_put [simp]: "out_data (put bs st) = out_data st @ bs"
  by (simp add: put_def)

definition appends :: "mem_out writing \<Rightarrow> byte list \<Rightarrow> bool" where
  "appends w bs \<longleftrightarrow> (\<forall>st. at_end st \<longrightarrow> w st = Inr (put bs st))"

named_theorems appends_intros \<open>what writers append\<close>

lemma appendsD: "appends w bs \<Longrightarrow> at_end st \<Longrightarrow> w st = Inr (put bs st)"
  by (simp add: appends_def)

lemma appends_data: "appends (\<lambda>st. Inr (write_data bs st)) bs"
  by (simp add: appends_def at_end_def put_def write_data_end)

lemma appends_Nil [appends_intros]: "appends (write_seq []) []"
  by (simp add: appends_def put_def at_end_def)

lemma appends_Inr [appends_intros]: "appends Inr []"
  by (simp add: appends_def put_def at_end_def)

lemma appends_Cons: "appends w bs \<Longrightarrow> appends (write_seq ws) cs \<Longrightarrow> appends (write_seq (w # ws)) (bs @ cs)"
  by (simp add: appends_def)

lemma write_seq_append: "write_seq (vs @ ws) st = rbind (write_seq vs st) (write_seq ws)"
proof (induction vs arbitrary: st)
  case (Cons w vs)
  have "write_seq (vs @ ws) = (\<lambda>st. rbind (write_seq vs st) (write_seq ws))" using Cons by (rule ext)
  then show ?case by (simp add: rbind_assoc)
qed simp

lemma write_seq_single [simp]: "write_seq [w] = w"
proof -
  have e: "write_seq [] = Inr" by (rule ext) simp
  show ?thesis by (rule ext) (simp only: write_seq.simps(2) e rbind_Inr_right)
qed

lemma appends_append: "appends (write_seq vs) bs \<Longrightarrow> appends (write_seq ws) cs \<Longrightarrow> appends (write_seq (vs @ ws)) (bs @ cs)"
  by (simp add: appends_def write_seq_append)

lemma appends_byte: "appends w [b] \<Longrightarrow> appends (write_seq ws) bs \<Longrightarrow> appends (write_seq (w # ws)) (b # bs)"
  using appends_Cons by fastforce

lemma appends_map: "(\<And>x. x \<in> set xs \<Longrightarrow> appends (w x) (e x)) \<Longrightarrow> appends (write_seq (map w xs)) (concat (map e xs))"
  by (induction xs) (auto intro: appends_Nil appends_Cons)

lemma appends_u8 [appends_intros]: "v \<le> 255 \<Longrightarrow> appends (write_u8 v) [of_nat v]"
  using appends_data by (simp add: write_u8_def appends_def)

lemma appends_fixed [appends_intros]:
  "appends (write_u32 v) (le_bytes 4 v)" "appends (write_u64 w) (le_bytes 8 w)" "appends (write_u128 x) (le_bytes 16 x)"
  using appends_data by (simp_all add: write_u32_def write_u64_def write_u128_def appends_def)

lemma appends_u32_leb [appends_intros]: "appends (write_u32_leb128 v) (enc_u32 v)"
  using appends_data by (simp add: write_u32_leb128_def enc_u32_def u32_leb128_bytes_vbytes appends_def)

lemma appends_s32_leb [appends_intros]: "appends (write_s32_leb128 v) (enc_s32 v)"
proof -
  obtain bs where "signed_leb128_bytes 5 v = Inr bs" by (rule s32_written)
  with appends_data [of bs] show ?thesis
    by (simp add: write_s32_leb128_def enc_s32_def max_u32_leb128_bytes_def appends_def)
qed

lemma s64_written: obtains bs where "signed_leb128_bytes 10 (v :: u64) = Inr bs"
proof -
  have "fits_signed 10 (sint v)"
    using sint_ge [of v] sint_lt [of v] by (simp add: fits_signed_def)
  then show thesis using signed_leb128_bytes_sevens [of 10 v] that by auto
qed

lemma appends_s64_leb [appends_intros]: "appends (write_s64_leb128 v) (enc_s64 v)"
proof -
  obtain bs where "signed_leb128_bytes 10 v = Inr bs" by (rule s64_written)
  with appends_data [of bs] show ?thesis
    by (simp add: write_s64_leb128_def enc_s64_def max_u64_leb128_bytes_def appends_def)
qed

lemma appends_type [appends_intros]: "appends (write_type t) (enc_s32 t)"
  by (simp add: write_type_def appends_s32_leb)

lemma appends_count [appends_intros]: "appends (write_count xs) (enc_count xs)"
  by (simp add: write_count_def enc_count_def appends_u32_leb)

lemma appends_str [appends_intros]: "appends (write_str s) (enc_str s)"
proof -
  have "appends (write_seq [write_u32_leb128 (of_nat (length s)), \<lambda>st. Inr (write_data s st)]) (enc_u32 (of_nat (length s)) @ s)"
    by (rule appends_Cons [OF appends_u32_leb]) (simp add: appends_data)
  then show ?thesis by (simp add: appends_def write_str_def enc_str_def enc_count_def del: write_seq.simps) (simp add: write_seq.simps)
qed

section \<open>Expressions\<close>

definition opcode_ok :: "opcode \<Rightarrow> bool" where
  "opcode_ok op \<longleftrightarrow> get_prefix op \<le> 255 \<and> (has_prefix op \<or> get_code op \<le> 255)"

lemma appends_opcode [appends_intros]: "opcode_ok op \<Longrightarrow> appends (write_opcode op) (enc_opcode op)"
proof -
  assume ok: "opcode_ok op"
  show ?thesis
  proof (cases "has_prefix op")
    case True
    have "appends (write_seq [write_u8 (get_prefix op), write_u32_leb128 (of_nat (get_code op))])
        ([of_nat (get_prefix op)] @ enc_u32 (of_nat (get_code op)))"
      using ok by (intro appends_Cons appends_u8) (simp_all add: opcode_ok_def appends_u32_leb)
    then show ?thesis using True by (simp add: write_opcode_def enc_opcode_def del: write_seq.simps)
  next
    case False
    then show ?thesis using ok by (simp add: write_opcode_def enc_opcode_def opcode_ok_def appends_u8)
  qed
qed

lemma opcode_ok_Opc [simp]:
  "opcode_ok (Opc 0 c) \<longleftrightarrow> c \<le> 255" "p \<noteq> 0 \<Longrightarrow> opcode_ok (Opc p c) \<longleftrightarrow> p \<le> 255"
  by (simp_all add: opcode_ok_def has_prefix_def)

lemma mixin_opcode_ok [simp]: "opcode_ok (mixin_opcode m)"
  by (cases m) simp_all

lemma var_opcode_ok [simp]: "opcode_ok (var_opcode t)"
  by (cases t) simp_all

lemma log2_loop_bound: "unat x < 2 ^ k \<Longrightarrow> 1 \<le> k \<Longrightarrow> log2_loop x r \<le> r + k - 1"
proof (induction x r arbitrary: k rule: log2_loop.induct)
  case (1 x r)
  show ?case
  proof (cases "1 < x")
    case True
    then have x: "1 < unat x" by (simp add: word_less_nat_alt)
    with "1.prems"(1) obtain j where k: "k = Suc j" by (cases k) auto
    have "unat (drop_bit 1 x) < 2 ^ j" using "1.prems" k by (simp add: unat_drop_bit)
    moreover have "j \<noteq> 0" using x "1.prems" k by (cases j) auto
    ultimately show ?thesis using "1.IH" [OF True, of j] True k by (subst log2_loop.simps) simp
  next
    case False
    then show ?thesis using "1.prems" by (subst log2_loop.simps) simp
  qed
qed

lemma log2_u32_less [simp]: "log2_u32 x \<le> 255"
  using log2_loop_bound [of x 32 0] unsigned_less [of x, where 'a = nat] by (simp add: log2_u32_def)

text \<open>A block type that the writer can name.\<close>

definition decl_ok :: "wmodule \<Rightarrow> func_declaration \<Rightarrow> bool" where
  "decl_ok md d \<longleftrightarrow>
     param_types (sig d) = [] \<and> length (result_types (sig d)) \<le> 1 \<or> get_func_type_index md d \<noteq> invalid_index"

lemma appends_block_decl [appends_intros]: "decl_ok md d \<Longrightarrow> appends (write_block_decl md d) (enc_block_decl md d)"
  by (auto simp: decl_ok_def write_block_decl_def enc_block_decl_def get_func_type_index_def Let_def
      intro!: appends_intros split: list.split)

lemma appends_const [appends_intros]: "appends (write_const c) (enc_const c)"
  by (cases c) (auto simp del: write_seq.simps intro!: appends_Cons appends_intros)

text \<open>What an expression needs to be written at all.\<close>

fun writable :: "wmodule \<Rightarrow> expr \<Rightarrow> bool" where
  "writable md (OpcodeExpr t op) = opcode_ok op"
| "writable md (LoadStoreExpr t op align off) = opcode_ok op"
| "writable md (BlockExpr d es) = (decl_ok md d \<and> (\<forall>e \<in> set es. writable md e))"
| "writable md (LoopExpr d es) = (decl_ok md d \<and> (\<forall>e \<in> set es. writable md e))"
| "writable md (IfExpr d ts fs) = (decl_ok md d \<and> (\<forall>e \<in> set ts. writable md e) \<and> (\<forall>e \<in> set fs. writable md e))"
| "writable md (IfExceptExpr d v ts fs) = (decl_ok md d \<and> (\<forall>e \<in> set ts. writable md e) \<and> (\<forall>e \<in> set fs. writable md e))"
| "writable md (TryExpr d es cs) = (decl_ok md d \<and> (\<forall>e \<in> set es. writable md e) \<and> (\<forall>e \<in> set cs. writable md e))"
| "writable md (SimdLaneOpExpr op v) = opcode_ok op"
| "writable md (SimdShuffleOpExpr op v) = opcode_ok op"
| "writable md e = True"

lemma appends_expr: "writable md e \<Longrightarrow> appends (write_expr md e) (enc_expr md e)"
proof (induction e)
  case (LoadStoreExpr t op align off)
  then show ?case
    by (auto simp: write_load_store_expr_def simp del: write_seq.simps intro!: appends_byte appends_Cons appends_intros)
next
  case (SimdLaneOpExpr op v)
  have "(of_nat (unat (ucast v :: byte)) :: byte) = ucast v" by simp
  moreover have "appends (write_u8 (unat (ucast v :: byte))) [of_nat (unat (ucast v :: byte))]"
    using unat_byte_less [of "ucast v"] by (intro appends_u8) linarith
  ultimately show ?case using SimdLaneOpExpr
    by (auto simp del: write_seq.simps intro!: appends_Cons appends_intros)
next
  case (BrTableExpr ts d)
  show ?case by (auto simp: enc_vec_def enc_list_def enc_count_def simp del: write_seq.simps
        intro!: appends_Cons appends_append appends_map appends_intros)
qed (auto simp del: write_seq.simps intro!: appends_Cons appends_append appends_map appends_intros split: if_splits)

lemma appends_exprs: "\<forall>e \<in> set es. writable md e \<Longrightarrow> appends (write_expr_list md es) (enc_exprs md es)"
  unfolding write_expr_list_def enc_exprs_def by (rule appends_map) (simp add: appends_expr)

section \<open>Parts of sections\<close>

lemma appends_limits [appends_intros]: "appends (write_limits l) (enc_limits l)"
  by (auto simp: write_limits_def enc_limits_def Let_def simp del: write_seq.simps
      intro!: appends_Cons appends_append appends_intros)

lemma appends_table [appends_intros]: "appends (write_table l) (enc_table l)"
  unfolding write_table_def enc_table_def
  using appends_Cons [OF appends_type appends_Cons [OF appends_limits appends_Nil]] by simp

lemma appends_memory [appends_intros]: "appends (write_memory l) (enc_limits l)"
  by (simp add: write_memory_def appends_limits)

lemma appends_global_header [appends_intros]: "appends (write_global_header t mut) (enc_global_header t mut)"
proof -
  have "appends (write_u8 (if mut then 1 else 0)) [if mut then 1 else 0]"
    using appends_u8 [of 1] appends_u8 [of 0] by simp
  from appends_Cons [OF appends_type appends_Cons [OF this appends_Nil]] show ?thesis
    by (simp add: write_global_header_def enc_global_header_def del: write_seq.simps)
qed

lemma appends_items [appends_intros]:
  "(\<And>x. x \<in> set xs \<Longrightarrow> appends (w x) (e x)) \<Longrightarrow> appends (write_seq (map w xs)) (enc_list e xs)"
  unfolding enc_list_def by (rule appends_map)

lemma appends_vec:
  "(\<And>x. x \<in> set xs \<Longrightarrow> appends (w x) (e x)) \<Longrightarrow> appends (write_seq (write_count xs # map w xs)) (enc_vec e xs)"
  unfolding enc_vec_def by (intro appends_Cons appends_count appends_items)

lemma appends_seq: "appends w bs \<Longrightarrow> appends (write_seq [w]) bs"
  by (simp del: write_seq.simps)

lemma appends_except_type [appends_intros]: "appends (write_except_type s) (enc_vec enc_s32 s)"
  using appends_vec [OF appends_type, of s] by (simp add: write_except_type_def write_count_def del: write_seq.simps)

lemma appends_func_type: "appends (write_func_type s) (enc_func_type s)"
  unfolding write_func_type_def enc_func_type_def enc_vec_def append_assoc append_Cons append_Nil
  by (intro appends_Cons appends_append appends_items appends_intros)

lemma appends_init_expr: "\<forall>e \<in> set es. writable md e \<Longrightarrow> appends (write_init_expr md es) (enc_init_expr md es)"
  unfolding write_init_expr_def enc_init_expr_def
  by (intro appends_Cons appends_exprs appends_seq appends_opcode) simp_all

lemma appends_locals: "appends (write_func_locals ds) (enc_locals ds)"
proof -
  have "appends (write_seq [write_u32_leb128 n, write_type t]) (enc_u32 n @ enc_s32 t)" for n t
    by (intro appends_Cons appends_seq appends_intros)
  then have "appends (write_seq (write_count ds # map (\<lambda>(t, n). write_seq [write_u32_leb128 n, write_type t]) ds))
      (enc_vec (\<lambda>(t, n). enc_u32 n @ enc_s32 t) ds)"
    by (intro appends_vec) (auto simp del: write_seq.simps)
  then show ?thesis
    by (simp add: write_func_locals_def enc_locals_def write_count_def appends_u32_leb del: write_seq.simps)
qed

lemma appends_func: "\<forall>e \<in> set (func_exprs f). writable md e \<Longrightarrow> appends (write_func md f) (enc_func md f)"
  unfolding write_func_def enc_func_def
  by (intro appends_Cons appends_locals appends_exprs appends_seq appends_opcode) simp_all

lemma appends_import_desc: "appends (write_import_desc md d) (enc_import_desc md d)"
  by (cases d) (simp_all add: appends_intros)

lemma kind_code_less [simp]: "kind_code k \<le> 255"
  by (cases k) simp_all

lemma appends_import: "appends (write_import md i) (enc_import md i)"
  unfolding write_import_def enc_import_def
  by (intro appends_Cons appends_str appends_u8 appends_seq appends_import_desc) simp

lemma appends_global:
  "\<forall>p \<in> set (init_expr g). writable md (fst p) \<Longrightarrow> appends (write_global md g) (enc_global md g)"
  unfolding write_global_def enc_global_def
  by (intro appends_Cons appends_global_header appends_seq appends_init_expr) simp

lemma appends_export: "appends (write_export e) (enc_export e)"
  unfolding write_export_def enc_export_def by (intro appends_Cons appends_str appends_u8 appends_seq appends_u32_leb) simp

lemma appends_elem_segment:
  "\<forall>e \<in> set (elem_offset s). writable md e \<Longrightarrow> appends (write_elem_segment md s) (enc_elem_segment md s)"
  unfolding write_elem_segment_def enc_elem_segment_def enc_vec_def append_Cons append_Nil
  by (intro appends_Cons appends_append appends_items appends_init_expr appends_u32_leb appends_count)

lemma appends_data_segment:
  "\<forall>e \<in> set (data_offset s). writable md e \<Longrightarrow> appends (write_data_segment md s) (enc_data_segment md s)"
  unfolding write_data_segment_def enc_data_segment_def enc_str_def
  by (intro appends_Cons appends_u32_leb appends_init_expr appends_seq appends_count) (assumption | rule appends_data)+

section \<open>Sizes filled in afterwards\<close>

lemma length_enc_size_False [simp]: "length (enc_size False n) = 5"
  by (simp add: enc_size_def write_fixed_u32_leb128_raw_def max_u32_leb128_bytes_def)

lemma leb_length_vbytes: "n < 2 ^ 32 \<Longrightarrow> unat (u32_leb128_length (of_nat n)) = length (vbytes n)"
  using length_vbytes_u32 [of "of_nat n"] by (simp add: u32_leb128_length_def u32_length_loop unat_of_nat)

lemma drop_front: "drop (length xs + n) (xs @ ys) = drop n ys"
  by (simp add: drop_append)

lemma write_fixup:
  assumes "length pl < 2 ^ 32"
  shows "write_fixup_u32_leb128_size canon (length (out_data st)) 1
      (put (replicate (if canon then 1 else 5) 0 @ pl) st) = Inr (put (enc_sized canon pl) st)"
proof (cases canon)
  case True
  let ?v = "vbytes (length pl)" and ?d = "out_data st"
  define x where "x = put ([0] @ pl) st"
  then have x: "out_data x = ?d @ 0 # pl" "out_offset x = length ?d + 1 + length pl" by (simp_all add: put_def)
  define k where "k = length ?v - 1"
  have k: "length ?v = Suc k" by (simp add: k_def)
  have bytes: "u32_leb128_bytes (of_nat (length pl)) = Inr ?v"
    using assms by (simp add: u32_leb128_bytes_vbytes unat_of_nat)
  define y where "y = (if k \<noteq> 0 then move_data (length ?d + Suc k) (length ?d + 1) (length pl) x else x)"
  have off: "out_offset y = length ?d + 1 + length pl"
    by (simp add: y_def x move_data_def Let_def)
  obtain junk where y: "out_data y = ?d @ junk @ pl" "length junk = Suc k"
  proof (cases "k = 0 \<or> pl = []")
    case True
    then have "out_data y = ?d @ [0] @ pl" by (auto simp: y_def x move_data_def)
    moreover have "k = 0" using True k by (auto simp: vbytes.simps)
    ultimately show ?thesis using that by simp
  next
    case False
    then have "out_data y = ?d @ take (Suc k) (0 # pl @ replicate k 0) @ pl"
      by (simp add: y_def x move_data_def Let_def resize_def min_def max_def add.assoc)
    moreover have "length (take (Suc k) (0 # pl @ replicate k 0)) = Suc k" by simp
    ultimately show ?thesis using that by blast
  qed
  have "write_data_at (length ?d) ?v y = y\<lparr>out_data := ?d @ ?v @ pl\<rparr>"
    using y k by (simp add: write_data_at_def write_data_impl_def Let_def)
  moreover have "write_fixup_u32_leb128_size canon (length ?d) 1 x =
      rbind (write_u32_leb128_at (length ?d) (of_nat (length pl)) y) (\<lambda>(n, st). Inr (add_offset k st))"
    using True k assms by (simp add: write_fixup_u32_leb128_size_def leb_length_vbytes Let_def x y_def)
  ultimately have "write_fixup_u32_leb128_size canon (length ?d) 1 x = Inr (put (enc_sized canon pl) st)"
    using True off k by (simp add: write_u32_leb128_at_def bytes add_offset_def put_def enc_sized_def enc_size_def)
  moreover have "put (replicate (if canon then 1 else 5) 0 @ pl) st = x" using True by (simp add: x_def)
  ultimately show ?thesis by simp
next
  case False
  then show ?thesis
    by (simp add: write_fixup_u32_leb128_size_def Let_def write_fixed_u32_leb128_at_def write_data_at_def
        write_data_impl_def put_def enc_sized_def enc_size_def write_fixed_u32_leb128_raw_def max_u32_leb128_bytes_def)
qed

lemma appends_func_body:
  assumes "\<forall>e \<in> set (func_exprs f). writable md e" "length (enc_func md f) < 2 ^ 32"
  shows "appends (write_func_body canon md f) (enc_sized canon (enc_func md f))"
  unfolding appends_def
proof (intro allI impI)
  fix st assume st: "at_end st"
  let ?room = "replicate (if canon then 1 else 5) 0"
  have "write_u32_leb128_space canon 1 st = Inr (length (out_data st), put ?room st)"
    using st by (simp add: write_u32_leb128_space_def max_u32_leb128_bytes_def at_end_def write_data_end put_def)
  moreover have "write_func md f (put ?room st) = Inr (put (enc_func md f) (put ?room st))"
    using appends_func [OF assms(1)] by (rule appendsD) simp
  ultimately show "write_func_body canon md f st = Inr (put (enc_sized canon (enc_func md f)) st)"
    using write_fixup [OF assms(2), of canon st] by (simp add: write_func_body_def)
qed

section \<open>Whole modules\<close>

definition bw_appends :: "bin_writer writing \<Rightarrow> byte list \<Rightarrow> bool" where
  "bw_appends w bs \<longleftrightarrow> (\<forall>bw. at_end (bw_stream bw) \<and> last_section_leb_size_guess bw = 0 \<longrightarrow>
     (\<exists>bw'. w bw = Inr bw' \<and> bw_stream bw' = put bs (bw_stream bw) \<and> last_section_leb_size_guess bw' = 0))"

lemma bw_appends_stream: "appends w bs \<Longrightarrow> bw_appends (on_stream w) bs"
  by (auto simp: bw_appends_def on_stream_def dest!: appendsD)

lemma bw_appends_Inr: "bw_appends Inr []"
  by (simp add: bw_appends_def put_def at_end_def)

lemma bw_appends_Nil: "bw_appends (write_seq []) []"
  by (simp add: bw_appends_def put_def at_end_def)

lemma bw_appends_Cons: "bw_appends w bs \<Longrightarrow> bw_appends (write_seq ws) cs \<Longrightarrow> bw_appends (write_seq (w # ws)) (bs @ cs)"
  unfolding bw_appends_def by (metis at_end_put put_put rbind_Inr write_seq.simps(2))

lemma on_stream_Cons: "on_stream (write_seq (w # ws)) bw = rbind (on_stream w bw) (on_stream (write_seq ws))"
  by (cases "w (bw_stream bw)") (simp_all add: on_stream_def)

lemma write_seq_on_stream: "write_seq (map on_stream ws) bw = on_stream (write_seq ws) bw"
proof (induction ws arbitrary: bw)
  case (Cons w ws)
  then have "write_seq (map on_stream ws) = on_stream (write_seq ws)" by blast
  then show ?case by (subst on_stream_Cons) simp
qed (simp add: on_stream_def)

lemma bw_appends_section:
  assumes ws: "appends (write_seq ws) pl" and small: "length pl < 2 ^ 32" and code: "code \<le> 255"
  shows "bw_appends (write_section canon code ws) (enc_section canon code pl)"
  unfolding bw_appends_def
proof (intro allI impI)
  fix bw :: bin_writer assume bw: "at_end (bw_stream bw) \<and> last_section_leb_size_guess bw = 0"
  let ?st = "bw_stream bw"
  let ?st1 = "put [of_nat code] ?st" and ?room = "replicate (if canon then 1 else 5) 0"
  have "write_u8 code ?st = Inr ?st1" using appends_u8 [OF code] bw by (simp add: appends_def)
  moreover have "write_u32_leb128_space canon 1 ?st1 = Inr (length (out_data ?st1), put ?room ?st1)"
    by (simp add: write_u32_leb128_space_def max_u32_leb128_bytes_def write_data_end put_def)
  ultimately have b: "begin_known_section canon code bw = Inr (bw\<lparr>bw_stream := put ?room ?st1, last_section_leb_size_guess := 1,
      last_section_offset := length (out_data ?st1), last_section_payload_offset := out_offset (put ?room ?st1)\<rparr>)"
    using bw by (simp add: begin_known_section_def write_section_header_def leb_section_size_guess_def del: put_put)
  have "write_seq ws (put ?room ?st1) = Inr (put pl (put ?room ?st1))" using ws by (rule appendsD) simp
  moreover have "write_fixup_u32_leb128_size canon (length (out_data ?st1)) 1 (put (?room @ pl) ?st1) = Inr (put (enc_sized canon pl) ?st1)"
    by (rule write_fixup [OF small])
  ultimately show "\<exists>bw'. write_section canon code ws bw = Inr bw' \<and>
      bw_stream bw' = put (enc_section canon code pl) ?st \<and> last_section_leb_size_guess bw' = 0"
    by (simp add: write_section_def write_seq_append write_seq_on_stream b on_stream_def end_section_def enc_section_def)
qed

lemma bw_appends_vec_section:
  assumes "\<And>x. x \<in> set xs \<Longrightarrow> appends (w x) (e x)" "length (enc_vec e xs) < 2 ^ 32" "code \<le> 255"
  shows "bw_appends (section_unless_empty canon code xs w) (enc_vec_section canon code e xs)"
  unfolding section_unless_empty_def enc_vec_section_def
  using bw_appends_section [OF appends_vec [of xs w e] assms(2,3), of canon] assms(1) bw_appends_Inr by auto

definition module_writable :: "wmodule \<Rightarrow> bool" where
  "module_writable md \<longleftrightarrow>
     excepts md = [] \<and> num_except_imports md = 0 \<and>
     unat (num_func_imports md) \<le> length (funcs md) \<and> unat (num_table_imports md) \<le> length (tables md) \<and>
     unat (num_memory_imports md) \<le> length (memories md) \<and> unat (num_global_imports md) \<le> length (globals md) \<and>
     (\<forall>f \<in> set (defined_funcs md). \<forall>e \<in> set (func_exprs f). writable md e) \<and>
     (\<forall>g \<in> set (defined_globals md). \<forall>p \<in> set (init_expr g). writable md (fst p)) \<and>
     (\<forall>s \<in> set (elem_segments md). \<forall>e \<in> set (elem_offset s). writable md e) \<and>
     (\<forall>s \<in> set (ir_data_segments md). \<forall>e \<in> set (data_offset s). writable md e)"

lemma section_in_module: "s \<in> set (enc_sections canon md) \<Longrightarrow> length s \<le> length (enc_module canon md)"
  by (auto simp: enc_module_def length_concat intro!: trans_le_add2 member_le_sum_list)

lemma vec_in_section: "xs \<noteq> [] \<Longrightarrow> length (enc_vec e xs) \<le> length (enc_vec_section canon code e xs)"
  by (simp add: enc_vec_section_def enc_section_def enc_sized_def)

lemma item_in_vec: "x \<in> set xs \<Longrightarrow> length (e x) \<le> length (enc_vec e xs)"
  by (auto simp: enc_vec_def enc_list_def length_concat intro!: trans_le_add2 member_le_sum_list)

lemma bw_appends_of_module:
  assumes "length (enc_module canon md) < 2 ^ 32" "enc_vec_section canon code e xs \<in> set (enc_sections canon md)"
    and "code \<le> 255" "\<And>x. x \<in> set xs \<Longrightarrow> appends (w x) (e x)"
  shows "bw_appends (section_unless_empty canon code xs w) (enc_vec_section canon code e xs)"
proof (cases "xs = []")
  case True
  then show ?thesis by (simp add: section_unless_empty_def enc_vec_section_def bw_appends_Inr)
next
  case False
  have "length (enc_vec e xs) < 2 ^ 32"
    using section_in_module [OF assms(2)] vec_in_section [OF False, of e canon code] assms(1) by linarith
  then show ?thesis using assms(3,4) by (intro bw_appends_vec_section) auto
qed

lemma func_in_module:
  assumes f: "f \<in> set (defined_funcs md)" and small: "length (enc_module canon md) < 2 ^ 32"
  shows "length (enc_func md f) < 2 ^ 32"
proof -
  let ?e = "\<lambda>f. enc_sized canon (enc_func md f)" and ?fs = "defined_funcs md"
  have "enc_vec_section canon 10 ?e ?fs \<in> set (enc_sections canon md)" by (simp add: enc_sections_def)
  moreover have "?fs \<noteq> []" using f by auto
  ultimately have "length (?e f) < 2 ^ 32"
    using item_in_vec [OF f, of ?e] vec_in_section [of ?fs ?e canon 10] section_in_module small by (meson le_less_trans)
  then show ?thesis by (simp add: enc_sized_def)
qed

lemma bw_appends_write_module:
  assumes ok: "module_writable md" and small: "length (enc_module canon md) < 2 ^ 32"
  shows "bw_appends (write_module canon md) (enc_module canon md)"
proof -
  note sec = bw_appends_of_module [OF small]
  have "length (enc_u32 v) < 2 ^ 32" for v
    using length_vbytes_u32 [of v] by (simp add: enc_u32_def)
  then have start: "bw_appends (write_start_section canon md)
      (case starts md of [] \<Rightarrow> [] | v # _ \<Rightarrow> if v \<noteq> invalid_index then enc_section canon 8 (enc_u32 v) else [])"
    using bw_appends_section [OF appends_seq [OF appends_u32_leb], of _ 8 canon]
    by (auto simp: write_start_section_def bw_appends_Inr split: list.split)
  have except: "bw_appends (write_exception_section canon md) []"
    using ok by (simp add: module_writable_def write_exception_section_def defined_def bw_appends_def put_def at_end_def)
  let ?fs = "defined_funcs md"
  have "bw_appends (write_seq
       [on_stream (write_u32 0x6d736100), on_stream (write_u32 1),
        section_unless_empty canon 1 (func_types md) write_func_type,
        section_unless_empty canon 2 (import_list md) (write_import md),
        section_unless_empty canon 3 ?fs (\<lambda>f. write_u32_leb128 (get_func_type_index md (func_decl f))),
        section_unless_empty canon 4 (defined_tables md) write_table,
        section_unless_empty canon 5 (defined_memories md) write_memory,
        section_unless_empty canon 6 (defined_globals md) (write_global md),
        section_unless_empty canon 7 (export_list md) write_export,
        write_start_section canon md,
        section_unless_empty canon 9 (elem_segments md) (write_elem_segment md),
        write_exception_section canon md,
        section_unless_empty canon 10 ?fs (write_func_body canon md),
        section_unless_empty canon 11 (ir_data_segments md) (write_data_segment md)])
     (le_bytes 4 (0x6d736100 :: u32) @ le_bytes 4 (1 :: u32) @
        enc_vec_section canon 1 enc_func_type (func_types md) @ enc_vec_section canon 2 (enc_import md) (import_list md) @
        enc_vec_section canon 3 (\<lambda>f. enc_u32 (get_func_type_index md (func_decl f))) ?fs @
        enc_vec_section canon 4 enc_table (defined_tables md) @ enc_vec_section canon 5 enc_limits (defined_memories md) @
        enc_vec_section canon 6 (enc_global md) (defined_globals md) @ enc_vec_section canon 7 enc_export (export_list md) @
        (case starts md of [] \<Rightarrow> [] | v # _ \<Rightarrow> if v \<noteq> invalid_index then enc_section canon 8 (enc_u32 v) else []) @
        enc_vec_section canon 9 (enc_elem_segment md) (elem_segments md) @ [] @
        enc_vec_section canon 10 (\<lambda>f. enc_sized canon (enc_func md f)) ?fs @
        enc_vec_section canon 11 (enc_data_segment md) (ir_data_segments md) @ [])"
    (is "bw_appends ?w ?bs")
    using ok func_in_module [OF _ small]
    by (intro bw_appends_Cons bw_appends_Nil bw_appends_stream appends_fixed sec start except)
       (auto simp: enc_sections_def module_writable_def intro!: appends_func_type appends_import appends_u32_leb appends_table
          appends_memory appends_global appends_export appends_elem_segment appends_func_body appends_data_segment)
  moreover have "?bs = enc_module canon md" by (simp add: enc_module_def enc_sections_def)
  moreover have "write_module canon md = ?w"
    using ok by (auto simp: module_writable_def write_module_def defined_def defined_funcs_def defined_tables_def
        defined_memories_def defined_globals_def simp del: write_seq.simps)
  ultimately show ?thesis by simp
qed

lemma write_binary_emits:
  assumes "module_writable md" "length (enc_module canon md) < 2 ^ 32"
  shows "write_binary_module_to canon md = Inr (put (enc_module canon md) mem_out_empty)"
proof -
  obtain bw where "write_module canon md new_writer = Inr bw" "bw_stream bw = put (enc_module canon md) mem_out_empty"
    using bw_appends_write_module [OF assms] unfolding bw_appends_def
    by (auto simp: new_writer_def at_end_def mem_out_empty_def dest!: spec [of _ new_writer])
  then show ?thesis by (simp add: write_binary_module_to_def)
qed

text \<open>C40: a module without exceptions whose operands the writer can name is written without an assertion
  failing, and the stream then holds exactly the encoding of the module: every section that is not
  empty in its order with its size, minimal or in five bytes, although sizes are filled in after the
  contents and the contents are moved to make room for them.\<close>

theorem writer_emits_encoding:
  assumes "module_writable md" "length (enc_module canon md) < 2 ^ 32"
  shows "write_binary_module_to canon md = Inr (put (enc_module canon md) mem_out_empty)"
  using assms by (rule write_binary_emits)

theorem writer_emits_encoding_witness:
  "\<exists>st. write_binary_module_to True (empty_module
      \<lparr>func_types := [\<lparr>param_types = [ty_i32], result_types = []\<rparr>],
       memories := [\<lparr>initial = 1, max_limit = 0, has_max = False, is_shared = False\<rparr>],
       ir_data_segments := [\<lparr>memory_var = 0, data_offset = [ConstExpr (CI32 16)], data_bytes = [1, 2]\<rparr>]\<rparr>) = Inr st \<and>
     out_data st = [0x00, 0x61, 0x73, 0x6d, 1, 0, 0, 0, 1, 5, 1, 0x60, 1, 0x7f, 0, 5, 3, 1, 0, 1, 11, 8, 1, 0, 0x41, 16, 0x0b, 2, 1, 2]"
proof -
  let ?md = "empty_module
      \<lparr>func_types := [\<lparr>param_types = [ty_i32], result_types = []\<rparr>],
       memories := [\<lparr>initial = 1, max_limit = 0, has_max = False, is_shared = False\<rparr>],
       ir_data_segments := [\<lparr>memory_var = 0, data_offset = [ConstExpr (CI32 16)], data_bytes = [1, 2]\<rparr>]\<rparr>"
  have bytes: "enc_module True ?md =
      [0x00, 0x61, 0x73, 0x6d, 1, 0, 0, 0, 1, 5, 1, 0x60, 1, 0x7f, 0, 5, 3, 1, 0, 1, 11, 8, 1, 0, 0x41, 16, 0x0b, 2, 1, 2]"
    by code_simp
  have "module_writable ?md" by code_simp
  then show ?thesis using writer_emits_encoding [of ?md True] unfolding bytes by (simp add: put_def mem_out_empty_def)
qed

end
