(* ===== verification/WasmRuns.thy ===== *)
theory WasmRuns
  imports WasmSections WasmEncode
begin

text \<open>
  How the reader consumes what the format prescribes: \<open>runs m bs c v c'\<close> says that the operation \<open>m\<close>,
  where the bytes \<open>bs\<close> come next, returns \<open>v\<close>, stops right behind them and takes the rest of the
  state from \<open>c\<close> to \<open>c'\<close>. Positions, also those kept in modules, are left out of \<open>c\<close> and \<open>c'\<close>.
\<close>

section \<open>The judgement\<close>

definition unloc_global :: "global \<Rightarrow> global" where
  "unloc_global g = g\<lparr>init_expr := map (\<lambda>(e, loc). (e, 0)) (init_expr g)\<rparr>"

definition unloc :: "wmodule \<Rightarrow> wmodule" where
  "unloc md = md\<lparr>globals := map unloc_global (globals md)\<rparr>"

lemma unloc_simps [simp]:
  "num_except_imports (unloc md) = num_except_imports md" "num_func_imports (unloc md) = num_func_imports md"
  "num_table_imports (unloc md) = num_table_imports md" "num_memory_imports (unloc md) = num_memory_imports md"
  "num_global_imports (unloc md) = num_global_imports md" "excepts (unloc md) = excepts md" "funcs (unloc md) = funcs md"
  "globals (unloc md) = map unloc_global (globals md)" "import_list (unloc md) = import_list md"
  "export_list (unloc md) = export_list md" "func_types (unloc md) = func_types md" "tables (unloc md) = tables md"
  "elem_segments (unloc md) = elem_segments md" "memories (unloc md) = memories md"
  "ir_data_segments (unloc md) = ir_data_segments md" "starts (unloc md) = starts md"
  by (simp_all add: unloc_def)

lemma unloc_global_simps [simp]:
  "global_type (unloc_global g) = global_type g" "global_mutable (unloc_global g) = global_mutable g"
  "unloc_global (unloc_global g) = unloc_global g"
  by (simp_all add: unloc_global_def comp_def case_prod_unfold)

definition ghost :: "reader \<Rightarrow> reader" where
  "ghost st = st\<lparr>offset := 0, out_module := unloc (out_module st)\<rparr>"

lemma ghost_fields [simp]:
  "data (ghost st) = data st"
  "read_end (ghost st) = read_end st"
  "offset (ghost st) = 0"
  by (simp_all add: ghost_def)

lemma ghost_counts [simp]:
  "r_num_signatures (ghost st) = r_num_signatures st"
  "r_num_func_imports (ghost st) = r_num_func_imports st"
  "r_num_table_imports (ghost st) = r_num_table_imports st"
  "r_num_memory_imports (ghost st) = r_num_memory_imports st"
  "r_num_global_imports (ghost st) = r_num_global_imports st"
  "r_num_exception_imports (ghost st) = r_num_exception_imports st"
  by (simp_all add: ghost_def)

lemma ghost_sizes [simp]:
  "r_num_function_signatures (ghost st) = r_num_function_signatures st"
  "r_num_tables (ghost st) = r_num_tables st"
  "r_num_memories (ghost st) = r_num_memories st"
  "r_num_globals (ghost st) = r_num_globals st"
  "r_num_function_bodies (ghost st) = r_num_function_bodies st"
  by (simp_all add: ghost_def)

lemma ghost_delegate [simp]:
  "last_known_section (ghost st) = last_known_section st"
  "out_module (ghost st) = unloc (out_module st)"
  "current_func (ghost st) = current_func st"
  "label_stack (ghost st) = label_stack st"
  "current_init_expr (ghost st) = current_init_expr st"
  by (simp_all add: ghost_def)

lemma ghost_offset [simp]: "ghost (st\<lparr>offset := n\<rparr>) = ghost st"
  by (simp add: ghost_def)

definition runs :: "'a rd \<Rightarrow> byte list \<Rightarrow> reader \<Rightarrow> 'a \<Rightarrow> reader \<Rightarrow> bool" where
  "runs m bs c v c' \<longleftrightarrow> (\<forall>st r. ghost st = c \<longrightarrow> left_of st = bs @ r \<longrightarrow>
     (\<exists>st'. m st = Inr (v, st') \<and> ghost st' = c' \<and> offset st' = offset st + length bs \<and> left_of st' = r))"

lemma runsD:
  assumes "runs m bs c v c'" "ghost st = c" "left_of st = bs @ r"
  obtains st' where "m st = Inr (v, st')" "ghost st' = c'" "offset st' = offset st + length bs" "left_of st' = r"
  using assms unfolding runs_def by blast

lemma left_of_advance: "left_of (st\<lparr>offset := offset st + n\<rparr>) = drop n (left_of st)"
  by (simp add: left_of_def add.commute)

lemma left_advance: "left_of st = bs @ r \<Longrightarrow> left_of (st\<lparr>offset := offset st + length bs\<rparr>) = r"
  by (simp add: left_of_advance)

lemma left_bounds:
  assumes "left_of st = bs @ r" "bs \<noteq> []"
  shows "offset st + length bs + length r \<le> read_end st"
proof -
  have "length bs + length r = min (length (data st)) (read_end st) - offset st"
    using arg_cong [OF assms(1), of length] by (simp add: left_of_def)
  moreover have "0 < length bs" using assms(2) by simp
  moreover have "min (length (data st)) (read_end st) \<le> read_end st" by simp
  ultimately show ?thesis by linarith
qed

text \<open>An operation that reads a value and changes nothing else.\<close>

lemma runs_plain:
  assumes "\<And>st r. left_of st = bs @ r \<Longrightarrow> m st = Inr (v, st\<lparr>offset := offset st + length bs\<rparr>)"
  shows "runs m bs c v c"
  unfolding runs_def by (auto simp: assms left_advance)

lemma runs_mono: "runs m bs c v c' \<Longrightarrow> (\<And>st st'. m st = Inr (v, st') \<Longrightarrow> m' st = Inr (v, st')) \<Longrightarrow> runs m' bs c v c'"
  unfolding runs_def by blast

named_theorems runs_intros \<open>what the reader consumes\<close>

lemma runs_bind: "runs m bs c u c1 \<Longrightarrow> runs (k u) cs c1 v c2 \<Longrightarrow> runs (rd_bind m k) (bs @ cs) c v c2"
  unfolding runs_def rd_bind_def by fastforce

lemma runs_silent: "runs m [] c u c1 \<Longrightarrow> runs (k u) cs c1 v c2 \<Longrightarrow> runs (rd_bind m k) cs c v c2"
  using runs_bind [of m "[]"] by fastforce

lemma runs_last: "runs m bs c u c1 \<Longrightarrow> runs (k u) [] c1 v c2 \<Longrightarrow> runs (rd_bind m k) bs c v c2"
  using runs_bind [of m bs c u c1 k "[]"] by simp

lemma runs_return [runs_intros]: "c = c' \<Longrightarrow> runs (rd_return v) [] c v c'"
  by (simp add: runs_def rd_return_def)

lemma runs_get: "(\<And>st. f (ghost st) = f st) \<Longrightarrow> runs (k (f c)) bs c v c' \<Longrightarrow> runs (rd_bind (rd_get f) k) bs c v c'"
  unfolding runs_def rd_bind_def rd_get_def by (auto 0 3)

lemma runs_ok: "p \<Longrightarrow> runs (k ()) bs c v c' \<Longrightarrow> runs (rd_bind (error_unless p e) k) bs c v c'"
  by (simp add: runs_def rd_bind_def error_unless_def rd_return_def)

lemma runs_ok_last: "p \<Longrightarrow> runs (error_unless p e) [] c () c"
  by (simp add: runs_def error_unless_def rd_return_def)

lemma runs_assert: "p \<Longrightarrow> runs (k ()) bs c v c' \<Longrightarrow> runs (rd_bind (rd_assert p e) k) bs c v c'"
  by (simp add: runs_def rd_bind_def rd_assert_def rd_return_def)

lemma runs_modify_last:
  assumes "\<And>st. ghost (f st) = f (ghost st)" "\<And>st. left_of (f st) = left_of st" "\<And>st. offset (f st) = offset st" "c' = f c"
  shows "runs (rd_modify f) [] c () c'"
  using assms by (auto simp: runs_def rd_modify_def)

lemmas runs_modify = runs_silent [OF runs_modify_last]

lemma runs_module_last:
  "(\<And>md. unloc (f md) = f (unloc md)) \<Longrightarrow> c' = c\<lparr>out_module := f (out_module c)\<rparr> \<Longrightarrow> runs (rd_module f) [] c () c'"
  unfolding rd_module_def by (rule runs_modify_last) (simp_all add: ghost_def left_of_def)

lemmas runs_module = runs_silent [OF runs_module_last]

lemma runs_skip: "\<exists>v. runs m bs c v c' \<Longrightarrow> runs (rd_skip m) bs c () c'"
  unfolding rd_skip_def by (auto intro!: runs_last runs_return)

lemma runs_times:
  assumes "\<And>j. j < length xs \<Longrightarrow> \<exists>y. runs (body (i + of_nat j)) (e (xs ! j)) (C j) y (C (Suc j))"
  shows "\<exists>ys. runs (rd_times (length xs) i body) (enc_list e xs) (C 0) ys (C (length xs))"
  using assms
proof (induction xs arbitrary: i C)
  case (Cons x xs)
  obtain y where y: "runs (body i) (e x) (C 0) y (C 1)" using Cons.prems [of 0] by auto
  have "\<exists>ys. runs (rd_times (length xs) (i + 1) body) (enc_list e xs) (C (Suc 0)) ys (C (Suc (length xs)))"
    using Cons.prems [of "Suc j" for j] by (intro Cons.IH) (simp add: add.assoc)
  then obtain ys where ys: "runs (rd_times (length xs) (i + 1) body) (enc_list e xs) (C 1) ys (C (Suc (length xs)))" by auto
  have "runs (rd_times (Suc (length xs)) i body) (e x @ enc_list e xs) (C 0) (y # ys) (C (Suc (length xs)))"
    unfolding rd_times.simps by (rule runs_bind [OF y]) (rule runs_last [OF ys], rule runs_return [OF refl])
  then show ?case by (auto simp: enc_list_def)
qed (auto simp: enc_list_def intro: runs_return)

lemma runs_times_values:
  assumes "\<And>i x. x \<in> set xs \<Longrightarrow> runs (body i) (e x) c x c"
  shows "runs (rd_times (length xs) i body) (enc_list e xs) c xs c"
  using assms
proof (induction xs arbitrary: i)
  case (Cons x xs)
  have "runs (rd_times (Suc (length xs)) i body) (e x @ enc_list e xs) c (x # xs) c"
    unfolding rd_times.simps
    by (rule runs_bind [OF _ runs_last [OF _ runs_return [OF refl]]]) (use Cons in auto)
  then show ?case by (simp add: enc_list_def)
qed (simp add: enc_list_def runs_return)

section \<open>Numbers\<close>

lemma enc_u32_read: "read_u32_leb128 (enc_u32 v @ r) = (length (enc_u32 v), Some v)" "enc_u32 v \<noteq> []"
  using u32_written_read [of v r] by (auto simp: enc_u32_def u32_leb128_bytes_vbytes)

lemma runs_u32_reader:
  assumes "\<And>r. read_u32_leb128 (bs @ r) = (length bs, Some v)" "bs \<noteq> []"
  shows "runs (lift_read (reader_read_u32_leb128 d)) bs c v c"
  using assms by (intro runs_plain) (simp add: lift_read_def reader_read_u32_leb128_def)

lemma runs_u32 [runs_intros]:
  "runs (u32_leb d) (enc_u32 v) c v c" "runs (index_leb d) (enc_u32 v) c v c" "runs (offset_leb d) (enc_u32 v) c v c"
  unfolding u32_leb_def index_leb_def offset_leb_def read_index_def read_offset_def
  by (intro runs_u32_reader enc_u32_read)+

text \<open>A size in either form.\<close>

lemma bit_hex_masks:
  "bit (0x80 :: u32) k \<longleftrightarrow> k = 7" "bit (0x7f :: u32) k \<longleftrightarrow> k < 7" "bit (0x0f :: u32) k \<longleftrightarrow> k < 4"
proof -
  have "(0x80 :: u32) = push_bit 7 1" "(0x7f :: u32) = mask 7" "(0x0f :: u32) = mask 4"
    by (simp_all add: mask_eq_exp_minus_1)
  then show "bit (0x80 :: u32) k \<longleftrightarrow> k = 7" "bit (0x7f :: u32) k \<longleftrightarrow> k < 7" "bit (0x0f :: u32) k \<longleftrightarrow> k < 4"
    by (simp_all only: bit_push_bit_iff bit_1_iff bit_mask_iff) auto
qed

lemma fixed_sevens: "write_fixed_u32_leb128_raw 5 v = sevens 5 (uint v)"
proof -
  have hi: "(ucast ((drop_bit n v AND 0x7f) OR 0x80) :: byte) = low7 (drop_bit n (uint v)) OR 0x80" for n
    by (rule bit_word_eqI)
      (auto simp: bit_unsigned_iff bit_or_iff bit_and_iff bit_hex_masks bit_80 bit_low7 bit_drop_bit_eq bit_uint_iff
        simp del: bit_numeral_word_iff dest: bit_imp_le_length)
  have "(ucast (drop_bit 28 v AND 0x0f) :: byte) = low7 (drop_bit 28 (uint v))"
    by (rule bit_word_eqI)
      (auto simp: bit_unsigned_iff bit_or_iff bit_and_iff bit_hex_masks bit_low7 bit_drop_bit_eq bit_uint_iff
        simp del: bit_numeral_word_iff dest: bit_imp_le_length)
  then show ?thesis using hi [of 0] hi [of 7] hi [of 14] hi [of 21]
    by (simp add: write_fixed_u32_leb128_raw_def max_u32_leb128_bytes_def numeral_eq_Suc)
qed

lemma fixed_u32_read: "read_u32_leb128 (write_fixed_u32_leb128_raw 5 v @ r) = (5, Some v)"
  using read_u32_sevens [of 5 "uint v" r] unsigned_less [of v, where 'a = int] unfolding fixed_sevens
  by (simp del: sevens.simps)

lemma runs_size [runs_intros]:
  assumes "n < 2 ^ 32"
  shows "runs (u32_leb d) (enc_size canon n) c (of_nat n) c" "runs (offset_leb d) (enc_size canon n) c (of_nat n) c"
proof -
  have "runs (lift_read (reader_read_u32_leb128 d)) (enc_size canon n) c (of_nat n) c"
  proof (cases canon)
    case True
    have "enc_size canon n = enc_u32 (of_nat n)" using assms True by (simp add: enc_size_def enc_u32_def unat_of_nat)
    then show ?thesis using runs_u32_reader [of "enc_u32 (of_nat n)"] enc_u32_read by metis
  next
    case False
    then show ?thesis
      using fixed_u32_read [of "of_nat n"] length_enc_size_False [of n]
      by (intro runs_u32_reader) (auto simp: enc_size_def simp del: length_enc_size_False)
  qed
  then show "runs (u32_leb d) (enc_size canon n) c (of_nat n) c" "runs (offset_leb d) (enc_size canon n) c (of_nat n) c"
    by (simp_all add: u32_leb_def offset_leb_def read_offset_def)
qed

lemma runs_signed_reader:
  assumes "\<And>r. reading (bs @ r) = (length bs, Some v)" "bs \<noteq> []"
  shows "runs (signed_leb reading message d) bs c v c"
  using assms by (intro runs_plain) (simp add: signed_leb_def)

lemma enc_s32_read: "read_s32_leb128 (enc_s32 v @ r) = (length (enc_s32 v), Some v)" "enc_s32 v \<noteq> []"
proof -
  obtain bs where bs: "signed_leb128_bytes 5 v = Inr bs" by (rule s32_written)
  have rd: "read_s32_leb128 (bs @ q) = (length bs, Some v)" for q using s32_written_read(2) [OF bs] .
  have "bs \<noteq> []" using rd [of "[]"] by (auto simp: read_s32_leb128_def last_byte_def)
  with rd show "read_s32_leb128 (enc_s32 v @ r) = (length (enc_s32 v), Some v)" "enc_s32 v \<noteq> []"
    by (simp_all add: enc_s32_def bs)
qed

lemma enc_s64_read: "read_s64_leb128 (enc_s64 v @ r) = (length (enc_s64 v), Some v)" "enc_s64 v \<noteq> []"
proof -
  have v: "- (2 ^ 63) \<le> sint v" "sint v < 2 ^ 63" using sint_ge [of v] sint_lt [of v] by simp_all
  then have "fits_signed 10 (sint v)" by (simp add: fits_signed_def)
  then obtain n where n: "signed_leb128_bytes 10 v = Inr (sevens n (sint v))" "fits_signed n (sint v)" "1 \<le> n" "n \<le> 10"
    using signed_leb128_bytes_sevens [of 10 v] by auto
  have rd: "read_s64_leb128 (sevens n (sint v) @ q) = (n, Some v)" for q
    using read_s64_sevens [OF n(2-4) v, of q] by simp
  have "sevens n (sint v) \<noteq> []" using n(3) by (metis length_sevens list.size(3) not_one_le_zero)
  with rd show "read_s64_leb128 (enc_s64 v @ r) = (length (enc_s64 v), Some v)" "enc_s64 v \<noteq> []"
    by (simp_all add: enc_s64_def n(1))
qed

lemma runs_signed [runs_intros]:
  "runs (s32_leb d) (enc_s32 v) c v c" "runs (s64_leb d) (enc_s64 w) c w c" "runs (read_type d) (enc_s32 v) c v c"
  unfolding read_type_def s32_leb_def s64_leb_def
  by (intro runs_signed_reader enc_s32_read enc_s64_read)+

lemma runs_read_t:
  assumes "length bs = n" "0 < n" "le_word bs = v"
  shows "runs (read_t n a d) bs c v c"
proof (rule runs_plain)
  fix st :: reader and r assume l: "left_of st = bs @ r"
  have "offset st + n \<le> read_end st" using left_bounds [OF l] assms(1,2) by auto
  moreover have "take n (drop (offset st) (data st)) = bs"
  proof -
    have "take n (drop (offset st) (data st)) = take n (left_of st)"
      using calculation by (simp add: left_of_def take_drop min_def add.commute)
    then show ?thesis using l assms(1) by simp
  qed
  ultimately show "read_t n a d st = Inr (v, st\<lparr>offset := offset st + length bs\<rparr>)"
    using assms by (simp add: read_t_def)
qed

lemma runs_fixed [runs_intros]:
  "runs (read_u32 d) (le_bytes 4 v) c v c" "runs (read_f32 d) (le_bytes 4 v) c v c"
  "runs (read_f64 d) (le_bytes 8 w) c w c" "runs (read_v128 d) (le_bytes 16 x) c x c"
  unfolding read_u32_def read_f32_def read_f64_def read_v128_def
  by (intro runs_read_t; simp add: le_word_bytes)+

lemma runs_u8 [runs_intros]: "runs (read_u8 d) [b] c b c"
  unfolding read_u8_def by (intro runs_read_t) (simp_all add: le_word_def)

lemma items_length:
  assumes "\<And>x. x \<in> set xs \<Longrightarrow> e x \<noteq> []"
  shows "length xs \<le> length (enc_list e xs)"
  using assms
proof (induction xs)
  case (Cons x xs)
  then have "0 < length (e x)" "length xs \<le> length (enc_list e xs)" by auto
  then have "Suc (length xs) \<le> length (e x) + length (enc_list e xs)" by linarith
  then show ?case by (simp add: enc_list_def)
qed simp

lemma count_leb_items:
  assumes "length xs < 2 ^ 32" "\<And>x. x \<in> set xs \<Longrightarrow> e x \<noteq> []" "ghost st = c" "left_of st = enc_vec e xs @ r"
  obtains st' where "count_leb d st = Inr (of_nat (length xs), st')" "ghost st' = c"
    "offset st' = offset st + length (enc_count xs)" "left_of st' = enc_list e xs @ r"
proof -
  have n: "unat (of_nat (length xs) :: u32) \<le> length (enc_list e xs)"
    using assms(1) items_length [of xs e] assms(2) by (simp add: unat_of_nat)
  have l: "left_of st = enc_count xs @ (enc_list e xs @ r)" using assms(4) by (simp add: enc_vec_def)
  have leb: "runs (u32_leb d) (enc_count xs) c (of_nat (length xs)) c"
    unfolding enc_count_def by (rule runs_u32)
  obtain st' where st': "u32_leb d st = Inr (of_nat (length xs), st')" "ghost st' = c"
    "offset st' = offset st + length (enc_count xs)" "left_of st' = enc_list e xs @ r"
    by (rule runsD [OF leb assms(3) l])
  have "unat (of_nat (length xs) :: u32) \<le> read_end st' - offset st'"
    using left_bounds [of st' "enc_list e xs @ r" "[]"] st'(4) n by (cases "enc_list e xs @ r = []") auto
  then have "count_leb d st = Inr (of_nat (length xs), st')"
    using st'(1) by (auto simp: count_leb_def lift_read_def read_count_def read_index_def u32_leb_def split: sum.splits)
  then show thesis using st' that by blast
qed

lemma runs_count:
  assumes "length xs < 2 ^ 32" "\<And>x. x \<in> set xs \<Longrightarrow> e x \<noteq> []"
    and "runs (k (of_nat (length xs))) (enc_list e xs @ bs) c v c'"
  shows "runs (rd_bind (count_leb d) k) (enc_vec e xs @ bs) c v c'"
  unfolding runs_def
proof (intro allI impI)
  fix st r assume st: "ghost st = c" and l: "left_of st = (enc_vec e xs @ bs) @ r"
  obtain st1 where st1: "count_leb d st = Inr (of_nat (length xs), st1)" "ghost st1 = c"
    "offset st1 = offset st + length (enc_count xs)" "left_of st1 = enc_list e xs @ bs @ r"
    by (rule count_leb_items [of xs e st c "bs @ r" d]) (use assms(1,2) st l in auto)
  obtain st' where "k (of_nat (length xs)) st1 = Inr (v, st')" "ghost st' = c'"
    "offset st' = offset st1 + length (enc_list e xs @ bs)" "left_of st' = r"
    by (rule runsD [OF assms(3) st1(2), of r]) (use st1(4) in simp)
  then show "\<exists>st'. rd_bind (count_leb d) k st = Inr (v, st') \<and> ghost st' = c' \<and>
      offset st' = offset st + length (enc_vec e xs @ bs) \<and> left_of st' = r"
    using st1(1,3) by (simp add: rd_bind_def enc_vec_def)
qed

lemma runs_block:
  assumes "length s < 2 ^ 32"
  shows "runs (lift_read (read_block a b d)) (enc_str s) c s c"
proof (rule runs_plain)
  fix st :: reader and r assume l: "left_of st = enc_str s @ r"
  define pre where "pre = enc_u32 (of_nat (length s))"
  have l': "left_of st = pre @ s @ r" using l by (simp add: pre_def enc_str_def enc_count_def)
  define st1 where "st1 = st\<lparr>offset := offset st + length pre\<rparr>"
  have st1: "left_of st1 = s @ r" using left_advance [OF l'] by (simp add: st1_def)
  have "reader_read_u32_leb128 a st = Inr (of_nat (length s), st1)"
    using l' enc_u32_read by (simp add: reader_read_u32_leb128_def pre_def st1_def)
  moreover have n: "unat (of_nat (length s) :: u32) = length s" using assms by (simp add: unat_of_nat)
  moreover have "offset st1 + length s \<le> read_end st1"
    using left_bounds [OF l'] enc_u32_read(2) by (simp add: st1_def pre_def)
  moreover from this have "take (length s) (drop (offset st1) (data st1)) = take (length s) (left_of st1)"
    by (simp add: left_of_def take_drop min_def add.commute)
  ultimately show "lift_read (read_block a b d) st = Inr (s, st\<lparr>offset := offset st + length (enc_str s)\<rparr>)"
    using st1 by (simp add: lift_read_def read_block_def st1_def enc_str_def enc_count_def pre_def)
qed

lemma runs_bytes [runs_intros]: "length s < 2 ^ 32 \<Longrightarrow> runs (block_bytes d) (enc_str s) c s c"
  unfolding block_bytes_def read_bytes_def by (rule runs_block)

lemma runs_name [runs_intros]: "length s < 2 ^ 32 \<Longrightarrow> is_valid_utf8 s \<Longrightarrow> runs (name_str d) (enc_str s) c s c"
proof -
  assume s: "length s < 2 ^ 32" "is_valid_utf8 s"
  let ?b = "read_block ''string length'' ''unable to read string: '' d"
  have eq: "lift_read ?b st = Inr (s, st') \<Longrightarrow> lift_read (read_str d) st = Inr (s, st')" for st st'
    using s(2) by (auto simp: lift_read_def read_str_def split: sum.splits)
  show ?thesis unfolding name_str_def by (rule runs_mono [OF runs_block [OF s(1)] eq])
qed

text \<open>Opcodes of the table.\<close>

fun known :: "opcode \<Rightarrow> bool" where
  "known (Opc p c) = valid_code p c"
| "known (InvalidOpc p c) = False"

lemma runs_opcode [runs_intros]: "known op \<Longrightarrow> runs (read_opcode d) (enc_opcode op) c op c"
proof (cases op)
  case (Opc p k)
  assume "known op"
  then have valid: "valid_code p k" by (simp add: Opc)
  then have k: "k < 256" "p \<in> {0, 0xfc, 0xfd, 0xfe}" by (auto simp: valid_code_def)
  show ?thesis
  proof (cases "p = 0")
    case True
    then have "\<not> is_prefix_byte k" using valid by (auto simp: valid_code_def is_prefix_byte_def)
    moreover have "unat (of_nat k :: byte) = k" using k by (simp add: unat_of_nat)
    ultimately show ?thesis using True valid k runs_u8 [of d "of_nat k" c]
      by (auto simp: Opc enc_opcode_def has_prefix_def read_opcode_def lift_res_def from_code_valid intro!: runs_last runs_return)
  next
    case False
    have "unat (of_nat k :: u32) = k" "unat (of_nat p :: byte) = p" using k by (auto simp: unat_of_nat)
    moreover have "is_prefix_byte p" using k False by (auto simp: is_prefix_byte_def)
    ultimately have "runs (read_opcode d) ([of_nat p] @ enc_u32 (of_nat k)) c (Opc p k) c"
      unfolding read_opcode_def using valid k
      by (intro runs_bind [OF runs_u8]) (auto intro!: runs_last runs_u32 runs_return simp: lift_res_def from_code_valid)
    then show ?thesis using False by (simp add: Opc enc_opcode_def has_prefix_def)
  qed
qed simp

lemma enc_not_Nil [simp]: "enc_u32 v \<noteq> []" "enc_s32 v \<noteq> []" "enc_s64 w \<noteq> []" "enc_opcode op \<noteq> []"
  by (simp_all add: enc_u32_read enc_s32_read enc_s64_read enc_opcode_def)

section \<open>Limits and headers\<close>

definition table_ok :: "limits \<Rightarrow> bool" where
  "table_ok l \<longleftrightarrow> \<not> is_shared l \<and> initial l < 0x100000000 \<and>
     (if has_max l then max_limit l < 0x100000000 \<and> initial l \<le> max_limit l else max_limit l = 0)"

definition memory_ok :: "limits \<Rightarrow> bool" where
  "memory_ok l \<longleftrightarrow> initial l \<le> 0x10000 \<and> (is_shared l \<longrightarrow> has_max l) \<and>
     (if has_max l then max_limit l \<le> 0x10000 \<and> initial l \<le> max_limit l else max_limit l = 0)"

lemma ucast_u64_u32: "(x :: u64) < 0x100000000 \<Longrightarrow> ucast (ucast x :: u32) = x"
proof (rule word_unat_eq_iff [THEN iffD2])
  assume "x < 0x100000000"
  then have "unat x < 2 ^ 32" by (simp add: word_less_nat_alt)
  then show "unat (ucast (ucast x :: u32) :: u64) = unat x"
    by (simp add: unsigned_ucast_eq unsigned_take_bit_eq take_bit_nat_eq_self)
qed

lemma ucast_mono_32:
  assumes "(x :: u64) < 0x100000000" "y < 0x100000000"
  shows "(ucast x :: u32) \<le> ucast y \<longleftrightarrow> x \<le> y"
proof -
  have "unat x < 2 ^ 32" "unat y < 2 ^ 32" using assms by (simp_all add: word_less_nat_alt)
  then show ?thesis by (simp add: word_le_nat_alt unsigned_ucast_eq take_bit_nat_eq_self)
qed

lemma limits_flags:
  "((if a then 1 else 0) OR (if b then 2 else 0) :: u32) AND 1 \<noteq> 0 \<longleftrightarrow> a"
  "((if a then 1 else 0) OR (if b then 2 else 0) :: u32) AND 2 \<noteq> 0 \<longleftrightarrow> b"
  by auto

lemma runs_returns: "v = w \<Longrightarrow> runs (rd_return v) [] c w c"
  by (simp add: runs_return)

lemma limits_eqI:
  "a = initial l \<Longrightarrow> b = max_limit l \<Longrightarrow> p = has_max l \<Longrightarrow> q = is_shared l \<Longrightarrow>
     \<lparr>initial = a, max_limit = b, has_max = p, is_shared = q\<rparr> = l"
  by (cases l) simp

lemma limits_parts:
  "enc_limits l = enc_u32 ((if has_max l then 1 else 0) OR (if is_shared l then 2 else 0)) @ enc_u32 (ucast (initial l)) @
     (if has_max l then enc_u32 (ucast (max_limit l)) else [])"
  by (simp add: enc_limits_def)

lemmas runs_u32_steps = runs_bind [OF runs_u32(1)] runs_last [OF runs_u32(1)]

lemma runs_table [runs_intros]: "table_ok l \<Longrightarrow> runs read_table (enc_table l) c l c"
  unfolding read_table_def enc_table_def limits_parts Let_def limits_flags
  by (cases "has_max l")
    (auto simp: table_ok_def ucast_mono_32 ucast_u64_u32
      intro!: runs_ok runs_bind [OF runs_signed(3)] runs_u32_steps runs_returns limits_eqI)

lemma page_bounds: "x \<le> 0x10000 \<Longrightarrow> (x :: u64) < 0x100000000 \<and> (ucast x :: u32) \<le> max_pages"
  using ucast_mono_32 [of x "0x10000"] by (auto simp: max_pages_def word_le_nat_alt word_less_nat_alt)

lemma runs_memory [runs_intros]: "memory_ok l \<Longrightarrow> runs read_memory (enc_limits l) c l c"
  unfolding read_memory_def limits_parts Let_def limits_flags
  using page_bounds [of "initial l"] page_bounds [of "max_limit l"]
  by (cases "has_max l")
    (auto simp: memory_ok_def ucast_mono_32 ucast_u64_u32 intro!: runs_ok runs_u32_steps runs_returns limits_eqI)

lemma runs_global_header [runs_intros]:
  "is_concrete_type fs t \<Longrightarrow> runs (read_global_header fs) (enc_global_header t mut) c (t, mut) c"
  unfolding read_global_header_def enc_global_header_def
  by (cases mut) (auto intro!: runs_ok runs_bind [OF runs_signed(3)] runs_last [OF runs_u8] runs_returns)

lemma runs_concrete_types:
  assumes "list_all (is_concrete_type fs) ts" "length ts < 2 ^ 32"
  shows "runs (read_concrete_types fs d e (of_nat (length ts))) (enc_list enc_s32 ts) c ts c"
proof -
  have "unat (of_nat (length ts) :: u32) = length ts" using assms(2) by (simp add: unat_of_nat)
  then show ?thesis
    unfolding read_concrete_types_def rd_for_def using assms(1)
    by (auto simp: list_all_iff intro!: runs_times_values runs_last [OF runs_signed(3)] runs_ok runs_returns)
qed

end
