(* ===== verification/WasmPaths.thy ===== *)
theory WasmPaths
  imports WasmReaderIr
begin

text \<open>
  Pointers into expressions: which paths lead to a list, what is found there after a list has been
  changed, and that a list that grows at its end leaves every other path as it was.
\<close>

section \<open>Paths\<close>

fun has_branch :: "bool \<Rightarrow> expr \<Rightarrow> bool" where
  "has_branch s (BlockExpr d es) \<longleftrightarrow> \<not> s"
| "has_branch s (LoopExpr d es) \<longleftrightarrow> \<not> s"
| "has_branch s (IfExpr d ts fs) \<longleftrightarrow> True"
| "has_branch s (IfExceptExpr d v ts fs) \<longleftrightarrow> True"
| "has_branch s (TryExpr d es cs) \<longleftrightarrow> True"
| "has_branch s e \<longleftrightarrow> False"

fun valid_path :: "path \<Rightarrow> expr list \<Rightarrow> bool" where
  "valid_path [] es \<longleftrightarrow> True"
| "valid_path ((i, s) # p) es \<longleftrightarrow> i < length es \<and> has_branch s (es ! i) \<and> valid_path p (branch s (es ! i))"

lemma branch_upd: "has_branch s e \<Longrightarrow> branch s (upd_branch s f e) = f (branch s e)"
  by (cases e; cases s) auto

lemma branch_upd_other: "s \<noteq> s' \<Longrightarrow> branch s (upd_branch s' f e) = branch s e"
  by (cases e; cases s; cases s') auto

lemma has_branch_upd [simp]: "has_branch s (upd_branch s' f e) \<longleftrightarrow> has_branch s e"
  by (cases e; cases s') auto

lemma upd_branch_comp: "upd_branch s f (upd_branch s g e) = upd_branch s (f \<circ> g) e"
  by (cases e; cases s) auto

lemma upd_branch_cong: "f (branch s e) = g (branch s e) \<Longrightarrow> upd_branch s f e = upd_branch s g e"
  by (cases e; cases s) auto

lemma list_at_upd: "valid_path p es \<Longrightarrow> list_at p (upd_list_at p f es) = f (list_at p es)"
  by (induction p es rule: valid_path.induct) (auto simp: branch_upd)

lemma valid_path_upd: "valid_path p es \<Longrightarrow> valid_path p (upd_list_at p f es)"
  by (induction p es rule: valid_path.induct) (auto simp: branch_upd)

lemma upd_list_at_comp: "valid_path p es \<Longrightarrow> upd_list_at p f (upd_list_at p g es) = upd_list_at p (f \<circ> g) es"
proof (induction p es rule: valid_path.induct)
  case (2 i s p es)
  have "upd_branch s (upd_list_at p f) (upd_branch s (upd_list_at p g) (es ! i)) = upd_branch s (upd_list_at p (f \<circ> g)) (es ! i)"
    unfolding upd_branch_comp by (rule upd_branch_cong) (use 2 in \<open>auto simp: comp_def\<close>)
  then show ?case using 2 by (auto simp: comp_def)
qed simp

lemma upd_list_at_cong: "f (list_at p es) = g (list_at p es) \<Longrightarrow> upd_list_at p f es = upd_list_at p g es"
proof (induction p es rule: valid_path.induct)
  case (2 i s p es)
  then have "upd_branch s (upd_list_at p f) (es ! i) = upd_branch s (upd_list_at p g) (es ! i)"
    by (intro upd_branch_cong) auto
  then show ?case by simp
qed simp

lemma upd_list_at_Nil [simp]: "upd_list_at [] f = f"
  by (rule ext) simp

lemma upd_list_at_step: "upd_list_at (p @ [(i, s)]) f es = upd_list_at p (\<lambda>xs. xs[i := upd_branch s f (xs ! i)]) es"
proof (induction p arbitrary: es)
  case (Cons jt p)
  then have "upd_list_at (p @ [(i, s)]) f = upd_list_at p (\<lambda>xs. xs[i := upd_branch s f (xs ! i)])" by blast
  then show ?case by (cases jt) simp
qed simp

lemma list_at_step: "list_at (p @ [(i, s)]) es = branch s (list_at p es ! i)"
  by (induction p es rule: valid_path.induct) auto

lemma valid_path_step:
  "valid_path (p @ [(i, s)]) es \<longleftrightarrow> valid_path p es \<and> i < length (list_at p es) \<and> has_branch s (list_at p es ! i)"
  by (induction p es rule: valid_path.induct) auto

text \<open>A list that grows leaves the lists at all other paths and the ways to them alone.\<close>

lemma valid_path_grow: "valid_path q es \<Longrightarrow> valid_path q (upd_list_at p (\<lambda>xs. xs @ ys) es)"
proof (induction p arbitrary: q es)
  case Nil
  then show ?case by (cases q) (auto simp: nth_append)
next
  case (Cons step p)
  obtain i s where [simp]: "step = (i, s)" by (cases step)
  show ?case
  proof (cases q)
    case (Cons jt q')
    obtain j t where [simp]: "jt = (j, t)" by (cases jt)
    show ?thesis using Cons.prems Cons.IH [of q' "branch s (es ! i)"]
      by (cases "i = j"; cases "s = t") (auto simp: local.Cons branch_upd branch_upd_other)
  qed simp
qed

section \<open>Labels\<close>

definition label_valid :: "wmodule \<Rightarrow> label \<Rightarrow> bool" where
  "label_valid md l \<longleftrightarrow>
     label_func l < length (funcs md) \<and> valid_path (label_path l) (func_exprs (funcs md ! label_func l))"

lemma label_exprs_upd: "label_valid md l \<Longrightarrow> label_exprs (upd_label_exprs l f md) l = f (label_exprs md l)"
  by (simp add: label_valid_def label_exprs_def upd_label_exprs_def Let_def list_at_upd)

lemma label_valid_upd: "label_valid md l \<Longrightarrow> label_valid (upd_label_exprs l f md) l"
  by (simp add: label_valid_def upd_label_exprs_def Let_def valid_path_upd)

lemma label_valid_grow: "label_valid md k \<Longrightarrow> label_valid (upd_label_exprs l (\<lambda>xs. xs @ ys) md) k"
  by (cases "label_func l = label_func k") (auto simp: label_valid_def upd_label_exprs_def Let_def valid_path_grow)

lemma upd_label_comp: "label_valid md l \<Longrightarrow> upd_label_exprs l f (upd_label_exprs l g md) = upd_label_exprs l (f \<circ> g) md"
  by (simp add: label_valid_def upd_label_exprs_def Let_def upd_list_at_comp)

lemma upd_label_cong: "f (label_exprs md l) = g (label_exprs md l) \<Longrightarrow> upd_label_exprs l f md = upd_label_exprs l g md"
  unfolding upd_label_exprs_def label_exprs_def Let_def using upd_list_at_cong by metis

lemma upd_label_into:
  "upd_label_exprs (label_into t l i s) f md = upd_label_exprs l (\<lambda>xs. xs[i := upd_branch s f (xs ! i)]) md"
  by (simp add: upd_label_exprs_def label_into_def upd_list_at_step)

lemma label_exprs_into: "label_exprs md (label_into t l i s) = branch s (label_exprs md l ! i)"
  by (simp add: label_exprs_def label_into_def list_at_step)

lemma label_valid_into:
  "label_valid md (label_into t l i s) \<longleftrightarrow>
     label_valid md l \<and> i < length (label_exprs md l) \<and> has_branch s (label_exprs md l ! i)"
  by (auto simp: label_valid_def label_into_def label_exprs_def valid_path_step)

lemma upd_label_simps [simp]:
  "func_types (upd_label_exprs l f md) = func_types md" "length (funcs (upd_label_exprs l f md)) = length (funcs md)"
  "globals (upd_label_exprs l f md) = globals md"
  by (simp_all add: upd_label_exprs_def Let_def)

text \<open>Growing the list of the expression just appended is appending a larger expression.\<close>

lemma grow_into:
  assumes "label_valid md l" "has_branch s e"
  shows "upd_label_exprs (label_into t l (length (label_exprs md l)) s) (\<lambda>ys. ys @ es) (upd_label_exprs l (\<lambda>xs. xs @ [e]) md) =
    upd_label_exprs l (\<lambda>xs. xs @ [upd_branch s (\<lambda>ys. ys @ es) e]) md"
  unfolding upd_label_into upd_label_comp [OF assms(1)] by (rule upd_label_cong) simp

end
