(* ===== verification/WasmExpr.thy ===== *)
theory WasmExpr
  imports WasmRuns WasmPaths
begin

text \<open>
  Expressions that have a binary, and that the reader gets them back: which case of the reader an
  opcode selects, and by induction on expressions what the loop over a body does with the bytes of
  one, in whatever list it is.
\<close>

section \<open>Expressions that have a binary\<close>

fun plain_class :: "opcode_type \<Rightarrow> opcode \<Rightarrow> bool" where
  "plain_class Binary op = is_binary op"
| "plain_class Compare op = is_compare op"
| "plain_class Convert op = (is_convert op \<or> is_saturating op)"
| "plain_class Unary op = (is_unary op \<or> is_extend op)"
| "plain_class Ternary op = is_ternary op"

fun memory_class :: "load_store_type \<Rightarrow> opcode \<Rightarrow> bool" where
  "memory_class Load op = is_load op"
| "memory_class Store op = is_store op"
| "memory_class AtomicWake op = in_run op 0xfe 0x00 0x00"
| "memory_class AtomicWait op = in_run op 0xfe 0x01 0x02"
| "memory_class AtomicLoad op = in_run op 0xfe 0x10 0x16"
| "memory_class AtomicStore op = in_run op 0xfe 0x17 0x1d"
| "memory_class AtomicRmw op = in_run op 0xfe 0x1e 0x47"
| "memory_class AtomicRmwCmpxchg op = in_run op 0xfe 0x48 0x4e"

text \<open>A block type is given inline when it can be, by its index otherwise.\<close>

definition block_ok :: "features \<Rightarrow> func_signature list \<Rightarrow> func_declaration \<Rightarrow> bool" where
  "block_ok fs types d \<longleftrightarrow>
     (let small = param_types (sig d) = [] \<and> length (result_types (sig d)) \<le> 1
      in if has_func_type d
         then multi_value_enabled fs \<and> \<not> small \<and> is_type_index (type_var d) \<and> unat (type_var d) < length types \<and>
              sig d = types ! unat (type_var d)
         else small \<and> type_var d = invalid_index \<and> list_all (is_concrete_type fs) (result_types (sig d)))"

definition type_use_ok :: "func_signature list \<Rightarrow> func_declaration \<Rightarrow> bool" where
  "type_use_ok types d \<longleftrightarrow>
     has_func_type d \<and> unat (type_var d) < length types \<and> sig d = types ! unat (type_var d)"

fun expr_ok :: "features \<Rightarrow> func_signature list \<Rightarrow> nat \<Rightarrow> expr \<Rightarrow> bool" where
  "expr_ok fs types n (Mixin m) = (m = Rethrow \<longrightarrow> exceptions_enabled fs)"
| "expr_ok fs types n (OpcodeExpr t op) = (plain_class t op \<and> is_enabled fs op)"
| "expr_ok fs types n (VarExpr t v) = ((t = Throw \<longrightarrow> exceptions_enabled fs) \<and> (t = Call \<longrightarrow> unat v < n))"
| "expr_ok fs types n (LoadStoreExpr t op align off) = (memory_class t op \<and> (\<exists>k < 32. align = push_bit k 1))"
| "expr_ok fs types n (CallIndirectExpr d) = type_use_ok types d"
| "expr_ok fs types n (BlockExpr d es) = (block_ok fs types d \<and> (\<forall>e \<in> set es. expr_ok fs types n e))"
| "expr_ok fs types n (LoopExpr d es) = (block_ok fs types d \<and> (\<forall>e \<in> set es. expr_ok fs types n e))"
| "expr_ok fs types n (IfExpr d ts es) =
     (block_ok fs types d \<and> (\<forall>e \<in> set ts. expr_ok fs types n e) \<and> (\<forall>e \<in> set es. expr_ok fs types n e))"
| "expr_ok fs types n (IfExceptExpr d v ts es) =
     (exceptions_enabled fs \<and> block_ok fs types d \<and> (\<forall>e \<in> set ts. expr_ok fs types n e) \<and> (\<forall>e \<in> set es. expr_ok fs types n e))"
| "expr_ok fs types n (TryExpr d es cs) =
     (exceptions_enabled fs \<and> block_ok fs types d \<and> (\<forall>e \<in> set es. expr_ok fs types n e) \<and> (\<forall>e \<in> set cs. expr_ok fs types n e))"
| "expr_ok fs types n (BrTableExpr targets default_target) = (length targets < 2 ^ 32)"
| "expr_ok fs types n (ConstExpr (CV128 v)) = simd_enabled fs"
| "expr_ok fs types n (ConstExpr c) = True"
| "expr_ok fs types n (SimdLaneOpExpr op v) = (is_lane_op op \<and> simd_enabled fs \<and> v < 0x100)"
| "expr_ok fs types n (SimdShuffleOpExpr op v) = (op = Op_V8X16Shuffle \<and> simd_enabled fs)"

lemma rd_bind_return [simp]: "rd_bind (rd_return x) k = k x"
  by (rule ext) (simp add: rd_bind_def rd_return_def)

lemma error_unless_True [simp]: "error_unless True e = rd_return ()"
  by (simp add: error_unless_def)

section \<open>Which case is taken\<close>

lemmas case_defs = read_operands_def control_cases_def const_cases_def variable_cases_def memory_cases_def
  numeric_cases_def exception_cases_def thread_cases_def

lemmas run_defs = is_load_def is_store_def is_binary_def is_compare_def is_unary_def is_ternary_def is_lane_op_def
  is_convert_def is_extend_def is_saturating_def

lemma switch_append: "switch (xs @ ys) d = switch xs (switch ys d)"
  by (induction xs) auto

text \<open>The groups of cases that an opcode passes by.\<close>

lemma control_passed: "p \<noteq> 0 \<or> 0x1b < c \<Longrightarrow> switch (control_cases fs (Opc p c)) d = d"
  by (auto simp: control_cases_def)

lemma const_passed: "p \<noteq> 0 \<or> c < 0x41 \<or> 0x44 < c \<Longrightarrow> p \<noteq> 0xfd \<or> 0 < c \<Longrightarrow> switch (const_cases fs (Opc p c)) d = d"
  by (auto simp: const_cases_def)

lemma variable_passed: "p \<noteq> 0 \<or> c < 0x10 \<or> 0x11 < c \<and> c < 0x20 \<or> 0x24 < c \<Longrightarrow> switch (variable_cases (Opc p c)) d = d"
  by (auto simp: variable_cases_def)

lemma memory_passed:
  "p \<noteq> 0 \<or> c < 0x28 \<or> 0x40 < c \<Longrightarrow> p \<noteq> 0xfd \<or> c = 0 \<or> 0x02 < c \<Longrightarrow> switch (memory_cases (Opc p c)) d = d"
  by (auto simp: memory_cases_def is_load_def is_store_def)

lemma numeric_passed:
  "p = 0xfc \<or> p = 0xfe \<Longrightarrow> switch (numeric_cases fs (Opc p c)) d = d"
  "c < 0x45 \<Longrightarrow> switch (numeric_cases fs (Opc 0 c)) d = d"
  "0xbf < c \<Longrightarrow> switch (numeric_cases fs (Opc 0 c)) d = d"
proof -
  show "switch (numeric_cases fs (Opc p c)) d = d" if "p = 0xfc \<or> p = 0xfe"
    using that by (elim disjE) (simp_all add: numeric_cases_def run_defs)
qed (simp_all add: numeric_cases_def run_defs)

lemma classes_disjoint:
  "is_compare op \<Longrightarrow> \<not> is_binary op" "is_unary op \<Longrightarrow> \<not> is_binary op" "is_unary op \<Longrightarrow> \<not> is_compare op"
  "is_convert op \<Longrightarrow> \<not> is_binary op" "is_convert op \<Longrightarrow> \<not> is_compare op" "is_convert op \<Longrightarrow> \<not> is_unary op"
  "is_ternary op \<Longrightarrow> \<not> is_binary op" "is_ternary op \<Longrightarrow> \<not> is_compare op" "is_ternary op \<Longrightarrow> \<not> is_unary op"
  "is_convert op \<Longrightarrow> \<not> is_ternary op" "is_convert op \<Longrightarrow> \<not> is_lane_op op" "is_convert op \<Longrightarrow> op \<noteq> Op_V8X16Shuffle"
  "is_lane_op op \<Longrightarrow> \<not> is_binary op" "is_lane_op op \<Longrightarrow> \<not> is_compare op" "is_lane_op op \<Longrightarrow> \<not> is_unary op"
  "is_lane_op op \<Longrightarrow> \<not> is_ternary op"
  by (cases op; auto simp: run_defs)+

lemma plain_operands:
  assumes "plain_class t op"
  shows "read_operands fs op = read_plain fs t op" "known op" "op \<noteq> Op_End"
proof -
  obtain p c where op: "op = Opc p c" using assms by (cases op; cases t) (auto simp: run_defs)
  consider "t = Unary" "is_extend op" | "t = Convert" "is_saturating op"
    | "p = 0" "0x45 \<le> c" "c \<le> 0xbf" "\<not> is_extend op" "\<not> is_saturating op"
    | "p = 0xfd" "0x03 \<le> c" "c \<le> 0x8b" "\<not> is_extend op" "\<not> is_saturating op"
    using assms by (cases t) (auto simp: op run_defs)
  note runs = this
  from runs show "read_operands fs op = read_plain fs t op"
  proof cases
    case 1
    then have "p = 0" "0xbf < c" by (auto simp: op is_extend_def)
    then show ?thesis using 1 unfolding read_operands_def switch_append op
      by (simp add: control_passed const_passed variable_passed memory_passed numeric_passed exception_cases_def)
  next
    case 2
    then have "p = 0xfc" by (auto simp: op is_saturating_def)
    then show ?thesis using 2 unfolding read_operands_def switch_append op
      by (simp add: control_passed const_passed variable_passed memory_passed numeric_passed exception_cases_def is_extend_def)
  next
    case 3
    have "switch (numeric_cases fs op) d = read_plain fs t op" for d
      using assms 3 by (cases t) (auto simp: numeric_cases_def classes_disjoint)
    then show ?thesis using 3 unfolding read_operands_def switch_append op
      by (simp add: control_passed const_passed variable_passed memory_passed)
  next
    case 4
    have "switch (numeric_cases fs op) d = read_plain fs t op" for d
      using assms 4 by (cases t) (auto simp: numeric_cases_def classes_disjoint)
    then show ?thesis using 4 unfolding read_operands_def switch_append op
      by (simp add: control_passed const_passed variable_passed memory_passed)
  qed
  from runs show "known op" by cases (auto simp: op is_extend_def is_saturating_def valid_code_def)
  from runs show "op \<noteq> Op_End" by cases (auto simp: op is_extend_def is_saturating_def)
qed

fun access_name :: "load_store_type \<Rightarrow> string" where
  "access_name Load = ''load''"
| "access_name Store = ''store''"
| "access_name AtomicWake = ''load''"
| "access_name AtomicWait = ''load''"
| "access_name AtomicLoad = ''load''"
| "access_name AtomicStore = ''store''"
| "access_name AtomicRmw = ''memory''"
| "access_name AtomicRmwCmpxchg = ''memory''"

lemma exceptions_passed: "p \<noteq> 0 \<Longrightarrow> p \<noteq> 0xfc \<Longrightarrow> switch (exception_cases fs (Opc p c)) d = d"
  by (simp add: exception_cases_def run_defs)

lemma memory_operands:
  assumes "memory_class t op"
  shows "read_operands fs op = read_load_store t op (access_name t)" "known op" "op \<noteq> Op_End"
proof -
  obtain p c where op: "op = Opc p c" using assms by (cases op; cases t) (auto simp: run_defs)
  consider "t = Load \<or> t = Store" "p = 0" "0x28 \<le> c" "c \<le> 0x3e" | "t = Load \<or> t = Store" "p = 0xfd" "0x01 \<le> c" "c \<le> 0x02"
    | "t \<noteq> Load \<and> t \<noteq> Store" "p = 0xfe" "c \<le> 0x02 \<or> 0x10 \<le> c \<and> c \<le> 0x4e"
    using assms by (cases t) (auto simp: op is_load_def is_store_def)
  note runs = this
  from runs show "read_operands fs op = read_load_store t op (access_name t)"
  proof cases
    case 3
    then have "switch (thread_cases op) d = read_load_store t op (access_name t)" for d
      using assms by (cases t) (auto simp: thread_cases_def op)
    then show ?thesis using 3 unfolding read_operands_def switch_append op
      by (simp add: control_passed const_passed variable_passed memory_passed numeric_passed exceptions_passed)
  qed (use assms in \<open>auto simp: read_operands_def switch_append op control_passed const_passed variable_passed
        memory_cases_def is_load_def is_store_def\<close>)
  from runs show "known op" by cases (auto simp: op valid_code_def)
  from runs show "op \<noteq> Op_End" by cases (auto simp: op)
qed

lemma lane_operands:
  assumes "is_lane_op op" "simd_enabled fs"
  shows "read_operands fs op = rd_bind (read_u8 ''Lane idx'') (\<lambda>v. append_expr (SimdLaneOpExpr op (ucast v)))"
    "known op" "op \<noteq> Op_End"
proof -
  obtain c where op: "op = Opc 0xfd c" "0x09 \<le> c" "c \<le> 0x16" using assms by (cases op) (auto simp: is_lane_op_def)
  then have "is_enabled fs op" using assms by (simp add: is_enabled_def)
  then have "switch (numeric_cases fs op) d = rd_bind (read_u8 ''Lane idx'') (\<lambda>v. append_expr (SimdLaneOpExpr op (ucast v)))" for d
    using assms by (simp add: numeric_cases_def classes_disjoint enabled_or_unexpected_def)
  then show "read_operands fs op = rd_bind (read_u8 ''Lane idx'') (\<lambda>v. append_expr (SimdLaneOpExpr op (ucast v)))"
    using op unfolding read_operands_def switch_append by (simp add: control_passed const_passed variable_passed memory_passed)
  show "known op" "op \<noteq> Op_End" using op by (simp_all add: valid_code_def)
qed

section \<open>The loop over a body\<close>

text \<open>The loop consumes bytes that the body does not end with.\<close>

definition consumes :: "features \<Rightarrow> byte list \<Rightarrow> reader \<Rightarrow> reader \<Rightarrow> bool" where
  "consumes fs bs c c' \<longleftrightarrow> (\<forall>st r stop b. ghost st = c \<longrightarrow> left_of st = bs @ r \<longrightarrow> offset st + length bs < stop \<longrightarrow>
     (\<exists>st'. read_body_loop fs stop b st = read_body_loop fs stop b st' \<and> ghost st' = c' \<and>
        offset st' = offset st + length bs \<and> left_of st' = r))"

lemma consumesD:
  assumes "consumes fs bs c c'" "ghost st = c" "left_of st = bs @ r" "offset st + length bs < stop"
  obtains st' where "read_body_loop fs stop b st = read_body_loop fs stop b st'" "ghost st' = c'"
    "offset st' = offset st + length bs" "left_of st' = r"
  using assms unfolding consumes_def by blast

lemma consumes_Nil: "consumes fs [] c c"
  unfolding consumes_def by auto

lemma consumes_append:
  assumes "consumes fs bs c c1" "consumes fs cs c1 c2"
  shows "consumes fs (bs @ cs) c c2"
  unfolding consumes_def
proof (intro allI impI)
  fix st :: reader and r stop b
  assume st: "ghost st = c" "left_of st = (bs @ cs) @ r" "offset st + length (bs @ cs) < stop"
  obtain st1 where 1: "read_body_loop fs stop b st = read_body_loop fs stop b st1" "ghost st1 = c1"
    "offset st1 = offset st + length bs" "left_of st1 = cs @ r"
    by (rule consumesD [OF assms(1) st(1), of "cs @ r" stop b]) (use st in auto)
  obtain st2 where "read_body_loop fs stop b st1 = read_body_loop fs stop b st2" "ghost st2 = c2"
    "offset st2 = offset st1 + length cs" "left_of st2 = r"
    by (rule consumesD [OF assms(2) 1(2,4), of stop b]) (use st 1 in auto)
  with 1 show "\<exists>st'. read_body_loop fs stop b st = read_body_loop fs stop b st' \<and> ghost st' = c2 \<and>
      offset st' = offset st + length (bs @ cs) \<and> left_of st' = r" by auto
qed

lemma loop_round:
  assumes "read_instruction fs stop st = Inr (False, st')" "offset st < stop"
  shows "read_body_loop fs stop b st = read_body_loop fs stop b st'"
  using assms by (subst read_body_loop.simps) simp

lemma consumes_instruction:
  assumes "known op" "op \<noteq> Op_End" "runs (read_operands fs op) bs c () c'"
  shows "consumes fs (enc_opcode op @ bs) c c'"
  unfolding consumes_def
proof (intro allI impI)
  fix st :: reader and r stop b
  assume st: "ghost st = c" "left_of st = (enc_opcode op @ bs) @ r" "offset st + length (enc_opcode op @ bs) < stop"
  have "runs (read_instruction fs stop) (enc_opcode op @ bs) c False c'"
    unfolding read_instruction_def using assms by (intro runs_bind [OF runs_opcode]) (auto intro: runs_last runs_return)
  then obtain st' where "read_instruction fs stop st = Inr (False, st')" "ghost st' = c'"
    "offset st' = offset st + length (enc_opcode op @ bs)" "left_of st' = r"
    by (rule runsD [OF _ st(1,2)])
  then show "\<exists>st'. read_body_loop fs stop b st = read_body_loop fs stop b st' \<and> ghost st' = c' \<and>
      offset st' = offset st + length (enc_opcode op @ bs) \<and> left_of st' = r"
    using loop_round st(3) by (metis add_lessD1)
qed

lemma known_end [simp]: "known Op_End"
  by (simp add: valid_code_def)

lemma consumes_end:
  assumes "runs on_end_expr [] c () c'"
  shows "consumes fs (enc_opcode Op_End) c c'"
  unfolding consumes_def
proof (intro allI impI)
  fix st :: reader and r stop b
  assume st: "ghost st = c" "left_of st = enc_opcode Op_End @ r" "offset st + length (enc_opcode Op_End) < stop"
  obtain st1 where 1: "read_opcode ''opcode'' st = Inr (Op_End, st1)" "ghost st1 = c"
    "offset st1 = offset st + length (enc_opcode Op_End)" "left_of st1 = r"
    by (rule runsD [OF runs_opcode [OF known_end] st(1,2)])
  obtain st2 where 2: "on_end_expr st1 = Inr ((), st2)" "ghost st2 = c'" "offset st2 = offset st1" "left_of st2 = r"
    by (rule runsD [OF assms 1(2), of r]) (use 1 in simp_all)
  have "read_instruction fs stop st = Inr (False, st2)"
    using 1 2 st(3) by (simp add: read_instruction_def rd_bind_def rd_get_def rd_return_def)
  then show "\<exists>st'. read_body_loop fs stop b st = read_body_loop fs stop b st' \<and> ghost st' = c' \<and>
      offset st' = offset st + length (enc_opcode Op_End) \<and> left_of st' = r"
    using loop_round [of fs stop st st2 b] st(3) 1 2 by auto
qed

section \<open>The delegate on lists of expressions\<close>

definition grow :: "label \<Rightarrow> expr list \<Rightarrow> reader \<Rightarrow> reader" where
  "grow l es c = c\<lparr>out_module := upd_label_exprs l (\<lambda>xs. xs @ es) (out_module c)\<rparr>"

lemma unloc_upd_label [simp]: "unloc (upd_label_exprs l f md) = upd_label_exprs l f (unloc md)"
  by (simp add: unloc_def upd_label_exprs_def Let_def)

lemma label_exprs_unloc [simp]: "label_exprs (unloc md) l = label_exprs md l"
  by (simp add: label_exprs_def)

lemma runs_top_label: "label_stack c = l # ls \<Longrightarrow> runs (k l) bs c v c' \<Longrightarrow> runs (rd_bind top_label k) bs c v c'"
  unfolding runs_def rd_bind_def top_label_def get_label_at_def by auto

lemma runs_append_expr: "label_stack c = l # ls \<Longrightarrow> runs (append_expr e) [] c () (grow l [e] c)"
  unfolding append_expr_def grow_def by (erule runs_top_label) (rule runs_module_last; simp)

definition in_ctx :: "func_signature list \<Rightarrow> nat \<Rightarrow> reader \<Rightarrow> bool" where
  "in_ctx types n c \<longleftrightarrow>
     func_types (out_module c) = types \<and> length (funcs (out_module c)) = n \<and>
     length types < 2 ^ 32 \<and> n < 2 ^ 32 \<and> r_num_signatures c = of_nat (length types) \<and> num_total_funcs c = of_nat n"

lemma grow_simps [simp]:
  "label_stack (grow l es c) = label_stack c" "out_module (grow l es c) = upd_label_exprs l (\<lambda>xs. xs @ es) (out_module c)"
  "in_ctx types n (grow l es c) \<longleftrightarrow> in_ctx types n c"
  by (simp_all add: grow_def in_ctx_def num_total_funcs_def)

lemma in_ctx_stack [simp]: "in_ctx types n (c\<lparr>label_stack := ls\<rparr>) \<longleftrightarrow> in_ctx types n c"
  by (simp add: in_ctx_def num_total_funcs_def)

text \<open>The number that stands for a block type.\<close>

definition block_type :: "func_declaration \<Rightarrow> wtype" where
  "block_type d =
     (if has_func_type d then type_var d else case result_types (sig d) of [] \<Rightarrow> ty_void | t # _ \<Rightarrow> t)"

lemma enc_block_type: "block_ok fs types d \<Longrightarrow> enc_block_decl md d = enc_s32 (block_type d)"
  by (auto simp: block_ok_def Let_def enc_block_decl_def block_type_def get_func_type_index_def split: list.split if_splits)

lemma inline_types:
  assumes "is_concrete_type fs t \<or> t = ty_void"
  shows "\<not> is_type_index t" "get_inline_type_vector t = Inr (if t = ty_void then [] else [t])"
proof -
  show "\<not> is_type_index t" using assms by (auto simp: is_concrete_type_def is_type_index_def ty_defs word_sle_eq)
  then show "get_inline_type_vector t = Inr (if t = ty_void then [] else [t])"
    using assms by (auto simp: is_concrete_type_def get_inline_type_vector_def ty_defs)
qed

lemma concrete_not_void: "is_concrete_type fs t \<Longrightarrow> t \<noteq> ty_void"
  by (auto simp: is_concrete_type_def ty_defs)

lemma is_block_type_ok:
  "block_ok fs types d \<Longrightarrow> length types < 2 ^ 32 \<Longrightarrow> is_block_type fs (of_nat (length types)) (block_type d)"
  by (auto simp: block_ok_def Let_def block_type_def is_block_type_def word_less_nat_alt unat_of_nat split: if_splits list.splits)

lemma runs_block_type:
  assumes "block_ok fs types d" "in_ctx types n c"
  shows "runs (read_block_type fs desc) (enc_block_decl md d) c (block_type d) c"
  unfolding enc_block_type [OF assms(1)] read_block_type_def using assms is_block_type_ok [OF assms(1)]
  by (intro runs_last [OF runs_signed(3)] runs_get runs_ok runs_returns) (auto simp: in_ctx_def)

lemma runs_set_block:
  assumes "block_ok fs types d" "func_types (out_module c) = types" "runs (k d) bs c v c'"
  shows "runs (rd_bind (set_block_declaration (block_type d)) k) bs c v c'"
proof -
  have "set_block_declaration (block_type d) st = Inr (d, st)" if "ghost st = c" for st
  proof (cases "has_func_type d")
    case True
    have "func_types (out_module st) = types" using that assms(2) by auto
    then show ?thesis using True assms(1)
      by (simp add: set_block_declaration_def block_ok_def Let_def block_type_def rd_bind_def rd_get_def rd_return_def)
  next
    case False
    then have d: "param_types (sig d) = []" "length (result_types (sig d)) \<le> 1" "type_var d = invalid_index"
      "list_all (is_concrete_type fs) (result_types (sig d))"
      using assms(1) by (auto simp: block_ok_def Let_def)
    obtain r where r: "sig d = \<lparr>param_types = [], result_types = r\<rparr>" using d(1) by (cases "sig d") auto
    have deq: "d = \<lparr>has_func_type = False, type_var = invalid_index, sig = sig d\<rparr>" using False d(3) by (cases d) simp
    show ?thesis
    proof (cases r)
      case Nil
      then have "block_type d = ty_void" using r False by (simp add: block_type_def)
      then show ?thesis using inline_types [of fs ty_void] deq r Nil by (simp add: set_block_declaration_def rd_return_def)
    next
      case (Cons t ts)
      then have t: "block_type d = t" "r = [t]" "is_concrete_type fs t" using d r False by (auto simp: block_type_def)
      then show ?thesis using inline_types [of fs t] concrete_not_void [of fs t] deq r
        by (simp add: set_block_declaration_def rd_return_def)
    qed
  qed
  then show ?thesis using assms(3) by (simp add: runs_def rd_bind_def)
qed

lemma runs_open_block:
  assumes "block_ok fs types d" "func_types (out_module c) = types" "label_stack c = l # ls"
  shows "runs (open_block t mk (block_type d)) [] c ()
    ((grow l [mk d] c)\<lparr>label_stack := label_into t l (length (label_exprs (out_module c) l)) False # l # ls\<rparr>)"
  unfolding open_block_def
proof (rule runs_set_block [OF assms(1,2)], rule runs_top_label [OF assms(3)], rule runs_get, simp)
  show "runs (rd_bind (append_expr (mk d)) (\<lambda>_. push_label (label_into t l (length (label_exprs (out_module c) l)) False))) [] c ()
    ((grow l [mk d] c)\<lparr>label_stack := label_into t l (length (label_exprs (out_module c) l)) False # l # ls\<rparr>)"
    unfolding push_label_def
    by (rule runs_silent [OF runs_append_expr [OF assms(3)]], rule runs_modify_last)
      (simp_all add: ghost_def left_of_def assms(3))
qed

text \<open>The label \<open>k\<close> of the last expression \<open>e\<close> of the list of \<open>l\<close>.\<close>

lemma runs_top_label_expr:
  assumes "label_stack c = k # l # ls" "label_exprs (out_module c) l = xs @ [e]" "runs (body (k, l, length xs)) bs c v c'"
  shows "runs (rd_bind top_label_expr body) bs c v c'"
proof -
  have "top_label_expr st = Inr ((k, l, length xs), st)" if "ghost st = c" for st
  proof -
    have "label_stack st = k # l # ls" "label_exprs (out_module st) l = xs @ [e]" using that assms(1,2) by auto
    then show ?thesis
      by (simp add: top_label_expr_def top_label_def get_label_at_def rd_bind_def rd_get_def rd_return_def)
  qed
  then show ?thesis using assms(3) by (simp add: runs_def rd_bind_def)
qed

lemma runs_cast_back:
  "p (label_exprs (out_module c) l ! i) \<Longrightarrow> runs (k ()) bs c v c' \<Longrightarrow> runs (rd_bind (cast_back p l i) k) bs c v c'"
  unfolding cast_back_def by (rule runs_silent) (auto intro!: runs_get simp: rd_assert_def runs_return)

lemma runs_replace_top: "runs (replace_top k) [] c () (c\<lparr>label_stack := k # tl (label_stack c)\<rparr>)"
  unfolding replace_top_def by (rule runs_modify_last) (simp_all add: ghost_def left_of_def)

lemma runs_pop_label: "label_stack c = k # ls \<Longrightarrow> runs pop_label [] c () (c\<lparr>label_stack := ls\<rparr>)"
  by (auto simp: runs_def pop_label_def ghost_def left_of_def)

lemma runs_on_end:
  assumes "label_stack c = k # l # ls" "label_exprs (out_module c) l = xs @ [e]" "label_expr_ok (label_type k) e"
  shows "runs on_end_expr [] c () (c\<lparr>label_stack := l # ls\<rparr>)"
  unfolding on_end_expr_def
  by (rule runs_top_label_expr [OF assms(1,2)])
    (auto intro!: runs_cast_back runs_pop_label simp: assms)

lemma runs_on_else:
  assumes "label_stack c = k # l # ls" "label_exprs (out_module c) l = xs @ [e]"
    and "label_type k = LIf \<and> is_if e \<and> t = LElse \<or> label_type k = LIfExcept \<and> is_if_except e \<and> t = LIfExceptElse"
  shows "runs on_else_expr [] c () (c\<lparr>label_stack := label_into t l (length xs) True # l # ls\<rparr>)"
  unfolding on_else_expr_def using runs_replace_top [of _ c] assms(3)
  by (intro runs_top_label_expr [OF assms(1,2)])
    (auto intro!: runs_cast_back simp: assms(1,2))

lemma runs_on_catch:
  assumes "label_stack c = k # l # ls" "label_exprs (out_module c) l = xs @ [e]" "label_type k = LTry" "is_try e"
  shows "runs on_catch_expr [] c () (c\<lparr>label_stack := label_into LCatch l (length xs) True # l # ls\<rparr>)"
proof -
  have parent: "runs (rd_bind (get_label_at (Suc 0)) body) bs c v c'" if "runs (body l) bs c v c'" for body bs v c'
    using that assms(1) by (auto simp: runs_def rd_bind_def get_label_at_def)
  show ?thesis unfolding on_catch_expr_def using runs_replace_top [of "label_into LCatch l (length xs) True" c]
    by (auto intro!: runs_top_label [OF assms(1)] parent runs_get runs_cast_back simp: assms)
qed

section \<open>Reading an expression back\<close>

text \<open>Inside of a list of the expression that was appended last.\<close>

definition inside :: "label_type \<Rightarrow> bool \<Rightarrow> label \<Rightarrow> label list \<Rightarrow> expr \<Rightarrow> reader \<Rightarrow> reader" where
  "inside t s l ls e c = (grow l [e] c)\<lparr>label_stack := label_into t l (length (label_exprs (out_module c) l)) s # l # ls\<rparr>"

lemma inside_simps:
  assumes "label_valid (out_module c) l"
  shows "label_stack (inside t s l ls e c) = label_into t l (length (label_exprs (out_module c) l)) s # l # ls"
    "label_exprs (out_module (inside t s l ls e c)) l = label_exprs (out_module c) l @ [e]"
    "in_ctx types n (inside t s l ls e c) \<longleftrightarrow> in_ctx types n c"
  using assms by (simp_all add: inside_def label_exprs_upd)

lemma inside_valid:
  assumes "label_valid (out_module c) l" "has_branch s e"
  shows "label_valid (out_module (inside t s l ls e c)) (label_into t l (length (label_exprs (out_module c) l)) s)"
  using assms by (simp add: inside_def label_valid_into label_exprs_upd label_valid_grow)

lemma grow_inside:
  assumes "label_valid (out_module c) l" "has_branch s e"
  shows "grow (label_into t l (length (label_exprs (out_module c) l)) s) es (inside t s l ls e c) =
    inside t s l ls (upd_branch s (\<lambda>ys. ys @ es) e) c"
  using grow_into [OF assms, of t es] by (simp add: inside_def grow_def)

lemma grow_grow: "label_valid (out_module c) l \<Longrightarrow> grow l es (grow l ds c) = grow l (ds @ es) c"
  by (simp add: grow_def upd_label_comp comp_def)

definition read_back :: "features \<Rightarrow> func_signature list \<Rightarrow> nat \<Rightarrow> byte list \<Rightarrow> expr list \<Rightarrow> bool" where
  "read_back fs types n bs es \<longleftrightarrow> (\<forall>c l ls. in_ctx types n c \<longrightarrow> label_stack c = l # ls \<longrightarrow> label_valid (out_module c) l \<longrightarrow>
     consumes fs bs c (grow l es c))"

lemma grow_Nil [simp]: "label_valid (out_module c) l \<Longrightarrow> grow l [] c = c"
proof -
  have "upd_list_at p (\<lambda>xs. xs) es = es" for p es
  proof (induction p arbitrary: es)
    case (Cons step p)
    have "upd_branch s (upd_list_at p (\<lambda>xs. xs)) e = e" for s e using Cons by (cases e; cases s) auto
    then show ?case by (cases step) simp
  qed simp
  then show ?thesis by (simp add: grow_def upd_label_exprs_def Let_def)
qed

lemma read_back_list:
  assumes "\<And>e. e \<in> set es \<Longrightarrow> read_back fs types n (enc_expr md e) [e]"
  shows "read_back fs types n (enc_exprs md es) es"
  using assms
proof (induction es)
  case Nil
  then show ?case by (simp add: read_back_def enc_exprs_def consumes_Nil)
next
  case (Cons e es)
  have hd: "read_back fs types n (enc_expr md e) [e]" using Cons.prems by simp
  have tl: "read_back fs types n (enc_exprs md es) es" using Cons by simp
  show ?case unfolding read_back_def
  proof (intro allI impI)
    fix c l ls assume c: "in_ctx types n c" "label_stack c = l # ls" "label_valid (out_module c) l"
    have "consumes fs (enc_expr md e) c (grow l [e] c)" using hd c by (simp add: read_back_def)
    moreover have "consumes fs (enc_exprs md es) (grow l [e] c) (grow l es (grow l [e] c))"
      using tl c by (simp add: read_back_def label_valid_grow)
    ultimately show "consumes fs (enc_exprs md (e # es)) c (grow l (e # es) c)"
      using consumes_append c(3) by (fastforce simp: enc_exprs_def grow_grow)
  qed
qed

lemma read_back_inside:
  assumes "read_back fs types n bs es" "in_ctx types n c" "label_valid (out_module c) l" "has_branch s e"
  shows "consumes fs bs (inside t s l ls e c) (inside t s l ls (upd_branch s (\<lambda>ys. ys @ es) e) c)"
  using assms(1) inside_simps [OF assms(3)] inside_valid [OF assms(3,4)] assms(2)
  unfolding read_back_def grow_inside [OF assms(3,4), symmetric] by blast

lemma read_back_operands:
  assumes "known op" "op \<noteq> Op_End" "\<And>c l ls. in_ctx types n c \<Longrightarrow> label_stack c = l # ls \<Longrightarrow> runs (read_operands fs op) bs c () (grow l [e] c)"
  shows "read_back fs types n (enc_opcode op @ bs) [e]"
  unfolding read_back_def using assms consumes_instruction by blast

lemma operands_simps:
  "switch ((True, a) # cs) d = a" "switch ((False, a) # cs) d = switch cs d"
  by simp_all

text \<open>The cases of single opcodes.\<close>

lemma single_operands:
  "read_operands fs Op_Unreachable = append_expr (Mixin Unreachable)"
  "read_operands fs Op_Block = rd_bind (read_block_type fs ''block signature type'') on_block_expr"
  "read_operands fs Op_Loop = rd_bind (read_block_type fs ''loop signature type'') on_loop_expr"
  "read_operands fs Op_If = rd_bind (read_block_type fs ''if signature type'') on_if_expr"
  "read_operands fs Op_Else = on_else_expr"
  "read_operands fs Op_Select = append_expr (Mixin Select)"
  "read_operands fs Op_Br = read_var ''br depth'' Br"
  "read_operands fs Op_BrIf = read_var ''br_if depth'' BrIf"
  "read_operands fs Op_BrTable = read_br_table"
  "read_operands fs Op_Return = append_expr (Mixin Return)"
  "read_operands fs Op_Nop = append_expr (Mixin Nop)"
  "read_operands fs Op_Drop = append_expr (Mixin Drop)"
  by (simp_all add: read_operands_def control_cases_def)

lemma const_operands:
  "read_operands fs Op_I32Const = rd_bind (s32_leb ''i32.const value'') (\<lambda>v. append_expr (ConstExpr (CI32 v)))"
  "read_operands fs Op_I64Const = rd_bind (s64_leb ''i64.const value'') (\<lambda>v. append_expr (ConstExpr (CI64 v)))"
  "read_operands fs Op_F32Const = rd_bind (read_f32 ''f32.const value'') (\<lambda>v. append_expr (ConstExpr (CF32 v)))"
  "read_operands fs Op_F64Const = rd_bind (read_f64 ''f64.const value'') (\<lambda>v. append_expr (ConstExpr (CF64 v)))"
  "simd_enabled fs \<Longrightarrow> read_operands fs Op_V128Const = rd_bind (read_v128 ''v128.const value'') (\<lambda>v. append_expr (ConstExpr (CV128 v)))"
  by (simp_all add: read_operands_def control_cases_def const_cases_def enabled_or_unexpected_def is_enabled_def)

lemma variable_operands:
  "read_operands fs Op_GetGlobal = read_var ''get_global global index'' GetGlobal"
  "read_operands fs Op_GetLocal = read_var ''get_local local index'' GetLocal"
  "read_operands fs Op_SetGlobal = read_var ''set_global global index'' SetGlobal"
  "read_operands fs Op_SetLocal = read_var ''set_local local index'' SetLocal"
  "read_operands fs Op_Call = read_call"
  "read_operands fs Op_CallIndirect = read_call_indirect"
  "read_operands fs Op_TeeLocal = read_var ''tee_local local index'' TeeLocal"
  by (simp_all add: read_operands_def switch_append control_cases_def const_cases_def variable_cases_def)

lemma size_operands:
  "read_operands fs Op_MemorySize = read_reserved ''memory.size reserved'' MemorySize"
  "read_operands fs Op_MemoryGrow = read_reserved ''memory.grow reserved'' MemoryGrow"
  by (simp_all add: read_operands_def switch_append control_cases_def const_cases_def variable_cases_def memory_cases_def
      is_load_def is_store_def)

lemma shuffle_operands:
  "simd_enabled fs \<Longrightarrow> read_operands fs Op_V8X16Shuffle =
     rd_bind (read_v128 ''Lane idx [16]'') (\<lambda>v. append_expr (SimdShuffleOpExpr Op_V8X16Shuffle v))"
  by (simp add: read_operands_def switch_append control_passed const_passed variable_passed memory_passed numeric_cases_def
      run_defs enabled_or_unexpected_def is_enabled_def)

lemma exception_operands:
  assumes "exceptions_enabled fs"
  shows "read_operands fs Op_Try = rd_bind (read_block_type fs ''try signature type'') on_try_expr"
    "read_operands fs Op_Catch = on_catch_expr"
    "read_operands fs Op_Rethrow = append_expr (Mixin Rethrow)"
    "read_operands fs Op_Throw = read_var ''exception index'' Throw"
    "read_operands fs Op_IfExcept = rd_bind (read_block_type fs ''if signature type'') (\<lambda>t.
       rd_bind (index_leb ''exception index'') (\<lambda>i. on_if_except_expr t i))"
  using assms by (simp_all add: read_operands_def switch_append control_cases_def const_passed variable_passed memory_passed
      numeric_passed exception_cases_def enabled_or_unexpected_def is_enabled_def)

lemma enc_u32_small: "k < 128 \<Longrightarrow> enc_u32 (of_nat k) = [of_nat k]"
proof -
  assume k: "k < 128"
  then have "unat (of_nat k :: u32) = k" by (simp add: unat_of_nat)
  then show ?thesis using k by (simp add: enc_u32_def byte_of_def)
qed

lemma log2_loop_power: "k < 32 \<Longrightarrow> log2_loop (push_bit k 1) r = r + k"
proof (induction k arbitrary: r)
  case (Suc k)
  have half: "drop_bit 1 (push_bit (Suc k) 1 :: u32) = push_bit k 1"
    using Suc.prems by (auto intro!: bit_word_eqI simp: bit_simps)
  have "bit (push_bit k 1 :: u32) k" using Suc.prems by (simp add: bit_simps)
  then have "unat (push_bit k 1 :: u32) \<noteq> 0" by (metis bit_0_eq bot_apply bot_bool_def unat_eq_zero)
  then have "unat (push_bit (Suc k) 1 :: u32) div 2 \<noteq> 0"
    using arg_cong [OF half, of unat] by (simp add: unat_drop_bit)
  then have "1 < (push_bit (Suc k) 1 :: u32)" by (simp add: word_less_nat_alt)
  with half show ?case using Suc by (subst log2_loop.simps) simp
qed (subst log2_loop.simps, simp)

lemma alignment_log2:
  assumes "k < 32"
  shows "log2_u32 (get_alignment op (push_bit k 1)) = k"
proof -
  have "\<not> bit (natural_alignment) 32" "bit (natural_alignment) (if k = 0 then 1 else 0)" 
    by (simp_all add: natural_alignment_def)
  moreover have "bit (push_bit k 1 :: u32) (if k = 0 then 1 else 0) \<longleftrightarrow> False" using assms by (simp add: bit_simps)
  ultimately have "push_bit k 1 \<noteq> natural_alignment" by metis
  then show ?thesis using log2_loop_power [OF assms, of 0] by (simp add: get_alignment_def log2_u32_def)
qed

lemma runs_load_store:
  assumes "k < 32" "label_stack c = l # ls"
  shows "runs (read_load_store t op what) (of_nat k # enc_u32 off) c () (grow l [LoadStoreExpr t op (push_bit k 1) off] c)"
proof -
  have k: "unat (of_nat k :: u32) = k" "(of_nat k :: u32) < 32" using assms(1) by (simp_all add: unat_of_nat word_less_nat_alt)
  have "runs (read_load_store t op what) (enc_u32 (of_nat k) @ enc_u32 off) c () (grow l [LoadStoreExpr t op (push_bit k 1) off] c)"
    unfolding read_load_store_def on_load_store_expr_def using k runs_append_expr [OF assms(2)]
    by (intro runs_bind [OF runs_u32(1)] runs_last [OF runs_u32(1)] runs_assert) auto
  then show ?thesis using enc_u32_small [of k] assms(1) by simp
qed

lemma runs_var: "label_stack c = l # ls \<Longrightarrow> runs (read_var d t) (enc_u32 v) c () (grow l [VarExpr t v] c)"
  unfolding read_var_def by (rule runs_last [OF runs_u32(2)]) (rule runs_append_expr)

lemma runs_reserved: "label_stack c = l # ls \<Longrightarrow> runs (read_reserved d m) (enc_u32 0) c () (grow l [Mixin m] c)"
  unfolding read_reserved_def by (rule runs_last [OF runs_u32(1)]) (simp add: runs_append_expr)

lemma runs_call:
  assumes "label_stack c = l # ls" "in_ctx types n c" "unat v < n"
  shows "runs read_call (enc_u32 v) c () (grow l [VarExpr Call v] c)"
  unfolding read_call_def on_call_expr_def using assms(2,3)
  by (intro runs_last [OF runs_u32(2)] runs_get runs_ok runs_assert runs_append_expr [OF assms(1)])
    (auto simp: in_ctx_def num_total_funcs_def word_less_nat_alt unat_of_nat)

lemma runs_func_type_at:
  assumes "func_types (out_module c) = types" "type_use_ok types d"
  shows "runs (func_type_at (type_var d)) [] c d c"
  unfolding func_type_at_def using assms
  by (intro runs_get) (auto simp: type_use_ok_def intro!: runs_returns)

lemma runs_call_indirect:
  assumes "label_stack c = l # ls" "in_ctx types n c" "type_use_ok types d"
  shows "runs read_call_indirect (enc_u32 (type_var d) @ enc_u32 0) c () (grow l [CallIndirectExpr d] c)"
  unfolding read_call_indirect_def on_call_indirect_expr_def using assms(2,3)
  by (intro runs_bind [OF runs_u32(2)] runs_get runs_ok runs_last [OF runs_u32(1)] runs_silent [OF runs_func_type_at [OF _ assms(3)]]
      runs_append_expr [OF assms(1)])
    (auto simp: in_ctx_def type_use_ok_def word_less_nat_alt unat_of_nat)

lemma runs_br_table:
  assumes "label_stack c = l # ls" "length ts < 2 ^ 32"
  shows "runs read_br_table (enc_vec enc_u32 ts @ enc_u32 d) c () (grow l [BrTableExpr ts d] c)"
proof -
  have "unat (of_nat (length ts) :: u32) = length ts" using assms(2) by (simp add: unat_of_nat)
  then have "runs (rd_for (of_nat (length ts)) (\<lambda>_. index_leb ''br_table target depth'')) (enc_list enc_u32 ts) c ts c"
    unfolding rd_for_def by (auto intro: runs_times_values runs_u32)
  then show ?thesis
    unfolding read_br_table_def enc_vec_def enc_count_def append_assoc
    by (rule runs_bind [OF runs_u32(2) runs_bind [OF _ runs_last [OF runs_u32(2) runs_append_expr [OF assms(1)]]]])
qed

section \<open>Blocks\<close>

lemma consumes_open:
  assumes "known op" "op \<noteq> Op_End" "read_operands fs op = rd_bind (read_block_type fs desc) (open_block t mk)"
    and "block_ok fs types d" "in_ctx types n c" "label_stack c = l # ls"
  shows "consumes fs (enc_opcode op @ enc_block_decl md d) c (inside t False l ls (mk d) c)"
proof (rule consumes_instruction [OF assms(1,2)])
  have "func_types (out_module c) = types" using assms(5) by (simp add: in_ctx_def)
  then show "runs (read_operands fs op) (enc_block_decl md d) c () (inside t False l ls (mk d) c)"
    unfolding assms(3) inside_def
    by (intro runs_last [OF runs_block_type [OF assms(4,5)]] runs_open_block [OF assms(4) _ assms(6)])
qed

lemma consumes_close:
  assumes "label_expr_ok t e" "label_stack c = l # ls" "label_valid (out_module c) l"
  shows "consumes fs (enc_opcode Op_End) (inside t s l ls e c) (grow l [e] c)"
proof (rule consumes_end)
  have "(inside t s l ls e c)\<lparr>label_stack := l # ls\<rparr> = grow l [e] c"
    using assms(2) by (cases c) (simp add: inside_def grow_def)
  moreover have "runs on_end_expr [] (inside t s l ls e c) () ((inside t s l ls e c)\<lparr>label_stack := l # ls\<rparr>)"
    by (rule runs_on_end [OF inside_simps(1) [OF assms(3)] inside_simps(2) [OF assms(3)]]) (simp add: label_into_def assms(1))
  ultimately show "runs on_end_expr [] (inside t s l ls e c) () (grow l [e] c)" by simp
qed

lemma consumes_switch:
  assumes "known op" "op \<noteq> Op_End" "label_valid (out_module c) l"
    and "runs (read_operands fs op) [] (inside t False l ls e c) ()
      ((inside t False l ls e c)\<lparr>label_stack := label_into t' l (length (label_exprs (out_module c) l)) True # l # ls\<rparr>)"
  shows "consumes fs (enc_opcode op) (inside t False l ls e c) (inside t' True l ls e c)"
  using consumes_instruction [OF assms(1,2,4)] by (simp add: inside_def)

lemma consumes_else:
  assumes "label_valid (out_module c) l"
    and "t = LIf \<and> is_if e \<and> t' = LElse \<or> t = LIfExcept \<and> is_if_except e \<and> t' = LIfExceptElse"
  shows "consumes fs (enc_opcode Op_Else) (inside t False l ls e c) (inside t' True l ls e c)"
proof (rule consumes_switch [OF _ _ assms(1)])
  show "runs (read_operands fs Op_Else) [] (inside t False l ls e c) ()
      ((inside t False l ls e c)\<lparr>label_stack := label_into t' l (length (label_exprs (out_module c) l)) True # l # ls\<rparr>)"
    unfolding single_operands
    by (rule runs_on_else [OF inside_simps(1) [OF assms(1)] inside_simps(2) [OF assms(1)]]) (use assms(2) in \<open>simp add: label_into_def\<close>)
qed (simp_all add: valid_code_def)

lemma consumes_catch:
  assumes "label_valid (out_module c) l" "is_try e" "exceptions_enabled fs"
  shows "consumes fs (enc_opcode Op_Catch) (inside LTry False l ls e c) (inside LCatch True l ls e c)"
proof (rule consumes_switch [OF _ _ assms(1)])
  show "runs (read_operands fs Op_Catch) [] (inside LTry False l ls e c) ()
      ((inside LTry False l ls e c)\<lparr>label_stack := label_into LCatch l (length (label_exprs (out_module c) l)) True # l # ls\<rparr>)"
    unfolding exception_operands(2) [OF assms(3)]
    by (rule runs_on_catch [OF inside_simps(1) [OF assms(1)] inside_simps(2) [OF assms(1)]]) (use assms(2) in \<open>simp_all add: label_into_def\<close>)
qed (simp_all add: valid_code_def)

text \<open>An expression with one list, and one with two of which the second may be left out.\<close>

lemma read_back_one:
  assumes op: "\<And>c l ls. in_ctx types n c \<Longrightarrow> label_stack c = l # ls \<Longrightarrow> consumes fs opening c (inside t False l ls e0 c)"
    and body: "read_back fs types n bs es"
    and e: "has_branch False e0" and e1: "e1 = upd_branch False (\<lambda>ys. ys @ es) e0" and ok: "label_expr_ok t e1"
  shows "read_back fs types n (opening @ bs @ enc_opcode Op_End) [e1]"
  unfolding read_back_def
proof (intro allI impI)
  fix c l ls assume c: "in_ctx types n c" "label_stack c = l # ls" "label_valid (out_module c) l"
  show "consumes fs (opening @ bs @ enc_opcode Op_End) c (grow l [e1] c)"
    using consumes_append [OF op [OF c(1,2)]
        consumes_append [OF read_back_inside [OF body c(1,3) e, of t ls] consumes_close [OF _ c(2,3), of t _ fs False]]] ok e1
    by simp
qed

lemma read_back_two:
  assumes op: "\<And>c l ls. in_ctx types n c \<Longrightarrow> label_stack c = l # ls \<Longrightarrow> consumes fs opening c (inside t False l ls e0 c)"
    and fst: "read_back fs types n bs1 es1" and snd: "read_back fs types n bs2 es2"
    and e: "has_branch False e0" "has_branch True e0"
    and e1: "e1 = upd_branch False (\<lambda>ys. ys @ es1) e0" and e2: "e2 = upd_branch True (\<lambda>ys. ys @ es2) e1"
    and mid: "\<And>c l ls. label_valid (out_module c) l \<Longrightarrow> consumes fs mid (inside t False l ls e1 c) (inside t' True l ls e1 c)"
    and ok: "label_expr_ok t' e2"
  shows "read_back fs types n (opening @ bs1 @ mid @ bs2 @ enc_opcode Op_End) [e2]"
  unfolding read_back_def
proof (intro allI impI)
  fix c l ls assume c: "in_ctx types n c" "label_stack c = l # ls" "label_valid (out_module c) l"
  show "consumes fs (opening @ bs1 @ mid @ bs2 @ enc_opcode Op_End) c (grow l [e2] c)"
  proof (rule consumes_append [OF op [OF c(1,2)]], rule consumes_append)
    show "consumes fs bs1 (inside t False l ls e0 c) (inside t False l ls e1 c)"
      unfolding e1 by (rule read_back_inside [OF fst c(1,3) e(1)])
    show "consumes fs (mid @ bs2 @ enc_opcode Op_End) (inside t False l ls e1 c) (grow l [e2] c)"
    proof (rule consumes_append [OF mid [OF c(3)]], rule consumes_append)
      show "consumes fs bs2 (inside t' True l ls e1 c) (inside t' True l ls e2 c)"
        unfolding e2 by (rule read_back_inside [OF snd c(1,3)]) (simp add: e1 e(2))
      show "consumes fs (enc_opcode Op_End) (inside t' True l ls e2 c) (grow l [e2] c)"
        by (rule consumes_close [OF ok c(2,3)])
    qed
  qed
qed

lemma consumes_open_except:
  assumes "exceptions_enabled fs" "block_ok fs types d" "in_ctx types n c" "label_stack c = l # ls"
  shows "consumes fs (enc_opcode Op_IfExcept @ enc_block_decl md d @ enc_u32 v) c
    (inside LIfExcept False l ls (IfExceptExpr d v [] []) c)"
proof (rule consumes_instruction)
  have types: "func_types (out_module c) = types" using assms(3) by (simp add: in_ctx_def)
  show "runs (read_operands fs Op_IfExcept) (enc_block_decl md d @ enc_u32 v) c ()
      (inside LIfExcept False l ls (IfExceptExpr d v [] []) c)"
    unfolding exception_operands(5) [OF assms(1)] on_if_except_expr_def inside_def
    using runs_open_block [OF assms(2) types assms(4), of LIfExcept "\<lambda>d. IfExceptExpr d v [] []"]
    by (intro runs_bind [OF runs_block_type [OF assms(2,3)]] runs_last [OF runs_u32(2)])
qed (simp_all add: valid_code_def)

lemma get_type_use [simp]: "type_use_ok types d \<Longrightarrow> get_func_type_index md d = type_var d"
  by (simp add: type_use_ok_def get_func_type_index_def)

lemma block_operands:
  "read_operands fs Op_Block = rd_bind (read_block_type fs ''block signature type'') (open_block LBlock (\<lambda>d. BlockExpr d []))"
  "read_operands fs Op_Loop = rd_bind (read_block_type fs ''loop signature type'') (open_block LLoop (\<lambda>d. LoopExpr d []))"
  "read_operands fs Op_If = rd_bind (read_block_type fs ''if signature type'') (open_block LIf (\<lambda>d. IfExpr d [] []))"
  "exceptions_enabled fs \<Longrightarrow>
     read_operands fs Op_Try = rd_bind (read_block_type fs ''try signature type'') (open_block LTry (\<lambda>d. TryExpr d [] []))"
  by (simp_all add: single_operands exception_operands on_block_expr_def on_loop_expr_def on_if_expr_def on_try_expr_def)

lemma nop_operands: "read_operands fs (Opc 0 (Suc 0)) = append_expr (Mixin Nop)"
  using single_operands(11) [of fs] by simp

lemma read_back_leaf:
  assumes "known op" "op \<noteq> Op_End"
    and "\<And>c l ls. in_ctx types n c \<Longrightarrow> label_stack c = l # ls \<Longrightarrow> runs (read_operands fs op) bs c () (grow l [e] c)"
  shows "read_back fs types n (enc_opcode op @ bs) [e]"
  unfolding read_back_def using consumes_instruction [OF assms(1,2)] assms(3) by blast

lemma read_back_expr: "expr_ok fs types n e \<Longrightarrow> read_back fs types n (enc_expr md e) [e]"
proof (induction e)
  case (Mixin m)
  show ?case
  proof (cases "m = MemoryGrow \<or> m = MemorySize")
    case True
    then have "read_back fs types n (enc_opcode (mixin_opcode m) @ enc_u32 0) [Mixin m]"
      by (intro read_back_leaf) (auto simp: valid_code_def size_operands runs_reserved)
    then show ?thesis using True by auto
  next
    case False
    then have "read_back fs types n (enc_opcode (mixin_opcode m) @ []) [Mixin m]" using Mixin
      by (intro read_back_leaf; cases m) (auto simp: valid_code_def single_operands nop_operands exception_operands runs_append_expr)
    then show ?thesis using False by simp
  qed
next
  case (OpcodeExpr t op)
  then have "read_back fs types n (enc_opcode op @ []) [OpcodeExpr t op]"
    using plain_operands [of t op] by (intro read_back_leaf) (auto simp: read_plain_def enabled_or_unexpected_def runs_append_expr)
  then show ?case by simp
next
  case (VarExpr t v)
  then show ?case
    by (cases t) (auto simp: valid_code_def single_operands variable_operands exception_operands intro!: read_back_leaf runs_var runs_call)
next
  case (LoadStoreExpr t op align off)
  then obtain k where k: "k < 32" "align = push_bit k 1" by auto
  have "read_back fs types n (enc_opcode op @ (of_nat k # enc_u32 off)) [LoadStoreExpr t op align off]"
    unfolding k(2)
  proof (rule read_back_leaf)
    show "known op" "op \<noteq> Op_End" using memory_operands [of t op] LoadStoreExpr by auto
    fix c :: reader and l ls assume "label_stack c = l # ls"
    then show "runs (read_operands fs op) (of_nat k # enc_u32 off) c () (grow l [LoadStoreExpr t op (push_bit k 1) off] c)"
      using memory_operands(1) [of t op fs] LoadStoreExpr runs_load_store [OF k(1)] by simp
  qed
  then show ?case using alignment_log2 [OF k(1)] k(2) by simp
next
  case (CallIndirectExpr d)
  then have "read_back fs types n (enc_opcode Op_CallIndirect @ (enc_u32 (type_var d) @ enc_u32 0)) [CallIndirectExpr d]"
    by (intro read_back_leaf) (auto simp: valid_code_def variable_operands intro: runs_call_indirect)
  then show ?case using CallIndirectExpr by simp
next
  case (BlockExpr d es)
  then have es: "read_back fs types n (enc_exprs md es) es" by (intro read_back_list) simp
  have "read_back fs types n ((enc_opcode Op_Block @ enc_block_decl md d) @ enc_exprs md es @ enc_opcode Op_End) [BlockExpr d es]"
    by (rule read_back_one [OF consumes_open [OF _ _ block_operands(1)] es]) (use BlockExpr.prems in \<open>simp_all add: valid_code_def\<close>)
  then show ?case by (simp add: enc_exprs_def)
next
  case (LoopExpr d es)
  then have es: "read_back fs types n (enc_exprs md es) es" by (intro read_back_list) simp
  have "read_back fs types n ((enc_opcode Op_Loop @ enc_block_decl md d) @ enc_exprs md es @ enc_opcode Op_End) [LoopExpr d es]"
    by (rule read_back_one [OF consumes_open [OF _ _ block_operands(2)] es]) (use LoopExpr.prems in \<open>simp_all add: valid_code_def\<close>)
  then show ?case by (simp add: enc_exprs_def)
next
  case (IfExpr d ts es)
  then have ts: "read_back fs types n (enc_exprs md ts) ts" and es: "read_back fs types n (enc_exprs md es) es"
    by (intro read_back_list; simp)+
  show ?case
  proof (cases "es = []")
    case True
    have "read_back fs types n ((enc_opcode Op_If @ enc_block_decl md d) @ enc_exprs md ts @ enc_opcode Op_End) [IfExpr d ts []]"
      by (rule read_back_one [OF consumes_open [OF _ _ block_operands(3)] ts]) (use IfExpr.prems in \<open>simp_all add: valid_code_def\<close>)
    then show ?thesis by (simp add: enc_exprs_def True)
  next
    case False
    have "read_back fs types n ((enc_opcode Op_If @ enc_block_decl md d) @ enc_exprs md ts @ enc_opcode Op_Else @
        enc_exprs md es @ enc_opcode Op_End) [IfExpr d ts es]"
      by (rule read_back_two [where t' = LElse, OF consumes_open [OF _ _ block_operands(3)] ts es _ _ refl _ consumes_else])
        (use IfExpr.prems in \<open>simp_all add: valid_code_def\<close>)
    then show ?thesis by (simp add: enc_exprs_def False)
  qed
next
  case (IfExceptExpr d v ts es)
  then have ts: "read_back fs types n (enc_exprs md ts) ts" and es: "read_back fs types n (enc_exprs md es) es"
    by (intro read_back_list; simp)+
  let ?open = "enc_opcode Op_IfExcept @ enc_block_decl md d @ enc_u32 v"
  show ?case
  proof (cases "es = []")
    case True
    have "read_back fs types n (?open @ enc_exprs md ts @ enc_opcode Op_End) [IfExceptExpr d v ts []]"
      by (rule read_back_one [OF consumes_open_except ts]) (use IfExceptExpr.prems in simp_all)
    then show ?thesis by (simp add: enc_exprs_def True)
  next
    case False
    have "read_back fs types n (?open @ enc_exprs md ts @ enc_opcode Op_Else @ enc_exprs md es @ enc_opcode Op_End)
        [IfExceptExpr d v ts es]"
      by (rule read_back_two [where t' = LIfExceptElse, OF consumes_open_except ts es _ _ refl _ consumes_else]) (use IfExceptExpr.prems in simp_all)
    then show ?thesis by (simp add: enc_exprs_def False)
  qed
next
  case (TryExpr d es cs)
  then have es: "read_back fs types n (enc_exprs md es) es" and cs: "read_back fs types n (enc_exprs md cs) cs"
    by (intro read_back_list; simp)+
  have "read_back fs types n ((enc_opcode Op_Try @ enc_block_decl md d) @ enc_exprs md es @ enc_opcode Op_Catch @
      enc_exprs md cs @ enc_opcode Op_End) [TryExpr d es cs]"
    by (rule read_back_two [OF consumes_open [OF _ _ block_operands(4)] es cs _ _ refl _ consumes_catch])
      (use TryExpr.prems in \<open>simp_all add: valid_code_def\<close>)
  then show ?case by (simp add: enc_exprs_def)
next
  case (BrTableExpr ts d)
  then have "read_back fs types n (enc_opcode Op_BrTable @ (enc_vec enc_u32 ts @ enc_u32 d)) [BrTableExpr ts d]"
    by (intro read_back_leaf) (auto simp: valid_code_def single_operands intro: runs_br_table)
  then show ?case by simp
next
  case (ConstExpr k)
  have last: "runs (rd_bind m (\<lambda>v. append_expr (f v))) bs c () (grow l [f v] c)"
    if "label_stack c = l # ls" "runs m bs c v c" for m bs c v f l ls
    using that by (intro runs_last [OF that(2)] runs_append_expr)
  show ?case using ConstExpr
    by (cases k) (auto simp: valid_code_def const_operands intro!: read_back_leaf last [OF _ runs_signed(1)]
        last [OF _ runs_signed(2)] last [OF _ runs_fixed(2)] last [OF _ runs_fixed(3)] last [OF _ runs_fixed(4)])
next
  case (SimdLaneOpExpr op v)
  then have v: "ucast (ucast v :: byte) = v"
    by (intro word_unat_eq_iff [THEN iffD2])
      (simp add: word_less_nat_alt unsigned_ucast_eq unsigned_take_bit_eq take_bit_nat_eq_self)
  have "read_back fs types n (enc_opcode op @ [ucast v]) [SimdLaneOpExpr op v]" using SimdLaneOpExpr v
    by (intro read_back_leaf) (auto simp: lane_operands is_lane_op_def [of Op_End] intro!: runs_last [OF runs_u8] intro: runs_append_expr)
  then show ?case by simp
next
  case (SimdShuffleOpExpr op v)
  then show ?case
    by (auto simp: valid_code_def shuffle_operands intro!: read_back_leaf runs_last [OF runs_fixed(4)] runs_append_expr)
qed

end
