(* ===== verification/WasmParts.thy ===== *)
theory WasmParts
  imports WasmExpr
begin

text \<open>
  What the sections of a binary do to the reader when they hold what the writer puts there. Each
  lemma takes a section with its count and items and gives the state behind it.
\<close>

section \<open>Loops over the items of a section\<close>

lemma runs_for_each:
  assumes "length xs < 2 ^ 32"
    and "\<And>j. j < length xs \<Longrightarrow> runs (body (of_nat j)) (e (xs ! j)) (C j) () (C (Suc j))"
  shows "runs (rd_skip (rd_for (of_nat (length xs)) body)) (enc_list e xs) (C 0) () (C (length xs))"
proof -
  have "unat (of_nat (length xs) :: u32) = length xs" using assms(1) by (simp add: unat_of_nat)
  then show ?thesis
    unfolding rd_for_def using runs_times [of xs body 0 e C] assms(2) by (auto intro!: runs_skip)
qed

text \<open>A section that is a vector whose items only change the state by \<open>F\<close>.\<close>

lemma runs_vec_section:
  assumes "length xs < 2 ^ 32" "\<And>x. x \<in> set xs \<Longrightarrow> e x \<noteq> []"
    and "runs (k (of_nat (length xs))) (enc_list e xs) c v c'"
  shows "runs (rd_bind (count_leb d) k) (enc_vec e xs) c v c'"
  using runs_count [of xs e k "[]"] assms by simp

section \<open>Types and imports\<close>

definition sig_ok :: "features \<Rightarrow> func_signature \<Rightarrow> bool" where
  "sig_ok fs s \<longleftrightarrow> list_all (is_concrete_type fs) (param_types s) \<and> list_all (is_concrete_type fs) (result_types s) \<and>
     length (param_types s) < 2 ^ 32 \<and> length (result_types s) < 2 ^ 32 \<and>
     (length (result_types s) \<le> 1 \<or> multi_value_enabled fs)"

lemma runs_signature:
  assumes "sig_ok fs s"
  shows "runs (read_signature fs) (enc_func_type s) c () (c\<lparr>out_module := append_func_type s (out_module c)\<rparr>)"
proof -
  have few: "(of_nat (length (result_types s)) :: u32) \<le> 1 \<or> multi_value_enabled fs"
    using assms by (auto simp: sig_ok_def word_le_nat_alt unat_of_nat)
  have "runs (on_type (param_types s) (result_types s)) [] c () (c\<lparr>out_module := append_func_type s (out_module c)\<rparr>)"
    unfolding on_type_def by (rule runs_module_last) (simp_all add: append_func_type_def unloc_def)
  then have "runs (read_signature fs) (enc_s32 ty_func @ (enc_vec enc_s32 (param_types s) @ (enc_vec enc_s32 (result_types s) @ []))) c ()
      (c\<lparr>out_module := append_func_type s (out_module c)\<rparr>)"
    unfolding read_signature_def using assms few
    by (intro runs_bind [OF runs_signed(3)] runs_ok runs_count runs_bind [OF runs_concrete_types])
      (auto simp: sig_ok_def intro: runs_last [OF runs_concrete_types])
  then show ?thesis by (simp add: enc_func_type_def)
qed

lemma enc_func_type_not_Nil [simp]: "enc_func_type s \<noteq> []"
  by (simp add: enc_func_type_def)

lemma runs_type_section:
  assumes "list_all (sig_ok fs) types" "length types < 2 ^ 32"
  shows "runs (read_type_section fs) (enc_vec enc_func_type types) c ()
    (c\<lparr>r_num_signatures := of_nat (length types),
       out_module := (out_module c)\<lparr>func_types := func_types (out_module c) @ types\<rparr>\<rparr>)"
proof -
  let ?c = "c\<lparr>r_num_signatures := of_nat (length types)\<rparr>"
  define C where "C j = ?c\<lparr>out_module := (out_module c)\<lparr>func_types := func_types (out_module c) @ take j types\<rparr>\<rparr>" for j
  have "runs (read_signature fs) (enc_func_type (types ! j)) (C j) () (C (Suc j))" if "j < length types" for j
    using runs_signature [of fs "types ! j" "C j"] assms(1) that
    by (simp add: C_def append_func_type_def list_all_length take_Suc_conv_app_nth)
  then have "runs (rd_skip (rd_for (of_nat (length types)) (\<lambda>i. read_signature fs))) (enc_list enc_func_type types) (C 0) () (C (length types))"
    by (intro runs_for_each [OF assms(2)])
  moreover have "C 0 = ?c" by (cases c) (simp add: C_def)
  ultimately show ?thesis
    unfolding read_type_section_def C_def
    by (intro runs_vec_section assms(2) runs_modify) (simp_all add: ghost_def left_of_def)
qed

definition import_ok :: "features \<Rightarrow> func_signature list \<Rightarrow> import_entry \<Rightarrow> bool" where
  "import_ok fs types i \<longleftrightarrow>
     is_valid_utf8 (import_module_name i) \<and> length (import_module_name i) < 2 ^ 32 \<and>
     is_valid_utf8 (import_field_name i) \<and> length (import_field_name i) < 2 ^ 32 \<and>
     (case import_desc i of
        FuncImport d \<Rightarrow> type_use_ok types d
      | TableImport l \<Rightarrow> table_ok l
      | MemoryImport l \<Rightarrow> memory_ok l
      | GlobalImport t mut \<Rightarrow> is_concrete_type fs t
      | ExceptionImport s \<Rightarrow> False)"

definition count_import :: "import_desc \<Rightarrow> reader \<Rightarrow> reader" where
  "count_import desc c =
     (case desc of
        FuncImport d \<Rightarrow> c\<lparr>r_num_func_imports := r_num_func_imports c + 1\<rparr>
      | TableImport l \<Rightarrow> c\<lparr>r_num_table_imports := r_num_table_imports c + 1\<rparr>
      | MemoryImport l \<Rightarrow> c\<lparr>r_num_memory_imports := r_num_memory_imports c + 1\<rparr>
      | GlobalImport t mut \<Rightarrow> c\<lparr>r_num_global_imports := r_num_global_imports c + 1\<rparr>
      | ExceptionImport s \<Rightarrow> c)"

definition import_effect :: "import_entry \<Rightarrow> reader \<Rightarrow> reader" where
  "import_effect i c = count_import (import_desc i) (c\<lparr>out_module := append_import i (out_module c)\<rparr>)"

lemma unloc_append_import [simp]: "unloc (append_import i md) = append_import i (unloc md)"
  by (cases "import_desc i") (simp_all add: append_import_def Let_def unloc_def imported_global_def unloc_global_def)

lemma runs_on_import:
  "runs (on_import m f desc) [] c ()
    (c\<lparr>out_module := append_import \<lparr>import_module_name = m, import_field_name = f, import_desc = desc\<rparr> (out_module c)\<rparr>)"
  unfolding on_import_def by (rule runs_module_last) simp_all

lemma runs_on_import_func:
  assumes "type_use_ok (func_types (out_module c)) d"
  shows "runs (on_import_func m f (type_var d)) [] c ()
    (c\<lparr>out_module := append_import \<lparr>import_module_name = m, import_field_name = f, import_desc = FuncImport d\<rparr> (out_module c)\<rparr>)"
  unfolding on_import_func_def by (rule runs_silent [OF runs_func_type_at [OF refl assms] runs_on_import])

lemma runs_byte: "runs (k b) bs c v c' \<Longrightarrow> runs (rd_bind (read_u8 d) k) (b # bs) c v c'"
  using runs_bind [OF runs_u8, of k b bs c v c' d] by simp

text \<open>What is counted after an import.\<close>

lemma runs_counted:
  assumes "runs m [] c () (c\<lparr>out_module := append_import i (out_module c)\<rparr>)"
    and "\<And>d. f d = count_import (import_desc i) d"
  shows "runs (rd_bind m (\<lambda>_. rd_modify f)) [] c () (import_effect i c)"
proof -
  have f: "f = count_import (import_desc i)" using assms(2) by blast
  have "runs (rd_modify f) [] d () (count_import (import_desc i) d)" for d
    unfolding f by (rule runs_modify_last; cases "import_desc i") (simp_all add: count_import_def ghost_def left_of_def)
  then show ?thesis unfolding import_effect_def by (rule runs_silent [OF assms(1)])
qed

lemma import_entry_eq: "\<lparr>import_module_name = import_module_name i, import_field_name = import_field_name i, import_desc = import_desc i\<rparr> = i"
  by (cases i) simp

lemma runs_import:
  assumes "import_ok fs types i" "func_types (out_module c) = types" "length types < 2 ^ 32"
    and "r_num_signatures c = of_nat (length types)"
  shows "runs (read_import fs) (enc_import md i) c () (import_effect i c)"
proof -
  let ?m = "import_module_name i" and ?f = "import_field_name i"
  have ok: "is_valid_utf8 ?m" "length ?m < 2 ^ 32" "is_valid_utf8 ?f" "length ?f < 2 ^ 32"
    using assms(1) by (auto simp: import_ok_def)
  note entry = import_entry_eq [of i]
  have on: "runs (on_import ?m ?f (import_desc i)) [] c () (c\<lparr>out_module := append_import i (out_module c)\<rparr>)"
    using runs_on_import [of ?m ?f "import_desc i" c] unfolding entry .
  have start: "runs (read_import fs) (enc_import md i) c () (import_effect i c)"
    if "runs (switch (import_cases fs ?m ?f (of_nat (kind_code (import_kind (import_desc i))))) (rd_return ()))
      (enc_import_desc md (import_desc i)) c () (import_effect i c)"
    unfolding read_import_def enc_import_def append_Cons append_Nil
    by (intro runs_bind [OF runs_name] runs_byte ok that)
  note steps = start runs_last [OF runs_u32(2)] runs_get runs_ok runs_counted
  show ?thesis
  proof (cases "import_desc i")
    case (FuncImport d)
    then have d: "type_use_ok types d" using assms(1) by (simp add: import_ok_def)
    then have "type_var d < r_num_signatures c"
      using assms(3,4) by (simp add: type_use_ok_def word_less_nat_alt unat_of_nat)
    moreover have "runs (on_import_func ?m ?f (type_var d)) [] c () (c\<lparr>out_module := append_import i (out_module c)\<rparr>)"
      using runs_on_import_func [of c d ?m ?f, folded FuncImport, unfolded entry] d assms(2) by simp
    ultimately show ?thesis using FuncImport d
      by (auto simp: import_cases_def count_import_def intro!: steps)
  next
    case (TableImport l)
    then show ?thesis using assms(1) on
      by (auto simp: import_cases_def import_ok_def count_import_def intro!: start runs_last [OF runs_table] runs_counted)
  next
    case (MemoryImport l)
    then show ?thesis using assms(1) on
      by (auto simp: import_cases_def import_ok_def count_import_def intro!: start runs_last [OF runs_memory] runs_counted)
  next
    case (GlobalImport t mut)
    then show ?thesis using assms(1) on
      by (auto simp: import_cases_def import_ok_def count_import_def intro!: start runs_last [OF runs_global_header] runs_counted)
  next
    case (ExceptionImport s)
    then show ?thesis using assms(1) by (simp add: import_ok_def)
  qed
qed

lemma fold_import_effect_keeps:
  "func_types (out_module (fold import_effect is c)) = func_types (out_module c)"
  "r_num_signatures (fold import_effect is c) = r_num_signatures c"
proof -
  have "func_types (out_module (import_effect i c)) = func_types (out_module c) \<and> r_num_signatures (import_effect i c) = r_num_signatures c"
    for i c
    by (cases "import_desc i") (simp_all add: import_effect_def count_import_def append_import_def Let_def)
  then show "func_types (out_module (fold import_effect is c)) = func_types (out_module c)"
    "r_num_signatures (fold import_effect is c) = r_num_signatures c"
    by (induction "is" arbitrary: c) auto
qed

lemma enc_import_not_Nil [simp]: "enc_import md i \<noteq> []"
  by (simp add: enc_import_def)

lemma runs_import_section:
  assumes "list_all (import_ok fs types) imps" "length imps < 2 ^ 32"
    and "func_types (out_module c) = types" "length types < 2 ^ 32" "r_num_signatures c = of_nat (length types)"
  shows "runs (read_import_section fs) (enc_vec (enc_import md) imps) c () (fold import_effect imps c)"
proof -
  define C where "C j = fold import_effect (take j imps) c" for j
  have "runs (read_import fs) (enc_import md (imps ! j)) (C j) () (C (Suc j))" if "j < length imps" for j
    using runs_import [of fs types "imps ! j" "C j" md] assms that
    by (simp add: C_def list_all_length take_Suc_conv_app_nth fold_import_effect_keeps)
  then have "runs (rd_skip (rd_for (of_nat (length imps)) (\<lambda>i. read_import fs))) (enc_list (enc_import md) imps) (C 0) () (C (length imps))"
    by (intro runs_for_each [OF assms(2)])
  then show ?thesis
    unfolding read_import_section_def C_def by (intro runs_vec_section assms(2)) simp_all
qed

section \<open>Functions, tables, memories\<close>

definition bare_func :: "func \<Rightarrow> func" where
  "bare_func f = imported_func (func_decl f)"

lemma runs_function_section:
  assumes "list_all (\<lambda>f. type_use_ok types (func_decl f)) fs" "length fs < 2 ^ 32"
    and "func_types (out_module c) = types" "length types < 2 ^ 32" "r_num_signatures c = of_nat (length types)"
  shows "runs read_function_section (enc_vec (\<lambda>f. enc_u32 (get_func_type_index md (func_decl f))) fs) c ()
    (c\<lparr>r_num_function_signatures := of_nat (length fs),
       out_module := (out_module c)\<lparr>funcs := funcs (out_module c) @ map bare_func fs\<rparr>\<rparr>)"
proof -
  let ?c = "c\<lparr>r_num_function_signatures := of_nat (length fs)\<rparr>"
  let ?body = "\<lambda>i :: u32. rd_bind (index_leb ''function signature index'') (\<lambda>sig_index. rd_bind (rd_get r_num_signatures) (\<lambda>m.
     rd_bind (error_unless (sig_index < m) ''invalid function signature index'') (\<lambda>_. on_function sig_index)))"
  define C where "C j = ?c\<lparr>out_module := (out_module c)\<lparr>funcs := funcs (out_module c) @ map bare_func (take j fs)\<rparr>\<rparr>" for j
  have "runs (?body i) (enc_u32 (get_func_type_index md (func_decl (fs ! j)))) (C j) () (C (Suc j))" if j: "j < length fs" for i j
  proof -
    let ?d = "func_decl (fs ! j)"
    have d: "type_use_ok types ?d" using assms(1) j by (simp add: list_all_length)
    then have "type_var ?d < r_num_signatures (C j)"
      using assms(4,5) by (simp add: C_def type_use_ok_def word_less_nat_alt unat_of_nat)
    moreover have "runs (on_function (type_var ?d)) [] (C j) () (C (Suc j))"
      unfolding on_function_def
      by (rule runs_silent [OF runs_func_type_at [of _ types]], use assms(3) d in \<open>simp_all add: C_def\<close>, rule runs_module_last)
        (use j in \<open>simp_all add: append_func_def unloc_def bare_func_def imported_func_def take_Suc_conv_app_nth\<close>)
    ultimately show ?thesis using get_type_use [OF d, of md]
      by (auto intro!: runs_last [OF runs_u32(2)] runs_get runs_ok)
  qed
  then have "runs (rd_skip (rd_for (of_nat (length fs)) ?body)) (enc_list (\<lambda>f. enc_u32 (get_func_type_index md (func_decl f))) fs) (C 0) () (C (length fs))"
    by (intro runs_for_each [OF assms(2)])
  moreover have "C 0 = ?c" by (cases c) (simp add: C_def)
  ultimately show ?thesis
    unfolding read_function_section_def C_def
    by (intro runs_vec_section assms(2) runs_modify) (simp_all add: ghost_def left_of_def)
qed

lemma at_most_one: "length xs \<le> 1 \<Longrightarrow> (of_nat (length xs) :: u32) \<le> 1 \<and> length xs < 2 ^ 32"
  by (cases xs) auto

lemma runs_for_one:
  assumes "length xs \<le> 1" "\<And>x. xs = [x] \<Longrightarrow> runs (body 0) (e x) c () c'" "xs = [] \<Longrightarrow> c' = c"
  shows "runs (rd_skip (rd_for (of_nat (length xs)) body)) (enc_list e xs) c () c'"
proof -
  define C where "C j = (if j = 0 then c else c')" for j :: nat
  have "runs (rd_skip (rd_for (of_nat (length xs)) body)) (enc_list e xs) (C 0) () (C (length xs))"
    using assms(1,2) by (intro runs_for_each) (cases xs; auto simp: C_def)+
  then show ?thesis using assms(3) by (cases xs) (auto simp: C_def)
qed

lemma enc_table_not_Nil [simp]: "enc_table l \<noteq> []" "enc_limits l \<noteq> []"
  by (simp_all add: enc_table_def enc_limits_def)

lemma runs_table_section:
  assumes "list_all table_ok ts" "length ts \<le> 1"
  shows "runs read_table_section (enc_vec enc_table ts) c ()
    (c\<lparr>r_num_tables := of_nat (length ts), out_module := (out_module c)\<lparr>tables := tables (out_module c) @ ts\<rparr>\<rparr>)"
proof -
  have "runs (rd_skip (rd_for (of_nat (length ts)) (\<lambda>i. rd_bind read_table on_table))) (enc_list enc_table ts)
      (c\<lparr>r_num_tables := of_nat (length ts)\<rparr>) ()
      (c\<lparr>r_num_tables := of_nat (length ts), out_module := (out_module c)\<lparr>tables := tables (out_module c) @ ts\<rparr>\<rparr>)"
    unfolding on_table_def using assms
    by (intro runs_for_one) (auto intro!: runs_last [OF runs_table] runs_module_last simp: append_table_def unloc_def)
  then show ?thesis
    unfolding read_table_section_def using at_most_one [OF assms(2)]
    by (intro runs_vec_section runs_modify runs_ok) (simp_all add: ghost_def left_of_def)
qed

lemma runs_memory_section:
  assumes "list_all memory_ok ms" "length ms \<le> 1"
  shows "runs read_memory_section (enc_vec enc_limits ms) c ()
    (c\<lparr>r_num_memories := of_nat (length ms), out_module := (out_module c)\<lparr>memories := memories (out_module c) @ ms\<rparr>\<rparr>)"
proof -
  have "runs (rd_skip (rd_for (of_nat (length ms)) (\<lambda>i. rd_bind read_memory on_memory))) (enc_list enc_limits ms)
      (c\<lparr>r_num_memories := of_nat (length ms)\<rparr>) ()
      (c\<lparr>r_num_memories := of_nat (length ms), out_module := (out_module c)\<lparr>memories := memories (out_module c) @ ms\<rparr>\<rparr>)"
    unfolding on_memory_def using assms
    by (intro runs_for_one) (auto intro!: runs_last [OF runs_memory] runs_module_last simp: append_memory_def unloc_def)
  then show ?thesis
    unfolding read_memory_section_def using at_most_one [OF assms(2)]
    by (intro runs_vec_section runs_modify runs_ok) (simp_all add: ghost_def left_of_def)
qed

section \<open>Initialisers\<close>

fun const_init_ok :: "features \<Rightarrow> bool \<Rightarrow> const \<Rightarrow> bool" where
  "const_init_ok fs require_i32 (CI32 v) = True"
| "const_init_ok fs require_i32 (CV128 v) = (\<not> require_i32 \<and> simd_enabled fs)"
| "const_init_ok fs require_i32 c = (\<not> require_i32)"

fun init_expr_ok :: "features \<Rightarrow> bool \<Rightarrow> expr \<Rightarrow> bool" where
  "init_expr_ok fs require_i32 (ConstExpr c) = const_init_ok fs require_i32 c"
| "init_expr_ok fs require_i32 (VarExpr t v) = (t = GetGlobal)"
| "init_expr_ok fs require_i32 e = False"

text \<open>At most one expression: \<open>end\<close> alone is an initialiser too.\<close>

definition init_ok :: "features \<Rightarrow> bool \<Rightarrow> expr list \<Rightarrow> bool" where
  "init_ok fs require_i32 es \<longleftrightarrow> length es \<le> 1 \<and> list_all (init_expr_ok fs require_i32) es"

lemma runs_expect_end: "runs expect_end (enc_opcode Op_End) c () c"
  unfolding expect_end_def by (rule runs_last [OF runs_opcode]) (auto intro: runs_return simp: valid_code_def)

lemma runs_init_expr:
  assumes ok: "init_ok fs req es" and nil: "es = [] \<Longrightarrow> c' = c"
    and one: "\<And>e. es = [e] \<Longrightarrow> runs (on_init_expr e) [] c () c'"
  shows "runs (read_init_expr fs req) (enc_init_expr md es) c () c'"
proof (cases es)
  case Nil
  then have "runs (read_init_expr fs req) (enc_opcode Op_End) c () c'"
    unfolding read_init_expr_def Let_def
    by (intro runs_last [OF runs_opcode]) (auto simp: valid_code_def nil intro: runs_return)
  then show ?thesis by (simp add: Nil enc_init_expr_def enc_exprs_def)
next
  case (Cons e es')
  with ok have e: "es = [e]" "init_expr_ok fs req e" by (simp_all add: init_ok_def)
  define finish where "finish op = rd_bind (error_unless (\<not> req \<or> op = Op_I32Const \<or> op = Op_GetGlobal) ''expected i32 init_expr'')
    (\<lambda>_. expect_end)" for op
  have fin: "runs (rd_bind (on_init_expr e') (\<lambda>_ :: unit. finish op)) (enc_opcode Op_End) c () c'"
    if "e' = e" "\<not> req \<or> op = Op_I32Const \<or> op = Op_GetGlobal" for op e'
    unfolding finish_def that(1) using that(2) by (intro runs_silent [OF one [OF e(1)]] runs_ok runs_expect_end)
  note steps = runs_bind [OF runs_opcode] runs_bind [OF runs_signed(1)] runs_bind [OF runs_signed(2)]
    runs_bind [OF runs_fixed(2)] runs_bind [OF runs_fixed(3)] runs_bind [OF runs_fixed(4)] runs_bind [OF runs_u32(2)]
  have "runs (read_init_expr fs req) (enc_expr md e @ enc_opcode Op_End) c () c'"
  proof (cases e)
    case (ConstExpr k)
    with e(2) show ?thesis unfolding read_init_expr_def Let_def finish_def [symmetric]
      by (cases k) (auto simp: valid_code_def enabled_or_unexpected_def is_enabled_def intro!: steps fin)
  next
    case (VarExpr t v)
    with e(2) show ?thesis unfolding read_init_expr_def Let_def finish_def [symmetric]
      by (auto simp: valid_code_def intro!: steps fin)
  qed (use e(2) in auto)
  then show ?thesis by (simp add: e(1) enc_init_expr_def enc_exprs_def)
qed

section \<open>Globals\<close>

definition global_ok :: "features \<Rightarrow> global \<Rightarrow> bool" where
  "global_ok fs g \<longleftrightarrow> is_concrete_type fs (global_type g) \<and> init_ok fs False (map fst (init_expr g))"

lemma ghost_module: "ghost (st\<lparr>out_module := md\<rparr>) = (ghost st)\<lparr>out_module := unloc md\<rparr>"
  by (simp add: ghost_def)

lemma runs_on_init_global:
  assumes "current_init_expr c = Some (InitGlobal (length gs))" "globals (out_module c) = gs @ [g]" "init_expr g = []"
  shows "runs (on_init_expr e) [] c () (c\<lparr>out_module := (out_module c)\<lparr>globals := gs @ [g\<lparr>init_expr := [(e, 0)]\<rparr>]\<rparr>\<rparr>)"
  unfolding runs_def
proof (intro allI impI)
  fix st :: reader and r assume st: "ghost st = c" "left_of st = [] @ r"
  let ?i = "length gs"
  let ?f = "\<lambda>md. md\<lparr>globals := (globals md)[?i := (globals md ! ?i)\<lparr>init_expr := init_expr (globals md ! ?i) @ [(e, offset st)]\<rparr>]\<rparr>"
  have "current_init_expr st = Some (InitGlobal ?i)" using st assms(1) by auto
  then have run: "on_init_expr e st = Inr ((), st\<lparr>out_module := ?f (out_module st)\<rparr>)"
    by (simp add: on_init_expr_def rd_bind_def rd_get_def rd_module_def rd_modify_def)
  have "map unloc_global (globals (out_module st)) = gs @ [g]" using st assms(2) by auto
  then obtain gs' g' where g': "globals (out_module st) = gs' @ [g']" "map unloc_global gs' = gs" "unloc_global g' = g"
    by (auto simp: map_eq_append_conv)
  then have len: "length gs' = ?i" by auto
  have "init_expr g' = []" using g'(3) assms(3) by (auto simp: unloc_global_def)
  then have new: "unloc_global (g'\<lparr>init_expr := [(e, offset st)]\<rparr>) = g\<lparr>init_expr := [(e, 0)]\<rparr>"
    using g'(3) by (auto simp: unloc_global_def)
  have "unloc (?f (out_module st)) = (unloc (out_module st))\<lparr>globals := gs @ [g\<lparr>init_expr := [(e, 0)]\<rparr>]\<rparr>"
    unfolding g'(1) len [symmetric] using g'(2) new \<open>init_expr g' = []\<close> by (simp add: unloc_def)
  moreover have "unloc (out_module st) = out_module c" using st by auto
  ultimately have "ghost (st\<lparr>out_module := ?f (out_module st)\<rparr>) = c\<lparr>out_module := (out_module c)\<lparr>globals := gs @ [g\<lparr>init_expr := [(e, 0)]\<rparr>]\<rparr>\<rparr>"
    unfolding ghost_module st(1) by simp
  then show "\<exists>st'. on_init_expr e st = Inr ((), st') \<and>
      ghost st' = c\<lparr>out_module := (out_module c)\<lparr>globals := gs @ [g\<lparr>init_expr := [(e, 0)]\<rparr>]\<rparr>\<rparr> \<and>
      offset st' = offset st + length [] \<and> left_of st' = r"
    using run st(2) by (simp add: left_of_def)
qed

lemma runs_set_init: "runs (rd_modify (\<lambda>st. st\<lparr>current_init_expr := t\<rparr>)) [] c () (c\<lparr>current_init_expr := t\<rparr>)"
  by (rule runs_modify_last) (simp_all add: ghost_def left_of_def)

lemma runs_get_last: "(\<And>st. f (ghost st) = f st) \<Longrightarrow> f c = v \<Longrightarrow> runs (rd_get f) [] c v c"
  unfolding runs_def rd_get_def by auto

lemma unat_sum_index:
  assumes "v = of_nat m" "i = of_nat j" "m + j < 2 ^ 32"
  shows "unat (v + i :: u32) = m + j"
proof -
  have "v + i = of_nat (m + j)" using assms(1,2) by simp
  then show ?thesis using assms(3) by (simp add: unat_of_nat del: of_nat_add)
qed

lemma runs_global:
  assumes ok: "global_ok fs g" and none: "current_init_expr c = None"
    and n: "unat (r_num_global_imports c + i) = length (globals (out_module c))"
  shows "runs (read_global fs i) (enc_global md g) c ()
    (c\<lparr>out_module := (out_module c)\<lparr>globals := globals (out_module c) @ [unloc_global g]\<rparr>\<rparr>)"
proof -
  let ?gs = "globals (out_module c)" and ?g0 = "\<lparr>global_type = global_type g, global_mutable = global_mutable g, init_expr = []\<rparr>"
  define c1 where "c1 = c\<lparr>out_module := append_global ?g0 (out_module c)\<rparr>"
  define c2 where "c2 = c1\<lparr>current_init_expr := Some (InitGlobal (length ?gs))\<rparr>"
  define c3 where "c3 = c2\<lparr>out_module := (out_module c)\<lparr>globals := ?gs @ [unloc_global g]\<rparr>\<rparr>"
  have c2: "current_init_expr c2 = Some (InitGlobal (length ?gs))" "globals (out_module c2) = ?gs @ [?g0]"
    by (simp_all add: c2_def c1_def append_global_def)
  have init: "init_ok fs False (map fst (init_expr g))" using ok by (simp add: global_ok_def)
  have "runs (read_init_expr fs False) (enc_init_expr md (map fst (init_expr g))) c2 () c3"
  proof (rule runs_init_expr [OF init])
    assume "map fst (init_expr g) = []"
    then have "unloc_global g = ?g0" by (cases g) (simp add: unloc_global_def)
    then show "c3 = c2" by (cases c) (simp add: c3_def c2_def c1_def append_global_def)
  next
    fix e assume "map fst (init_expr g) = [e]"
    then have "unloc_global g = ?g0\<lparr>init_expr := [(e, 0)]\<rparr>" by (cases g) (auto simp: unloc_global_def)
    then have "c2\<lparr>out_module := (out_module c2)\<lparr>globals := ?gs @ [?g0\<lparr>init_expr := [(e, 0)]\<rparr>]\<rparr>\<rparr> = c3"
      by (cases c) (simp add: c3_def c2_def c1_def append_global_def)
    then show "runs (on_init_expr e) [] c2 () c3" using runs_on_init_global [OF c2, of e] by simp
  qed
  moreover have "runs end_init_expr [] c3 () (c\<lparr>out_module := (out_module c)\<lparr>globals := ?gs @ [unloc_global g]\<rparr>\<rparr>)"
    (is "runs _ _ _ _ ?c4")
  proof -
    have "c3\<lparr>current_init_expr := None\<rparr> = ?c4" using none by (cases c) (simp add: c3_def c2_def c1_def)
    then show ?thesis unfolding end_init_expr_def using runs_set_init [of None c3] by simp
  qed
  ultimately have init: "runs (rd_bind (read_init_expr fs False) (\<lambda>_. end_init_expr)) (enc_init_expr md (map fst (init_expr g))) c2 () ?c4"
    by (rule runs_last)
  have index: "runs (begin_global_init_expr (r_num_global_imports c + i)) [] c1 () c2"
    unfolding begin_global_init_expr_def c2_def
    by (rule runs_get) (use n in \<open>auto simp: is_last_def c1_def append_global_def intro!: runs_assert runs_set_init\<close>)
  have "runs (begin_global (global_type g) (global_mutable g)) [] c () c1"
    unfolding begin_global_def c1_def by (rule runs_module_last) (simp_all add: append_global_def unloc_def unloc_global_def)
  note runs_silent [OF this runs_silent [OF index init]]
  then show ?thesis
    unfolding read_global_def enc_global_def using ok
    by (intro runs_get) (auto simp: global_ok_def intro!: runs_bind [OF runs_global_header])
qed

lemma enc_global_not_Nil [simp]: "enc_global md g \<noteq> []"
  by (simp add: enc_global_def enc_global_header_def)

lemma runs_global_section:
  assumes "list_all (global_ok fs) gs" "current_init_expr c = None"
    and "r_num_global_imports c = of_nat (length (globals (out_module c)))"
    and "length (globals (out_module c)) + length gs < 2 ^ 32"
  shows "runs (read_global_section fs) (enc_vec (enc_global md) gs) c ()
    (c\<lparr>r_num_globals := of_nat (length gs),
       out_module := (out_module c)\<lparr>globals := globals (out_module c) @ map unloc_global gs\<rparr>\<rparr>)"
proof -
  let ?c = "c\<lparr>r_num_globals := of_nat (length gs)\<rparr>"
  define C where "C j = ?c\<lparr>out_module := (out_module c)\<lparr>globals := globals (out_module c) @ map unloc_global (take j gs)\<rparr>\<rparr>" for j
  have few: "length gs < 2 ^ 32" using assms(4) by simp
  have "runs (read_global fs (of_nat j)) (enc_global md (gs ! j)) (C j) () (C (Suc j))" if j: "j < length gs" for j
  proof -
    have "unat (r_num_global_imports (C j) + of_nat j) = length (globals (out_module (C j)))"
      using unat_sum_index [of _ "length (globals (out_module c))" _ j] assms(3,4) j by (simp add: C_def min_def)
    then show ?thesis
      using runs_global [of fs "gs ! j" "C j" "of_nat j" md] assms(1,2) j
      by (simp add: C_def list_all_length take_Suc_conv_app_nth)
  qed
  then have "runs (rd_skip (rd_for (of_nat (length gs)) (read_global fs))) (enc_list (enc_global md) gs) (C 0) () (C (length gs))"
    by (intro runs_for_each [OF few])
  moreover have "C 0 = ?c" by (cases c) (simp add: C_def)
  ultimately show ?thesis
    unfolding read_global_section_def C_def
    by (intro runs_vec_section few runs_modify) (simp_all add: ghost_def left_of_def)
qed

section \<open>Exports and the start function\<close>

text \<open>The reader has counted what the module holds.\<close>

definition counted :: "reader \<Rightarrow> bool" where
  "counted c \<longleftrightarrow>
     num_total_funcs c = of_nat (length (funcs (out_module c))) \<and> length (funcs (out_module c)) < 2 ^ 32 \<and>
     num_total_tables c = of_nat (length (tables (out_module c))) \<and> length (tables (out_module c)) < 2 ^ 32 \<and>
     num_total_memories c = of_nat (length (memories (out_module c))) \<and> length (memories (out_module c)) < 2 ^ 32 \<and>
     num_total_globals c = of_nat (length (globals (out_module c))) \<and> length (globals (out_module c)) < 2 ^ 32"

lemma num_total_ghost [simp]:
  "num_total_funcs (ghost st) = num_total_funcs st" "num_total_tables (ghost st) = num_total_tables st"
  "num_total_memories (ghost st) = num_total_memories st" "num_total_globals (ghost st) = num_total_globals st"
  by (simp_all add: num_total_funcs_def num_total_tables_def num_total_memories_def num_total_globals_def)

lemma below_count: "n = of_nat k \<Longrightarrow> k < 2 ^ 32 \<Longrightarrow> (i :: u32) < n \<longleftrightarrow> unat i < k"
  by (simp add: word_less_nat_alt unat_of_nat)

fun index_space :: "wmodule \<Rightarrow> external_kind \<Rightarrow> nat" where
  "index_space md KFunc = length (funcs md)"
| "index_space md KTable = length (tables md)"
| "index_space md KMemory = length (memories md)"
| "index_space md KGlobal = length (globals md)"
| "index_space md KExcept = 0"

definition export_ok :: "wmodule \<Rightarrow> export_entry \<Rightarrow> bool" where
  "export_ok md e \<longleftrightarrow>
     is_valid_utf8 (export_name e) \<and> length (export_name e) < 2 ^ 32 \<and> unat (export_var e) < index_space md (export_kind e)"

lemma kind_of_kind_code: "kind_of_code (of_nat (kind_code k)) = k" "(of_nat (kind_code k) :: byte) < 5"
  by (cases k; simp add: kind_of_code_def)+

lemma runs_export:
  assumes ok: "export_ok (out_module c) e" and n: "counted c"
  shows "runs (read_export fs) (enc_export e) c () (c\<lparr>out_module := append_export e (out_module c)\<rparr>)"
proof -
  have check: "runs (check_export fs (export_kind e) (export_var e)) [] c () c"
    unfolding check_export_def using ok n
    by (intro runs_get; cases "export_kind e") (auto simp: export_ok_def counted_def below_count intro!: runs_return)
  have on: "runs (on_export (export_kind e) (export_var e) (export_name e)) [] c () (c\<lparr>out_module := append_export e (out_module c)\<rparr>)"
    unfolding on_export_def using ok
    by (intro runs_get; cases "export_kind e")
      (auto simp: export_ok_def append_export_def unloc_def intro!: runs_assert runs_module_last)
  show ?thesis
    unfolding read_export_def enc_export_def append_Cons append_Nil using ok kind_of_kind_code
    by (intro runs_bind [OF runs_name] runs_byte runs_ok runs_last [OF runs_u32(2)])
      (auto simp: export_ok_def intro: runs_silent [OF check on])
qed

lemma index_space_append_export [simp]: "index_space (md\<lparr>export_list := es\<rparr>) k = index_space md k"
  by (cases k) simp_all

lemma runs_export_section:
  assumes "list_all (export_ok (out_module c)) es" "length es < 2 ^ 32" "counted c"
  shows "runs (read_export_section fs) (enc_vec enc_export es) c ()
    (c\<lparr>out_module := (out_module c)\<lparr>export_list := export_list (out_module c) @ es\<rparr>\<rparr>)"
proof -
  define C where "C j = c\<lparr>out_module := (out_module c)\<lparr>export_list := export_list (out_module c) @ take j es\<rparr>\<rparr>" for j
  have "runs (read_export fs) (enc_export (es ! j)) (C j) () (C (Suc j))" if j: "j < length es" for j
  proof -
    have "counted (C j)" "export_ok (out_module (C j)) (es ! j)"
      using assms(1,3) j by (simp_all add: C_def counted_def export_ok_def list_all_length num_total_funcs_def
          num_total_tables_def num_total_memories_def num_total_globals_def)
    then show ?thesis using runs_export [of "C j" "es ! j" fs] j
      by (simp add: C_def append_export_def take_Suc_conv_app_nth)
  qed
  then have "runs (rd_skip (rd_for (of_nat (length es)) (\<lambda>i. read_export fs))) (enc_list enc_export es) (C 0) () (C (length es))"
    by (intro runs_for_each [OF assms(2)])
  moreover have "C 0 = c" by (cases c) (simp add: C_def)
  ultimately show ?thesis
    unfolding read_export_section_def C_def
    by (intro runs_vec_section assms(2)) (simp_all add: enc_export_def enc_str_def enc_count_def)
qed

lemma runs_start_section:
  assumes "counted c" "unat v < length (funcs (out_module c))"
  shows "runs read_start_section (enc_u32 v) c () (c\<lparr>out_module := append_start v (out_module c)\<rparr>)"
  unfolding read_start_section_def on_start_function_def using assms
  by (intro runs_last [OF runs_u32(2)] runs_get runs_ok runs_assert runs_module_last)
    (auto simp: counted_def below_count append_start_def unloc_def)

section \<open>Segments\<close>

lemma is_last_append: "unat i = length xs \<Longrightarrow> is_last i (xs @ [x])"
  by (simp add: is_last_def)

lemma runs_on_init_segment:
  "current_init_expr c = Some (InitElem i) \<Longrightarrow>
     runs (rd_module (\<lambda>md. md\<lparr>elem_segments := (elem_segments md)[i := (elem_segments md ! i)\<lparr>elem_offset :=
       elem_offset (elem_segments md ! i) @ [e]\<rparr>]\<rparr>)) [] c () c' \<Longrightarrow> runs (on_init_expr e) [] c () c'"
  "current_init_expr c = Some (InitData i) \<Longrightarrow>
     runs (rd_module (\<lambda>md. md\<lparr>ir_data_segments := (ir_data_segments md)[i := (ir_data_segments md ! i)\<lparr>data_offset :=
       data_offset (ir_data_segments md ! i) @ [e]\<rparr>]\<rparr>)) [] c () c' \<Longrightarrow> runs (on_init_expr e) [] c () c'"
  unfolding runs_def on_init_expr_def by (auto simp: rd_bind_def rd_get_def)

definition elem_segment_ok :: "features \<Rightarrow> elem_segment \<Rightarrow> bool" where
  "elem_segment_ok fs s \<longleftrightarrow> init_ok fs True (elem_offset s) \<and> length (elem_vars s) < 2 ^ 32"

definition with_elems :: "elem_segment list \<Rightarrow> reader \<Rightarrow> reader" where
  "with_elems ss c = c\<lparr>out_module := (out_module c)\<lparr>elem_segments := ss\<rparr>\<rparr>"

lemma runs_elems_module:
  assumes "\<And>md. unloc (f md) = f (unloc md)" "f (out_module (with_elems ss c)) = (out_module c)\<lparr>elem_segments := ss'\<rparr>"
  shows "runs (rd_module f) [] (with_elems ss c) () (with_elems ss' c)"
  by (rule runs_module_last, rule assms(1)) (cases c; use assms(2) in \<open>simp add: with_elems_def\<close>)

lemma runs_elem_var:
  assumes "unat i = length ss"
  shows "runs (on_elem_segment_function_index i v) [] (with_elems (ss @ [s]) c) () (with_elems (ss @ [s\<lparr>elem_vars := elem_vars s @ [v]\<rparr>]) c)"
  unfolding on_elem_segment_function_index_def using assms
  by (intro runs_get runs_assert runs_elems_module) (auto simp: is_last_def with_elems_def Let_def unloc_def)

lemma runs_elem_segment:
  assumes ok: "elem_segment_ok fs s" and none: "current_init_expr c = None" and i: "unat i = length ss"
  shows "runs (read_elem_segment fs i) (enc_elem_segment md s) (with_elems ss c) () (with_elems (ss @ [s]) c)"
proof -
  let ?s0 = "\<lparr>table_var = table_var s, elem_offset = [], elem_vars = []\<rparr>"
  let ?s1 = "s\<lparr>elem_vars := []\<rparr>"
  let ?c = "c\<lparr>current_init_expr := Some (InitElem (unat i))\<rparr>"
  have init: "init_ok fs True (elem_offset s)" and few: "length (elem_vars s) < 2 ^ 32" using ok by (simp_all add: elem_segment_ok_def)
  have start: "runs (begin_elem_segment (table_var s)) [] (with_elems ss c) () (with_elems (ss @ [?s0]) c)"
    unfolding begin_elem_segment_def by (rule runs_elems_module) (simp_all add: with_elems_def append_elem_segment_def unloc_def)
  have target: "runs (begin_elem_segment_init_expr i) [] (with_elems (ss @ [?s0]) c) () (with_elems (ss @ [?s0]) ?c)"
    unfolding begin_elem_segment_init_expr_def
    by (rule runs_get) (use i in \<open>auto simp: is_last_def with_elems_def intro!: runs_assert runs_modify_last simp: ghost_def left_of_def\<close>)
  have expr: "runs (read_init_expr fs True) (enc_init_expr md (elem_offset s)) (with_elems (ss @ [?s0]) ?c) () (with_elems (ss @ [?s1]) ?c)"
  proof (rule runs_init_expr [OF init])
    assume "elem_offset s = []"
    then have "?s1 = ?s0" by (cases s) simp
    then show "with_elems (ss @ [?s1]) ?c = with_elems (ss @ [?s0]) ?c" by simp
  next
    fix e assume "elem_offset s = [e]"
    then have s1: "?s1 = ?s0\<lparr>elem_offset := [e]\<rparr>" by (cases s) simp
    show "runs (on_init_expr e) [] (with_elems (ss @ [?s0]) ?c) () (with_elems (ss @ [?s1]) ?c)"
      by (rule runs_on_init_segment(1), simp add: with_elems_def, rule runs_elems_module)
        (use i s1 in \<open>simp_all add: with_elems_def unloc_def\<close>)
  qed
  have finish: "runs end_init_expr [] (with_elems (ss @ [?s1]) ?c) () (with_elems (ss @ [?s1]) c)"
    unfolding end_init_expr_def using none by (intro runs_modify_last; cases c) (simp_all add: ghost_def left_of_def with_elems_def)
  define C where "C j = with_elems (ss @ [s\<lparr>elem_vars := take j (elem_vars s)\<rparr>]) c" for j
  have "runs (rd_bind (index_leb ''elem segment function index'') (on_elem_segment_function_index i)) (enc_u32 (elem_vars s ! j)) (C j) () (C (Suc j))"
    if "j < length (elem_vars s)" for j
    using runs_elem_var [OF i, of "elem_vars s ! j" "s\<lparr>elem_vars := take j (elem_vars s)\<rparr>" c] that
    by (auto simp: C_def take_Suc_conv_app_nth intro: runs_last [OF runs_u32(2)])
  then have "runs (rd_skip (rd_for (of_nat (length (elem_vars s))) (\<lambda>j. rd_bind (index_leb ''elem segment function index'') (on_elem_segment_function_index i))))
      (enc_list enc_u32 (elem_vars s)) (C 0) () (C (length (elem_vars s)))"
    by (intro runs_for_each [OF few])
  then have vars: "runs (rd_bind (count_leb ''elem segment function index count'') (\<lambda>n. rd_skip (rd_for n (\<lambda>j.
       rd_bind (index_leb ''elem segment function index'') (on_elem_segment_function_index i)))))
      (enc_vec enc_u32 (elem_vars s)) (with_elems (ss @ [?s1]) c) () (with_elems (ss @ [s]) c)"
    using few by (intro runs_vec_section) (simp_all add: C_def)
  show ?thesis
    unfolding read_elem_segment_def enc_elem_segment_def
    by (rule runs_bind [OF runs_u32(2)], rule runs_silent [OF start], rule runs_silent [OF target], rule runs_bind [OF expr],
        rule runs_silent [OF finish], rule vars)
qed

lemma runs_elem_section:
  assumes "list_all (elem_segment_ok fs) ss" "length ss < 2 ^ 32" "current_init_expr c = None"
    and "ss \<noteq> [] \<Longrightarrow> tables (out_module c) \<noteq> []" "counted c" "elem_segments (out_module c) = []"
  shows "runs (read_elem_section fs) (enc_vec (enc_elem_segment md) ss) c () (with_elems ss c)"
proof -
  define C where "C j = with_elems (take j ss) c" for j
  have "runs (read_elem_segment fs (of_nat j)) (enc_elem_segment md (ss ! j)) (C j) () (C (Suc j))" if "j < length ss" for j
    using runs_elem_segment [of fs "ss ! j" c "of_nat j" "take j ss" md] assms(1,2,3) that
    by (simp add: C_def list_all_length take_Suc_conv_app_nth unat_of_nat)
  then have "runs (rd_skip (rd_for (of_nat (length ss)) (read_elem_segment fs))) (enc_list (enc_elem_segment md) ss) (C 0) () (C (length ss))"
    by (intro runs_for_each [OF assms(2)])
  moreover have "C 0 = c" using assms(6) by (cases c) (simp add: C_def with_elems_def)
  moreover have "ss = [] \<or> 0 < num_total_tables c"
    using assms(4,5) by (auto simp: counted_def word_less_nat_alt unat_of_nat)
  ultimately show ?thesis
    unfolding read_elem_section_def C_def using assms(2)
    by (intro runs_vec_section runs_get runs_ok) (auto simp: enc_elem_segment_def)
qed

definition data_segment_ok :: "features \<Rightarrow> ir_data_segment \<Rightarrow> bool" where
  "data_segment_ok fs s \<longleftrightarrow> init_ok fs True (data_offset s) \<and> length (data_bytes s) < 2 ^ 32"

definition with_data :: "ir_data_segment list \<Rightarrow> reader \<Rightarrow> reader" where
  "with_data ss c = c\<lparr>out_module := (out_module c)\<lparr>ir_data_segments := ss\<rparr>\<rparr>"

lemma runs_data_module:
  assumes "\<And>md. unloc (f md) = f (unloc md)" "f (out_module (with_data ss c)) = (out_module c)\<lparr>ir_data_segments := ss'\<rparr>"
  shows "runs (rd_module f) [] (with_data ss c) () (with_data ss' c)"
  by (rule runs_module_last, rule assms(1)) (cases c; use assms(2) in \<open>simp add: with_data_def\<close>)

lemma runs_data_segment:
  assumes ok: "data_segment_ok fs s" and none: "current_init_expr c = None" and i: "unat i = length ss"
  shows "runs (read_data_segment fs i) (enc_data_segment md s) (with_data ss c) () (with_data (ss @ [s]) c)"
proof -
  let ?s0 = "\<lparr>memory_var = memory_var s, data_offset = [], data_bytes = []\<rparr>"
  let ?s1 = "s\<lparr>data_bytes := []\<rparr>"
  let ?c = "c\<lparr>current_init_expr := Some (InitData (unat i))\<rparr>"
  have init: "init_ok fs True (data_offset s)" and few: "length (data_bytes s) < 2 ^ 32" using ok by (simp_all add: data_segment_ok_def)
  have start: "runs (begin_data_segment (memory_var s)) [] (with_data ss c) () (with_data (ss @ [?s0]) c)"
    unfolding begin_data_segment_def by (rule runs_data_module) (simp_all add: with_data_def append_data_segment_def unloc_def)
  have target: "runs (begin_data_segment_init_expr i) [] (with_data (ss @ [?s0]) c) () (with_data (ss @ [?s0]) ?c)"
    unfolding begin_data_segment_init_expr_def
    by (rule runs_get) (use i in \<open>auto simp: is_last_def with_data_def intro!: runs_assert runs_modify_last simp: ghost_def left_of_def\<close>)
  have expr: "runs (read_init_expr fs True) (enc_init_expr md (data_offset s)) (with_data (ss @ [?s0]) ?c) () (with_data (ss @ [?s1]) ?c)"
  proof (rule runs_init_expr [OF init])
    assume "data_offset s = []"
    then have "?s1 = ?s0" by (cases s) simp
    then show "with_data (ss @ [?s1]) ?c = with_data (ss @ [?s0]) ?c" by simp
  next
    fix e assume "data_offset s = [e]"
    then have s1: "?s1 = ?s0\<lparr>data_offset := [e]\<rparr>" by (cases s) simp
    show "runs (on_init_expr e) [] (with_data (ss @ [?s0]) ?c) () (with_data (ss @ [?s1]) ?c)"
      by (rule runs_on_init_segment(2), simp add: with_data_def, rule runs_data_module)
        (use i s1 in \<open>simp_all add: with_data_def unloc_def\<close>)
  qed
  have finish: "runs end_init_expr [] (with_data (ss @ [?s1]) ?c) () (with_data (ss @ [?s1]) c)"
    unfolding end_init_expr_def using none by (intro runs_modify_last; cases c) (simp_all add: ghost_def left_of_def with_data_def)
  have contents: "runs (on_data_segment_data i (data_bytes s)) [] (with_data (ss @ [?s1]) c) () (with_data (ss @ [s]) c)"
    unfolding on_data_segment_data_def using i
    by (intro runs_get runs_assert runs_data_module) (auto simp: is_last_def with_data_def Let_def unloc_def)
  show ?thesis
    unfolding read_data_segment_def enc_data_segment_def
    by (rule runs_bind [OF runs_u32(2)], rule runs_silent [OF start], rule runs_silent [OF target], rule runs_bind [OF expr],
        rule runs_silent [OF finish], rule runs_last [OF runs_bytes [OF few]], rule contents)
qed

lemma runs_data_section:
  assumes "list_all (data_segment_ok fs) ss" "length ss < 2 ^ 32" "current_init_expr c = None"
    and "ss \<noteq> [] \<Longrightarrow> memories (out_module c) \<noteq> []" "counted c" "ir_data_segments (out_module c) = []"
  shows "runs (read_data_section fs) (enc_vec (enc_data_segment md) ss) c () (with_data ss c)"
proof -
  define C where "C j = with_data (take j ss) c" for j
  have "runs (read_data_segment fs (of_nat j)) (enc_data_segment md (ss ! j)) (C j) () (C (Suc j))" if "j < length ss" for j
    using runs_data_segment [of fs "ss ! j" c "of_nat j" "take j ss" md] assms(1,2,3) that
    by (simp add: C_def list_all_length take_Suc_conv_app_nth unat_of_nat)
  then have "runs (rd_skip (rd_for (of_nat (length ss)) (read_data_segment fs))) (enc_list (enc_data_segment md) ss) (C 0) () (C (length ss))"
    by (intro runs_for_each [OF assms(2)])
  moreover have "C 0 = c" using assms(6) by (cases c) (simp add: C_def with_data_def)
  moreover have "ss = [] \<or> 0 < num_total_memories c"
    using assms(4,5) by (auto simp: counted_def word_less_nat_alt unat_of_nat)
  ultimately show ?thesis
    unfolding read_data_section_def C_def using assms(2)
    by (intro runs_vec_section runs_get runs_ok) (auto simp: enc_data_segment_def)
qed

end
