(* ===== verification/WasmBodies.thy ===== *)
theory WasmBodies
  imports WasmParts
begin

text \<open>
  The code section: bodies of functions with their local variables, each with its size in front, which
  tells the reader where the body ends.
\<close>

section \<open>Function bodies\<close>

text \<open>An operation that is told where the bytes end.\<close>

definition runs_to :: "(nat \<Rightarrow> 'a rd) \<Rightarrow> byte list \<Rightarrow> reader \<Rightarrow> 'a \<Rightarrow> reader \<Rightarrow> bool" where
  "runs_to m bs c v c' \<longleftrightarrow> (\<forall>st r. ghost st = c \<longrightarrow> left_of st = bs @ r \<longrightarrow>
     (\<exists>st'. m (offset st + length bs) st = Inr (v, st') \<and> ghost st' = c' \<and> offset st' = offset st + length bs \<and> left_of st' = r))"

lemma runs_toD:
  assumes "runs_to m bs c v c'" "ghost st = c" "left_of st = bs @ r"
  obtains st' where "m (offset st + length bs) st = Inr (v, st')" "ghost st' = c'" "offset st' = offset st + length bs" "left_of st' = r"
  using assms unfolding runs_to_def by blast

lemma runs_to_bind:
  assumes "runs m bs c u c1" "runs_to (\<lambda>stop. k stop u) cs c1 v c2"
  shows "runs_to (\<lambda>stop. rd_bind m (k stop)) (bs @ cs) c v c2"
  unfolding runs_to_def
proof (intro allI impI)
  fix st :: reader and r assume st: "ghost st = c" "left_of st = (bs @ cs) @ r"
  obtain st1 where 1: "m st = Inr (u, st1)" "ghost st1 = c1" "offset st1 = offset st + length bs" "left_of st1 = cs @ r"
    by (rule runsD [OF assms(1) st(1), of "cs @ r"]) (use st(2) in auto)
  obtain st2 where "k (offset st1 + length cs) u st1 = Inr (v, st2)" "ghost st2 = c2" "offset st2 = offset st1 + length cs" "left_of st2 = r"
    by (rule runs_toD [OF assms(2) 1(2,4)])
  with 1 show "\<exists>st'. rd_bind m (k (offset st + length (bs @ cs))) st = Inr (v, st') \<and> ghost st' = c2 \<and>
      offset st' = offset st + length (bs @ cs) \<and> left_of st' = r"
    by (simp add: rd_bind_def add.assoc)
qed

lemma runs_to_last:
  assumes "runs_to m bs c u c1" "runs (k u) [] c1 v c2"
  shows "runs_to (\<lambda>stop. rd_bind (m stop) k) bs c v c2"
  unfolding runs_to_def
proof (intro allI impI)
  fix st :: reader and r assume st: "ghost st = c" "left_of st = bs @ r"
  obtain st1 where 1: "m (offset st + length bs) st = Inr (u, st1)" "ghost st1 = c1" "offset st1 = offset st + length bs" "left_of st1 = r"
    by (rule runs_toD [OF assms(1) st])
  obtain st2 where "k u st1 = Inr (v, st2)" "ghost st2 = c2" "offset st2 = offset st1" "left_of st2 = r"
    by (rule runsD [OF assms(2) 1(2), of r]) (use 1 in simp_all)
  with 1 show "\<exists>st'. rd_bind (m (offset st + length bs)) k st = Inr (v, st') \<and> ghost st' = c2 \<and>
      offset st' = offset st + length bs \<and> left_of st' = r"
    by (simp add: rd_bind_def)
qed

lemma runs_to_count:
  assumes "length xs < 2 ^ 32" "\<And>x. x \<in> set xs \<Longrightarrow> e x \<noteq> []"
    and "runs_to (\<lambda>stop. k stop (of_nat (length xs))) (enc_list e xs @ bs) c v c'"
  shows "runs_to (\<lambda>stop. rd_bind (count_leb d) (k stop)) (enc_vec e xs @ bs) c v c'"
  unfolding runs_to_def
proof (intro allI impI)
  fix st :: reader and r assume st: "ghost st = c" "left_of st = (enc_vec e xs @ bs) @ r"
  obtain st1 where 1: "count_leb d st = Inr (of_nat (length xs), st1)" "ghost st1 = c"
    "offset st1 = offset st + length (enc_count xs)" "left_of st1 = (enc_list e xs @ bs) @ r"
    by (rule count_leb_items [of xs e st c "bs @ r" d]) (use assms(1,2) st in auto)
  obtain st2 where "k (offset st1 + length (enc_list e xs @ bs)) (of_nat (length xs)) st1 = Inr (v, st2)" "ghost st2 = c'"
    "offset st2 = offset st1 + length (enc_list e xs @ bs)" "left_of st2 = r"
    by (rule runs_toD [OF assms(3) 1(2,4)])
  with 1 show "\<exists>st'. rd_bind (count_leb d) (k (offset st + length (enc_vec e xs @ bs))) st = Inr (v, st') \<and> ghost st' = c' \<and>
      offset st' = offset st + length (enc_vec e xs @ bs) \<and> left_of st' = r"
    by (simp add: rd_bind_def enc_vec_def add.assoc)
qed

text \<open>The size in front of a part says where it ends.\<close>

lemma runs_sized:
  assumes "length bs < 2 ^ 32" "runs_to m bs c v c'"
  shows "runs (rd_bind (u32_leb d) (\<lambda>n. rd_bind (rd_get (\<lambda>st. offset st + unat n)) m)) (enc_sized canon bs) c v c'"
  unfolding enc_sized_def
proof (rule runs_bind [OF runs_size(1) [OF assms(1)]])
  show "runs (rd_bind (rd_get (\<lambda>st. offset st + unat (of_nat (length bs) :: u32))) m) bs c v c'"
    using assms unfolding runs_to_def runs_def by (simp add: rd_bind_def rd_get_def unat_of_nat)
qed

lemma runs_to_body:
  assumes "consumes fs bs c c'"
  shows "runs_to (read_function_body fs) (bs @ enc_opcode Op_End) c () c'"
  unfolding runs_to_def
proof (intro allI impI)
  fix st :: reader and r assume st: "ghost st = c" "left_of st = (bs @ enc_opcode Op_End) @ r"
  define stop where "stop = offset st + length (bs @ enc_opcode Op_End)"
  have l: "left_of st = bs @ (enc_opcode Op_End @ r)" "offset st + length bs < stop" using st(2) by (simp_all add: stop_def)
  obtain st1 where 1: "read_body_loop fs stop False st = read_body_loop fs stop False st1" "ghost st1 = c'"
    "offset st1 = offset st + length bs" "left_of st1 = enc_opcode Op_End @ r"
    by (rule consumesD [OF assms st(1) l])
  obtain st2 where 2: "read_opcode ''opcode'' st1 = Inr (Op_End, st2)" "ghost st2 = c'"
    "offset st2 = offset st1 + length (enc_opcode Op_End)" "left_of st2 = r"
    by (rule runsD [OF runs_opcode [OF known_end] 1(2,4)])
  have stop: "offset st2 = stop" using 1(3) 2(3) by (simp add: stop_def)
  have "read_instruction fs stop st1 = Inr (True, st2)"
    using 2(1) stop by (simp add: read_instruction_def rd_bind_def rd_get_def rd_return_def)
  moreover have "offset st1 < stop" using 1(3) l(2) by simp
  ultimately have "read_body_loop fs stop False st1 = read_body_loop fs stop True st2"
    by (subst read_body_loop.simps) simp
  also have "\<dots> = Inr (True, st2)" using stop by (subst read_body_loop.simps) simp
  finally have "read_function_body fs stop st = Inr ((), st2)"
    using 1(1) stop by (simp add: read_function_body_def rd_bind_def rd_get_def rd_return_def)
  then show "\<exists>st'. read_function_body fs (offset st + length (bs @ enc_opcode Op_End)) st = Inr ((), st') \<and> ghost st' = c' \<and>
      offset st' = offset st + length (bs @ enc_opcode Op_End) \<and> left_of st' = r"
    using 2 stop by (auto simp: stop_def)
qed

definition locals_ok :: "features \<Rightarrow> local_types \<Rightarrow> bool" where
  "locals_ok fs ds \<longleftrightarrow> list_all (\<lambda>(t, n). is_concrete_type fs t \<and> 0 < n) ds \<and> (\<Sum>(t, n) \<leftarrow> ds. unat n) < 0xFFFFFFFF"

definition enc_local :: "wtype \<times> u32 \<Rightarrow> byte list" where
  "enc_local d = enc_u32 (snd d) @ enc_s32 (fst d)"

lemma enc_local_not_Nil [simp]: "enc_local d \<noteq> []"
  by (simp add: enc_local_def)

lemma local_types_size_sum:
  "unat a + (\<Sum>(t, n) \<leftarrow> ds. unat n) < 2 ^ 32 \<Longrightarrow>
     unat (foldl (\<lambda>m d. m + snd d) (a :: u32) ds) = unat a + (\<Sum>(t, n) \<leftarrow> ds. unat n)"
proof (induction ds arbitrary: a)
  case (Cons d ds)
  obtain t n where d: "d = (t, n)" by (cases d)
  have "unat (a + n) = unat a + unat n" using Cons.prems by (intro unat_add_small) (simp add: d)
  then show ?case using Cons.IH [of "a + n"] Cons.prems by (simp add: d)
qed simp

lemma enc_locals_vec:
  assumes "locals_ok fs ds"
  shows "enc_locals ds = enc_vec enc_local ds" "length ds < 2 ^ 32"
proof -
  have size: "unat (local_types_size ds) = (\<Sum>(t, n) \<leftarrow> ds. unat n)"
    using assms local_types_size_sum [of 0 ds] by (simp add: locals_ok_def local_types_size_def)
  have len: "length ds \<le> (\<Sum>(t, n) \<leftarrow> ds. unat n)"
    using assms unfolding locals_ok_def
  proof (elim conjE, induction ds)
    case (Cons d ds)
    then show ?case by (cases d) (auto simp: word_less_nat_alt)
  qed simp
  then show "length ds < 2 ^ 32" using assms by (simp add: locals_ok_def)
  have "ds = []" if "local_types_size ds = 0"
    using len unfolding size [symmetric] that by simp
  then have "local_types_size ds = 0 \<longleftrightarrow> ds = []" by (auto simp: local_types_size_def)
  moreover have "(\<lambda>(t, n). enc_u32 n @ enc_s32 t) = enc_local" by (auto simp: enc_local_def)
  ultimately show "enc_locals ds = enc_vec enc_local ds"
    by (auto simp: enc_locals_def enc_vec_def enc_count_def enc_list_def)
qed

definition with_func :: "nat \<Rightarrow> func \<Rightarrow> reader \<Rightarrow> reader" where
  "with_func i f c = c\<lparr>out_module := (out_module c)\<lparr>funcs := (funcs (out_module c))[i := f]\<rparr>\<rparr>"

lemma with_func_simps [simp]:
  "current_func (with_func i f c) = current_func c" "label_stack (with_func i f c) = label_stack c"
  "in_ctx types n (with_func i f c) \<longleftrightarrow> in_ctx types n c" "with_func i f (with_func i g c) = with_func i f c"
  "i < length (funcs (out_module c)) \<Longrightarrow> funcs (out_module (with_func i f c)) ! i = f"
  "length (funcs (out_module (with_func i f c))) = length (funcs (out_module c))"
  by (simp_all add: with_func_def in_ctx_def num_total_funcs_def)

lemma runs_local_decl:
  assumes "current_func c = Some i" "i < length (funcs (out_module c))" "0 < n"
  shows "runs (on_local_decl n t) [] (with_func i f c) () (with_func i (f\<lparr>func_locals := func_locals f @ [(t, n)]\<rparr>) c)"
  unfolding on_local_decl_def using assms
  by (intro runs_get) (auto simp: with_func_def unloc_def intro!: runs_assert runs_module_last)

lemma runs_local_decls:
  assumes "locals_ok fs ds" "unat m0 + (\<Sum>(t, n) \<leftarrow> ds. unat n) < 0xFFFFFFFF"
    and "current_func c = Some i" "i < length (funcs (out_module c))"
  shows "runs (read_local_decls fs (length ds) m0) (enc_list enc_local ds) (with_func i f c) ()
    (with_func i (f\<lparr>func_locals := func_locals f @ ds\<rparr>) c)"
  using assms(1,2)
proof (induction ds arbitrary: f m0)
  case Nil
  then show ?case by (simp add: enc_list_def runs_return)
next
  case (Cons d ds)
  obtain t n where d: "d = (t, n)" by (cases d)
  let ?m = "m0 + ucast n :: u64"
  have ok: "is_concrete_type fs t" "0 < n" "locals_ok fs ds" using Cons.prems(1) by (auto simp: d locals_ok_def)
  have n: "unat (ucast n :: u64) = unat n" by (simp add: unat_ucast_up)
  then have sum: "unat ?m = unat m0 + unat n" using Cons.prems(2) by (subst unat_add_small) (auto simp: d)
  have "runs (read_local_decls fs (length ds) ?m) (enc_list enc_local ds) (with_func i (f\<lparr>func_locals := func_locals f @ [(t, n)]\<rparr>) c) ()
      (with_func i (f\<lparr>func_locals := func_locals f @ (t, n) # ds\<rparr>) c)"
    using Cons.IH [OF ok(3), of ?m "f\<lparr>func_locals := func_locals f @ [(t, n)]\<rparr>"] Cons.prems(2) sum by (simp add: d)
  note rest = runs_silent [OF runs_local_decl [OF assms(3,4) ok(2)] this]
  have "?m < 0xFFFFFFFF" using sum Cons.prems(2) by (simp add: word_less_nat_alt d)
  then have "runs (read_local_decls fs (Suc (length ds)) m0) (enc_u32 n @ (enc_s32 t @ enc_list enc_local ds)) (with_func i f c) ()
      (with_func i (f\<lparr>func_locals := func_locals f @ (t, n) # ds\<rparr>) c)"
    unfolding read_local_decls.simps Let_def using ok
    by (intro runs_bind [OF runs_u32(2)] runs_ok runs_bind [OF runs_signed(3)] rest) simp_all
  moreover have "enc_local (t, n) = enc_u32 n @ enc_s32 t" by (simp add: enc_local_def)
  ultimately show ?case by (simp add: d enc_list_def del: read_local_decls.simps)
qed

definition body_ok :: "features \<Rightarrow> func_signature list \<Rightarrow> nat \<Rightarrow> func \<Rightarrow> bool" where
  "body_ok fs types n f \<longleftrightarrow>
     type_use_ok types (func_decl f) \<and> locals_ok fs (func_locals f) \<and> list_all (expr_ok fs types n) (func_exprs f)"

lemma runs_body:
  assumes ok: "body_ok fs types (length (funcs (out_module c))) f" and none: "current_func c = None"
    and ctx: "in_ctx types (length (funcs (out_module c))) c"
    and i: "unat (r_num_func_imports c + i) = k" "k < length (funcs (out_module c))"
    and bare: "funcs (out_module c) ! k = bare_func f" and small: "length (enc_func md f) < 2 ^ 32"
  shows "runs (read_body fs i) (enc_sized canon (enc_func md f)) c () (with_func k f c)"
proof -
  let ?n = "length (funcs (out_module c))"
  let ?l = "\<lparr>label_type = LFunc, label_func = k, label_path = []\<rparr>"
  let ?f0 = "bare_func f" and ?f1 = "f\<lparr>func_exprs := []\<rparr>"
  define c1 where "c1 = c\<lparr>current_func := Some k, label_stack := ?l # label_stack c\<rparr>"
  have locals: "locals_ok fs (func_locals f)" using ok by (simp add: body_ok_def)
  have c1: "current_func c1 = Some k" "k < length (funcs (out_module c1))" "label_stack c1 = ?l # label_stack c"
    using i(2) by (simp_all add: c1_def)
  have same: "with_func k ?f0 c1 = c1"
    unfolding with_func_def bare [symmetric] by (cases c) (simp add: c1_def)
  have f1: "?f0\<lparr>func_locals := func_locals ?f0 @ func_locals f\<rparr> = ?f1"
    by (cases f) (simp add: bare_func_def imported_func_def)
  have decls: "runs (read_local_decls fs (length (func_locals f)) 0) (enc_list enc_local (func_locals f)) c1 () (with_func k ?f1 c1)"
    using runs_local_decls [OF locals _ c1(1,2), of 0 ?f0] locals unfolding same f1 by (simp add: locals_ok_def)
  have "read_back fs types ?n (enc_exprs md (func_exprs f)) (func_exprs f)"
    using ok by (intro read_back_list read_back_expr) (simp add: body_ok_def list_all_iff)
  moreover have "in_ctx types ?n c1" using ctx by (simp add: c1_def in_ctx_def num_total_funcs_def)
  then have "in_ctx types ?n (with_func k ?f1 c1)" by simp
  moreover have "label_valid (out_module (with_func k ?f1 c1)) ?l" using c1(2) by (simp add: label_valid_def)
  ultimately have "consumes fs (enc_exprs md (func_exprs f)) (with_func k ?f1 c1) (grow ?l (func_exprs f) (with_func k ?f1 c1))"
    using c1(3) by (simp add: read_back_def)
  moreover have "grow ?l (func_exprs f) (with_func k ?f1 c1) = with_func k f c1"
    using c1(2) by (cases c1; cases f) (simp add: grow_def with_func_def upd_label_exprs_def Let_def)
  ultimately have exprs: "runs_to (read_function_body fs) (enc_exprs md (func_exprs f) @ enc_opcode Op_End) (with_func k ?f1 c1) () (with_func k f c1)"
    using runs_to_body by simp
  have "(with_func k f c1)\<lparr>label_stack := label_stack c, current_func := None\<rparr> = with_func k f c"
    using none by (cases c) (simp add: c1_def with_func_def)
  then have finish: "runs end_function_body [] (with_func k f c1) () (with_func k f c)"
    unfolding end_function_body_def using c1(3)
    by (intro runs_silent [OF runs_pop_label]) (auto intro!: runs_modify_last simp: ghost_def left_of_def)
  have tail: "runs_to (\<lambda>stop. rd_bind (read_function_body fs stop) (\<lambda>_. end_function_body)) (enc_exprs md (func_exprs f) @ enc_opcode Op_End)
      (with_func k ?f1 c1) () (with_func k f c)"
    by (rule runs_to_last [where k = "\<lambda>_. end_function_body", OF exprs finish])
  have contents: "runs_to (\<lambda>stop. rd_bind (count_leb ''local declaration count'') (\<lambda>n. rd_bind (read_local_decls fs (unat n) 0) (\<lambda>_.
      rd_bind (read_function_body fs stop) (\<lambda>_. end_function_body)))) (enc_func md f) c1 () (with_func k f c)"
    unfolding enc_func_def enc_locals_vec(1) [OF locals]
    using enc_locals_vec(2) [OF locals] decls tail
    by (intro runs_to_count runs_to_bind) (simp_all add: unat_of_nat)
  have enter: "runs (begin_function_body (r_num_func_imports c + i)) [] c () c1"
    unfolding begin_function_body_def push_label_def c1_def using i
    by (intro runs_get) (auto intro!: runs_modify runs_modify_last simp: rd_assert_def ghost_def left_of_def)
  show ?thesis
    unfolding read_body_def by (rule runs_get, simp, rule runs_silent [OF enter], rule runs_sized [OF small contents])
qed

lemma enc_sized_not_Nil [simp]: "enc_sized canon (enc_func md f) \<noteq> []"
  by (simp add: enc_sized_def enc_func_def)

text \<open>The bodies come in the order of the functions, which were declared by an earlier section.\<close>

lemma runs_code_section:
  assumes ok: "list_all (body_ok fs types (length imported + length defs)) defs" and none: "current_func c = None"
    and ctx: "in_ctx types (length imported + length defs) c"
    and funcs: "funcs (out_module c) = imported @ map bare_func defs"
    and count: "r_num_func_imports c = of_nat (length imported)" "num_func_imports (out_module c) = of_nat (length imported)"
    and sigs: "r_num_function_signatures c = of_nat (length defs)"
    and small: "\<And>f. f \<in> set defs \<Longrightarrow> length (enc_func md f) < 2 ^ 32"
  shows "runs (read_code_section fs) (enc_vec (\<lambda>f. enc_sized canon (enc_func md f)) defs) c ()
    (c\<lparr>r_num_function_bodies := of_nat (length defs), out_module := (out_module c)\<lparr>funcs := imported @ defs\<rparr>\<rparr>)"
proof -
  let ?c = "c\<lparr>r_num_function_bodies := of_nat (length defs)\<rparr>"
  let ?e = "\<lambda>f. enc_sized canon (enc_func md f)"
  define C where "C j = ?c\<lparr>out_module := (out_module c)\<lparr>funcs := imported @ take j defs @ map bare_func (drop j defs)\<rparr>\<rparr>" for j
  have room: "length imported + length defs < 2 ^ 32" using ctx by (simp add: in_ctx_def)
  then have few: "length defs < 2 ^ 32" by simp
  have "runs (read_body fs (of_nat j)) (?e (defs ! j)) (C j) () (C (Suc j))" if j: "j < length defs" for j
  proof -
    have n: "length (funcs (out_module (C j))) = length imported + length defs" using j by (simp add: C_def)
    have rest: "drop j defs = defs ! j # drop (Suc j) defs" using j by (simp add: Cons_nth_drop_Suc)
    have "with_func (length imported + j) (defs ! j) (C j) = C (Suc j)"
      using j by (cases c) (simp add: C_def with_func_def rest take_Suc_conv_app_nth list_update_append)
    moreover have "runs (read_body fs (of_nat j)) (?e (defs ! j)) (C j) () (with_func (length imported + j) (defs ! j) (C j))"
    proof (rule runs_body [where types = types])
      show "body_ok fs types (length (funcs (out_module (C j)))) (defs ! j)" using ok j unfolding n by (simp add: list_all_length)
      show "in_ctx types (length (funcs (out_module (C j)))) (C j)" using ctx unfolding n by (simp add: C_def in_ctx_def num_total_funcs_def)
      show "unat (r_num_func_imports (C j) + of_nat j) = length imported + j"
        using j room count(1) by (intro unat_sum_index) (simp_all add: C_def)
      show "funcs (out_module (C j)) ! (length imported + j) = bare_func (defs ! j)"
        using j by (simp add: C_def rest nth_append)
    qed (use none j n small in \<open>simp_all add: C_def\<close>)
    ultimately show ?thesis by simp
  qed
  then have "runs (rd_skip (rd_for (of_nat (length defs)) (read_body fs))) (enc_list ?e defs) (C 0) () (C (length defs))"
    by (intro runs_for_each [OF few])
  moreover have "C 0 = ?c" using funcs by (cases c) (simp add: C_def)
  moreover have "unat (num_func_imports (out_module c) + of_nat (length defs)) = length (funcs (out_module c))"
    using count(2) funcs room by (subst unat_sum_index) auto
  ultimately show ?thesis
    unfolding read_code_section_def C_def on_function_body_count_def using few sigs
    by (intro runs_vec_section runs_modify)
      (auto intro!: runs_get runs_ok runs_silent [of "rd_bind _ _"] runs_return simp: ghost_def left_of_def rd_assert_def)
qed

end
