(* ===== verification/WasmRoundtrip.thy ===== *)
theory WasmRoundtrip
  imports WasmBodies
begin

text \<open>
  What the writer writes, the reader reads back: the state of the reader behind each section of the
  binary of a module, the loop over sections, and the round trip of whole modules.
\<close>

section \<open>Modules that have a binary\<close>

text \<open>The parts of a module that stand for what is imported.\<close>

definition imported :: "wmodule \<Rightarrow> wmodule" where
  "imported md = fold append_import (import_list md) empty_module"

definition counts_ok :: "wmodule \<Rightarrow> bool" where
  "counts_ok md \<longleftrightarrow>
     length (func_types md) < 2 ^ 32 \<and> length (import_list md) < 2 ^ 32 \<and> length (funcs md) < 2 ^ 32 \<and>
     length (tables md) < 2 ^ 32 \<and> length (memories md) < 2 ^ 32 \<and> length (globals md) < 2 ^ 32 \<and>
     length (export_list md) < 2 ^ 32 \<and> length (elem_segments md) < 2 ^ 32 \<and> length (ir_data_segments md) < 2 ^ 32"

text \<open>Index spaces begin with what is imported.\<close>

definition imports_first :: "wmodule \<Rightarrow> bool" where
  "imports_first md \<longleftrightarrow>
     funcs md = funcs (imported md) @ defined_funcs md \<and> num_func_imports md = num_func_imports (imported md) \<and>
     tables md = tables (imported md) @ defined_tables md \<and> num_table_imports md = num_table_imports (imported md) \<and>
     memories md = memories (imported md) @ defined_memories md \<and> num_memory_imports md = num_memory_imports (imported md) \<and>
     globals md = globals (imported md) @ defined_globals md \<and> num_global_imports md = num_global_imports (imported md)"

text \<open>What the reader asks of a module and a binary can hold: counts of 32 bits, imports in front,
  signatures, expressions and initialisers of the enabled features, names in UTF-8, references to
  what is there, at most one table, memory and start function of its own, and no exceptions declared
  or imported.\<close>

definition module_ok :: "features \<Rightarrow> wmodule \<Rightarrow> bool" where
  "module_ok fs md \<longleftrightarrow>
     excepts md = [] \<and> num_except_imports md = 0 \<and> counts_ok md \<and> imports_first md \<and>
     list_all (sig_ok fs) (func_types md) \<and> list_all (import_ok fs (func_types md)) (import_list md) \<and>
     list_all (body_ok fs (func_types md) (length (funcs md))) (defined_funcs md) \<and>
     list_all table_ok (defined_tables md) \<and> length (defined_tables md) \<le> 1 \<and>
     list_all memory_ok (defined_memories md) \<and> length (defined_memories md) \<le> 1 \<and>
     list_all (global_ok fs) (defined_globals md) \<and> list_all (export_ok md) (export_list md) \<and>
     length (starts md) \<le> 1 \<and> list_all (\<lambda>v. unat v < length (funcs md)) (starts md) \<and>
     list_all (elem_segment_ok fs) (elem_segments md) \<and> (elem_segments md \<noteq> [] \<longrightarrow> tables md \<noteq> []) \<and>
     list_all (data_segment_ok fs) (ir_data_segments md) \<and> (ir_data_segments md \<noteq> [] \<longrightarrow> memories md \<noteq> [])"

section \<open>What imports leave behind\<close>

definition no_except_import :: "import_entry \<Rightarrow> bool" where
  "no_except_import i \<longleftrightarrow> (case import_desc i of ExceptionImport s \<Rightarrow> False | _ \<Rightarrow> True)"

lemma import_ok_no_except: "import_ok fs types i \<Longrightarrow> no_except_import i"
  by (cases "import_desc i") (auto simp: import_ok_def no_except_import_def)

lemma append_import_rest [simp]:
  "export_list (append_import i md) = export_list md" "func_types (append_import i md) = func_types md"
  "elem_segments (append_import i md) = elem_segments md" "ir_data_segments (append_import i md) = ir_data_segments md"
  "starts (append_import i md) = starts md" "import_list (append_import i md) = import_list md @ [i]"
  "append_import i (md\<lparr>func_types := ts\<rparr>) = (append_import i md)\<lparr>func_types := ts\<rparr>"
  by (cases "import_desc i"; simp add: append_import_def Let_def)+

lemma append_import_excepts [simp]:
  "no_except_import i \<Longrightarrow> excepts (append_import i md) = excepts md"
  "no_except_import i \<Longrightarrow> num_except_imports (append_import i md) = num_except_imports md"
  by (cases "import_desc i"; simp add: append_import_def no_except_import_def)+

lemma fold_append_import:
  "export_list (fold append_import is md) = export_list md"
  "elem_segments (fold append_import is md) = elem_segments md" "ir_data_segments (fold append_import is md) = ir_data_segments md"
  "starts (fold append_import is md) = starts md" "import_list (fold append_import is md) = import_list md @ is"
  "fold append_import is (md\<lparr>func_types := ts\<rparr>) = (fold append_import is md)\<lparr>func_types := ts\<rparr>"
  by (induction "is" arbitrary: md) simp_all

lemma fold_append_import_excepts:
  "list_all no_except_import is \<Longrightarrow>
     excepts (fold append_import is md) = excepts md \<and> num_except_imports (fold append_import is md) = num_except_imports md"
  by (induction "is" arbitrary: md) simp_all

lemma fold_append_import_counts:
  "list_all no_except_import is \<Longrightarrow>
     num_func_imports (fold append_import is md) - of_nat (length (funcs (fold append_import is md))) = num_func_imports md - of_nat (length (funcs md)) \<and>
     num_table_imports (fold append_import is md) - of_nat (length (tables (fold append_import is md))) = num_table_imports md - of_nat (length (tables md)) \<and>
     num_memory_imports (fold append_import is md) - of_nat (length (memories (fold append_import is md))) = num_memory_imports md - of_nat (length (memories md)) \<and>
     num_global_imports (fold append_import is md) - of_nat (length (globals (fold append_import is md))) = num_global_imports md - of_nat (length (globals md))"
proof (induction "is" arbitrary: md)
  case (Cons i "is")
  then have "no_except_import i" by simp
  then have "num_func_imports (append_import i md) - of_nat (length (funcs (append_import i md))) = num_func_imports md - of_nat (length (funcs md)) \<and>
     num_table_imports (append_import i md) - of_nat (length (tables (append_import i md))) = num_table_imports md - of_nat (length (tables md)) \<and>
     num_memory_imports (append_import i md) - of_nat (length (memories (append_import i md))) = num_memory_imports md - of_nat (length (memories md)) \<and>
     num_global_imports (append_import i md) - of_nat (length (globals (append_import i md))) = num_global_imports md - of_nat (length (globals md))"
    by (cases "import_desc i") (simp_all add: append_import_def no_except_import_def)
  then show ?case using Cons by simp
qed simp

lemma imported_counts:
  assumes "list_all no_except_import (import_list md)"
  shows "num_func_imports (imported md) = of_nat (length (funcs (imported md)))"
    "num_table_imports (imported md) = of_nat (length (tables (imported md)))"
    "num_memory_imports (imported md) = of_nat (length (memories (imported md)))"
    "num_global_imports (imported md) = of_nat (length (globals (imported md)))"
  using fold_append_import_counts [OF assms, of empty_module] by (simp_all add: imported_def empty_module_def)

text \<open>The reader counts imports as the module does.\<close>

lemma fold_import_effect:
  assumes "list_all no_except_import is"
    and "r_num_func_imports c = num_func_imports (out_module c)" "r_num_table_imports c = num_table_imports (out_module c)"
    and "r_num_memory_imports c = num_memory_imports (out_module c)" "r_num_global_imports c = num_global_imports (out_module c)"
  shows "fold import_effect is c = (let md = fold append_import is (out_module c) in
    c\<lparr>r_num_func_imports := num_func_imports md, r_num_table_imports := num_table_imports md,
      r_num_memory_imports := num_memory_imports md, r_num_global_imports := num_global_imports md, out_module := md\<rparr>)"
  using assms
proof (induction "is" arbitrary: c)
  case Nil
  then show ?case by (cases c) simp
next
  case (Cons i "is")
  let ?md = "append_import i (out_module c)"
  have "import_effect i c = c\<lparr>r_num_func_imports := num_func_imports ?md, r_num_table_imports := num_table_imports ?md,
      r_num_memory_imports := num_memory_imports ?md, r_num_global_imports := num_global_imports ?md, out_module := ?md\<rparr>"
    using Cons.prems
    by (cases c; cases "import_desc i") (simp_all add: import_effect_def count_import_def append_import_def no_except_import_def)
  then show ?case using Cons by (simp add: Let_def)
qed

section \<open>The state behind each section\<close>

definition staged :: "wmodule \<Rightarrow> nat \<Rightarrow> wmodule" where
  "staged md k =
     \<lparr>num_except_imports = 0,
      num_func_imports = (if k < 2 then 0 else num_func_imports md),
      num_table_imports = (if k < 2 then 0 else num_table_imports md),
      num_memory_imports = (if k < 2 then 0 else num_memory_imports md),
      num_global_imports = (if k < 2 then 0 else num_global_imports md),
      excepts = [],
      funcs = (if k < 2 then [] else if k < 3 then funcs (imported md)
        else if k < 10 then funcs (imported md) @ map bare_func (defined_funcs md) else funcs md),
      globals = (if k < 2 then [] else if k < 6 then globals (imported md) else map unloc_global (globals md)),
      import_list = (if k < 2 then [] else import_list md),
      export_list = (if k < 7 then [] else export_list md),
      func_types = (if k < 1 then [] else func_types md),
      tables = (if k < 2 then [] else if k < 4 then tables (imported md) else tables md),
      elem_segments = (if k < 9 then [] else elem_segments md),
      memories = (if k < 2 then [] else if k < 5 then memories (imported md) else memories md),
      ir_data_segments = (if k < 11 then [] else ir_data_segments md),
      starts = (if k < 8 then [] else starts md)\<rparr>"

definition stage :: "wmodule \<Rightarrow> nat \<Rightarrow> reader \<Rightarrow> reader" where
  "stage md k c = c\<lparr>
     r_num_signatures := (if k < 1 then 0 else of_nat (length (func_types md))),
     r_num_func_imports := (if k < 2 then 0 else num_func_imports md),
     r_num_table_imports := (if k < 2 then 0 else num_table_imports md),
     r_num_memory_imports := (if k < 2 then 0 else num_memory_imports md),
     r_num_global_imports := (if k < 2 then 0 else num_global_imports md),
     r_num_function_signatures := (if k < 3 then 0 else of_nat (length (defined_funcs md))),
     r_num_tables := (if k < 4 then 0 else of_nat (length (defined_tables md))),
     r_num_memories := (if k < 5 then 0 else of_nat (length (defined_memories md))),
     r_num_globals := (if k < 6 then 0 else of_nat (length (defined_globals md))),
     r_num_function_bodies := (if k < 10 then 0 else of_nat (length (defined_funcs md))),
     out_module := staged md k\<rparr>"

text \<open>Between sections the delegate is inside of no function and no initialiser.\<close>

definition at_rest :: "reader \<Rightarrow> bool" where
  "at_rest c \<longleftrightarrow> current_func c = None \<and> current_init_expr c = None"

lemma stage_simps [simp]:
  "out_module (stage md k c) = staged md k" "current_func (stage md k c) = current_func c"
  "current_init_expr (stage md k c) = current_init_expr c"
  by (simp_all add: stage_def)

lemma imported_rest:
  assumes "list_all no_except_import (import_list md)"
  shows "import_list (imported md) = import_list md" "export_list (imported md) = []" "elem_segments (imported md) = []"
    "ir_data_segments (imported md) = []" "starts (imported md) = []" "excepts (imported md) = []" "num_except_imports (imported md) = 0"
  using fold_append_import_excepts [OF assms, of empty_module]
  by (simp_all add: imported_def fold_append_import empty_module_def)

lemma module_ok_no_except: "module_ok fs md \<Longrightarrow> list_all no_except_import (import_list md)"
  by (auto simp: module_ok_def list_all_iff dest: import_ok_no_except)

lemma unloc_imported: "unloc_global (imported_global t mut) = imported_global t mut"
  by (simp add: unloc_global_def imported_global_def)

lemma unloc_imported_globals: "map unloc_global (globals (imported md)) = globals (imported md)"
proof -
  have "map unloc_global (globals (fold append_import is m)) = globals (fold append_import is m)"
    if "map unloc_global (globals m) = globals m" for m "is"
    using that
  proof (induction "is" arbitrary: m)
    case (Cons i "is")
    have "map unloc_global (globals (append_import i m)) = globals (append_import i m)"
      using Cons.prems unloc_imported by (cases "import_desc i") (simp_all add: append_import_def)
    then show ?case using Cons.IH by simp
  qed simp
  then show ?thesis by (simp add: imported_def empty_module_def)
qed

lemma staged_2:
  assumes "module_ok fs md"
  shows "fold append_import (import_list md) (staged md 1) = staged md 2"
proof -
  let ?types = "func_types md"
  have first: "imports_first md" using assms by (simp add: module_ok_def)
  have "staged md 1 = empty_module\<lparr>func_types := ?types\<rparr>" by (simp add: staged_def empty_module_def)
  then have "fold append_import (import_list md) (staged md 1) = (imported md)\<lparr>func_types := ?types\<rparr>"
    by (simp add: fold_append_import imported_def)
  also have "\<dots> = staged md 2"
    using first imported_rest [OF module_ok_no_except [OF assms]]
    by (cases "imported md") (simp add: staged_def imports_first_def)
  finally show ?thesis .
qed

lemma stage_1: "module_ok fs md \<Longrightarrow> runs (section_reader fs 1) (enc_vec enc_func_type (func_types md)) (stage md 0 c) () (stage md 1 c)"
proof -
  assume ok: "module_ok fs md"
  have "(stage md 0 c)\<lparr>r_num_signatures := of_nat (length (func_types md)),
     out_module := (staged md 0)\<lparr>func_types := func_types (staged md 0) @ func_types md\<rparr>\<rparr> = stage md 1 c"
    by (cases c) (simp add: stage_def staged_def)
  then show ?thesis
    using runs_type_section [of fs "func_types md" "stage md 0 c"] ok
    by (simp add: section_reader_def module_ok_def counts_ok_def)
qed

lemma stage_2: "module_ok fs md \<Longrightarrow> runs (section_reader fs 2) (enc_vec (enc_import md) (import_list md)) (stage md 1 c) () (stage md 2 c)"
proof -
  assume ok: "module_ok fs md"
  have "fold import_effect (import_list md) (stage md 1 c) = stage md 2 c"
  proof -
    have counts: "r_num_func_imports (stage md 1 c) = num_func_imports (out_module (stage md 1 c))"
      "r_num_table_imports (stage md 1 c) = num_table_imports (out_module (stage md 1 c))"
      "r_num_memory_imports (stage md 1 c) = num_memory_imports (out_module (stage md 1 c))"
      "r_num_global_imports (stage md 1 c) = num_global_imports (out_module (stage md 1 c))"
      by (simp_all add: stage_def staged_def)
    show ?thesis
      unfolding fold_import_effect [OF module_ok_no_except [OF ok] counts] Let_def stage_simps staged_2 [OF ok]
      by (cases c) (simp add: stage_def, simp add: staged_def)
  qed
  moreover have "runs (section_reader fs 2) (enc_vec (enc_import md) (import_list md)) (stage md 1 c) () (fold import_effect (import_list md) (stage md 1 c))"
    using runs_import_section [of fs "func_types md" "import_list md" "stage md 1 c" md] ok
    by (simp add: section_reader_def module_ok_def counts_ok_def stage_def staged_def)
  ultimately show ?thesis by simp
qed

lemma stage_3:
  assumes "module_ok fs md"
  shows "runs (section_reader fs 3) (enc_vec (\<lambda>f. enc_u32 (get_func_type_index md (func_decl f))) (defined_funcs md)) (stage md 2 c) () (stage md 3 c)"
proof -
  have "(stage md 2 c)\<lparr>r_num_function_signatures := of_nat (length (defined_funcs md)),
     out_module := (staged md 2)\<lparr>funcs := funcs (staged md 2) @ map bare_func (defined_funcs md)\<rparr>\<rparr> = stage md 3 c"
    by (cases c) (simp add: stage_def staged_def)
  moreover have "length (defined_funcs md) < 2 ^ 32"
    using assms by (auto simp: module_ok_def counts_ok_def defined_funcs_def intro: less_imp_diff_less)
  moreover have "list_all (\<lambda>f. type_use_ok (func_types md) (func_decl f)) (defined_funcs md)"
    using assms by (auto simp: module_ok_def list_all_iff body_ok_def)
  ultimately show ?thesis
    using runs_function_section [of "func_types md" "defined_funcs md" "stage md 2 c" md] assms
    by (simp add: section_reader_def module_ok_def counts_ok_def) (simp add: stage_def staged_def)
qed

lemma stage_4:
  assumes "module_ok fs md"
  shows "runs (section_reader fs 4) (enc_vec enc_table (defined_tables md)) (stage md 3 c) () (stage md 4 c)"
proof -
  have "tables md = tables (imported md) @ defined_tables md" using assms by (simp add: module_ok_def imports_first_def)
  then have "(stage md 3 c)\<lparr>r_num_tables := of_nat (length (defined_tables md)),
     out_module := (staged md 3)\<lparr>tables := tables (staged md 3) @ defined_tables md\<rparr>\<rparr> = stage md 4 c"
    by (cases c) (simp add: stage_def staged_def)
  then show ?thesis
    using runs_table_section [of "defined_tables md" "stage md 3 c"] assms by (simp add: section_reader_def module_ok_def)
qed

lemma stage_5:
  assumes "module_ok fs md"
  shows "runs (section_reader fs 5) (enc_vec enc_limits (defined_memories md)) (stage md 4 c) () (stage md 5 c)"
proof -
  have "memories md = memories (imported md) @ defined_memories md" using assms by (simp add: module_ok_def imports_first_def)
  then have "(stage md 4 c)\<lparr>r_num_memories := of_nat (length (defined_memories md)),
     out_module := (staged md 4)\<lparr>memories := memories (staged md 4) @ defined_memories md\<rparr>\<rparr> = stage md 5 c"
    by (cases c) (simp add: stage_def staged_def)
  then show ?thesis
    using runs_memory_section [of "defined_memories md" "stage md 4 c"] assms by (simp add: section_reader_def module_ok_def)
qed

lemma stage_6:
  assumes "module_ok fs md" "at_rest c"
  shows "runs (section_reader fs 6) (enc_vec (enc_global md) (defined_globals md)) (stage md 5 c) () (stage md 6 c)"
proof -
  have gs: "globals md = globals (imported md) @ defined_globals md" "num_global_imports md = num_global_imports (imported md)"
    using assms by (simp_all add: module_ok_def imports_first_def)
  have "map unloc_global (globals md) = globals (imported md) @ map unloc_global (defined_globals md)"
    by (subst gs(1)) (simp add: unloc_imported_globals)
  then have eq: "(stage md 5 c)\<lparr>r_num_globals := of_nat (length (defined_globals md)),
     out_module := (staged md 5)\<lparr>globals := globals (staged md 5) @ map unloc_global (defined_globals md)\<rparr>\<rparr> = stage md 6 c"
    by (cases c) (simp add: stage_def staged_def)
  have room: "length (globals (imported md)) + length (defined_globals md) < 2 ^ 32"
    using assms(1) arg_cong [OF gs(1), of length] by (simp add: module_ok_def counts_ok_def)
  have count: "r_num_global_imports (stage md 5 c) = of_nat (length (globals (out_module (stage md 5 c))))"
    using gs(2) imported_counts(4) [OF module_ok_no_except [OF assms(1)]] by (simp add: stage_def staged_def)
  have "globals (staged md 5) = globals (imported md)" by (simp add: staged_def)
  then have "runs (read_global_section fs) (enc_vec (enc_global md) (defined_globals md)) (stage md 5 c) () (stage md 6 c)"
    using runs_global_section [of fs "defined_globals md" "stage md 5 c" md, OF _ _ count] assms room eq
    by (simp add: module_ok_def at_rest_def)
  then show ?thesis by (simp add: section_reader_def)
qed

lemma index_spaces:
  assumes "module_ok fs md"
  shows "num_func_imports md + of_nat (length (defined_funcs md)) = of_nat (length (funcs md))"
    "num_table_imports md + of_nat (length (defined_tables md)) = of_nat (length (tables md))"
    "num_memory_imports md + of_nat (length (defined_memories md)) = of_nat (length (memories md))"
    "num_global_imports md + of_nat (length (defined_globals md)) = of_nat (length (globals md))"
proof -
  have first: "imports_first md" using assms by (simp add: module_ok_def)
  note n = imported_counts [OF module_ok_no_except [OF assms]]
  have sum: "n + of_nat (length xs) = of_nat (length (ys @ xs))" if "n = (of_nat (length ys) :: u32)" for n and xs ys :: "'z list"
    using that by simp
  show "num_func_imports md + of_nat (length (defined_funcs md)) = of_nat (length (funcs md))"
    using first n(1) sum [of "num_func_imports md" "funcs (imported md)" "defined_funcs md"] by (auto simp: imports_first_def)
  show "num_table_imports md + of_nat (length (defined_tables md)) = of_nat (length (tables md))"
    using first n(2) by (auto simp: imports_first_def dest!: arg_cong [of "tables md" _ length])
  show "num_memory_imports md + of_nat (length (defined_memories md)) = of_nat (length (memories md))"
    using first n(3) by (auto simp: imports_first_def dest!: arg_cong [of "memories md" _ length])
  show "num_global_imports md + of_nat (length (defined_globals md)) = of_nat (length (globals md))"
    using first n(4) by (auto simp: imports_first_def dest!: arg_cong [of "globals md" _ length])
qed

lemma stage_counted:
  assumes "module_ok fs md" "6 \<le> k"
  shows "counted (stage md k c)"
proof -
  have len: "length (funcs (imported md)) + length (defined_funcs md) = length (funcs md)"
    using assms(1) by (auto simp: module_ok_def imports_first_def dest!: arg_cong [of "funcs md" _ length])
  then have "length (funcs (staged md k)) = length (funcs md)" using assms(2) by (simp add: staged_def)
  then show ?thesis
    using assms index_spaces [OF assms(1)]
    by (simp add: counted_def num_total_funcs_def num_total_tables_def num_total_memories_def num_total_globals_def
        module_ok_def counts_ok_def) (simp add: stage_def staged_def)
qed

lemma index_space_staged:
  assumes "module_ok fs md" "6 \<le> k"
  shows "index_space (staged md k) kind = index_space md kind"
proof -
  have len: "length (funcs (imported md)) + length (defined_funcs md) = length (funcs md)"
    using assms(1) by (auto simp: module_ok_def imports_first_def dest!: arg_cong [of "funcs md" _ length])
  then show ?thesis using assms(2) by (cases kind) (simp_all add: staged_def)
qed

lemma stage_7:
  assumes "module_ok fs md"
  shows "runs (section_reader fs 7) (enc_vec enc_export (export_list md)) (stage md 6 c) () (stage md 7 c)"
proof -
  have "(stage md 6 c)\<lparr>out_module := (staged md 6)\<lparr>export_list := export_list (staged md 6) @ export_list md\<rparr>\<rparr> = stage md 7 c"
    by (cases c) (simp add: stage_def staged_def)
  moreover have "export_ok (staged md 6) = export_ok md"
    by (rule ext) (simp add: export_ok_def index_space_staged [OF assms])
  ultimately show ?thesis
    using runs_export_section [of "stage md 6 c" "export_list md" fs] stage_counted [OF assms, of 6 c] assms
    by (simp add: section_reader_def module_ok_def counts_ok_def)
qed

lemma stage_8:
  assumes "module_ok fs md" "starts md = [v]"
  shows "runs (section_reader fs 8) (enc_u32 v) (stage md 7 c) () (stage md 8 c)"
proof -
  have "(stage md 7 c)\<lparr>out_module := append_start v (staged md 7)\<rparr> = stage md 8 c"
    using assms(2) by (cases c) (simp add: stage_def staged_def append_start_def)
  moreover have "length (funcs (staged md 7)) = length (funcs md)"
    using index_space_staged [OF assms(1), of 7 KFunc] by simp
  ultimately show ?thesis
    using runs_start_section [of "stage md 7 c" v] stage_counted [OF assms(1), of 7 c] assms
    by (simp add: section_reader_def module_ok_def)
qed

lemma stage_9:
  assumes "module_ok fs md" "at_rest c"
  shows "runs (section_reader fs 9) (enc_vec (enc_elem_segment md) (elem_segments md)) (stage md 8 c) () (stage md 9 c)"
proof -
  have "with_elems (elem_segments md) (stage md 8 c) = stage md 9 c"
    by (cases c) (simp add: with_elems_def stage_def staged_def)
  moreover have "tables (staged md 8) = tables md" "elem_segments (staged md 8) = []" by (simp_all add: staged_def)
  ultimately show ?thesis
    using runs_elem_section [of fs "elem_segments md" "stage md 8 c" md] stage_counted [OF assms(1), of 8 c] assms
    by (simp add: section_reader_def module_ok_def counts_ok_def at_rest_def)
qed

lemma stage_10:
  assumes "module_ok fs md" "at_rest c" and small: "length (enc_module canon md) < 2 ^ 32"
  shows "runs (section_reader fs 10) (enc_vec (\<lambda>f. enc_sized canon (enc_func md f)) (defined_funcs md)) (stage md 9 c) () (stage md 10 c)"
proof -
  have funcs: "funcs md = funcs (imported md) @ defined_funcs md" "num_func_imports md = num_func_imports (imported md)"
    using assms by (simp_all add: module_ok_def imports_first_def)
  then have n: "length (funcs (imported md)) + length (defined_funcs md) = length (funcs md)"
    using arg_cong [OF funcs(1), of length] by simp
  have "in_ctx (func_types md) (length (funcs md)) (stage md 9 c)"
    using assms(1) n index_spaces(1) [OF assms(1)]
    by (simp add: in_ctx_def module_ok_def counts_ok_def num_total_funcs_def) (simp add: stage_def staged_def)
  moreover have "(stage md 9 c)\<lparr>r_num_function_bodies := of_nat (length (defined_funcs md)),
     out_module := (staged md 9)\<lparr>funcs := funcs (imported md) @ defined_funcs md\<rparr>\<rparr> = stage md 10 c"
    unfolding funcs(1) [symmetric] by (cases c) (simp add: stage_def staged_def)
  moreover have "num_func_imports md = of_nat (length (funcs (imported md)))"
    using funcs(2) imported_counts(1) [OF module_ok_no_except [OF assms(1)]] by simp
  then have "r_num_func_imports (stage md 9 c) = of_nat (length (funcs (imported md)))"
    "num_func_imports (staged md 9) = of_nat (length (funcs (imported md)))"
    "r_num_function_signatures (stage md 9 c) = of_nat (length (defined_funcs md))"
    "funcs (staged md 9) = funcs (imported md) @ map bare_func (defined_funcs md)"
    by (simp_all add: stage_def staged_def)
  ultimately show ?thesis
    using runs_code_section [of fs "func_types md" "funcs (imported md)" "defined_funcs md" "stage md 9 c" md canon]
      assms(1,2) n func_in_module [OF _ small]
    by (simp add: section_reader_def module_ok_def at_rest_def)
qed

lemma stage_11:
  assumes "module_ok fs md" "at_rest c"
  shows "runs (section_reader fs 11) (enc_vec (enc_data_segment md) (ir_data_segments md)) (stage md 10 c) () (stage md 11 c)"
proof -
  have "with_data (ir_data_segments md) (stage md 10 c) = stage md 11 c"
    by (cases c) (simp add: with_data_def stage_def staged_def)
  moreover have "memories (staged md 10) = memories md" "ir_data_segments (staged md 10) = []" by (simp_all add: staged_def)
  ultimately show ?thesis
    using runs_data_section [of fs "ir_data_segments md" "stage md 10 c" md] stage_counted [OF assms(1), of 10 c] assms
    by (simp add: section_reader_def module_ok_def counts_ok_def at_rest_def)
qed

section \<open>The loop over sections\<close>

lemma left_of_part:
  assumes "left_of st = bs @ r" "read_end st = length (data st)"
  shows "left_of (st\<lparr>read_end := offset st + length bs\<rparr>) = bs"
proof -
  have "drop (offset st) (data st) = bs @ r" using assms by (simp add: left_of_def)
  then show ?thesis by (simp add: left_of_def drop_take)
qed

lemma section_step:
  assumes k: "0 < k" "k < 12" and small: "length pl < 2 ^ 32" "pl \<noteq> []"
    and step: "\<And>e. runs (section_reader (opt_features opts) (of_nat k)) pl (c\<lparr>read_end := e\<rparr>) () (c'\<lparr>read_end := e\<rparr>)"
    and last: "case last_known_section c of None \<Rightarrow> True | Some j \<Rightarrow> j < k"
    and same: "data c' = data c" and whole: "read_end c = length (data c)"
    and st: "ghost st = c" "left_of st = enc_section canon k pl @ r"
  obtains st' where "read_section opts (length (data c)) st = Inr (True, st')"
    "ghost st' = c'\<lparr>read_end := read_end c, last_known_section := Some k\<rparr>" "left_of st' = r"
proof -
  have st_fields: "data st = data c" "read_end st = read_end c" "last_known_section st = last_known_section c"
    using st(1) by auto
  have code: "runs (u32_leb ''section code'') [of_nat k] c (of_nat k) c"
    using runs_u32(1) [of "''section code''" "of_nat k" c] enc_u32_small [of k] k by simp
  have "left_of st = [of_nat k] @ (enc_size canon (length pl) @ pl @ r)" using st(2) by (simp add: enc_section_def enc_sized_def)
  then obtain st0 where 0: "u32_leb ''section code'' st = Inr (of_nat k, st0)" "ghost st0 = c" "left_of st0 = enc_size canon (length pl) @ (pl @ r)"
    by (rule runsD [OF code st(1)])
  obtain st1 where 1: "offset_leb ''section size'' st0 = Inr (of_nat (length pl), st1)" "ghost st1 = c" "left_of st1 = pl @ r"
    by (rule runsD [OF runs_size(2) [OF small(1)] 0(2,3)])
  have st1: "data st1 = data c" "read_end st1 = length (data c)" "last_known_section st1 = last_known_section c"
    using 1(2) whole by auto
  define stop where "stop = offset st1 + length pl"
  have "ghost (st1\<lparr>read_end := stop\<rparr>) = c\<lparr>read_end := stop\<rparr>" using 1(2) by (auto simp: ghost_def)
  moreover have "left_of (st1\<lparr>read_end := stop\<rparr>) = pl @ []"
    using left_of_part [OF 1(3)] st1 by (simp add: stop_def)
  ultimately obtain st2 where 2: "section_reader (opt_features opts) (of_nat k) (st1\<lparr>read_end := stop\<rparr>) = Inr ((), st2)"
    "ghost st2 = c'\<lparr>read_end := stop\<rparr>" "offset st2 = offset (st1\<lparr>read_end := stop\<rparr>) + length pl"
    by (rule runsD [OF step])
  define st' where "st' = st2\<lparr>read_end := read_end c, last_known_section := Some k\<rparr>"
  have n: "unat (of_nat k :: u32) = k" "unat (of_nat (length pl) :: u32) = length pl" "(of_nat k :: u32) \<noteq> 0" "\<not> 12 \<le> (of_nat k :: u32)"
    using k small by (auto simp: unat_of_nat word_le_nat_alt unat_eq_zero [symmetric])
  have off2: "offset st2 = stop" using 2(3) by (simp add: stop_def)
  have "stop \<le> length (data c)"
    using left_bounds [of st1 pl r] 1(3) small(2) st1(2) by (simp add: stop_def)
  then have "run_section opts (length (data c)) (of_nat k) (of_nat (length pl)) st1 = Inr (True, st')"
    using n 2(1) off2 last st1 whole
    by (auto simp: run_section_def Let_def section_result_def stop_def [symmetric] st'_def split: option.splits)
  then have "read_section opts (length (data c)) st = Inr (True, st')"
    using 0(1) 1(1) by (simp add: read_section_def rd_bind_def)
  moreover have "ghost st' = c'\<lparr>read_end := read_end c, last_known_section := Some k\<rparr>"
  proof -
    have "ghost st' = (ghost st2)\<lparr>read_end := read_end c, last_known_section := Some k\<rparr>" by (simp add: st'_def ghost_def)
    then show ?thesis unfolding 2(2) by simp
  qed
  moreover have "left_of st' = r"
  proof -
    have "data st2 = data c" using arg_cong [OF 2(2), of data] same by simp
    then have "left_of st' = drop (length pl) (left_of st1)"
      using st1 whole by (simp add: left_of_def st'_def off2 stop_def add.commute)
    then show ?thesis using 1(3) by simp
  qed
  ultimately show thesis by (rule that)
qed

text \<open>The reader has passed the sections up to \<open>k\<close>, those of them that are there.\<close>

definition behind :: "wmodule \<Rightarrow> reader \<Rightarrow> nat \<Rightarrow> reader \<Rightarrow> bool" where
  "behind md c k st \<longleftrightarrow>
     (\<exists>l. ghost st = stage md k (c\<lparr>last_known_section := l\<rparr>) \<and> (case l of None \<Rightarrow> True | Some j \<Rightarrow> j \<le> k))"

definition passes :: "read_options \<Rightarrow> wmodule \<Rightarrow> reader \<Rightarrow> nat \<Rightarrow> byte list \<Rightarrow> bool" where
  "passes opts md c k bs \<longleftrightarrow> (\<forall>st r b. behind md c k st \<longrightarrow> left_of st = bs @ r \<longrightarrow>
     (\<exists>st'. read_sections opts (length (data c)) b st = read_sections opts (length (data c)) b st' \<and>
        behind md c (Suc k) st' \<and> left_of st' = r))"

lemma behind_step: "behind md c k st \<Longrightarrow> (\<And>c. stage md k c = stage md (Suc k) c) \<Longrightarrow> behind md c (Suc k) st"
  unfolding behind_def by (force split: option.splits)

lemma passes_absent: "(\<And>c. stage md k c = stage md (Suc k) c) \<Longrightarrow> passes opts md c k []"
  unfolding passes_def using behind_step by fastforce

lemma stage_data [simp]:
  "data (stage md k c) = data c" "read_end (stage md k c) = read_end c" "last_known_section (stage md k c) = last_known_section c"
  "(stage md k c)\<lparr>read_end := e\<rparr> = stage md k (c\<lparr>read_end := e\<rparr>)"
  "(stage md k c)\<lparr>last_known_section := l\<rparr> = stage md k (c\<lparr>last_known_section := l\<rparr>)"
  by (simp_all add: stage_def)

lemma passes_section:
  assumes k: "k < 11" and small: "length pl < 2 ^ 32" "pl \<noteq> []" and c: "at_rest c" "read_end c = length (data c)"
    and step: "\<And>c. at_rest c \<Longrightarrow> runs (section_reader (opt_features opts) (of_nat (Suc k))) pl (stage md k c) () (stage md (Suc k) c)"
  shows "passes opts md c k (enc_section canon (Suc k) pl)"
  unfolding passes_def
proof (intro allI impI)
  fix st :: reader and r b
  assume "behind md c k st" and l: "left_of st = enc_section canon (Suc k) pl @ r"
  then obtain j where st: "ghost st = stage md k (c\<lparr>last_known_section := j\<rparr>)" and j: "case j of None \<Rightarrow> True | Some j \<Rightarrow> j \<le> k"
    by (auto simp: behind_def)
  let ?c = "stage md k (c\<lparr>last_known_section := j\<rparr>)" and ?c' = "stage md (Suc k) (c\<lparr>last_known_section := j\<rparr>)"
  have run: "runs (section_reader (opt_features opts) (of_nat (Suc k))) pl (?c\<lparr>read_end := e\<rparr>) () (?c'\<lparr>read_end := e\<rparr>)" for e
    using step [of "c\<lparr>last_known_section := j, read_end := e\<rparr>"] c(1) by (simp add: at_rest_def)
  have last: "case last_known_section ?c of None \<Rightarrow> True | Some j \<Rightarrow> j < Suc k" using j by (auto split: option.splits)
  obtain st' where st': "read_section opts (length (data ?c)) st = Inr (True, st')"
    "ghost st' = ?c'\<lparr>read_end := read_end ?c, last_known_section := Some (Suc k)\<rparr>" "left_of st' = r"
    by (rule section_step [of "Suc k" pl opts ?c ?c' st canon r, OF _ _ small run last _ _ st l]) (use k c(2) in simp_all)
  have "ghost st' = stage md (Suc k) (c\<lparr>last_known_section := Some (Suc k)\<rparr>)"
    using st'(2) c(2) by (cases c) simp
  then have "behind md c (Suc k) st'" by (auto simp: behind_def intro!: exI [of _ "Some (Suc k)"])
  moreover have "offset st < length (data c)"
  proof -
    have "read_end st = read_end c" using arg_cong [OF st, of read_end] by simp
    then show ?thesis using left_bounds [OF l] c(2) by (simp add: enc_section_def)
  qed
  then have "read_sections opts (length (data c)) b st = read_sections opts (length (data c)) b st'"
    using st'(1) by (subst read_sections.simps) simp
  ultimately show "\<exists>st'. read_sections opts (length (data c)) b st = read_sections opts (length (data c)) b st' \<and>
      behind md c (Suc k) st' \<and> left_of st' = r"
    using st'(3) by blast
qed

lemma passes_all:
  assumes "\<And>j. j < length ss \<Longrightarrow> passes opts md c (k + j) (ss ! j)" "behind md c k st" "left_of st = concat ss @ r"
  shows "\<exists>st'. read_sections opts (length (data c)) b st = read_sections opts (length (data c)) b st' \<and>
    behind md c (k + length ss) st' \<and> left_of st' = r"
  using assms
proof (induction ss arbitrary: k st)
  case (Cons s ss)
  have "passes opts md c k s" using Cons.prems(1) [of 0] by simp
  moreover have "left_of st = s @ (concat ss @ r)" using Cons.prems(3) by simp
  ultimately obtain st1 where 1: "read_sections opts (length (data c)) b st = read_sections opts (length (data c)) b st1"
    "behind md c (Suc k) st1" "left_of st1 = concat ss @ r"
    using Cons.prems(2) unfolding passes_def by blast
  have "passes opts md c (Suc k + j) (ss ! j)" if "j < length ss" for j
    using Cons.prems(1) [of "Suc j"] that by simp
  from Cons.IH [OF this 1(2,3)] show ?case unfolding 1(1) by simp
qed auto

section \<open>Round trip\<close>

lemma stage_absent:
  "func_types md = [] \<Longrightarrow> stage md 0 c = stage md 1 c"
  "module_ok fs md \<Longrightarrow> import_list md = [] \<Longrightarrow> stage md 1 c = stage md 2 c"
  "defined_funcs md = [] \<Longrightarrow> stage md 2 c = stage md 3 c"
  "module_ok fs md \<Longrightarrow> defined_tables md = [] \<Longrightarrow> stage md 3 c = stage md 4 c"
  "module_ok fs md \<Longrightarrow> defined_memories md = [] \<Longrightarrow> stage md 4 c = stage md 5 c"
  "module_ok fs md \<Longrightarrow> defined_globals md = [] \<Longrightarrow> stage md 5 c = stage md 6 c"
  "export_list md = [] \<Longrightarrow> stage md 6 c = stage md 7 c"
  "starts md = [] \<Longrightarrow> stage md 7 c = stage md 8 c"
  "elem_segments md = [] \<Longrightarrow> stage md 8 c = stage md 9 c"
  "module_ok fs md \<Longrightarrow> defined_funcs md = [] \<Longrightarrow> stage md 9 c = stage md 10 c"
  "ir_data_segments md = [] \<Longrightarrow> stage md 10 c = stage md 11 c"
proof -
  show "module_ok fs md \<Longrightarrow> import_list md = [] \<Longrightarrow> stage md 1 c = stage md 2 c"
    by (simp add: stage_def staged_def module_ok_def imports_first_def imported_def empty_module_def)
  show "module_ok fs md \<Longrightarrow> defined_tables md = [] \<Longrightarrow> stage md 3 c = stage md 4 c"
    by (simp add: stage_def staged_def module_ok_def imports_first_def)
  show "module_ok fs md \<Longrightarrow> defined_memories md = [] \<Longrightarrow> stage md 4 c = stage md 5 c"
    by (simp add: stage_def staged_def module_ok_def imports_first_def)
  show "module_ok fs md \<Longrightarrow> defined_globals md = [] \<Longrightarrow> stage md 5 c = stage md 6 c"
    by (simp add: stage_def staged_def module_ok_def imports_first_def unloc_imported_globals)
  show "module_ok fs md \<Longrightarrow> defined_funcs md = [] \<Longrightarrow> stage md 9 c = stage md 10 c"
    by (simp add: stage_def staged_def module_ok_def imports_first_def)
qed (simp_all add: stage_def staged_def)

lemma passes_vec:
  assumes code: "code = Suc k" and "k < 11" "at_rest c" "read_end c = length (data c)"
    and small: "length (enc_module canon md) < 2 ^ 32" "enc_vec_section canon code e xs \<in> set (enc_sections canon md)"
    and step: "\<And>c. at_rest c \<Longrightarrow> runs (section_reader (opt_features opts) (of_nat code)) (enc_vec e xs) (stage md k c) () (stage md code c)"
    and absent: "\<And>c. xs = [] \<Longrightarrow> stage md k c = stage md code c"
  shows "passes opts md c k (enc_vec_section canon code e xs)"
proof (cases "xs = []")
  case True
  then show ?thesis using absent code by (simp add: enc_vec_section_def passes_absent)
next
  case False
  have "length (enc_vec e xs) < 2 ^ 32"
    using section_in_module [OF small(2)] vec_in_section [OF False, of e canon code] small(1) by linarith
  then show ?thesis using False assms(2-4) step unfolding code
    by (simp add: enc_vec_section_def) (intro passes_section; simp add: enc_vec_def enc_count_def)
qed

lemma passes_start:
  assumes "module_ok (opt_features opts) md" "at_rest c" "read_end c = length (data c)"
  shows "passes opts md c 7 (case starts md of [] \<Rightarrow> [] | v # _ \<Rightarrow> if v \<noteq> invalid_index then enc_section canon 8 (enc_u32 v) else [])"
proof (cases "starts md")
  case Nil
  then show ?thesis using passes_absent [of md 7 opts c] stage_absent(8) by simp
next
  case (Cons v vs)
  then have v: "starts md = [v]" "unat v < length (funcs md)" "length (funcs md) < 2 ^ 32"
    using assms(1) by (auto simp: module_ok_def counts_ok_def)
  then have "unat v \<noteq> unat invalid_index" by (auto simp: invalid_index_def)
  then have "v \<noteq> invalid_index" by auto
  moreover have "length (enc_u32 v) < 2 ^ 32" using length_vbytes_u32 [of v] by (simp add: enc_u32_def)
  moreover have "runs (section_reader (opt_features opts) (of_nat (Suc 7))) (enc_u32 v) (stage md 7 c) () (stage md (Suc 7) c)" for c
    using stage_8 [OF assms(1) v(1), of c] by simp
  ultimately show ?thesis
    using passes_section [of 7 "enc_u32 v" c opts md canon] assms(2,3) v(1) by simp
qed

lemma length_enc_sections: "length (enc_sections canon md) = 11"
  by (simp add: enc_sections_def)

lemma passes_sections:
  assumes ok: "module_ok (opt_features opts) md" and c: "at_rest c" "read_end c = length (data c)"
    and small: "length (enc_module canon md) < 2 ^ 32" and j: "j < length (enc_sections canon md)"
  shows "passes opts md c j (enc_sections canon md ! j)"
proof -
  note vec = passes_vec [OF _ _ c small, of _ _ _ _ opts]
  note run = stage_1 [OF ok] stage_2 [OF ok] stage_3 [OF ok] stage_4 [OF ok] stage_5 [OF ok] stage_6 [OF ok] stage_7 [OF ok]
    stage_9 [OF ok] stage_10 [OF ok _ small] stage_11 [OF ok]
  have "passes opts md c 0 (enc_vec_section canon 1 enc_func_type (func_types md))"
    by (rule vec) (use run(1) stage_absent(1) in \<open>simp_all add: enc_sections_def\<close>)
  moreover have "passes opts md c 1 (enc_vec_section canon 2 (enc_import md) (import_list md))"
    by (rule vec) (use run(2) stage_absent(2) [OF ok] in \<open>simp_all add: enc_sections_def\<close>)
  moreover have "passes opts md c 2 (enc_vec_section canon 3 (\<lambda>f. enc_u32 (get_func_type_index md (func_decl f))) (defined_funcs md))"
    by (rule vec) (use run(3) stage_absent(3) in \<open>simp_all add: enc_sections_def\<close>)
  moreover have "passes opts md c 3 (enc_vec_section canon 4 enc_table (defined_tables md))"
    by (rule vec) (use run(4) stage_absent(4) [OF ok] in \<open>simp_all add: enc_sections_def\<close>)
  moreover have "passes opts md c 4 (enc_vec_section canon 5 enc_limits (defined_memories md))"
    by (rule vec) (use run(5) stage_absent(5) [OF ok] in \<open>simp_all add: enc_sections_def\<close>)
  moreover have "passes opts md c 5 (enc_vec_section canon 6 (enc_global md) (defined_globals md))"
    by (rule vec) (use run(6) stage_absent(6) [OF ok] in \<open>simp_all add: enc_sections_def\<close>)
  moreover have "passes opts md c 6 (enc_vec_section canon 7 enc_export (export_list md))"
    by (rule vec) (use run(7) stage_absent(7) in \<open>simp_all add: enc_sections_def\<close>)
  moreover note passes_start [OF ok c]
  moreover have "passes opts md c 8 (enc_vec_section canon 9 (enc_elem_segment md) (elem_segments md))"
    by (rule vec) (use run(8) stage_absent(9) in \<open>simp_all add: enc_sections_def\<close>)
  moreover have "passes opts md c 9 (enc_vec_section canon 10 (\<lambda>f. enc_sized canon (enc_func md f)) (defined_funcs md))"
    by (rule vec) (use run(9) stage_absent(10) [OF ok] in \<open>simp_all add: enc_sections_def\<close>)
  moreover have "passes opts md c 10 (enc_vec_section canon 11 (enc_data_segment md) (ir_data_segments md))"
    by (rule vec) (use run(10) stage_absent(11) in \<open>simp_all add: enc_sections_def\<close>)
  moreover have "j \<in> {0, 1, 2, 3, 4, 5, 6, 7, 8, 9, 10}"
    using j unfolding length_enc_sections insert_iff empty_iff by presburger
  ultimately show ?thesis by (auto simp: enc_sections_def)
qed

lemma staged_11: "module_ok fs md \<Longrightarrow> staged md 11 = unloc md"
  by (cases md) (simp add: staged_def unloc_def module_ok_def)

lemma read_encoding:
  assumes ok: "module_ok (opt_features opts) md" and small: "length (enc_module canon md) < 2 ^ 32"
  shows "\<exists>md'. read_binary_to_ir opts (enc_module canon md) = Inr md' \<and> unloc md' = unloc md"
proof -
  let ?bs = "enc_module canon md" and ?m = "0x6d736100 :: u32"
  define st where "st = new_reader ?bs"
  have st: "ghost st = st" "left_of st = le_bytes 4 ?m @ (le_bytes 4 (1 :: u32) @ concat (enc_sections canon md))"
    by (simp_all add: st_def new_reader_def ghost_def unloc_def empty_module_def left_of_def enc_module_def)
  have start: "stage md 0 st = st" by (simp add: st_def new_reader_def stage_def staged_def empty_module_def)
  obtain st1 where 1: "read_u32 ''magic'' st = Inr (?m, st1)" "ghost st1 = st" "left_of st1 = le_bytes 4 (1 :: u32) @ concat (enc_sections canon md)"
    by (rule runsD [OF runs_fixed(1) st])
  obtain st2 where 2: "read_u32 ''version'' st1 = Inr (1, st2)" "ghost st2 = st" "left_of st2 = concat (enc_sections canon md) @ []"
    by (rule runsD [OF runs_fixed(1) 1(2,3)]) simp
  have c: "at_rest st" "read_end st = length (data st)" "data st = ?bs" "last_known_section st = None"
    by (simp_all add: st_def new_reader_def at_rest_def)
  have "behind md st 0 st2"
    unfolding behind_def using 2(2) start c(4) by (intro exI [of _ None]) (cases st, simp)
  from passes_all [OF _ this 2(3), of opts True] passes_sections [OF ok c(1,2) small]
  obtain st3 where 3: "read_sections opts (length ?bs) True st2 = read_sections opts (length ?bs) True st3"
    "behind md st 11 st3" "left_of st3 = []"
    using c(3) by (auto simp: length_enc_sections)
  then obtain l where l: "ghost st3 = stage md 11 (st\<lparr>last_known_section := l\<rparr>)" by (auto simp: behind_def)
  have "unloc (out_module st3) = unloc md"
    using arg_cong [OF l, of out_module] staged_11 [OF ok] by simp
  moreover have "\<not> offset st3 < length ?bs"
  proof -
    have "data st3 = ?bs" "read_end st3 = length ?bs"
      using arg_cong [OF l, of data] arg_cong [OF l, of read_end] c(2,3) by simp_all
    then show ?thesis using 3(3) by (simp add: left_of_def)
  qed
  then have "read_sections opts (length ?bs) True st2 = Inr (True, st3)"
    unfolding 3(1) by (subst read_sections.simps) simp
  moreover have "data st2 = ?bs" using arg_cong [OF 2(2), of data] c(3) by simp
  ultimately have "read_module opts st = Inr ((), st3)"
    using 1(1) 2(1) by (simp add: read_module_def rd_bind_def rd_get_def rd_return_def)
  then show ?thesis using \<open>unloc (out_module st3) = unloc md\<close> by (simp add: read_binary_to_ir_def st_def)
qed

text \<open>What can be read back can be written.\<close>

lemma block_ok_decl:
  assumes "block_ok fs types d"
  shows "decl_ok md d"
proof (cases "param_types (sig d) = [] \<and> length (result_types (sig d)) \<le> 1")
  case False
  then have "is_type_index (type_var d)" "has_func_type d" using assms by (auto simp: block_ok_def Let_def split: if_splits)
  moreover have "\<not> is_type_index invalid_index" by (simp add: is_type_index_def invalid_index_def word_sle_eq)
  ultimately have "get_func_type_index md d \<noteq> invalid_index" by (auto simp: get_func_type_index_def)
  then show ?thesis by (simp add: decl_ok_def)
qed (simp add: decl_ok_def)

lemma known_opcode_ok: "known op \<Longrightarrow> opcode_ok op"
  by (cases op) (auto simp: opcode_ok_def has_prefix_def valid_code_def)

lemma lane_op_ok: "is_lane_op op \<Longrightarrow> opcode_ok op"
  by (cases op) (auto simp: is_lane_op_def opcode_ok_def has_prefix_def)

lemma expr_ok_writable: "expr_ok fs types n e \<Longrightarrow> writable md e"
proof (induction e)
  case (OpcodeExpr t op)
  then show ?case using plain_operands(2) [of t op] by (simp add: known_opcode_ok)
next
  case (LoadStoreExpr t op align off)
  then show ?case using memory_operands(2) [of t op] by (simp add: known_opcode_ok)
next
  case (SimdLaneOpExpr op v)
  then show ?case by (simp add: lane_op_ok)
qed (auto simp: block_ok_decl)

lemma init_ok_writable: "init_ok fs req es \<Longrightarrow> \<forall>e \<in> set es. writable md e"
proof
  fix e assume "init_ok fs req es" "e \<in> set es"
  then have "init_expr_ok fs req e" by (simp add: init_ok_def list_all_iff)
  then show "writable md e" by (cases e) simp_all
qed

lemma count_below: "unat (of_nat k :: u32) \<le> k"
  by (simp add: unat_of_nat)

lemma module_ok_writable:
  assumes "module_ok fs md"
  shows "module_writable md"
proof -
  have first: "imports_first md" using assms by (simp add: module_ok_def)
  note n = imported_counts [OF module_ok_no_except [OF assms]]
  have "unat (num_func_imports md) \<le> length (funcs md)"
    using first n(1) count_below [of "length (funcs (imported md))"] arg_cong [of "funcs md" _ length] by (fastforce simp: imports_first_def)
  moreover have "unat (num_table_imports md) \<le> length (tables md)"
    using first n(2) count_below [of "length (tables (imported md))"] arg_cong [of "tables md" _ length] by (fastforce simp: imports_first_def)
  moreover have "unat (num_memory_imports md) \<le> length (memories md)"
    using first n(3) count_below [of "length (memories (imported md))"] arg_cong [of "memories md" _ length] by (fastforce simp: imports_first_def)
  moreover have "unat (num_global_imports md) \<le> length (globals md)"
    using first n(4) count_below [of "length (globals (imported md))"] arg_cong [of "globals md" _ length] by (fastforce simp: imports_first_def)
  moreover have "list_all (body_ok fs (func_types md) (length (funcs md))) (defined_funcs md)"
    using assms by (simp add: module_ok_def)
  then have "\<forall>f \<in> set (defined_funcs md). \<forall>e \<in> set (func_exprs f). writable md e"
    using expr_ok_writable by (fastforce simp: list_all_iff body_ok_def)
  moreover have "\<forall>g \<in> set (defined_globals md). \<forall>p \<in> set (init_expr g). writable md (fst p)"
    using assms init_ok_writable by (fastforce simp: module_ok_def list_all_iff global_ok_def)
  moreover have "\<forall>s \<in> set (elem_segments md). \<forall>e \<in> set (elem_offset s). writable md e"
    using assms init_ok_writable by (fastforce simp: module_ok_def list_all_iff elem_segment_ok_def)
  moreover have "\<forall>s \<in> set (ir_data_segments md). \<forall>e \<in> set (data_offset s). writable md e"
    using assms init_ok_writable by (fastforce simp: module_ok_def list_all_iff data_segment_ok_def)
  ultimately show ?thesis using assms by (simp add: module_writable_def module_ok_def)
qed

text \<open>C39: a module that is well formed for the enabled features (\<open>module_ok\<close>: it declares and imports no
  exceptions, has at most one table, memory and start function of its own, and refers to what is
  there) is written without an assertion failing, and the bytes are read without an error or a point of
  undefined behaviour as the same module, whether sizes are minimal or fill five bytes; only the
  positions of the initialisers of globals, which \<open>unloc\<close> removes, are those in the file.\<close>

theorem binary_roundtrip:
  assumes "module_ok (opt_features opts) md" "length (enc_module canon md) < 2 ^ 32"
  shows "\<exists>st md'. write_binary_module_to canon md = Inr st \<and> read_binary_to_ir opts (out_data st) = Inr md' \<and>
    unloc md' = unloc md"
proof -
  have "write_binary_module_to canon md = Inr (put (enc_module canon md) mem_out_empty)"
    by (rule write_binary_emits [OF module_ok_writable [OF assms(1)] assms(2)])
  then show ?thesis using read_encoding [OF assms] by (auto simp: put_def mem_out_empty_def)
qed

text \<open>A module with something in every section.\<close>

definition sample_types :: "func_signature list" where
  "sample_types = [\<lparr>param_types = [], result_types = []\<rparr>, \<lparr>param_types = [ty_i32], result_types = [ty_i32]\<rparr>]"

definition sample_use :: "u32 \<Rightarrow> func_declaration" where
  "sample_use i = \<lparr>has_func_type = True, type_var = i, sig = sample_types ! unat i\<rparr>"

definition sample_inline :: "wtype list \<Rightarrow> func_declaration" where
  "sample_inline ts = \<lparr>has_func_type = False, type_var = invalid_index, sig = \<lparr>param_types = [], result_types = ts\<rparr>\<rparr>"

definition sample_body :: "expr list" where
  "sample_body =
     [BlockExpr (sample_inline [])
        [LoopExpr (sample_inline []) [VarExpr GetLocal 0, VarExpr BrIf 1, BrTableExpr [0, 1] 0],
         IfExpr (sample_inline [ty_i32]) [ConstExpr (CI32 (- 1))] [VarExpr GetLocal 0, CallIndirectExpr (sample_use 1)],
         Mixin Drop],
      ConstExpr (CI32 300), LoadStoreExpr Load (Opc 0 0x28) 4 8, OpcodeExpr Binary (Opc 0 0x6a), Mixin Return]"

definition sample_module :: wmodule where
  "sample_module = empty_module\<lparr>
     num_func_imports := 1,
     funcs := [imported_func (sample_use 0), \<lparr>func_decl = sample_use 1, func_locals = [(ty_i64, 2)], func_exprs = sample_body\<rparr>],
     globals := [\<lparr>global_type = ty_i32, global_mutable = True, init_expr = [(ConstExpr (CI32 70000), 0)]\<rparr>],
     import_list := [\<lparr>import_module_name = [0x65], import_field_name = [0x66], import_desc = FuncImport (sample_use 0)\<rparr>],
     export_list := [\<lparr>export_name = [0x67], export_kind = KFunc, export_var = 1\<rparr>],
     func_types := sample_types,
     tables := [\<lparr>initial = 1, max_limit = 2, has_max = True, is_shared = False\<rparr>],
     elem_segments := [\<lparr>table_var = 0, elem_offset = [ConstExpr (CI32 0)], elem_vars = [1]\<rparr>],
     memories := [\<lparr>initial = 1, max_limit = 0, has_max = False, is_shared = False\<rparr>],
     ir_data_segments := [\<lparr>memory_var = 0, data_offset = [VarExpr GetGlobal 0], data_bytes = [1, 2]\<rparr>],
     starts := [0]\<rparr>"

lemmas sample_defs = sample_module_def sample_types_def sample_use_def sample_inline_def sample_body_def

lemma sample_parts:
  "imported sample_module = empty_module\<lparr>num_func_imports := 1, funcs := [imported_func (sample_use 0)], import_list := import_list sample_module\<rparr>"
  "defined_funcs sample_module = [\<lparr>func_decl = sample_use 1, func_locals = [(ty_i64, 2)], func_exprs = sample_body\<rparr>]"
  "defined_tables sample_module = tables sample_module" "defined_memories sample_module = memories sample_module"
  "defined_globals sample_module = globals sample_module"
  by (simp_all add: sample_module_def imported_def append_import_def empty_module_def defined_funcs_def defined_tables_def
      defined_memories_def defined_globals_def)

lemma sample_fields:
  "excepts sample_module = []" "num_except_imports sample_module = 0" "func_types sample_module = sample_types"
  "length (funcs sample_module) = 2" "globals sample_module = [\<lparr>global_type = ty_i32, global_mutable = True, init_expr = [(ConstExpr (CI32 70000), 0)]\<rparr>]"
  "tables sample_module = [\<lparr>initial = 1, max_limit = 2, has_max = True, is_shared = False\<rparr>]"
  "elem_segments sample_module = [\<lparr>table_var = 0, elem_offset = [ConstExpr (CI32 0)], elem_vars = [1]\<rparr>]"
  "memories sample_module = [\<lparr>initial = 1, max_limit = 0, has_max = False, is_shared = False\<rparr>]"
  "ir_data_segments sample_module = [\<lparr>memory_var = 0, data_offset = [VarExpr GetGlobal 0], data_bytes = [1, 2]\<rparr>]"
  "starts sample_module = [0]"
  by (simp_all add: sample_module_def empty_module_def)

lemma sample_body_ok: "list_all (expr_ok features_default sample_types 2) sample_body"
proof -
  have "\<exists>k < 32. (4 :: u32) = push_bit k 1" by (rule exI [of _ 2]) simp
  then show ?thesis
    by (simp add: sample_body_def block_ok_def sample_inline_def sample_use_def sample_types_def type_use_ok_def is_concrete_type_def
        is_load_def is_binary_def is_enabled_def)
qed

lemma sample_imports_first: "imports_first sample_module"
  unfolding imports_first_def sample_parts by (simp add: sample_module_def empty_module_def)

lemma sample_module_ok: "module_ok features_default sample_module"
proof -
  have names: "is_valid_utf8 [0x65]" "is_valid_utf8 [0x66]" "is_valid_utf8 [0x67]" by code_simp+
  have "counts_ok sample_module" by (simp add: counts_ok_def sample_module_def sample_types_def empty_module_def)
  moreover have "list_all (sig_ok features_default) sample_types"
    by (simp add: sample_types_def sig_ok_def is_concrete_type_def)
  moreover have "list_all (import_ok features_default sample_types) (import_list sample_module)"
    using names by (simp add: sample_module_def import_ok_def type_use_ok_def sample_use_def sample_types_def)
  moreover have "list_all (export_ok sample_module) (export_list sample_module)"
    using names by (simp add: sample_module_def export_ok_def)
  moreover have "type_use_ok sample_types (sample_use 1)" by (simp add: type_use_ok_def sample_use_def sample_types_def)
  ultimately show ?thesis
    unfolding module_ok_def sample_parts using sample_body_ok sample_imports_first
    by (simp add: sample_fields body_ok_def locals_ok_def is_concrete_type_def
        table_ok_def memory_ok_def global_ok_def init_ok_def elem_segment_ok_def data_segment_ok_def)
qed

theorem binary_roundtrip_witness:
  "\<exists>st md'. write_binary_module_to True sample_module = Inr st \<and>
     read_binary_to_ir \<lparr>opt_features = features_default, stop_on_first_error = True, fail_on_custom_section_error = False\<rparr> (out_data st) = Inr md' \<and>
     unloc md' = unloc sample_module"
proof -
  have "length (enc_module True sample_module) < 1000" by code_simp
  then show ?thesis by (intro binary_roundtrip) (simp_all add: sample_module_ok)
qed

end
