(* ===== verification/Spec2Isabelle.thy ===== *)
theory Spec2Isabelle
  imports WireProperties NameProperties HeapProperties Print Address StorageProperties ActionProperties Events
    AbigenProperties FixupProperties Plugin PostpassMain DriverProperties WasmRoundtrip
begin

text \<open>
  A verification development of the Fractal contract development toolkit: the library that contracts
  are compiled with, and the tools that are the project's own.

  \<^bold>\<open>The program.\<close> A contract is C++ compiled to WebAssembly. It includes the headers of
  \<open>src/libraries/ftllib/include/ftllib\<close> and is linked with \<open>src/libraries/ftllib/src\<close>. A node runs its
  entry point with the name of an action; the dispatcher runs a member function on arguments that it
  decodes from the action data. Everything that leaves the contract (calls of other contracts, records
  of tables, results, logs) is packed by the stream operators of \<open>datastream.hpp\<close> and goes through
  imported host functions. The driver \<open>fractal-cpp\<close> describes the actions and tables of the contract in
  an ABI file and runs clang, with a plugin that checks parameter lists and the pass \<open>FtlFixup\<close> that
  makes the entry point run constructors and destructors; it then has \<open>fractal-ld\<close> call lld and the post
  processor \<open>fractal-pp\<close>, which puts the base of the heap where the allocator of the library looks for
  it.

  \<^bold>\<open>Conventions.\<close> Pointers, \<open>size_t\<close> and integers of the contract are words of the width they have on
  wasm32 and wrap around as the hardware does. Code that may abort returns \<open>err + 'a\<close>: an assertion that
  fails ends the contract, and \<open>UB\<close> marks points where C++ gives the source no meaning. Linear memory is
  a function from addresses to bytes; heap, memory and host are passed from call to call.

  \<^bold>\<open>Theories and code.\<close>
  \<^item> \<open>Prelude\<close>: machine types, the error monad, little endian bytes, the collections \<open>res_simps\<close> and
    \<open>nat_word\<close>.
  \<^item> \<open>Check\<close> (\<open>check.hpp\<close>), \<open>Stream\<close> and \<open>Varint\<close> (\<open>varint.hpp\<close>), \<open>Memory\<close> (\<open>memory.cpp\<close>), \<open>Datastream\<close>
    (the two classes of \<open>datastream.hpp\<close>), \<open>Serialize\<close> (its operators), \<open>Codec\<close> (\<open>pack\<close>, \<open>unpack\<close>,
    \<open>pack_size\<close>). A value of any serialisable C++ type is a \<open>val\<close>, its type a \<open>ty\<close>; the extraction takes
    the destination, since several operators keep parts of it.
    \<open>Roundtrip\<close>, \<open>Prefix\<close>, \<open>Typed\<close> and \<open>WireProperties\<close>: what is packed is read back, from buffers too,
    exactly \<open>pack_size\<close> bytes are needed, prefixes are refused, what is extracted is a value of its type
    whatever the bytes, and what happens on input that no contract packed.
  \<^item> \<open>Names\<close> (\<open>name.hpp\<close>, and \<open>utils.hpp\<close> of the tools), \<open>NameCodec\<close>, \<open>NameLoops\<close>, \<open>NameSuffix\<close>,
    \<open>NameProperties\<close>: names and their 64-bit values, the agreement of library and tools, order, suffix.
  \<^item> \<open>Malloc\<close> (\<open>malloc.cpp\<close>, \<open>memmove\<close>) and \<open>HeapProperties\<close>: the bump allocator over an instance with a
    page limit, and the interface \<open>allocator\<close> of what its clients may rely on.
  \<^item> \<open>Print\<close> (\<open>print.hpp\<close>) and \<open>Address\<close> (\<open>address.hpp\<close>, parts of \<open>base.hpp\<close>).
  \<^item> \<open>Contract\<close>: stack buffers and heap buffers (the 512-byte rule of \<open>map.hpp\<close> and \<open>action.hpp\<close>).
    \<open>Storage\<close> (\<open>map.hpp\<close>), \<open>TableSpec\<close> (a table is a finite map: the interface \<open>table_store\<close> and the
    refinement), \<open>StorageProperties\<close>.
  \<^item> \<open>Action\<close> (\<open>action.hpp\<close>, \<open>dispatcher.hpp\<close>) and \<open>ActionProperties\<close>: from a call to the handler and
    back. \<open>Events\<close> (\<open>log.hpp\<close>, \<open>crypto.hpp\<close>, \<open>system.hpp\<close>).
  \<^item> \<open>Leb128\<close> (\<open>leb128.cc\<close> and the memory stream of wabt) and \<open>Leb128Properties\<close>: writers against
    readers, and against the \<open>varint.hpp\<close> of the library. \<open>Postpass\<close> (\<open>postpass.cc\<close>): what dropping
    segments does to memory, and the way of the heap base from the linked module into \<open>dsmalloc\<close>.
    \<open>OptionParser\<close> (\<open>option-parser.cc\<close>) and \<open>PostpassMain\<close>: the program \<open>fractal-pp\<close> from its arguments on.
    \<open>Utf8\<close> (\<open>utf8.cc\<close>) and \<open>WasmString\<close> (parts of \<open>binary-reader.cc\<close> and \<open>binary-writer.cc\<close>): names in
    binaries, and what it means that they are UTF-8.
  \<^item> \<open>WasmOpcode\<close> (\<open>opcode.def\<close>, \<open>opcode.h\<close>, \<open>opcode.cc\<close>, \<open>feature.h\<close>), \<open>WasmIr\<close> (\<open>ir.h\<close>, \<open>ir.cc\<close>),
    \<open>WasmWriter\<close> (\<open>binary-writer.cc\<close>), \<open>WasmReaderIr\<close> (\<open>binary-reader-ir.cc\<close>), \<open>WasmReader\<close> and \<open>WasmSections\<close>
    (\<open>binary-reader.cc\<close>): WebAssembly modules and their binaries, as wabt reads and writes them for
    \<open>fractal-pp\<close>. \<open>WasmEncode\<close> states the binary format as functions from modules to bytes and shows that
    the writer, which leaves room for sizes and moves what it has written, emits exactly these bytes.
    \<open>WasmRuns\<close> (a judgement of what the reader consumes, with rules for its primitives), \<open>WasmPaths\<close>
    (lists of expressions inside expressions, which the reader points at), \<open>WasmExpr\<close> (instructions),
    \<open>WasmParts\<close> (sections), \<open>WasmBodies\<close> (the code section) and \<open>WasmRoundtrip\<close> (modules): a module
    that is well formed (\<open>module_ok\<close>) and that the writer writes is read back as it was, but for the
    positions of initialisers in the file.
  \<^item> \<open>Abitypes\<close> (\<open>ftl/gen.hpp\<close>), \<open>Abigen\<close> (\<open>ftl/abi.hpp\<close>, \<open>ftl/abigen.hpp\<close>, the matchers and \<open>generate\<close> of
    \<open>cc/fractal-cpp.cpp.in\<close>), \<open>AbigenLoop\<close> (the interfaces \<open>type_invariant\<close> and \<open>abi_invariant\<close> of
    properties that insertions keep; fuel), \<open>AbigenClosed\<close> and \<open>AbigenProperties\<close>: which names the file
    defines, which actions and tables it lists, order, termination and divergence.
  \<^item> \<open>Fixup\<close> (\<open>FtlFixup.cpp\<close>, with the symbol table and the function pass manager of LLVM) and
    \<open>FixupProperties\<close>: a step relation on basic blocks and the simulation between a function and what the
    pass makes of it. \<open>Plugin\<close> (\<open>ftl_autogen.cpp\<close>): which parameter lists compile.
  \<^item> \<open>Paths\<close> (functions of \<open>Path.cpp\<close>), \<open>Driver\<close> (\<open>compiler_options.hpp\<close>, \<open>environment\<close> of \<open>utils.hpp\<close>,
    and \<open>main\<close> of \<open>fractal-cc\<close>, \<open>fractal-cpp\<close> and \<open>fractal-ld\<close>) and \<open>DriverProperties\<close>: programs over a
    file system and a shell; which commands have run when they end with 0, what that says about the
    output, and the names of the files. \<open>compiler_options.hpp\<close> does not go through \<open>configure_file\<close>, so
    its \<open>${FTL_STACK_SIZE}\<close> and \<open>${CMAKE_SHARED_LIBRARY_SUFFIX}\<close> are literal text in the commands.

  \<^bold>\<open>Parameters.\<close> Host functions have no body in the repository: \<open>host_db\<close>, \<open>host_api\<close> and the rest are
  records of functions, with \<open>db_laws\<close> and the laws of \<open>host_api\<close> for what their documentation
  promises. The comparison of keys of ordered containers is an argument \<open>lt\<close>. In the model of \<open>fractal-pp\<close>
  reading and writing of wasm binaries (\<open>wabt\<close>) are parameters, which the theories of names \<open>Wasm...\<close>
  model for themselves; clang's syntax tree (\<open>qtype\<close>, \<open>cxx_record\<close>, the spelling of a
  type included) are data of the model, and an assertion of clang that fails is \<open>UB\<close>. The drivers take
  a record \<open>host\<close> with the shell, the front end, the directories and the JSON printer, and the parser of
  LLVM for command lines as a function to option values; \<open>shell_runs_fractal_pp\<close> says that the shell runs
  the post processor of \<open>PostpassMain\<close>. Instructions that \<open>FtlFixup\<close> does not look at are a type
  parameter, and what instructions do is the record \<open>machine\<close>.

  \<^bold>\<open>Fuel.\<close> Loops of the library are recursive functions with their termination proofs; containers are
  read by recursion on the element count, values by recursion on their type. Only the ABI generator
  takes fuel, one unit for each level of \<open>add_type\<close> and \<open>add_struct\<close>: more fuel gives the same result,
  declarations with a rank have enough (\<open>generate_returns\<close>), and a struct with a vector of itself
  never has.

  \<^bold>\<open>Not modelled.\<close> What the tools print, except for the help and the errors of the option parser; \<open>dump\<close>;
  log and file streams of wabt; the lookup of the path of the executable (\<open>whereami\<close>), which only calls
  the operating system; exhaustion of the heap by \<open>resize\<close> of a container; directories, and two
  spellings of one path. Third-party code (boost, musl, libc++, LLVM, clang and lld, jsoncons, the rest
  of wabt, among it the name section and relocations, which \<open>fractal-pp\<close> neither reads nor writes) and the
  examples are left out.
\<close>

end
